(* ===== verification/Prelude.thy ===== *)
theory Prelude
  imports Complex_Main
begin

text \<open>
  What the components share: the exception values of \<open>guardmem_core/errors.py\<close> together with
  the built-in exceptions the code raises, the result type of a Python call that may raise,
  the list idioms the code uses again and again (\<open>next((x for x in xs if p x), None)\<close>,
  \<open>range\<close>, \<open>combinations(range(n), 2)\<close>), and the named collections of simp rules.
\<close>

named_theorems py_simps \<open>unfoldings of the Python idioms shared by the components\<close>
named_theorems range_simps \<open>facts that a computed score stays inside its range\<close>

section \<open>Exceptions\<close>

text \<open>
  \<open>errors.py\<close>: the closed hierarchy below \<open>GuardMemError\<close>. Each class is its four class
  variables \<open>code\<close>, \<open>http_status\<close>, \<open>mcp_code\<close> and \<open>retryable\<close>; messages and
  context are not modelled.
\<close>

datatype gm_error =
    GuardMemError
  | ValidationRejected
  | PolicyDenied
  | InjectionDetected
  | BudgetExceeded
  | ProviderUnavailable
  | DeadlineExceeded
  | StoreUnavailable
  | ConcurrencyConflict

definition JSONRPC_INVALID_PARAMS :: int where
  "JSONRPC_INVALID_PARAMS = -32602"

definition JSONRPC_INTERNAL_ERROR :: int where
  "JSONRPC_INTERNAL_ERROR = -32603"

fun err_code :: "gm_error \<Rightarrow> string" where
  "err_code GuardMemError = ''GM_UNKNOWN''"
| "err_code ValidationRejected = ''GM_VALIDATION''"
| "err_code PolicyDenied = ''GM_POLICY''"
| "err_code InjectionDetected = ''GM_INJECTION''"
| "err_code BudgetExceeded = ''GM_BUDGET''"
| "err_code ProviderUnavailable = ''GM_PROVIDER''"
| "err_code DeadlineExceeded = ''GM_DEADLINE''"
| "err_code StoreUnavailable = ''GM_STORE''"
| "err_code ConcurrencyConflict = ''GM_CONFLICT''"

fun http_status :: "gm_error \<Rightarrow> int" where
  "http_status GuardMemError = 500"
| "http_status ValidationRejected = 422"
| "http_status PolicyDenied = 403"
| "http_status InjectionDetected = 422"
| "http_status BudgetExceeded = 429"
| "http_status ProviderUnavailable = 503"
| "http_status DeadlineExceeded = 504"
| "http_status StoreUnavailable = 503"
| "http_status ConcurrencyConflict = 409"

fun mcp_code :: "gm_error \<Rightarrow> int" where
  "mcp_code GuardMemError = JSONRPC_INTERNAL_ERROR"
| "mcp_code ValidationRejected = JSONRPC_INVALID_PARAMS"
| "mcp_code PolicyDenied = -32001"
| "mcp_code InjectionDetected = -32002"
| "mcp_code BudgetExceeded = -32003"
| "mcp_code ProviderUnavailable = JSONRPC_INTERNAL_ERROR"
| "mcp_code DeadlineExceeded = JSONRPC_INTERNAL_ERROR"
| "mcp_code StoreUnavailable = JSONRPC_INTERNAL_ERROR"
| "mcp_code ConcurrencyConflict = -32004"

fun retryable :: "gm_error \<Rightarrow> bool" where
  "retryable ProviderUnavailable = True"
| "retryable DeadlineExceeded = True"
| "retryable StoreUnavailable = True"
| "retryable ConcurrencyConflict = True"
| "retryable _ = False"

text \<open>
  The exceptions of the model. \<open>ValueError\<close> includes pydantic's \<open>ValidationError\<close>, which is
  a subclass of it. \<open>Diverges\<close> is not an exception of the code: it is the outcome of a loop
  that does not return, so that returning is something to prove.
\<close>

datatype exn =
    ValueError
  | KeyError
  | TypeError
  | IndexError
  | FileNotFoundError
  | DatabaseError
  | OverflowError
  | RedisError
  | RuntimeError
  | InvalidCredential \<comment> \<open>\<open>gateway.auth.InvalidCredentialError\<close>\<close>
  | ToolRefused \<comment> \<open>\<open>mcp_server.tools.context.ToolRefusedError\<close>\<close>
  | AttributeError
  | StatusError \<comment> \<open>an \<open>APIStatusError\<close> of a provider's SDK, passed on as it is\<close>
  | Diverges
  | GM gm_error

section \<open>Calls that may raise\<close>

definition bindE :: "exn + 'a \<Rightarrow> ('a \<Rightarrow> exn + 'b) \<Rightarrow> exn + 'b" where
  "bindE m f = (case m of Inl e \<Rightarrow> Inl e | Inr x \<Rightarrow> f x)"

definition guardE :: "bool \<Rightarrow> exn \<Rightarrow> (exn + 'a) \<Rightarrow> exn + 'a" where
  \<comment> \<open>\<open>if not b: raise e\<close>, then the rest of the function\<close>
  "guardE b e m = (if b then m else Inl e)"

fun mapE :: "('a \<Rightarrow> exn + 'b) \<Rightarrow> 'a list \<Rightarrow> exn + 'b list" where
  \<comment> \<open>a list comprehension whose body may raise, left to right\<close>
  "mapE f [] = Inr []"
| "mapE f (x # xs) = bindE (f x) (\<lambda>y. bindE (mapE f xs) (\<lambda>ys. Inr (y # ys)))"

fun foldE :: "('s \<Rightarrow> 'a \<Rightarrow> exn + 's) \<Rightarrow> 's \<Rightarrow> 'a list \<Rightarrow> exn + 's" where
  \<comment> \<open>a loop over a list whose body updates a state or raises\<close>
  "foldE f s [] = Inr s"
| "foldE f s (x # xs) = bindE (f s x) (\<lambda>s'. foldE f s' xs)"

definition returns :: "exn + 'a \<Rightarrow> bool" where
  "returns m \<longleftrightarrow> (case m of Inl _ \<Rightarrow> False | Inr _ \<Rightarrow> True)"

lemma bindE_simps [simp]:
  "bindE (Inr x) f = f x"
  "bindE (Inl e) f = Inl e"
  by (simp_all add: bindE_def)

lemma bindE_Inr_iff: "bindE m f = Inr y \<longleftrightarrow> (\<exists>x. m = Inr x \<and> f x = Inr y)"
  by (cases m) auto

lemma bindE_InrE:
  assumes "bindE m f = Inr y"
  obtains x where "m = Inr x" and "f x = Inr y"
  using assms by (cases m) auto

lemma bindE_Inl_iff: "bindE m f = Inl e \<longleftrightarrow> m = Inl e \<or> (\<exists>x. m = Inr x \<and> f x = Inl e)"
  by (cases m) auto

lemma guardE_simps [simp]:
  "guardE True e m = m"
  "guardE False e m = Inl e"
  by (simp_all add: guardE_def)

lemma guardE_Inr_iff: "guardE b e m = Inr y \<longleftrightarrow> b \<and> m = Inr y"
  by (simp add: guardE_def)

lemma returns_simps [simp]: "returns (Inr x)" "\<not> returns (Inl e)"
  by (simp_all add: returns_def)

lemma returns_iff: "returns m \<longleftrightarrow> (\<exists>x. m = Inr x)"
  by (cases m) auto

lemma mapE_Inr_conv: "mapE f xs = Inr ys \<longleftrightarrow> map f xs = map Inr ys"
  by (induction xs arbitrary: ys) (auto simp: bindE_Inr_iff Cons_eq_map_conv)

lemma mapE_total: "(\<And>x. x \<in> set xs \<Longrightarrow> f x = Inr (g x)) \<Longrightarrow> mapE f xs = Inr (map g xs)"
  by (induction xs) auto

lemma foldE_invariant:
  assumes "foldE f s xs = Inr t" and "I s"
    and "\<And>s x s'. x \<in> set xs \<Longrightarrow> f s x = Inr s' \<Longrightarrow> I s \<Longrightarrow> I s'"
  shows "I t"
  using assms
proof (induction xs arbitrary: s)
  case (Cons x xs)
  obtain s' where "f s x = Inr s'" and "foldE f s' xs = Inr t"
    using Cons.prems(1) by (auto elim: bindE_InrE)
  with Cons.IH [of s'] Cons.prems(2,3) show ?case by (auto intro: list.set_intros)
qed simp

lemma mapE_Inl: "mapE f xs = Inl e \<Longrightarrow> \<exists>x \<in> set xs. f x = Inl e"
  by (induction xs) (auto simp: bindE_Inl_iff)

lemma mapE_length: "mapE f xs = Inr ys \<Longrightarrow> length ys = length xs"
  by (metis length_map mapE_Inr_conv)

section \<open>List idioms\<close>

fun first :: "('a \<Rightarrow> bool) \<Rightarrow> 'a list \<Rightarrow> 'a option" where
  \<comment> \<open>\<open>next((x for x in xs if p(x)), None)\<close>\<close>
  "first p [] = None"
| "first p (x # xs) = (if p x then Some x else first p xs)"

lemma first_None_iff: "first p xs = None \<longleftrightarrow> (\<forall>x \<in> set xs. \<not> p x)"
  by (induction xs) auto

lemma first_Some_D: "first p xs = Some x \<Longrightarrow> x \<in> set xs \<and> p x"
  by (induction xs) (auto split: if_splits)

lemma first_split:
  "first p xs = Some x \<Longrightarrow> \<exists>us vs. xs = us @ x # vs \<and> p x \<and> (\<forall>u \<in> set us. \<not> p u)"
proof (induction xs)
  case Nil
  then show ?case by simp
next
  case (Cons y ys)
  show ?case
  proof (cases "p y")
    case True
    with Cons.prems have "y # ys = [] @ x # ys \<and> p x" by simp
    then show ?thesis by fastforce
  next
    case False
    with Cons obtain us vs where "ys = us @ x # vs" "p x" "\<forall>u \<in> set us. \<not> p u" by auto
    with False have "y # ys = (y # us) @ x # vs \<and> p x \<and> (\<forall>u \<in> set (y # us). \<not> p u)" by simp
    then show ?thesis by blast
  qed
qed

lemma first_exists: "x \<in> set xs \<Longrightarrow> p x \<Longrightarrow> \<exists>y. first p xs = Some y"
  by (metis first_None_iff not_Some_eq)

fun pairs2 :: "'a list \<Rightarrow> ('a \<times> 'a) list" where
  \<comment> \<open>\<open>itertools.combinations(xs, 2)\<close>, in its order\<close>
  "pairs2 [] = []"
| "pairs2 (x # xs) = map (Pair x) xs @ pairs2 xs"

lemma pairs2_sorted: "sorted_wrt (<) xs \<Longrightarrow> (x, y) \<in> set (pairs2 xs) \<Longrightarrow> x < y"
  by (induction xs) auto

lemma pairs2_subset: "(x, y) \<in> set (pairs2 xs) \<Longrightarrow> x \<in> set xs \<and> y \<in> set xs"
  by (induction xs) auto

lemma pairs2_mem: "x \<in> set xs \<Longrightarrow> y \<in> set xs \<Longrightarrow> x \<noteq> y \<Longrightarrow>
    (x, y) \<in> set (pairs2 xs) \<or> (y, x) \<in> set (pairs2 xs)"
  by (induction xs) auto

lemma pairs2_upt: "(i, j) \<in> set (pairs2 [0..<n]) \<longleftrightarrow> i < j \<and> j < n"
proof
  assume a: "(i, j) \<in> set (pairs2 [0..<n])"
  then have "i < j" by (rule pairs2_sorted [rotated]) simp
  with pairs2_subset [OF a] show "i < j \<and> j < n" by simp
next
  assume b: "i < j \<and> j < n"
  then have "(i, j) \<in> set (pairs2 [0..<n]) \<or> (j, i) \<in> set (pairs2 [0..<n])"
    by (intro pairs2_mem) auto
  moreover have "(j, i) \<notin> set (pairs2 [0..<n])"
    using b pairs2_sorted [of "[0..<n]" j i] by auto
  ultimately show "(i, j) \<in> set (pairs2 [0..<n])" by blast
qed

text \<open>The position of the first occurrence, \<open>xs.index(x)\<close>; \<open>length xs\<close> when absent.\<close>

fun index_of :: "'a \<Rightarrow> 'a list \<Rightarrow> nat" where
  "index_of y [] = 0"
| "index_of y (x # xs) = (if x = y then 0 else Suc (index_of y xs))"

lemma index_of_less: "y \<in> set xs \<Longrightarrow> index_of y xs < length xs"
  by (induction xs) auto

lemma nth_index_of: "y \<in> set xs \<Longrightarrow> xs ! index_of y xs = y"
  by (induction xs) auto

text \<open>Python's \<open>min(range(n), key=f)\<close>: the least index among those with the least key.\<close>

fun argmin :: "('a \<Rightarrow> nat) \<Rightarrow> 'a list \<Rightarrow> nat" where
  "argmin f [] = 0"
| "argmin f [x] = 0"
| "argmin f (x # y # ys) =
     (let i = argmin f (y # ys)
      in if f x \<le> f ((y # ys) ! i) then 0 else Suc i)"

lemma argmin_less: "xs \<noteq> [] \<Longrightarrow> argmin f xs < length xs"
  by (induction f xs rule: argmin.induct) (auto simp: Let_def)

lemma argmin_least: "x \<in> set xs \<Longrightarrow> f (xs ! argmin f xs) \<le> f x"
proof (induction f xs rule: argmin.induct)
  case (3 f a b ys)
  let ?i = "argmin f (b # ys)"
  from 3 have "x = a \<or> f ((b # ys) ! ?i) \<le> f x" by auto
  then show ?case by (auto simp: Let_def)
qed auto

lemma argmin_first: "j < argmin f xs \<Longrightarrow> f (xs ! argmin f xs) < f (xs ! j)"
proof (induction f xs arbitrary: j rule: argmin.induct)
  case (3 f a b ys)
  let ?i = "argmin f (b # ys)"
  from "3.prems" have i: "f ((b # ys) ! ?i) < f a" and j: "j < Suc ?i"
    by (auto simp: Let_def split: if_splits)
  show ?case
  proof (cases j)
    case 0
    with i show ?thesis by (simp add: Let_def)
  next
    case (Suc k)
    with j have "f ((b # ys) ! ?i) < f ((b # ys) ! k)" by (intro "3.IH") simp
    with i Suc show ?thesis by (simp add: Let_def)
  qed
qed auto

end
