(* ===== verification/Float64.thy ===== *)
theory Float64
  imports Prelude "HOL-Library.Log_Nat"
begin

text \<open>
  Python's \<open>float\<close>. A finite float is modelled by the real number it denotes, and every
  arithmetic operation of the code is followed by \<open>fl\<close>, rounding to the nearest IEEE 754
  binary64 value with ties to even (subnormals included); \<open>fl32\<close> is the binary32 rounding of
  a \<open>REAL\<close> column. Overflow, infinities and NaN do not occur in the scoring arithmetic,
  whose values stay far below \<open>2 ^ 1024\<close>; where the code handles them (object values) they
  are constructors of their own, in theory Objects. \<open>math.exp\<close>, \<open>math.log\<close> and
  \<open>math.log1p\<close> are taken as correctly rounded.

  The interface \<open>rounding\<close> collects what the scoring arithmetic relies on (monotone,
  exact on 0 and 1, idempotent, odd); its lemmas about products, complements and weighted sums
  are proved from these laws and hold for both formats. \<open>expo_code\<close> makes \<open>fl\<close> executable.
\<close>

section \<open>Rounding to a binary format\<close>

definition rne :: "real \<Rightarrow> int" where
  "rne y = (let f = \<lfloor>y\<rfloor>; r = y - of_int f
            in if r < 1/2 then f else if 1/2 < r then f + 1 else if even f then f else f + 1)"

definition expo :: "real \<Rightarrow> int" where
  "expo x = \<lfloor>log 2 \<bar>x\<bar>\<rfloor>"

definition ulp_exp :: "int \<Rightarrow> int \<Rightarrow> real \<Rightarrow> int" where
  "ulp_exp p emin x = max (expo x - (p - 1)) emin"

definition round_bin :: "int \<Rightarrow> int \<Rightarrow> real \<Rightarrow> real" where
  "round_bin p emin x =
     (if x = 0 then 0
      else of_int (rne (x / 2 powi ulp_exp p emin x)) * 2 powi ulp_exp p emin x)"

lemma rne_of_int [simp]: "rne (of_int n) = n"
  by (simp add: rne_def Let_def)

lemma rne_floor: "rne y = \<lfloor>y\<rfloor> \<or> rne y = \<lfloor>y\<rfloor> + 1"
  by (simp add: rne_def Let_def)

lemma rne_mono: "x \<le> y \<Longrightarrow> rne x \<le> rne y"
proof -
  assume le: "x \<le> y"
  then have f: "\<lfloor>x\<rfloor> \<le> \<lfloor>y\<rfloor>" by (rule floor_mono)
  show ?thesis
  proof (cases "\<lfloor>x\<rfloor> = \<lfloor>y\<rfloor>")
    case True
    with le show ?thesis by (simp add: rne_def Let_def)
  next
    case False
    with f rne_floor [of x] rne_floor [of y] show ?thesis by linarith
  qed
qed

lemma rne_minus: "rne (- y) = - rne y"
proof (cases "y = of_int \<lfloor>y\<rfloor>")
  case True
  then show ?thesis by (metis of_int_minus rne_of_int)
next
  case False
  then have "\<lfloor>- y\<rfloor> = - \<lfloor>y\<rfloor> - 1" by linarith
  then show ?thesis by (auto simp: rne_def Let_def)
qed

lemma rne_le_of_int: "y \<le> of_int n \<Longrightarrow> rne y \<le> n"
  using rne_mono [of y "of_int n"] by simp

lemma rne_ge_of_int: "of_int n \<le> y \<Longrightarrow> n \<le> rne y"
  using rne_mono [of "of_int n" y] by simp

lemma expo_bounds:
  assumes "x \<noteq> 0"
  shows "2 powi expo x \<le> \<bar>x\<bar>" and "\<bar>x\<bar> < 2 powi (expo x + 1)"
proof -
  have p: "2 powi k = 2 powr real_of_int k" for k :: int
    by (simp add: powr_real_of_int')
  from assms have "real_of_int (expo x) \<le> log 2 \<bar>x\<bar>" and "log 2 \<bar>x\<bar> < real_of_int (expo x + 1)"
    by (simp_all add: expo_def)
  with assms show "2 powi expo x \<le> \<bar>x\<bar>" and "\<bar>x\<bar> < 2 powi (expo x + 1)"
    by (simp_all add: p le_log_iff log_less_iff)
qed

lemma powi2_mono: "k \<le> l \<Longrightarrow> (2::real) powi k \<le> 2 powi l"
  by (simp add: power_int_increasing)

lemma powi2_pos [simp]: "0 < (2::real) powi k"
  by simp

lemma powi2_less_D: "(2::real) powi k < 2 powi l \<Longrightarrow> k < l"
  by (meson leI not_less powi2_mono)

lemma expo_eqI:
  assumes "2 powi k \<le> \<bar>x\<bar>" and "\<bar>x\<bar> < 2 powi (k + 1)"
  shows "expo x = k"
proof -
  have "x \<noteq> 0"
  proof
    assume "x = 0"
    with assms(1) have "2 powi k \<le> (0::real)" by simp
    then show False by (meson powi2_pos not_le)
  qed
  note b = expo_bounds [OF this]
  from assms b have "2 powi k < (2::real) powi (expo x + 1)" "2 powi expo x < (2::real) powi (k + 1)"
    by linarith+
  then show ?thesis
    using powi2_less_D [of k "expo x + 1"] powi2_less_D [of "expo x" "k + 1"] by linarith
qed

lemma expo_mono: "x \<noteq> 0 \<Longrightarrow> \<bar>x\<bar> \<le> \<bar>y\<bar> \<Longrightarrow> expo x \<le> expo y"
  by (auto simp: expo_def intro!: floor_mono)

lemma expo_minus [simp]: "expo (- x) = expo x"
  by (simp add: expo_def)

lemma ulp_exp_minus [simp]: "ulp_exp p e (- x) = ulp_exp p e x"
  by (simp add: ulp_exp_def)

lemma round_bin_minus: "round_bin p e (- x) = - round_bin p e x"
  by (simp add: round_bin_def rne_minus)

lemma round_bin_0 [simp]: "round_bin p e 0 = 0"
  by (simp add: round_bin_def)

text \<open>A multiple of the unit in the last place rounds to itself.\<close>

lemma round_bin_grid:
  assumes "ulp_exp p e (of_int m * 2 powi k) \<le> k"
  shows "round_bin p e (of_int m * 2 powi k) = of_int m * 2 powi k"
proof (cases "m = 0")
  case True
  then show ?thesis by simp
next
  case False
  let ?x = "real_of_int m * 2 powi k" and ?u = "ulp_exp p e (real_of_int m * 2 powi k)"
  have "?x / 2 powi ?u = of_int m * 2 powi (k - ?u)" by (simp add: power_int_diff)
  also have "\<dots> = of_int (m * 2 ^ nat (k - ?u))"
    using assms by (simp add: power_int_def)
  finally have d: "?x / 2 powi ?u = of_int (m * 2 ^ nat (k - ?u))" .
  then have "rne (?x / 2 powi ?u) = m * 2 ^ nat (k - ?u)" by (metis rne_of_int)
  then have "of_int (rne (?x / 2 powi ?u)) = ?x / 2 powi ?u" using d by simp
  then show ?thesis using False by (simp add: round_bin_def)
qed

lemma round_bin_representable:
  assumes "1 \<le> p" and "\<bar>m\<bar> \<le> 2 ^ nat p" and "e \<le> k"
  shows "round_bin p e (of_int m * 2 powi k) = of_int m * 2 powi k"
proof -
  let ?x = "real_of_int m * 2 powi k"
  have m: "\<bar>real_of_int m\<bar> \<le> 2 powi p"
    using assms(1,2) by (simp add: power_int_def) (metis of_int_abs of_int_le_iff of_int_numeral of_int_power)
  consider "m = 0" | "m \<noteq> 0" "ulp_exp p e ?x \<le> k" | "m \<noteq> 0" "k < ulp_exp p e ?x" by linarith
  then show ?thesis
  proof cases
    case 3
    then have "k < expo ?x - (p - 1)" using assms(3) by (auto simp: ulp_exp_def)
    then have "2 powi (k + p) \<le> (2::real) powi expo ?x" by (intro powi2_mono) simp
    also have "\<dots> \<le> \<bar>?x\<bar>" using 3 by (intro expo_bounds) simp
    also have "\<bar>?x\<bar> = \<bar>real_of_int m\<bar> * 2 powi k" by (simp add: abs_mult)
    finally have "2 powi p * 2 powi k \<le> \<bar>real_of_int m\<bar> * 2 powi k" by (simp add: power_int_add add.commute)
    then have eq: "\<bar>real_of_int m\<bar> = 2 powi p" using m by simp
    have pw: "(2::real) powi (p + k) = of_int 1 * 2 powi (p + k)" by simp
    have "expo ((2::real) powi (p + k)) = p + k" by (intro expo_eqI) (simp_all add: power_int_add)
    then have "round_bin p e (2 powi (p + k)) = 2 powi (p + k)"
      using assms(1,3) by (subst (1 2) pw, intro round_bin_grid) (simp add: ulp_exp_def)
    moreover from eq have "real_of_int m = 2 powi p \<or> real_of_int m = - (2 powi p)" by linarith
    then have "?x = 2 powi (p + k) \<or> ?x = - (2 powi (p + k))" by (auto simp: power_int_add)
    ultimately show ?thesis by (auto simp: round_bin_minus)
  qed (auto intro: round_bin_grid)
qed

text \<open>Rounding is monotone: within a binade by monotony of \<open>rne\<close>, across binades because
  the power of two between them is a multiple of both units in the last place.\<close>

lemma round_bin_mono_pos:
  assumes p: "1 \<le> p" and x: "0 < x" and le: "x \<le> y"
  shows "round_bin p e x \<le> round_bin p e y"
proof -
  let ?u = "ulp_exp p e x" and ?v = "ulp_exp p e y"
  have ex: "expo x \<le> expo y" using x le by (intro expo_mono) auto
  then have uv: "?u \<le> ?v" by (auto simp: ulp_exp_def)
  show ?thesis
  proof (cases "?u = ?v")
    case True
    have "rne (x / 2 powi ?v) \<le> rne (y / 2 powi ?v)"
      using le by (intro rne_mono divide_right_mono) auto
    with True x le show ?thesis by (simp add: round_bin_def)
  next
    case False
    with uv have v: "?v = expo y - (p - 1)" and lt: "?u < ?v" by (auto simp: ulp_exp_def)
    from lt v have ltx: "expo x < expo y" by (auto simp: ulp_exp_def)
    let ?c = "(2::real) powi expo y"
    have "x \<le> 2 powi (expo x + 1)" using expo_bounds(2) [of x] x by simp
    also have "\<dots> \<le> ?c" using ltx by (intro powi2_mono) simp
    finally have xc: "x \<le> ?c" .
    have cy: "?c \<le> y" using expo_bounds(1) [of y] x le by simp
    have grid: "?c / 2 powi w = of_int (2 ^ nat (expo y - w))" if "w \<le> expo y" for w
    proof -
      have "?c / 2 powi w = 2 powi (expo y - w)" by (simp add: power_int_diff)
      then show ?thesis using that by (simp add: power_int_def)
    qed
    have wu: "?u \<le> expo y" and wv: "?v \<le> expo y" using lt v p by linarith+
    have "x / 2 powi ?u \<le> ?c / 2 powi ?u" using xc by (intro divide_right_mono) auto
    then have "real_of_int (rne (x / 2 powi ?u)) \<le> ?c / 2 powi ?u"
      unfolding grid [OF wu] by (simp only: of_int_le_iff rne_le_of_int)
    then have a: "round_bin p e x \<le> ?c" using x by (simp add: round_bin_def field_simps)
    have "?c / 2 powi ?v \<le> y / 2 powi ?v" using cy by (intro divide_right_mono) auto
    then have "?c / 2 powi ?v \<le> real_of_int (rne (y / 2 powi ?v))"
      unfolding grid [OF wv] by (simp only: of_int_le_iff rne_ge_of_int)
    then have b: "?c \<le> round_bin p e y" using x le by (simp add: round_bin_def field_simps)
    from a b show ?thesis by linarith
  qed
qed

lemma round_bin_nonneg: "0 \<le> x \<Longrightarrow> 0 \<le> round_bin p e x"
proof -
  assume "0 \<le> x"
  then have "0 \<le> rne (x / 2 powi ulp_exp p e x)" by (intro rne_ge_of_int) simp
  then show ?thesis by (simp add: round_bin_def)
qed

lemma round_bin_mono:
  assumes p: "1 \<le> p" and le: "x \<le> y"
  shows "round_bin p e x \<le> round_bin p e y"
proof -
  consider "0 < x" | "x \<le> 0" "0 \<le> y" | "y < 0" by linarith
  then show ?thesis
  proof cases
    case 1
    with p le show ?thesis by (intro round_bin_mono_pos)
  next
    case 2
    then have "round_bin p e x \<le> 0" using round_bin_nonneg [of "- x" p e] by (simp add: round_bin_minus)
    with 2 round_bin_nonneg [of y p e] show ?thesis by linarith
  next
    case 3
    with p le have "round_bin p e (- y) \<le> round_bin p e (- x)" by (intro round_bin_mono_pos) auto
    then show ?thesis by (simp add: round_bin_minus)
  qed
qed

text \<open>A rounded value is a bounded integer times a power of two, so rounding twice is rounding
  once and doubling is exact.\<close>

lemma round_bin_form:
  assumes p: "1 \<le> p"
  obtains m k where "round_bin p e x = of_int m * 2 powi k" and "\<bar>m\<bar> \<le> 2 ^ nat p" and "e \<le> k"
proof (cases "x = 0")
  case True
  then show ?thesis using that [of 0 e] by simp
next
  case False
  let ?u = "ulp_exp p e x" and ?m = "rne (x / 2 powi ulp_exp p e x)"
  have "\<bar>x\<bar> \<le> 2 powi (expo x + 1)" using expo_bounds(2) [OF False] by simp
  also have "\<dots> \<le> 2 powi (p + ?u)" by (intro powi2_mono) (simp add: ulp_exp_def)
  finally have "\<bar>x / 2 powi ?u\<bar> \<le> 2 powi p" by (simp add: power_int_add field_simps)
  then have b: "\<bar>x / 2 powi ?u\<bar> \<le> of_int (2 ^ nat p)" using p by (simp add: power_int_def)
  have "?m \<le> 2 ^ nat p" using b by (intro rne_le_of_int) linarith
  moreover have "- (2 ^ nat p) \<le> ?m" using b by (intro rne_ge_of_int) linarith
  ultimately have "\<bar>?m\<bar> \<le> 2 ^ nat p" by linarith
  then show ?thesis using that [of ?m ?u] False by (simp add: round_bin_def ulp_exp_def)
qed

lemma round_bin_idem:
  assumes p: "1 \<le> p"
  shows "round_bin p e (round_bin p e x) = round_bin p e x"
proof -
  obtain m k where "round_bin p e x = of_int m * 2 powi k" "\<bar>m\<bar> \<le> 2 ^ nat p" "e \<le> k"
    by (rule round_bin_form [OF p])
  then show ?thesis using round_bin_representable [OF p] by simp
qed

lemma round_bin_twice:
  assumes p: "1 \<le> p" and x: "round_bin p e x = x"
  shows "round_bin p e (2 * x) = 2 * x"
proof -
  obtain m k where f: "round_bin p e x = of_int m * 2 powi k" "\<bar>m\<bar> \<le> 2 ^ nat p" "e \<le> k"
    by (rule round_bin_form [OF p])
  then have "2 * x = of_int m * 2 powi (k + 1)" using x by (simp add: power_int_add)
  then show ?thesis using round_bin_representable [OF p f(2), of e "k + 1"] f(3) by simp
qed

section \<open>Double and single precision\<close>

definition fl :: "real \<Rightarrow> real" where
  "fl = round_bin 53 (-1074)"

definition fl32 :: "real \<Rightarrow> real" where
  "fl32 = round_bin 24 (-149)"

abbreviation is_double :: "real \<Rightarrow> bool" where
  "is_double x \<equiv> fl x = x"

definition py_exp :: "real \<Rightarrow> real" where
  "py_exp x = fl (exp x)"

definition py_log :: "real \<Rightarrow> real" where
  "py_log x = fl (ln x)"

definition py_log1p :: "real \<Rightarrow> real" where
  "py_log1p x = fl (ln (1 + x))"

definition py_isclose :: "real \<Rightarrow> real \<Rightarrow> real \<Rightarrow> bool" where
  \<comment> \<open>\<open>math.isclose(a, b, abs_tol=t)\<close> with the default \<open>rel_tol=1e-9\<close>\<close>
  "py_isclose a b t \<longleftrightarrow>
     (let d = \<bar>fl (b - a)\<bar>; r = fl (1 / 10 ^ 9)
      in a = b \<or> d \<le> \<bar>fl (r * b)\<bar> \<or> d \<le> \<bar>fl (r * a)\<bar> \<or> d \<le> t)"

definition clamp01 :: "real \<Rightarrow> real" where
  \<comment> \<open>\<open>min(1.0, max(0.0, x))\<close>\<close>
  "clamp01 x = min 1 (max 0 x)"

definition in_unit :: "real \<Rightarrow> bool" where
  \<comment> \<open>pydantic's \<open>Field(ge=0.0, le=1.0)\<close>\<close>
  "in_unit x \<longleftrightarrow> 0 \<le> x \<and> x \<le> 1"

lemma clamp01_unit [simp, range_simps]: "in_unit (clamp01 x)"
  by (simp add: clamp01_def in_unit_def)

lemma clamp01_id [simp]: "in_unit x \<Longrightarrow> clamp01 x = x"
  by (simp add: clamp01_def in_unit_def)

lemma clamp01_mono: "x \<le> y \<Longrightarrow> clamp01 x \<le> clamp01 y"
  by (simp add: clamp01_def)

lemma in_unitI [intro]: "0 \<le> x \<Longrightarrow> x \<le> 1 \<Longrightarrow> in_unit x"
  by (simp add: in_unit_def)

lemma in_unitD: "in_unit x \<Longrightarrow> 0 \<le> x" "in_unit x \<Longrightarrow> x \<le> 1"
  by (simp_all add: in_unit_def)

section \<open>Scoring arithmetic over any rounding\<close>

text \<open>
  A weighted sum as the code evaluates it: products rounded one by one, added from the left,
  every addition rounded.
\<close>

fun wsum :: "(real \<Rightarrow> real) \<Rightarrow> real \<Rightarrow> (real \<times> real) list \<Rightarrow> real" where
  "wsum r acc [] = acc"
| "wsum r acc ((w, x) # ps) = wsum r (r (acc + r (w * x))) ps"

locale rounding =
  fixes rnd :: "real \<Rightarrow> real"
  assumes rnd_mono: "x \<le> y \<Longrightarrow> rnd x \<le> rnd y"
    and rnd_zero: "rnd 0 = 0"
    and rnd_one: "rnd 1 = 1"
    and rnd_idem: "rnd (rnd x) = rnd x"
    and rnd_minus: "rnd (- x) = - rnd x"
begin

lemma rnd_nonneg: "0 \<le> x \<Longrightarrow> 0 \<le> rnd x"
  using rnd_mono [of 0 x] rnd_zero by simp

lemma rnd_le_one: "x \<le> 1 \<Longrightarrow> rnd x \<le> 1"
  using rnd_mono [of x 1] rnd_one by simp

lemma rnd_unit: "in_unit x \<Longrightarrow> in_unit (rnd x)"
  by (simp add: in_unit_def rnd_nonneg rnd_le_one)

lemma prod_unit: "in_unit x \<Longrightarrow> in_unit y \<Longrightarrow> in_unit (rnd (x * y))"
  by (intro rnd_unit) (simp add: in_unit_def mult_le_one)

lemma compl_unit: "in_unit x \<Longrightarrow> in_unit (rnd (1 - x))"
  by (intro rnd_unit) (simp add: in_unit_def)

lemma prod_mono: "0 \<le> w \<Longrightarrow> x \<le> y \<Longrightarrow> rnd (w * x) \<le> rnd (w * y)"
  by (intro rnd_mono mult_left_mono)

lemma prod_mono2: "0 \<le> x \<Longrightarrow> x \<le> x' \<Longrightarrow> 0 \<le> y \<Longrightarrow> y \<le> y' \<Longrightarrow> rnd (x * y) \<le> rnd (x' * y')"
  by (intro rnd_mono mult_mono) auto

lemma rnd_le_rep: "rnd y = y \<Longrightarrow> x \<le> y \<Longrightarrow> rnd x \<le> y"
  using rnd_mono [of x y] by simp

lemma rnd_ge_rep: "rnd x = x \<Longrightarrow> x \<le> y \<Longrightarrow> x \<le> rnd y"
  using rnd_mono [of x y] by simp

lemma wsum_mono:
  assumes "list_all2 (\<lambda>(w, x) (w', x'). w = w' \<and> 0 \<le> w \<and> x \<le> x') ps qs" and "a \<le> b"
  shows "wsum rnd a ps \<le> wsum rnd b qs"
  using assms
proof (induction ps qs arbitrary: a b rule: list_all2_induct)
  case Nil
  then show ?case by simp
next
  case (Cons p ps q qs)
  obtain w x w' x' where pq: "p = (w, x)" "q = (w', x')" by (cases p, cases q)
  with Cons.hyps have "w = w'" "0 \<le> w" "x \<le> x'" by auto
  then have "rnd (a + rnd (w * x)) \<le> rnd (b + rnd (w' * x'))"
    using Cons.prems by (intro rnd_mono [of "a + _"] add_mono) (simp_all add: prod_mono)
  with pq Cons.IH show ?case by simp
qed

lemma wsum_nonneg: "0 \<le> a \<Longrightarrow> \<forall>(w, x) \<in> set ps. 0 \<le> w \<and> 0 \<le> x \<Longrightarrow> 0 \<le> wsum rnd a ps"
proof (induction ps arbitrary: a)
  case (Cons p ps)
  obtain w x where p: "p = (w, x)" by (cases p)
  with Cons.prems have "0 \<le> rnd (a + rnd (w * x))" by (auto intro!: rnd_nonneg add_nonneg_nonneg)
  with p Cons show ?case by simp
qed simp

end

interpretation fl: rounding fl
proof unfold_locales
  fix x y :: real
  assume "x \<le> y"
  then show "fl x \<le> fl y" by (simp add: fl_def round_bin_mono)
next
  show "fl 0 = 0" by (simp add: fl_def)
next
  have "round_bin 53 (- 1074) (of_int 1 * 2 powi 0) = of_int 1 * 2 powi 0"
    by (rule round_bin_representable) auto
  then show "fl 1 = 1" by (simp add: fl_def)
next
  fix x :: real
  show "fl (fl x) = fl x" by (simp add: fl_def round_bin_idem)
  show "fl (- x) = - fl x" by (simp add: fl_def round_bin_minus)
qed

interpretation fl32: rounding fl32
proof unfold_locales
  fix x y :: real
  assume "x \<le> y"
  then show "fl32 x \<le> fl32 y" by (simp add: fl32_def round_bin_mono)
next
  show "fl32 0 = 0" by (simp add: fl32_def)
next
  have "round_bin 24 (- 149) (of_int 1 * 2 powi 0) = of_int 1 * 2 powi 0"
    by (rule round_bin_representable) auto
  then show "fl32 1 = 1" by (simp add: fl32_def)
next
  fix x :: real
  show "fl32 (fl32 x) = fl32 x" by (simp add: fl32_def round_bin_idem)
  show "fl32 (- x) = - fl32 x" by (simp add: fl32_def round_bin_minus)
qed

declare fl.rnd_zero [simp] fl.rnd_one [simp] fl.rnd_idem [simp] fl.rnd_minus [simp]

lemma fl_of_int: "\<bar>m\<bar> \<le> 2 ^ 53 \<Longrightarrow> fl (of_int m) = of_int m"
  using round_bin_representable [of 53 m "-1074" 0] by (simp add: fl_def)

lemma fl_of_nat: "n \<le> 2 ^ 53 \<Longrightarrow> fl (of_nat n) = of_nat n"
  using fl_of_int [of "int n"] by simp

lemma fl_half [simp]: "fl (1 / 2) = 1 / 2"
  using round_bin_representable [of 53 1 "-1074" "-1"] by (simp add: fl_def power_int_minus_divide)

lemma fl_twice: "is_double x \<Longrightarrow> fl (2 * x) = 2 * x"
  by (simp add: fl_def round_bin_twice)

section \<open>Evaluating the exponent\<close>

lemma expo_code [code]:
  "expo x = (if x = 0 then 0 else if 1 \<le> \<bar>x\<bar> then bitlen \<lfloor>\<bar>x\<bar>\<rfloor> - 1
             else - bitlen (\<lceil>1 / \<bar>x\<bar>\<rceil> - 1))"
proof (cases "x = 0")
  case True
  then show ?thesis by (simp add: expo_def log_def)
next
  case nz: False
  show ?thesis
  proof (cases "1 \<le> \<bar>x\<bar>")
    case True
    let ?b = "bitlen \<lfloor>\<bar>x\<bar>\<rfloor> - 1"
    have n: "1 \<le> \<lfloor>\<bar>x\<bar>\<rfloor>" using True by (simp add: le_floor_iff)
    then have "bitlen \<lfloor>\<bar>x\<bar>\<rfloor> \<noteq> 0" by (simp add: bitlen_eq_zero_iff)
    then have b: "0 \<le> ?b" using bitlen_nonneg [of "\<lfloor>\<bar>x\<bar>\<rfloor>"] by linarith
    from bitlen_bounds [of "\<lfloor>\<bar>x\<bar>\<rfloor>"] n
    have lo: "2 ^ nat ?b \<le> \<lfloor>\<bar>x\<bar>\<rfloor>" and hi: "\<lfloor>\<bar>x\<bar>\<rfloor> + 1 \<le> 2 ^ nat (bitlen \<lfloor>\<bar>x\<bar>\<rfloor>)" by auto
    have "real_of_int (2 ^ nat ?b) \<le> \<bar>x\<bar>" using lo by (simp add: le_floor_iff)
    moreover have "\<bar>x\<bar> < real_of_int (2 ^ nat (bitlen \<lfloor>\<bar>x\<bar>\<rfloor>))" using hi by linarith
    ultimately have "expo x = ?b" using b by (intro expo_eqI) (simp_all add: power_int_def)
    with nz True show ?thesis by simp
  next
    case False
    let ?n = "\<lceil>1 / \<bar>x\<bar>\<rceil> - 1" and ?b = "bitlen (\<lceil>1 / \<bar>x\<bar>\<rceil> - 1)"
    have y: "1 < 1 / \<bar>x\<bar>" using False nz by simp
    then have n: "1 \<le> ?n" by linarith
    from bitlen_bounds [of ?n] n
    have lo: "2 ^ nat (?b - 1) \<le> ?n" and hi: "?n + 1 \<le> 2 ^ nat ?b" by auto
    have b: "1 \<le> ?b" using n hi by (cases "?b \<le> 0") auto
    have "real_of_int (2 ^ nat (?b - 1)) < 1 / \<bar>x\<bar>" using lo by linarith
    moreover have "1 / \<bar>x\<bar> \<le> real_of_int (2 ^ nat ?b)" using hi by linarith
    ultimately have "1 / 2 ^ nat ?b \<le> \<bar>x\<bar>" and "\<bar>x\<bar> < 1 / 2 ^ nat (?b - 1)"
      using nz by (simp_all add: field_simps)
    moreover have "- ?b + 1 = - (?b - 1)" by simp
    ultimately have "expo x = - ?b" using b
      by (intro expo_eqI) (simp_all only: power_int_minus_divide, simp_all add: power_int_def)
    with nz False show ?thesis by simp
  qed
qed

lemma fl_tenth: "fl (1 / 10) = 3602879701896397 / 36028797018963968"
  by code_simp

end
