(* ===== verification/PyText.thy ===== *)
theory PyText
  imports Float64 "HOL-Library.List_Lexorder" "HOL-Library.Char_ord"
begin

text \<open>
  Python strings, floats as text, and JSON documents.

  A \<open>str\<close> is a \<open>string\<close>, so text is restricted to the code points below 256 (Latin-1),
  one \<open>char\<close> each; \<open>isspace\<close>, \<open>strip\<close> and \<open>lower\<close> are those of Python on that range.
  A float that appears as data (an object value, a JSON number) is a \<open>pyfloat\<close>: a finite
  value or one of the three special ones. \<open>repr_float\<close> is the shortest decimal that rounds
  back to the value and \<open>parse_float\<close> is \<open>float(s)\<close>. \<open>json_dumps\<close> is \<open>json.dumps\<close>
  with \<open>ensure_ascii=True\<close>, \<open>json_eq\<close> is Python's \<open>==\<close> on decoded documents, where
  \<open>True == 1 == 1.0\<close> and dictionaries ignore order.
\<close>

section \<open>Characters and words\<close>

definition code :: "char \<Rightarrow> nat" where
  "code c = of_char c"

definition is_space :: "char \<Rightarrow> bool" where
  \<comment> \<open>\<open>str.isspace\<close> below 256: HT to CR, FS to US, space, NEL, NBSP\<close>
  "is_space c \<longleftrightarrow>
     (let n = code c in (9 \<le> n \<and> n \<le> 13) \<or> (28 \<le> n \<and> n \<le> 32) \<or> n = 133 \<or> n = 160)"

definition is_digit :: "char \<Rightarrow> bool" where
  "is_digit c \<longleftrightarrow> 48 \<le> code c \<and> code c \<le> 57"

definition lower_char :: "char \<Rightarrow> char" where
  "lower_char c =
     (let n = code c in
      if (65 \<le> n \<and> n \<le> 90) \<or> (192 \<le> n \<and> n \<le> 222 \<and> n \<noteq> 215) then char_of (n + 32) else c)"

definition lower :: "string \<Rightarrow> string" where
  "lower s = map lower_char s"

definition lstrip :: "string \<Rightarrow> string" where
  "lstrip s = dropWhile is_space s"

definition strip :: "string \<Rightarrow> string" where
  "strip s = rev (lstrip (rev (lstrip s)))"

definition startswith :: "string \<Rightarrow> string \<Rightarrow> bool" where
  "startswith s p \<longleftrightarrow> take (length p) s = p"

fun join :: "string \<Rightarrow> string list \<Rightarrow> string" where
  "join sep [] = []"
| "join sep [x] = x"
| "join sep (x # y # ys) = x @ sep @ join sep (y # ys)"

definition digit :: "nat \<Rightarrow> char" where
  "digit n = char_of (48 + n)"

fun str_nat :: "nat \<Rightarrow> string" where
  "str_nat n = (if n < 10 then [digit n] else str_nat (n div 10) @ [digit (n mod 10)])"

declare str_nat.simps [simp del]

definition str_int :: "int \<Rightarrow> string" where
  "str_int i = (if i < 0 then ''-'' @ str_nat (nat (- i)) else str_nat (nat i))"

section \<open>Floats as text\<close>

datatype pyfloat = Fin real | PInf | NInf | NaN

definition num_digits :: "nat \<Rightarrow> nat" where
  "num_digits n = length (str_nat n)"

definition expo10 :: "real \<Rightarrow> int" where
  \<comment> \<open>the decimal exponent of a positive value\<close>
  "expo10 x = (if 1 \<le> x then int (num_digits (nat \<lfloor>x\<rfloor>)) - 1
               else - int (num_digits (nat (\<lceil>1 / x\<rceil> - 1))))"

definition shortest_with :: "real \<Rightarrow> nat \<Rightarrow> nat option" where
  \<comment> \<open>the \<open>n\<close>-digit decimal nearest to \<open>x\<close> that rounds to \<open>x\<close>, as an integer of
     \<open>n\<close> digits scaled by a power of ten\<close>
  "shortest_with x n =
     (let s = 10 powi (int n - 1 - expo10 x); lo = \<lfloor>x * s\<rfloor>; hi = \<lceil>x * s\<rceil>;
          ok = (\<lambda>c::int. fl (of_int c / s) = x)
      in if ok lo \<and> ok hi then
           Some (nat (if x * s - of_int lo < of_int hi - x * s \<or>
                         (x * s - of_int lo = of_int hi - x * s \<and> even lo) then lo else hi))
         else if ok lo then Some (nat lo)
         else if ok hi then Some (nat hi)
         else None)"

fun shortest_from :: "real \<Rightarrow> nat list \<Rightarrow> nat \<times> nat" where
  "shortest_from x [] = (17, nat \<lfloor>x * 10 powi (16 - expo10 x)\<rfloor>)"
| "shortest_from x (n # ns) =
     (case shortest_with x n of Some c \<Rightarrow> (n, c) | None \<Rightarrow> shortest_from x ns)"

definition strip_zeros :: "string \<Rightarrow> string" where
  "strip_zeros ds = rev (dropWhile (\<lambda>c. c = CHR ''0'') (rev ds))"

definition format_digits :: "string \<Rightarrow> int \<Rightarrow> string" where
  \<comment> \<open>\<open>repr\<close>'s choice between fixed and exponent notation; \<open>p\<close> is the position of the
     decimal point in \<open>ds\<close>\<close>
  "format_digits ds p =
     (if - 4 < p \<and> p \<le> 16 then
        (if p \<le> 0 then ''0.'' @ replicate (nat (- p)) CHR ''0'' @ ds
         else if int (length ds) \<le> p then ds @ replicate (nat p - length ds) CHR ''0'' @ ''.0''
         else take (nat p) ds @ ''.'' @ drop (nat p) ds)
      else
        take 1 ds @ (if length ds = 1 then [] else ''.'' @ drop 1 ds) @ ''e''
        @ (if p - 1 < 0 then ''-'' else ''+'')
        @ (let e = str_nat (nat \<bar>p - 1\<bar>) in if length e < 2 then ''0'' @ e else e))"

definition repr_pos :: "real \<Rightarrow> string" where
  "repr_pos x =
     (let (n, c) = shortest_from x [1..<18]; ds = str_nat c
      in format_digits (strip_zeros ds) (expo10 x + 1 + (int (length ds) - int n)))"

fun repr_float :: "pyfloat \<Rightarrow> string" where
  "repr_float (Fin x) = (if x = 0 then ''0.0''
                         else if x < 0 then ''-'' @ repr_pos (- x) else repr_pos x)"
| "repr_float PInf = ''inf''"
| "repr_float NInf = ''-inf''"
| "repr_float NaN = ''nan''"

text \<open>
  \<open>float(s)\<close>: surrounding white space, an optional sign, then a decimal literal whose digits
  may be grouped by single underscores, or one of the words for infinity and NaN. A magnitude
  that rounds beyond the largest finite double is an infinity.
\<close>

fun digits_then :: "bool \<Rightarrow> nat \<Rightarrow> nat \<Rightarrow> string \<Rightarrow> (nat \<times> nat \<times> string) option" where
  \<comment> \<open>\<open>prev\<close>: a digit was just read; returns value, digit count and the rest\<close>
  "digits_then prev v n [] = (if prev then Some (v, n, []) else None)"
| "digits_then prev v n (c # cs) =
     (if is_digit c then digits_then True (v * 10 + (code c - 48)) (Suc n) cs
      else if c = CHR ''_'' then (if prev then digits_then False v n cs else None)
      else if prev then Some (v, n, c # cs) else None)"

definition opt_digits :: "string \<Rightarrow> (nat \<times> nat \<times> string) option" where
  "opt_digits s = (case s of c # _ \<Rightarrow> if is_digit c then digits_then False 0 0 s else Some (0, 0, s)
                           | [] \<Rightarrow> Some (0, 0, []))"

definition opt_exponent :: "string \<Rightarrow> int option" where
  \<comment> \<open>what follows the mantissa: nothing, or \<open>e\<close> with a signed exponent\<close>
  "opt_exponent s =
     (case s of
        [] \<Rightarrow> Some 0
      | c # cs \<Rightarrow>
          if c = CHR ''e'' then
            (let (sg, ds) = (case cs of d # ds \<Rightarrow>
                               if d = CHR ''-'' then (-1, ds)
                               else if d = CHR ''+'' then (1, ds) else (1, cs)
                             | [] \<Rightarrow> (1, []))
             in case digits_then False 0 0 ds of
                  Some (v, _, []) \<Rightarrow> Some (sg * int v)
                | _ \<Rightarrow> None)
          else None)"

definition max_double :: real where
  "max_double = (2 - 1 / 2 ^ 52) * 2 ^ 1023"

definition to_float :: "bool \<Rightarrow> real \<Rightarrow> pyfloat" where
  "to_float neg x = (let y = fl x in
     if max_double < y then (if neg then NInf else PInf) else Fin (if neg then - y else y))"

definition parse_unsigned :: "bool \<Rightarrow> string \<Rightarrow> pyfloat option" where
  "parse_unsigned neg s =
     (if s = ''inf'' \<or> s = ''infinity'' then Some (if neg then NInf else PInf)
      else if s = ''nan'' then Some NaN
      else case opt_digits s of
        None \<Rightarrow> None
      | Some (i, ni, r) \<Rightarrow>
          (case (case r of c # cs \<Rightarrow> if c = CHR ''.'' then opt_digits cs else Some (0, 0, r)
                         | [] \<Rightarrow> Some (0, 0, [])) of
             None \<Rightarrow> None
           | Some (f, nf, r') \<Rightarrow>
               if ni + nf = 0 then None
               else map_option (\<lambda>e. to_float neg
                      (real (i * 10 ^ nf + f) * 10 powi (e - int nf))) (opt_exponent r')))"

definition parse_float :: "string \<Rightarrow> pyfloat option" where
  "parse_float s =
     (case lower (strip s) of
        [] \<Rightarrow> None
      | c # cs \<Rightarrow> if c = CHR ''-'' then parse_unsigned True cs
                  else if c = CHR ''+'' then parse_unsigned False cs
                  else parse_unsigned False (c # cs))"

section \<open>JSON documents\<close>

datatype json =
    JNull
  | JBool bool
  | JInt int
  | JFloat pyfloat
  | JStr string
  | JList "json list"
  | JObj "(string \<times> json) list"

fun json_num :: "json \<Rightarrow> pyfloat option" where
  "json_num (JBool b) = Some (Fin (of_bool b))"
| "json_num (JInt i) = Some (Fin (of_int i))"
| "json_num (JFloat x) = Some x"
| "json_num _ = None"

fun float_eq :: "pyfloat \<Rightarrow> pyfloat \<Rightarrow> bool" where
  "float_eq NaN _ = False"
| "float_eq _ NaN = False"
| "float_eq x y = (x = y)"

fun json_eq :: "json \<Rightarrow> json \<Rightarrow> bool"
  and list_eq :: "json list \<Rightarrow> json list \<Rightarrow> bool"
  and dict_sub :: "(string \<times> json) list \<Rightarrow> (string \<times> json) list \<Rightarrow> bool" where
  "json_eq JNull w = (w = JNull)"
| "json_eq (JStr s) w = (w = JStr s)"
| "json_eq (JList xs) w = (case w of JList ys \<Rightarrow> list_eq xs ys | _ \<Rightarrow> False)"
| "json_eq (JObj kvs) w =
     (case w of JObj lvs \<Rightarrow> length kvs = length lvs \<and> dict_sub kvs lvs | _ \<Rightarrow> False)"
| "json_eq v w =
     (case (json_num v, json_num w) of (Some x, Some y) \<Rightarrow> float_eq x y | _ \<Rightarrow> False)"
| "list_eq [] ys = (ys = [])"
| "list_eq (x # xs) ys = (case ys of [] \<Rightarrow> False | y # ys' \<Rightarrow> json_eq x y \<and> list_eq xs ys')"
| "dict_sub [] lvs = True"
| "dict_sub ((k, v) # kvs) lvs =
     ((case map_of lvs k of None \<Rightarrow> False | Some w \<Rightarrow> json_eq v w) \<and> dict_sub kvs lvs)"

fun json_finite :: "json \<Rightarrow> bool" where
  \<comment> \<open>no NaN and no infinity anywhere\<close>
  "json_finite (JFloat x) = (case x of Fin _ \<Rightarrow> True | _ \<Rightarrow> False)"
| "json_finite (JList xs) = (\<forall>x \<in> set xs. json_finite x)"
| "json_finite (JObj kvs) = (\<forall>kv \<in> set kvs. json_finite (snd kv))"
| "json_finite _ = True"

definition truthy :: "json \<Rightarrow> bool" where
  \<comment> \<open>\<open>bool(v)\<close>\<close>
  "truthy v =
     (case v of
        JNull \<Rightarrow> False | JBool b \<Rightarrow> b | JInt i \<Rightarrow> i \<noteq> 0 | JFloat x \<Rightarrow> x \<noteq> Fin 0
      | JStr s \<Rightarrow> s \<noteq> [] | JList l \<Rightarrow> l \<noteq> [] | JObj d \<Rightarrow> d \<noteq> [])"

definition get_or :: "(string \<times> json) list \<Rightarrow> string \<Rightarrow> json \<Rightarrow> json" where
  \<comment> \<open>\<open>d.get(k, default)\<close>\<close>
  "get_or d k v = (case map_of d k of None \<Rightarrow> v | Some x \<Rightarrow> x)"

subsection \<open>Integers\<close>

fun digit_groups :: "nat \<Rightarrow> string \<Rightarrow> nat option" where
  \<comment> \<open>decimal digits with single underscores between them\<close>
  "digit_groups v [] = None"
| "digit_groups v [c] = (if is_digit c then Some (v * 10 + (code c - 48)) else None)"
| "digit_groups v (c # d # cs) =
     (if is_digit c then digit_groups (v * 10 + (code c - 48)) (if d = CHR ''_'' then cs else d # cs) else None)"

definition py_int :: "string \<Rightarrow> int option" where
  \<comment> \<open>\<open>int(s)\<close>\<close>
  "py_int s =
     (case strip s of
        [] \<Rightarrow> None
      | c # cs \<Rightarrow>
          if c = CHR ''-'' then map_option (\<lambda>n. - int n) (digit_groups 0 cs)
          else if c = CHR ''+'' then map_option int (digit_groups 0 cs)
          else map_option int (digit_groups 0 (c # cs)))"

subsection \<open>Serialisation\<close>

definition hex_digit :: "nat \<Rightarrow> char" where
  "hex_digit n = (if n < 10 then char_of (48 + n) else char_of (87 + n))"

definition escape_char :: "char \<Rightarrow> string" where
  "escape_char c =
     (let n = code c in
      if n = 34 then [CHR 0x5C, CHR 0x22]
      else if n = 92 then [CHR 0x5C, CHR 0x5C]
      else if n = 10 then [CHR 0x5C, CHR ''n'']
      else if n = 13 then [CHR 0x5C, CHR ''r'']
      else if n = 9 then [CHR 0x5C, CHR ''t'']
      else if n = 12 then [CHR 0x5C, CHR ''f'']
      else if n = 8 then [CHR 0x5C, CHR ''b'']
      else if 32 \<le> n \<and> n \<le> 126 then [c]
      else [CHR 0x5C, CHR ''u'', CHR ''0'', CHR ''0'', hex_digit (n div 16), hex_digit (n mod 16)])"

definition json_string :: "string \<Rightarrow> string" where
  "json_string s = [CHR 0x22] @ concat (map escape_char s) @ [CHR 0x22]"

fun json_float :: "pyfloat \<Rightarrow> string" where
  "json_float PInf = ''Infinity''"
| "json_float NInf = ''-Infinity''"
| "json_float NaN = ''NaN''"
| "json_float (Fin x) = repr_float (Fin x)"

fun json_dumps :: "bool \<Rightarrow> string \<Rightarrow> string \<Rightarrow> json \<Rightarrow> string" where
  \<comment> \<open>\<open>json.dumps(v, sort_keys=sk, separators=(isep, ksep))\<close>\<close>
  "json_dumps sk isep ksep JNull = ''null''"
| "json_dumps sk isep ksep (JBool b) = (if b then ''true'' else ''false'')"
| "json_dumps sk isep ksep (JInt i) = str_int i"
| "json_dumps sk isep ksep (JFloat x) = json_float x"
| "json_dumps sk isep ksep (JStr s) = json_string s"
| "json_dumps sk isep ksep (JList xs) =
     ''['' @ join isep (map (json_dumps sk isep ksep) xs) @ '']''"
| "json_dumps sk isep ksep (JObj kvs) =
     (let items = map (\<lambda>(k, v). (k, json_string k @ ksep @ json_dumps sk isep ksep v)) kvs;
          items' = (if sk then sort_key fst items else items)
      in ''{'' @ join isep (map snd items') @ ''}'')"

definition json_default :: "json \<Rightarrow> string" where
  \<comment> \<open>\<open>json.dumps(v, sort_keys=True)\<close>\<close>
  "json_default v = json_dumps True '', '' '': '' v"

end
