(* ===== verification/Schemas.thy ===== *)
theory Schemas
  imports PyText
begin

text \<open>
  The frozen pydantic models of \<open>guardmem_core/schemas/\<close>: the enumerations with their scoring
  tables, the records, and the validators that run at construction. A \<open>mk_\<close> function is the
  model's constructor call: it returns \<open>Inl ValueError\<close> where pydantic raises
  \<open>ValidationError\<close>. Identifiers are strings and timestamps are integers (microseconds of one
  fixed epoch; every stored timestamp is timezone-aware). Field names carry a prefix for their
  record, since Isabelle's field selectors are global.
\<close>

section \<open>Source tiers and risk tables\<close>

datatype source_tier = TRUSTED_SYSTEM | VERIFIED_USER | UNVERIFIED_USER | TOOL_OUTPUT | RETRIEVED_WEB

definition source_tiers :: "source_tier list" where
  "source_tiers = [TRUSTED_SYSTEM, VERIFIED_USER, UNVERIFIED_USER, TOOL_OUTPUT, RETRIEVED_WEB]"

definition at_least :: "source_tier \<Rightarrow> source_tier \<Rightarrow> bool" where
  "at_least t m \<longleftrightarrow> index_of t source_tiers \<le> index_of m source_tiers"

fun grounding_multiplier :: "source_tier \<Rightarrow> real" where
  "grounding_multiplier TRUSTED_SYSTEM = 1"
| "grounding_multiplier VERIFIED_USER = fl (95 / 100)"
| "grounding_multiplier UNVERIFIED_USER = fl (8 / 10)"
| "grounding_multiplier TOOL_OUTPUT = fl (85 / 100)"
| "grounding_multiplier RETRIEVED_WEB = fl (6 / 10)"

datatype impact_level = LOW | MEDIUM | HIGH | CRITICAL

fun risk_floor :: "impact_level \<Rightarrow> real" where
  "risk_floor LOW = fl (15 / 100)"
| "risk_floor MEDIUM = fl (35 / 100)"
| "risk_floor HIGH = fl (60 / 100)"
| "risk_floor CRITICAL = fl (80 / 100)"

fun impact_feature :: "impact_level \<Rightarrow> real" where
  "impact_feature LOW = 0"
| "impact_feature MEDIUM = fl (33 / 100)"
| "impact_feature HIGH = fl (66 / 100)"
| "impact_feature CRITICAL = 1"

datatype pii_class = PII_NONE | QUASI_IDENTIFIER | DIRECT | SPECIAL_CATEGORY

fun pii_feature :: "pii_class \<Rightarrow> real" where
  "pii_feature PII_NONE = 0"
| "pii_feature QUASI_IDENTIFIER = 1 / 2"
| "pii_feature DIRECT = fl (8 / 10)"
| "pii_feature SPECIAL_CATEGORY = 1"

datatype irreversibility = REVERSIBLE | PARTIAL | IRREVERSIBLE

fun irreversibility_feature :: "irreversibility \<Rightarrow> real" where
  "irreversibility_feature REVERSIBLE = 0"
| "irreversibility_feature PARTIAL = 1 / 2"
| "irreversibility_feature IRREVERSIBLE = 1"

lemma grounding_multiplier_unit [simp, range_simps]: "in_unit (grounding_multiplier t)"
  by (cases t) (auto intro!: fl.rnd_unit)

lemma risk_floor_unit [simp, range_simps]: "in_unit (risk_floor l)"
  by (cases l) (auto intro!: fl.rnd_unit)

lemma impact_feature_unit [simp, range_simps]: "in_unit (impact_feature l)"
  by (cases l) (auto intro!: fl.rnd_unit)

lemma pii_feature_unit [simp, range_simps]: "in_unit (pii_feature c)"
  by (cases c) (auto intro!: fl.rnd_unit)

lemma irreversibility_feature_unit [simp, range_simps]: "in_unit (irreversibility_feature i)"
  by (cases i) auto

section \<open>Object values\<close>

datatype object_value = OStr string | OFloat pyfloat | OBool bool | ODict "(string \<times> json) list"

fun obj_json :: "object_value \<Rightarrow> json" where
  "obj_json (OStr s) = JStr s"
| "obj_json (OFloat x) = JFloat x"
| "obj_json (OBool b) = JBool b"
| "obj_json (ODict d) = JObj d"

definition obj_eq :: "object_value \<Rightarrow> object_value \<Rightarrow> bool" where
  \<comment> \<open>Python's \<open>==\<close> on two object values\<close>
  "obj_eq a b = json_eq (obj_json a) (obj_json b)"

definition obj_is_str :: "object_value \<Rightarrow> bool" where
  "obj_is_str v \<longleftrightarrow> (case v of OStr _ \<Rightarrow> True | _ \<Rightarrow> False)"

section \<open>Provenance and candidates\<close>

record provenance =
  pv_hash :: string
  pv_span :: "int \<times> int"
  pv_tier :: source_tier
  pv_verbatim :: string
  pv_alignment :: real
  pv_captured_at :: int

definition span_ok :: "int \<times> int \<Rightarrow> bool" where
  "span_ok sp \<longleftrightarrow> 0 \<le> fst sp \<and> fst sp < snd sp"

definition provenance_ok :: "provenance \<Rightarrow> bool" where
  "provenance_ok p \<longleftrightarrow>
     length (pv_verbatim p) \<le> 2000 \<and> in_unit (pv_alignment p) \<and> span_ok (pv_span p)"

definition mk_provenance :: "provenance \<Rightarrow> exn + provenance" where
  "mk_provenance p = (if provenance_ok p then Inr p else Inl ValueError)"

record candidate =
  c_id :: string
  c_tenant :: string
  c_namespace :: string
  c_subject :: string
  c_predicate :: string
  c_object :: object_value
  c_valid_from :: "int option"
  c_valid_to :: "int option"
  c_provenance :: provenance
  c_extracted_by :: string
  c_prompt_version :: string
  c_trace :: string

definition candidate_ok :: "candidate \<Rightarrow> bool" where
  \<comment> \<open>\<open>_validity_interval_must_not_be_inverted\<close>, and the nested provenance\<close>
  "candidate_ok c \<longleftrightarrow>
     provenance_ok (c_provenance c) \<and>
     (case (c_valid_from c, c_valid_to c) of (Some f, Some t) \<Rightarrow> f \<le> t | _ \<Rightarrow> True)"

definition mk_candidate :: "candidate \<Rightarrow> exn + candidate" where
  "mk_candidate c = (if candidate_ok c then Inr c else Inl ValueError)"

record fact =
  f_subject :: string
  f_predicate :: string
  f_object :: object_value
  f_verbatim :: string

record extraction_result =
  x_candidates :: "candidate list"
  x_samples :: "fact list list"
  x_k_samples :: int
  x_dropped_noise :: int
  x_dropped_unsourced :: int
  x_tokens_in :: int
  x_tokens_out :: int
  x_cache_hit :: bool

definition mk_extraction_result :: "extraction_result \<Rightarrow> exn + extraction_result" where
  "mk_extraction_result r =
     (if 1 \<le> x_k_samples r \<and> 0 \<le> x_dropped_noise r \<and> 0 \<le> x_dropped_unsourced r \<and>
         0 \<le> x_tokens_in r \<and> 0 \<le> x_tokens_out r \<and> x_k_samples r = int (length (x_samples r))
      then Inr r else Inl ValueError)"

section \<open>Stored assertions and edges\<close>

datatype cardinality = ONE | MANY | ONE_PER_TIME

record stored_assertion =
  a_id :: string
  a_tenant :: string
  a_namespace :: string
  a_subject :: string
  a_predicate :: string
  a_object :: object_value
  a_confidence :: real
  a_risk :: real
  a_valid_from :: int
  a_valid_to :: "int option"
  a_recorded_at :: int
  a_retracted_at :: "int option"
  a_superseded_by :: "string option"
  a_provenance :: "provenance list"
  a_corroboration :: int
  a_trace :: string
  a_visible :: bool

definition assertion_ok :: "stored_assertion \<Rightarrow> bool" where
  "assertion_ok a \<longleftrightarrow>
     in_unit (a_confidence a) \<and> in_unit (a_risk a) \<and> a_provenance a \<noteq> [] \<and>
     (\<forall>p \<in> set (a_provenance a). provenance_ok p) \<and> 1 \<le> a_corroboration a \<and>
     (case a_valid_to a of None \<Rightarrow> True | Some t \<Rightarrow> a_valid_from a \<le> t)"

definition mk_assertion :: "stored_assertion \<Rightarrow> exn + stored_assertion" where
  "mk_assertion a = (if assertion_ok a then Inr a else Inl ValueError)"

record edge =
  e_assertion :: string
  e_subject :: string
  e_predicate :: string
  e_object :: object_value
  e_confidence :: real
  e_valid_from :: int
  e_valid_to :: "int option"
  e_trace :: string

record scored_assertion =
  s_assertion :: stored_assertion
  s_cosine :: real

section \<open>Verdicts\<close>

datatype conflict_kind =
  KIND_NONE | KIND_DUPLICATE | KIND_REFINEMENT | KIND_CONTRADICTION | KIND_CARDINALITY
  | KIND_TEMPORAL_OVERLAP

datatype hint = Merge | Supersede | Coexist | Escalate

datatype decision = AUTO_WRITE | HITL_REVIEW | REJECT | ESCALATE

record thresholds =
  tau_lo :: real
  tau_mid :: real
  tau_hi :: real
  rho_lo :: real
  rho_hi :: real
  th_version :: string

definition thresholds_ok :: "thresholds \<Rightarrow> bool" where
  \<comment> \<open>the field bounds and \<open>_bands_must_be_ordered\<close>\<close>
  "thresholds_ok t \<longleftrightarrow>
     in_unit (tau_lo t) \<and> in_unit (tau_mid t) \<and> in_unit (tau_hi t) \<and>
     in_unit (rho_lo t) \<and> in_unit (rho_hi t) \<and>
     tau_lo t < tau_mid t \<and> tau_mid t < tau_hi t \<and> rho_lo t < rho_hi t"

record conflict_report =
  cr_kind :: conflict_kind
  cr_incumbent :: "string option"
  cr_entailment :: real
  cr_contradiction :: real
  cr_cosine :: real
  cr_hint :: hint

definition in_cosine :: "real \<Rightarrow> bool" where
  "in_cosine x \<longleftrightarrow> -1 \<le> x \<and> x \<le> 1"

definition conflict_report_ok :: "conflict_report \<Rightarrow> bool" where
  "conflict_report_ok r \<longleftrightarrow>
     in_unit (cr_entailment r) \<and> in_unit (cr_contradiction r) \<and> in_cosine (cr_cosine r)"

definition mk_conflict_report :: "conflict_report \<Rightarrow> exn + conflict_report" where
  "mk_conflict_report r = (if conflict_report_ok r then Inr r else Inl ValueError)"

record confidence_report =
  cf_entropy :: real
  cf_grounding :: real
  cf_schema_fit :: real
  cf_corroboration :: real
  cf_consistency :: real
  cf_confidence :: real
  cf_weights_version :: string

definition confidence_report_ok :: "confidence_report \<Rightarrow> bool" where
  "confidence_report_ok r \<longleftrightarrow>
     in_unit (cf_entropy r) \<and> in_unit (cf_grounding r) \<and> in_unit (cf_schema_fit r) \<and>
     in_unit (cf_corroboration r) \<and> in_unit (cf_consistency r) \<and> in_unit (cf_confidence r)"

definition mk_confidence_report :: "confidence_report \<Rightarrow> exn + confidence_report" where
  "mk_confidence_report r = (if confidence_report_ok r then Inr r else Inl ValueError)"

datatype obligation_kind = REQUIRE_REVIEW | REQUIRE_CORROBORATION | REDACT_FIELD

fun obligation_value :: "obligation_kind \<Rightarrow> string" where
  "obligation_value REQUIRE_REVIEW = ''require_review''"
| "obligation_value REQUIRE_CORROBORATION = ''require_corroboration''"
| "obligation_value REDACT_FIELD = ''redact_field''"

definition known_obligations :: "string list" where
  "known_obligations = map obligation_value [REQUIRE_REVIEW, REQUIRE_CORROBORATION, REDACT_FIELD]"

record risk_verdict =
  rv_level :: impact_level
  rv_risk :: real
  rv_features :: "(string \<times> real) list"
  rv_obligations :: "string list"

definition risk_verdict_ok :: "risk_verdict \<Rightarrow> bool" where
  "risk_verdict_ok v \<longleftrightarrow>
     in_unit (rv_risk v) \<and> (\<forall>o' \<in> set (rv_obligations v). o' \<in> set known_obligations)"

definition mk_risk_verdict :: "risk_verdict \<Rightarrow> exn + risk_verdict" where
  "mk_risk_verdict v = (if risk_verdict_ok v then Inr v else Inl ValueError)"

record decision_record =
  dr_decision :: decision
  dr_codes :: "string list"
  dr_confidence :: confidence_report
  dr_risk :: risk_verdict
  dr_conflict :: conflict_report
  dr_thresholds_version :: string
  dr_policy_version :: string
  dr_escalated_from :: "decision option"

fun decision_value :: "decision \<Rightarrow> string" where
  "decision_value AUTO_WRITE = ''auto_write''"
| "decision_value HITL_REVIEW = ''hitl_review''"
| "decision_value REJECT = ''reject''"
| "decision_value ESCALATE = ''escalate''"

section \<open>Ontology\<close>

datatype scalar_type = TEXT | BOOLEAN | NUMBER

datatype object_spec = ScalarObject scalar_type | CodedObject string | EntityRefObject string

record predicate_spec =
  ps_subject :: string
  ps_object :: object_spec
  ps_cardinality :: cardinality
  ps_impact :: impact_level
  ps_pii :: pii_class
  ps_irreversibility :: irreversibility
  ps_min_tier :: source_tier
  ps_requires_corroboration :: bool

record ontology =
  on_name :: string
  on_version :: int
  on_entities :: "string list"
  on_predicates :: "(string \<times> predicate_spec) list"

definition referenced_types :: "predicate_spec \<Rightarrow> string list" where
  "referenced_types s =
     ps_subject s # (case ps_object s of EntityRefObject e \<Rightarrow> [e] | _ \<Rightarrow> [])"

definition spec_ok :: "predicate_spec \<Rightarrow> bool" where
  "spec_ok s \<longleftrightarrow> ps_subject s \<noteq> [] \<and>
     (case ps_object s of CodedObject sys \<Rightarrow> sys \<noteq> [] | EntityRefObject e \<Rightarrow> e \<noteq> [] | _ \<Rightarrow> True)"

definition ontology_ok :: "ontology \<Rightarrow> bool" where
  \<comment> \<open>the field bounds and \<open>_every_referenced_entity_type_is_declared\<close>\<close>
  "ontology_ok o' \<longleftrightarrow>
     on_name o' \<noteq> [] \<and> 1 \<le> on_version o' \<and> on_entities o' \<noteq> [] \<and> on_predicates o' \<noteq> [] \<and>
     (\<forall>ps \<in> set (on_predicates o'). spec_ok (snd ps) \<and>
        (\<forall>t \<in> set (referenced_types (snd ps)). t \<in> set (on_entities o')))"

definition mk_ontology :: "ontology \<Rightarrow> exn + ontology" where
  "mk_ontology o' = (if ontology_ok o' then Inr o' else Inl ValueError)"

definition predicate :: "ontology \<Rightarrow> string \<Rightarrow> predicate_spec option" where
  "predicate o' name = map_of (on_predicates o') name"

lemma predicate_declared:
  "ontology_ok o' \<Longrightarrow> predicate o' n = Some s \<Longrightarrow>
     ps_subject s \<in> set (on_entities o') \<and> ps_subject s \<noteq> []"
  by (auto simp: ontology_ok_def predicate_def spec_ok_def referenced_types_def dest!: map_of_SomeD)

section \<open>Turns\<close>

datatype turn_role = USER_TURN | ASSISTANT_TURN | TOOL_TURN

record turn =
  t_id :: string
  t_role :: turn_role
  t_text :: string
  t_captured_at :: "int option"

datatype noise_reason = EPHEMERAL | IMPERATIVE | RESTATEMENT | HYPOTHETICAL | THIRD_PARTY

datatype decided_by = RULE | CLASSIFIER

record dropped_turn =
  dt_turn :: turn
  dt_reason :: noise_reason
  dt_decided_by :: decided_by

record noise_result =
  nr_kept :: "turn list"
  nr_dropped :: "dropped_turn list"

section \<open>Enumerations as linear orders\<close>

instantiation source_tier :: linorder
begin

definition less_eq_source_tier :: "source_tier \<Rightarrow> source_tier \<Rightarrow> bool" where
  \<comment> \<open>later members of the declaration are less trusted\<close>
  "less_eq_source_tier a b \<longleftrightarrow> index_of b source_tiers \<le> index_of a source_tiers"

definition less_source_tier :: "source_tier \<Rightarrow> source_tier \<Rightarrow> bool" where
  "less_source_tier a b \<longleftrightarrow> index_of b source_tiers < index_of a source_tiers"

instance
proof
  fix x y z :: source_tier
  show "x < y \<longleftrightarrow> x \<le> y \<and> \<not> y \<le> x"
    by (auto simp: less_source_tier_def less_eq_source_tier_def)
  show "x \<le> x" by (simp add: less_eq_source_tier_def)
  show "x \<le> y \<Longrightarrow> y \<le> z \<Longrightarrow> x \<le> z" by (simp add: less_eq_source_tier_def)
  show "x \<le> y \<Longrightarrow> y \<le> x \<Longrightarrow> x = y"
    by (cases x; cases y) (simp_all add: less_eq_source_tier_def source_tiers_def)
  show "x \<le> y \<or> y \<le> x" by (auto simp: less_eq_source_tier_def)
qed

end

lemma at_least_iff: "at_least t m \<longleftrightarrow> m \<le> t"
  by (simp add: at_least_def less_eq_source_tier_def)

end
