(* ===== verification/Confidence.thy ===== *)
theory Confidence
  imports Schemas
begin

text \<open>
  \<open>pipeline/l3_score/confidence.py\<close>: the confidence composite. Weights are a record with the
  validator \<open>weights_ok\<close>; the five terms are functions of their own and \<open>score_confidence\<close>
  puts them together exactly as the code does, every product and sum rounded. The lemmas show
  when it returns, that every term and the composite stay in the unit interval, that the
  composite is monotone in every term, and that the corroboration score separates one source
  from two.
\<close>

definition CORROBORATION_LAMBDA :: real where
  "CORROBORATION_LAMBDA = fl (8 / 10)"

definition REFINEMENT_CONSISTENCY :: real where
  "REFINEMENT_CONSISTENCY = fl (9 / 10)"

definition UNMEASURED :: "conflict_kind list" where
  "UNMEASURED = [KIND_CARDINALITY, KIND_TEMPORAL_OVERLAP]"

record confidence_weights =
  w_uncertainty :: real
  w_grounding :: real
  w_schema_fit :: real
  w_corroboration :: real
  w_consistency :: real
  w_version :: string

definition weights_total :: "confidence_weights \<Rightarrow> real" where
  "weights_total w =
     fl (fl (fl (fl (w_uncertainty w + w_grounding w) + w_schema_fit w) + w_corroboration w)
         + w_consistency w)"

definition weights_ok :: "confidence_weights \<Rightarrow> bool" where
  "weights_ok w \<longleftrightarrow>
     in_unit (w_uncertainty w) \<and> in_unit (w_grounding w) \<and> in_unit (w_schema_fit w) \<and>
     in_unit (w_corroboration w) \<and> in_unit (w_consistency w) \<and>
     py_isclose (weights_total w) 1 (fl (1 / 10 ^ 9))"

definition mk_weights :: "confidence_weights \<Rightarrow> exn + confidence_weights" where
  "mk_weights w = (if weights_ok w then Inr w else Inl ValueError)"

definition V1_WEIGHTS :: confidence_weights where
  "V1_WEIGHTS = \<lparr>w_uncertainty = fl (35 / 100), w_grounding = fl (25 / 100),
     w_schema_fit = fl (10 / 100), w_corroboration = fl (15 / 100),
     w_consistency = fl (15 / 100), w_version = ''v1''\<rparr>"

definition grounding :: "real \<Rightarrow> source_tier \<Rightarrow> real \<Rightarrow> real" where
  "grounding span_entailment tier alignment =
     fl (fl (span_entailment * grounding_multiplier tier) * alignment)"

definition corroboration_score :: "int \<Rightarrow> real" where
  "corroboration_score sources =
     fl (1 - py_exp (fl (- CORROBORATION_LAMBDA * fl (of_int (sources - 1)))))"

definition corroboration :: "int \<Rightarrow> exn + real" where
  "corroboration sources =
     (if sources < 1 then Inl ValueError else Inr (corroboration_score sources))"

definition consistency :: "conflict_report \<Rightarrow> real" where
  "consistency conflict =
     (if cr_kind conflict \<in> set UNMEASURED then 0
      else if cr_kind conflict = KIND_REFINEMENT then REFINEMENT_CONSISTENCY
      else fl (1 - cr_contradiction conflict))"

definition composite ::
    "confidence_weights \<Rightarrow> real \<Rightarrow> real \<Rightarrow> real \<Rightarrow> real \<Rightarrow> real \<Rightarrow> real" where
  "composite w entropy src fit cor con =
     fl (fl (fl (fl (fl (w_uncertainty w * fl (1 - entropy))
       + fl (w_grounding w * src))
       + fl (w_schema_fit w * fit))
       + fl (w_corroboration w * cor))
       + fl (w_consistency w * con))"

definition score_confidence ::
    "real \<Rightarrow> real \<Rightarrow> source_tier \<Rightarrow> real \<Rightarrow> real \<Rightarrow> int \<Rightarrow> conflict_report
     \<Rightarrow> confidence_weights \<Rightarrow> exn + confidence_report" where
  "score_confidence entropy span_entailment tier alignment schema_fit sources conflict weights =
     (let source_score = grounding span_entailment tier alignment in
      bindE (corroboration sources) (\<lambda>cor.
      let con = consistency conflict;
          c = composite weights entropy source_score schema_fit cor con
      in mk_confidence_report \<lparr>cf_entropy = entropy, cf_grounding = source_score,
           cf_schema_fit = schema_fit, cf_corroboration = cor, cf_consistency = con,
           cf_confidence = clamp01 c, cf_weights_version = w_version weights\<rparr>))"

section \<open>The terms stay in their range\<close>

lemma weights_okD:
  assumes "weights_ok w"
  shows "0 \<le> w_uncertainty w" "0 \<le> w_grounding w" "0 \<le> w_schema_fit w"
    "0 \<le> w_corroboration w" "0 \<le> w_consistency w"
  using assms by (auto simp: weights_ok_def in_unit_def)

lemma V1_weights_ok: "weights_ok V1_WEIGHTS"
  by (simp only: weights_ok_def V1_WEIGHTS_def weights_total_def confidence_weights.simps) code_simp

lemma grounding_unit [range_simps]:
  "in_unit e \<Longrightarrow> in_unit a \<Longrightarrow> in_unit (grounding e t a)"
  by (simp add: grounding_def fl.prod_unit)

lemma lambda_ge: "3 / 4 \<le> CORROBORATION_LAMBDA"
proof -
  have "fl (3 / 4) = 3 / 4"
    using round_bin_representable [of 53 3 "-1074" "-2"] by (simp add: fl_def power_int_minus_divide)
  then show ?thesis unfolding CORROBORATION_LAMBDA_def by (rule fl.rnd_ge_rep) simp
qed

lemma corroboration_exponent:
  assumes "1 \<le> n"
  shows "fl (- CORROBORATION_LAMBDA * fl (of_int (n - 1))) \<le> 0"
proof -
  have "0 \<le> fl (real_of_int (n - 1))" using assms by (intro fl.rnd_nonneg) simp
  then have "0 \<le> fl (CORROBORATION_LAMBDA * fl (real_of_int (n - 1)))"
    using lambda_ge by (intro fl.rnd_nonneg) simp
  then show ?thesis by simp
qed

lemma corroboration_score_unit [range_simps]: "1 \<le> n \<Longrightarrow> in_unit (corroboration_score n)"
  unfolding corroboration_score_def
proof (rule fl.compl_unit)
  assume "1 \<le> n"
  then have "exp (fl (- CORROBORATION_LAMBDA * fl (of_int (n - 1)))) \<le> 1"
    using corroboration_exponent [of n] by simp
  then show "in_unit (py_exp (fl (- CORROBORATION_LAMBDA * fl (of_int (n - 1)))))"
    unfolding py_exp_def by (intro fl.rnd_unit) (simp add: in_unit_def)
qed

lemma corroboration_score_mono: "m \<le> n \<Longrightarrow> corroboration_score m \<le> corroboration_score n"
proof -
  assume "m \<le> n"
  then have "fl (real_of_int (m - 1)) \<le> fl (real_of_int (n - 1))" by (intro fl.rnd_mono) simp
  then have "fl (CORROBORATION_LAMBDA * fl (of_int (m - 1))) \<le> fl (CORROBORATION_LAMBDA * fl (of_int (n - 1)))"
    using lambda_ge by (intro fl.prod_mono) auto
  then show ?thesis
    unfolding corroboration_score_def py_exp_def by (intro fl.rnd_mono diff_left_mono) simp
qed

lemma corroboration_score_1: "corroboration_score 1 = 0"
  by (simp add: corroboration_score_def py_exp_def)

lemma corroboration_score_2: "1 / 2 \<le> corroboration_score 2"
proof -
  have "(2::real) \<le> 1 + 3 / 4 + (3 / 4)\<^sup>2 / 2" by (simp add: power2_eq_square)
  also have "\<dots> \<le> exp (3 / 4)" by (rule exp_lower_Taylor_quadratic) simp
  also have "\<dots> \<le> exp CORROBORATION_LAMBDA" using lambda_ge by simp
  finally have "exp (- CORROBORATION_LAMBDA) \<le> 1 / 2" by (simp add: exp_minus field_simps)
  then have "py_exp (- CORROBORATION_LAMBDA) \<le> 1 / 2"
    unfolding py_exp_def by (intro fl.rnd_le_rep fl_half)
  then have "1 / 2 \<le> fl (1 - py_exp (- CORROBORATION_LAMBDA))" by (intro fl.rnd_ge_rep fl_half) simp
  moreover have "fl CORROBORATION_LAMBDA = CORROBORATION_LAMBDA" by (simp add: CORROBORATION_LAMBDA_def)
  ultimately show ?thesis by (simp add: corroboration_score_def)
qed

lemma consistency_unit [range_simps]:
  "in_unit (cr_contradiction r) \<Longrightarrow> in_unit (consistency r)"
  by (auto simp: consistency_def REFINEMENT_CONSISTENCY_def fl.compl_unit intro!: fl.rnd_unit)

lemma composite_wsum:
  "composite w h src fit cor con =
     wsum fl (fl (w_uncertainty w * fl (1 - h)))
       [(w_grounding w, src), (w_schema_fit w, fit), (w_corroboration w, cor), (w_consistency w, con)]"
  by (simp add: composite_def)

lemma composite_mono:
  assumes "weights_ok w" and "h' \<le> h" and "src \<le> src'" and "fit \<le> fit'" and "cor \<le> cor'" and "con \<le> con'"
  shows "composite w h src fit cor con \<le> composite w h' src' fit' cor' con'"
  unfolding composite_wsum
proof (rule fl.wsum_mono)
  have "fl (1 - h) \<le> fl (1 - h')" using assms(2) by (intro fl.rnd_mono) simp
  then show "fl (w_uncertainty w * fl (1 - h)) \<le> fl (w_uncertainty w * fl (1 - h'))"
    using weights_okD [OF assms(1)] by (intro fl.prod_mono)
qed (use assms weights_okD [OF assms(1)] in simp)

lemma score_confidence_Inr:
  "score_confidence h e t a fit n cr w = Inr r \<longleftrightarrow>
     1 \<le> n \<and> in_unit h \<and> in_unit (grounding e t a) \<and> in_unit fit \<and> in_unit (corroboration_score n) \<and>
     in_unit (consistency cr) \<and>
     r = \<lparr>cf_entropy = h, cf_grounding = grounding e t a, cf_schema_fit = fit,
          cf_corroboration = corroboration_score n, cf_consistency = consistency cr,
          cf_confidence = clamp01 (composite w h (grounding e t a) fit (corroboration_score n) (consistency cr)),
          cf_weights_version = w_version w\<rparr>"
  by (auto simp: score_confidence_def corroboration_def mk_confidence_report_def
      confidence_report_ok_def Let_def bindE_Inr_iff)

lemma score_confidence_returns:
  assumes "in_unit h" and "in_unit e" and "in_unit a" and "in_unit fit"
    and "in_unit (cr_contradiction cr)" and "1 \<le> n"
  shows "\<exists>r. score_confidence h e t a fit n cr w = Inr r \<and> confidence_report_ok r"
  using assms unfolding score_confidence_Inr
  by (auto simp: confidence_report_ok_def grounding_unit corroboration_score_unit consistency_unit)

lemma grounding_mono:
  assumes "0 \<le> e" and "e \<le> e'" and "0 \<le> a" and "a \<le> a'"
  shows "grounding e t a \<le> grounding e' t a'"
  unfolding grounding_def
  using assms in_unitD(1) [OF grounding_multiplier_unit, of t]
  by (intro fl.prod_mono2) (auto intro!: fl.rnd_nonneg fl.prod_mono2)

section \<open>Properties\<close>

text \<open>
  C34. Scoring is total on what Layers 1 and 2 hand it: with every input in its declared range
  and at least one source, \<open>score_confidence\<close> returns a report, and every term of the report
  and the composite lie in [0, 1], whatever the rounding did on the way.
\<close>

theorem confidence_total:
  assumes "in_unit h" and "in_unit e" and "in_unit a" and "in_unit fit"
    and "in_unit (cr_contradiction cr)" and "1 \<le> n"
  shows "\<exists>r. score_confidence h e t a fit n cr w = Inr r \<and> confidence_report_ok r"
  using assms by (rule score_confidence_returns)

theorem confidence_total_witness:
  "\<exists>r. score_confidence (1 / 2) 1 TOOL_OUTPUT 1 1 1 \<lparr>cr_kind = KIND_NONE, cr_incumbent = None,
       cr_entailment = 0, cr_contradiction = 0, cr_cosine = 0, cr_hint = Coexist\<rparr> V1_WEIGHTS = Inr r
     \<and> confidence_report_ok r"
  by (rule confidence_total) (simp_all add: in_unit_def)

text \<open>
  C35. The composite is monotone: less semantic entropy, better grounding, a better schema fit,
  more independent sources and more consistency can only raise the confidence, also under
  float64 rounding and clamping.
\<close>

theorem confidence_monotone:
  assumes "weights_ok w"
    and "score_confidence h e t a fit n cr w = Inr r"
    and "score_confidence h' e' t a' fit' n' cr' w = Inr r'"
    and "h' \<le> h" and "0 \<le> e" and "e \<le> e'" and "0 \<le> a" and "a \<le> a'"
    and "fit \<le> fit'" and "n \<le> n'" and "consistency cr \<le> consistency cr'"
  shows "cf_confidence r \<le> cf_confidence r'"
proof -
  have "composite w h (grounding e t a) fit (corroboration_score n) (consistency cr) \<le>
        composite w h' (grounding e' t a') fit' (corroboration_score n') (consistency cr')"
    using assms by (intro composite_mono grounding_mono corroboration_score_mono)
  with assms(2,3) show ?thesis by (auto simp: score_confidence_Inr intro!: clamp01_mono)
qed

theorem confidence_monotone_witness:
  "\<exists>r r'. score_confidence 1 0 TOOL_OUTPUT 0 0 1 \<lparr>cr_kind = KIND_CARDINALITY, cr_incumbent = None,
        cr_entailment = 0, cr_contradiction = 0, cr_cosine = 0, cr_hint = Supersede\<rparr> V1_WEIGHTS = Inr r
     \<and> score_confidence 0 1 TOOL_OUTPUT 1 1 2 \<lparr>cr_kind = KIND_NONE, cr_incumbent = None,
        cr_entailment = 0, cr_contradiction = 0, cr_cosine = 0, cr_hint = Coexist\<rparr> V1_WEIGHTS = Inr r'
     \<and> cf_confidence r \<le> cf_confidence r'"
proof -
  let ?c = "\<lparr>cr_kind = KIND_CARDINALITY, cr_incumbent = None,
        cr_entailment = 0, cr_contradiction = 0, cr_cosine = 0, cr_hint = Supersede\<rparr>"
  let ?d = "\<lparr>cr_kind = KIND_NONE, cr_incumbent = None,
        cr_entailment = 0, cr_contradiction = 0, cr_cosine = 0, cr_hint = Coexist\<rparr>"
  obtain r where r: "score_confidence 1 0 TOOL_OUTPUT 0 0 1 ?c V1_WEIGHTS = Inr r"
    using score_confidence_returns [of 1 0 0 0 ?c 1] by (auto simp: in_unit_def)
  obtain r' where r': "score_confidence 0 1 TOOL_OUTPUT 1 1 2 ?d V1_WEIGHTS = Inr r'"
    using score_confidence_returns [of 0 1 1 1 ?d 2] by (auto simp: in_unit_def)
  have "consistency ?c \<le> consistency ?d" by (simp add: consistency_def UNMEASURED_def)
  then have "cf_confidence r \<le> cf_confidence r'"
    using confidence_monotone [OF V1_weights_ok r r'] by simp
  with r r' show ?thesis by blast
qed

text \<open>
  The corroboration score separates one source from two: the threshold \<open>decision.py\<close>
  compares with, \<open>corroboration(2)\<close>, is reached exactly when at least two independent sources
  back the claim.
\<close>

theorem corroborated_iff_two_sources:
  assumes "1 \<le> n"
  shows "corroboration_score 2 \<le> corroboration_score n \<longleftrightarrow> 2 \<le> n"
proof
  assume le: "corroboration_score 2 \<le> corroboration_score n"
  show "2 \<le> n"
  proof (rule ccontr)
    assume "\<not> 2 \<le> n"
    with assms have "n = 1" by simp
    with le corroboration_score_1 corroboration_score_2 show False by simp
  qed
qed (rule corroboration_score_mono)

theorem corroborated_iff_two_sources_witness:
  "\<not> corroboration_score 2 \<le> corroboration_score 1 \<and> corroboration_score 2 \<le> corroboration_score 3"
  using corroborated_iff_two_sources [of 1] corroborated_iff_two_sources [of 3] by simp

end
