(* ===== verification/Impact.thy ===== *)
theory Impact
  imports Confidence
begin

text \<open>
  \<open>pipeline/l3_score/impact_features.py\<close> and \<open>impact.py\<close>: what a write would do to memory
  (\<open>mutation_type\<close>), the graph fan-out, source tier and novelty features, and the logistic
  risk score with its per-level floor. The lemmas bound every feature and the sigmoid, and
  show in which inputs risk is monotone. Coefficients are real numbers: that a weighted sum of
  enormous ones overflows to an infinity, or to a NaN, is not modelled, and \<open>exp\<close>, which the two
  branches of the sigmoid only call on arguments up to 0, never raises.
\<close>

section \<open>Features\<close>

definition FANOUT_SATURATION :: int where
  "FANOUT_SATURATION = 50"

datatype scope = SESSION | USER | ORG

fun scope_feature :: "scope \<Rightarrow> real" where
  "scope_feature SESSION = fl (1 / 10)"
| "scope_feature USER = 1 / 2"
| "scope_feature ORG = 1"

datatype mutation_type = MUT_COEXIST | MUT_REFINE | MUT_SUPERSEDE | MUT_RETRACT

fun mutation_feature :: "mutation_type \<Rightarrow> real" where
  "mutation_feature MUT_COEXIST = 0"
| "mutation_feature MUT_REFINE = fl (3 / 10)"
| "mutation_feature MUT_SUPERSEDE = fl (7 / 10)"
| "mutation_feature MUT_RETRACT = 1"

definition CONFLICT_MUTATIONS :: "(conflict_kind \<times> mutation_type) list" where
  "CONFLICT_MUTATIONS =
     [(KIND_NONE, MUT_COEXIST), (KIND_DUPLICATE, MUT_COEXIST), (KIND_REFINEMENT, MUT_REFINE)]"

definition from_conflict :: "conflict_kind \<Rightarrow> mutation_type" where
  "from_conflict k = (case map_of CONFLICT_MUTATIONS k of Some m \<Rightarrow> m | None \<Rightarrow> MUT_SUPERSEDE)"

definition fanout_value :: "int \<Rightarrow> real" where
  "fanout_value degree =
     min 1 (fl (py_log1p (fl (of_int degree)) / py_log1p (fl (of_int FANOUT_SATURATION))))"

definition graph_fanout :: "int \<Rightarrow> exn + real" where
  "graph_fanout degree = (if degree < 0 then Inl ValueError else Inr (fanout_value degree))"

definition source_tier_risk :: "source_tier \<Rightarrow> real" where
  "source_tier_risk t = fl (1 - grounding_multiplier t)"

definition novelty :: "real option \<Rightarrow> real" where
  "novelty nearest = (case nearest of None \<Rightarrow> 1 | Some c \<Rightarrow> clamp01 (fl (1 - c)))"

lemma scope_feature_unit [simp, range_simps]: "in_unit (scope_feature s)"
  by (cases s) (auto intro!: fl.rnd_unit)

lemma mutation_feature_unit [simp, range_simps]: "in_unit (mutation_feature m)"
  by (cases m) (auto intro!: fl.rnd_unit)

lemma source_tier_risk_unit [simp, range_simps]: "in_unit (source_tier_risk t)"
  by (simp add: source_tier_risk_def fl.compl_unit)

lemma novelty_unit [simp, range_simps]: "in_unit (novelty c)"
  by (simp add: novelty_def in_unit_def [of 1] split: option.split)

lemma log1p_mono: "0 \<le> x \<Longrightarrow> x \<le> y \<Longrightarrow> py_log1p x \<le> py_log1p y"
  unfolding py_log1p_def by (intro fl.rnd_mono) simp

lemma log1p_nonneg: "0 \<le> x \<Longrightarrow> 0 \<le> py_log1p x"
  unfolding py_log1p_def by (intro fl.rnd_nonneg) simp

lemma log1p_saturation_pos: "0 < py_log1p (fl (of_int FANOUT_SATURATION))"
proof -
  have "fl (of_int 50) = (50::real)" using fl_of_int [of 50] by simp
  moreover have "1 \<le> ln (1 + 50 :: real)" using exp_le by (simp add: ln_ge_iff)
  then have "1 \<le> fl (ln (1 + 50))" using fl.rnd_mono [of 1 "ln (1 + 50)"] by simp
  ultimately show ?thesis by (simp add: py_log1p_def FANOUT_SATURATION_def)
qed

lemma fanout_value_mono:
  assumes "0 \<le> d" and "d \<le> d'"
  shows "fanout_value d \<le> fanout_value d'"
proof -
  have "0 \<le> fl (real_of_int d)" and "fl (real_of_int d) \<le> fl (real_of_int d')"
    using assms by (auto intro: fl.rnd_nonneg fl.rnd_mono)
  then have "py_log1p (fl (of_int d)) \<le> py_log1p (fl (of_int d'))" by (rule log1p_mono)
  then have "fl (py_log1p (fl (of_int d)) / py_log1p (fl (of_int FANOUT_SATURATION)))
      \<le> fl (py_log1p (fl (of_int d')) / py_log1p (fl (of_int FANOUT_SATURATION)))"
    using log1p_saturation_pos by (intro fl.rnd_mono divide_right_mono) auto
  then show ?thesis by (simp add: fanout_value_def)
qed

lemma fanout_value_0: "fanout_value 0 = 0"
  by (simp add: fanout_value_def py_log1p_def)

lemma fanout_value_50: "fanout_value FANOUT_SATURATION = 1"
  using log1p_saturation_pos by (simp add: fanout_value_def)

lemma fanout_value_unit [range_simps]: "0 \<le> d \<Longrightarrow> in_unit (fanout_value d)"
  using fanout_value_mono [of 0 d] fanout_value_0 by (auto simp: in_unit_def fanout_value_def)

section \<open>The logistic score\<close>

record risk_features =
  rf_impact :: real
  rf_mutation :: real
  rf_scope :: real
  rf_fanout :: real
  rf_pii :: real
  rf_irreversibility :: real
  rf_tier :: real
  rf_novelty :: real

definition risk_features_ok :: "risk_features \<Rightarrow> bool" where
  "risk_features_ok f \<longleftrightarrow>
     in_unit (rf_impact f) \<and> in_unit (rf_mutation f) \<and> in_unit (rf_scope f) \<and> in_unit (rf_fanout f) \<and>
     in_unit (rf_pii f) \<and> in_unit (rf_irreversibility f) \<and> in_unit (rf_tier f) \<and> in_unit (rf_novelty f)"

definition mk_risk_features :: "risk_features \<Rightarrow> exn + risk_features" where
  "mk_risk_features f = (if risk_features_ok f then Inr f else Inl ValueError)"

record risk_betas =
  b_impact :: real
  b_mutation :: real
  b_scope :: real
  b_fanout :: real
  b_pii :: real
  b_irreversibility :: real
  b_tier :: real
  b_novelty :: real
  b_bias :: real
  b_version :: string

definition V1_BETAS :: risk_betas where
  "V1_BETAS = \<lparr>b_impact = fl (22 / 10), b_mutation = fl (16 / 10), b_scope = fl (13 / 10),
     b_fanout = fl (9 / 10), b_pii = fl (11 / 10), b_irreversibility = fl (14 / 10), b_tier = 1,
     b_novelty = 1 / 2, b_bias = - fl (34 / 10), b_version = ''v1''\<rparr>"

definition risk_weighted :: "risk_betas \<Rightarrow> risk_features \<Rightarrow> real" where
  "risk_weighted b f =
     fl (fl (fl (fl (fl (fl (fl (fl (fl (b_impact b * rf_impact f)
       + fl (b_mutation b * rf_mutation f))
       + fl (b_scope b * rf_scope f))
       + fl (b_fanout b * rf_fanout f))
       + fl (b_pii b * rf_pii f))
       + fl (b_irreversibility b * rf_irreversibility f))
       + fl (b_tier b * rf_tier f))
       + fl (b_novelty b * rf_novelty f))
       + b_bias b)"

definition sigmoid :: "real \<Rightarrow> real" where
  "sigmoid z =
     (if 0 \<le> z then fl (1 / fl (1 + py_exp (- z)))
      else let e = py_exp z in fl (e / fl (1 + e)))"

definition features_dump :: "risk_features \<Rightarrow> (string \<times> real) list" where
  "features_dump f =
     [(''impact_declared'', rf_impact f), (''mutation_type'', rf_mutation f), (''scope'', rf_scope f),
      (''graph_fanout'', rf_fanout f), (''pii_class'', rf_pii f),
      (''irreversibility'', rf_irreversibility f), (''source_tier_risk'', rf_tier f),
      (''novelty'', rf_novelty f)]"

definition score_impact ::
    "risk_features \<Rightarrow> impact_level \<Rightarrow> string list \<Rightarrow> risk_betas \<Rightarrow> exn + risk_verdict" where
  "score_impact f level obligations betas =
     mk_risk_verdict \<lparr>rv_level = level,
       rv_risk = max (sigmoid (risk_weighted betas f)) (risk_floor level),
       rv_features = features_dump f, rv_obligations = obligations\<rparr>"

lemma py_exp_unit: "z \<le> 0 \<Longrightarrow> in_unit (py_exp z)"
  unfolding py_exp_def by (intro fl.rnd_unit) (simp add: in_unit_def)

lemma sigmoid_nonneg_arg:
  assumes "0 \<le> z"
  shows "1 / 2 \<le> sigmoid z" and "sigmoid z \<le> 1"
proof -
  let ?d = "fl (1 + py_exp (- z))"
  have e: "in_unit (py_exp (- z))" using assms by (intro py_exp_unit) simp
  have "1 \<le> ?d" by (rule fl.rnd_ge_rep) (use in_unitD(1) [OF e] in auto)
  moreover have "?d \<le> 2"
    by (rule fl.rnd_le_rep) (use in_unitD(2) [OF e] fl_of_int [of 2] in auto)
  ultimately have "1 / 2 \<le> 1 / ?d" and "1 / ?d \<le> 1" by (simp_all add: field_simps)
  then have "1 / 2 \<le> fl (1 / ?d)" and "fl (1 / ?d) \<le> 1"
    using fl.rnd_ge_rep [OF fl_half, of "1 / ?d"] fl.rnd_le_one [of "1 / ?d"] by auto
  then show "1 / 2 \<le> sigmoid z" and "sigmoid z \<le> 1" using assms by (simp_all add: sigmoid_def)
qed

lemma sigmoid_neg_arg:
  assumes "z < 0"
  shows "0 \<le> sigmoid z" and "sigmoid z \<le> 1 / 2"
proof -
  let ?e = "py_exp z" and ?d = "fl (1 + py_exp z)"
  have e: "0 \<le> ?e" "?e \<le> 1" using py_exp_unit [of z] assms by (auto simp: in_unit_def)
  have dbl: "is_double ?e" by (simp add: py_exp_def)
  have d: "1 \<le> ?d" by (rule fl.rnd_ge_rep) (use e in auto)
  have "2 * ?e \<le> ?d" by (rule fl.rnd_ge_rep) (use e dbl in \<open>auto simp: fl_twice\<close>)
  with d have "?e / ?d \<le> 1 / 2" by (simp add: field_simps)
  then have "fl (?e / ?d) \<le> 1 / 2" by (rule fl.rnd_le_rep [OF fl_half])
  then show "sigmoid z \<le> 1 / 2" using assms by (simp add: sigmoid_def Let_def)
  have "0 \<le> fl (?e / ?d)" using e d by (intro fl.rnd_nonneg) simp
  then show "0 \<le> sigmoid z" using assms by (simp add: sigmoid_def Let_def)
qed

lemma sigmoid_unit [simp, range_simps]: "in_unit (sigmoid z)"
  using sigmoid_nonneg_arg [of z] sigmoid_neg_arg [of z] by (cases "0 \<le> z") (auto simp: in_unit_def)

lemma sigmoid_mono_upper:
  assumes "z \<le> z'" and "0 \<le> z'"
  shows "sigmoid z \<le> sigmoid z'"
proof (cases "0 \<le> z")
  case True
  have "py_exp (- z') \<le> py_exp (- z)" using assms unfolding py_exp_def by (intro fl.rnd_mono) simp
  then have le: "fl (1 + py_exp (- z')) \<le> fl (1 + py_exp (- z))" by (intro fl.rnd_mono) simp
  have "1 \<le> fl (1 + py_exp (- z'))"
    by (rule fl.rnd_ge_rep) (use in_unitD(1) [OF py_exp_unit, of "- z'"] assms in auto)
  with le have "fl (1 / fl (1 + py_exp (- z))) \<le> fl (1 / fl (1 + py_exp (- z')))"
    by (intro fl.rnd_mono) (simp add: frac_le)
  with True assms show ?thesis by (simp add: sigmoid_def)
next
  case False
  then show ?thesis using sigmoid_neg_arg(2) [of z] sigmoid_nonneg_arg(1) [OF assms(2)] by simp
qed

definition features_le :: "risk_features \<Rightarrow> risk_features \<Rightarrow> bool" where
  "features_le f g \<longleftrightarrow>
     rf_impact f \<le> rf_impact g \<and> rf_mutation f \<le> rf_mutation g \<and> rf_scope f \<le> rf_scope g \<and>
     rf_fanout f \<le> rf_fanout g \<and> rf_pii f \<le> rf_pii g \<and>
     rf_irreversibility f \<le> rf_irreversibility g \<and> rf_tier f \<le> rf_tier g \<and> rf_novelty f \<le> rf_novelty g"

definition betas_nonneg :: "risk_betas \<Rightarrow> bool" where
  "betas_nonneg b \<longleftrightarrow>
     0 \<le> b_impact b \<and> 0 \<le> b_mutation b \<and> 0 \<le> b_scope b \<and> 0 \<le> b_fanout b \<and> 0 \<le> b_pii b \<and>
     0 \<le> b_irreversibility b \<and> 0 \<le> b_tier b \<and> 0 \<le> b_novelty b"

lemma V1_betas_nonneg: "betas_nonneg V1_BETAS"
  by (auto simp: betas_nonneg_def V1_BETAS_def intro!: fl.rnd_nonneg)

lemma risk_weighted_wsum:
  "risk_weighted b f =
     fl (wsum fl (fl (b_impact b * rf_impact f))
       [(b_mutation b, rf_mutation f), (b_scope b, rf_scope f), (b_fanout b, rf_fanout f),
        (b_pii b, rf_pii f), (b_irreversibility b, rf_irreversibility f), (b_tier b, rf_tier f),
        (b_novelty b, rf_novelty f)] + b_bias b)"
  by (simp add: risk_weighted_def)

lemma risk_weighted_mono:
  assumes "betas_nonneg b" and "features_le f g"
  shows "risk_weighted b f \<le> risk_weighted b g"
  unfolding risk_weighted_wsum
  using assms
  by (intro fl.rnd_mono add_right_mono fl.wsum_mono fl.prod_mono)
     (simp_all add: betas_nonneg_def features_le_def)

lemma risk_in_unit [range_simps]: "in_unit (max (sigmoid z) (risk_floor l))"
  using sigmoid_unit [of z] risk_floor_unit [of l]
  by (auto simp: in_unit_def simp del: sigmoid_unit risk_floor_unit)

lemma score_impact_Inr:
  "score_impact f l obs b = Inr v \<longleftrightarrow>
     (\<forall>x \<in> set obs. x \<in> set known_obligations) \<and>
     v = \<lparr>rv_level = l, rv_risk = max (sigmoid (risk_weighted b f)) (risk_floor l),
          rv_features = features_dump f, rv_obligations = obs\<rparr>"
  using risk_in_unit by (auto simp: score_impact_def mk_risk_verdict_def risk_verdict_ok_def)

section \<open>Properties\<close>

text \<open>
  C36. The risk score always comes out, lies in [0, 1] and never falls below the floor of the
  predicate's declared impact, whatever the coefficients are; the only refusal is an
  obligation outside the vocabulary.
\<close>

theorem risk_bounded_by_floor:
  "(case score_impact f level obligations betas of
      Inl e \<Rightarrow> e = ValueError \<and> \<not> set obligations \<subseteq> set known_obligations
    | Inr v \<Rightarrow> in_unit (rv_risk v) \<and> risk_floor level \<le> rv_risk v \<and> rv_level v = level
        \<and> set obligations \<subseteq> set known_obligations)"
proof (cases "set obligations \<subseteq> set known_obligations")
  case True
  let ?r = "max (sigmoid (risk_weighted betas f)) (risk_floor level)"
  from True have "score_impact f level obligations betas =
      Inr \<lparr>rv_level = level, rv_risk = ?r, rv_features = features_dump f, rv_obligations = obligations\<rparr>"
    by (auto simp: score_impact_Inr)
  then show ?thesis using True risk_in_unit by simp
next
  case False
  then show ?thesis by (auto simp: score_impact_def mk_risk_verdict_def risk_verdict_ok_def)
qed

text \<open>
  Raising any risk feature cannot lower the risk once the raised features reach the upper
  half of the logistic curve: with non-negative coefficients and a non-negative linear score
  on the riskier side, the float64 risk is monotone.
\<close>

theorem risk_monotone:
  assumes "betas_nonneg b" and "features_le f g" and "0 \<le> risk_weighted b g"
    and "score_impact f level obs b = Inr v" and "score_impact g level obs b = Inr v'"
  shows "rv_risk v \<le> rv_risk v'"
proof -
  have "sigmoid (risk_weighted b f) \<le> sigmoid (risk_weighted b g)"
    using assms(1-3) by (intro sigmoid_mono_upper risk_weighted_mono)
  with assms(4,5) show ?thesis by (auto simp: score_impact_Inr)
qed

theorem risk_monotone_witness:
  "\<exists>v v'. score_impact \<lparr>rf_impact = 0, rf_mutation = 0, rf_scope = 1, rf_fanout = 0, rf_pii = 0,
        rf_irreversibility = 0, rf_tier = 0, rf_novelty = 0\<rparr> LOW []
        \<lparr>b_impact = 1, b_mutation = 0, b_scope = 0, b_fanout = 0, b_pii = 0, b_irreversibility = 0,
         b_tier = 0, b_novelty = 0, b_bias = 0, b_version = ''t''\<rparr> = Inr v
     \<and> score_impact \<lparr>rf_impact = 1, rf_mutation = 0, rf_scope = 1, rf_fanout = 0, rf_pii = 0,
        rf_irreversibility = 0, rf_tier = 0, rf_novelty = 0\<rparr> LOW []
        \<lparr>b_impact = 1, b_mutation = 0, b_scope = 0, b_fanout = 0, b_pii = 0, b_irreversibility = 0,
         b_tier = 0, b_novelty = 0, b_bias = 0, b_version = ''t''\<rparr> = Inr v'
     \<and> rv_risk v \<le> rv_risk v'"
proof -
  let ?b = "\<lparr>b_impact = 1, b_mutation = 0, b_scope = 0, b_fanout = 0, b_pii = 0, b_irreversibility = 0,
     b_tier = 0, b_novelty = 0, b_bias = 0, b_version = ''t''\<rparr>"
  let ?f = "\<lparr>rf_impact = 0, rf_mutation = 0, rf_scope = 1, rf_fanout = 0, rf_pii = 0,
     rf_irreversibility = 0, rf_tier = 0, rf_novelty = 0\<rparr>"
  let ?g = "\<lparr>rf_impact = 1, rf_mutation = 0, rf_scope = 1, rf_fanout = 0, rf_pii = 0,
     rf_irreversibility = 0, rf_tier = 0, rf_novelty = 0\<rparr>"
  have b: "betas_nonneg ?b" and fg: "features_le ?f ?g" and z: "0 \<le> risk_weighted ?b ?g"
    by (simp_all add: betas_nonneg_def features_le_def risk_weighted_def)
  obtain v v' where v: "score_impact ?f LOW [] ?b = Inr v" "score_impact ?g LOW [] ?b = Inr v'"
    by (auto simp: score_impact_Inr)
  with risk_monotone [OF b fg z v] show ?thesis by blast
qed

text \<open>
  The fan-out feature is monotone in the degree, 0 for an isolated entity and saturates at
  exactly 1 from fifty dependants on; a negative degree is refused.
\<close>

theorem fanout_saturates:
  "(d < 0 \<longrightarrow> graph_fanout d = Inl ValueError) \<and> graph_fanout 0 = Inr 0 \<and>
   (FANOUT_SATURATION \<le> d \<longrightarrow> graph_fanout d = Inr 1) \<and>
   (0 \<le> d \<and> d \<le> d' \<longrightarrow> (\<exists>x y. graph_fanout d = Inr x \<and> graph_fanout d' = Inr y \<and>
      0 \<le> x \<and> x \<le> y \<and> y \<le> 1))"
proof -
  have "fanout_value d = 1" if "FANOUT_SATURATION \<le> d"
  proof -
    have "1 \<le> fanout_value d"
      using fanout_value_mono [OF _ that] fanout_value_50 by (simp add: FANOUT_SATURATION_def)
    then show ?thesis by (simp add: fanout_value_def)
  qed
  then show ?thesis
    using fanout_value_mono [of d d'] fanout_value_unit [of d] fanout_value_unit [of d']
    by (auto simp: graph_fanout_def fanout_value_0 in_unit_def FANOUT_SATURATION_def)
qed

theorem fanout_saturates_witness:
  "graph_fanout (-1) = Inl ValueError \<and> graph_fanout 60 = Inr 1 \<and>
   (\<exists>x y. graph_fanout 3 = Inr x \<and> graph_fanout 7 = Inr y \<and> 0 \<le> x \<and> x \<le> y \<and> y \<le> 1)"
  using fanout_saturates [of "-1" 0] fanout_saturates [of 60 60] fanout_saturates [of 3 7]
  by (simp add: FANOUT_SATURATION_def)

end
