(* ===== verification/Decision.thy ===== *)
theory Decision
  imports Impact "HOL-Library.Multiset"
begin

text \<open>
  \<open>pipeline/l3_score/overrides.py\<close> and \<open>decision.py\<close>: the decision matrix, the seven hard
  overrides and \<open>decide\<close>. The interface \<open>tightening\<close> states what makes overrides compose: a
  join that takes the stricter of two decisions by an injective rank. Its lemmas (never relax,
  order does not matter) are proved once and interpreted on the code's \<open>tighten\<close>.
\<close>

section \<open>Overrides\<close>

definition PERMISSIVENESS :: "decision list" where
  "PERMISSIVENESS = [AUTO_WRITE, ESCALATE, HITL_REVIEW, REJECT]"

definition HIGH_IMPACT :: "impact_level list" where
  "HIGH_IMPACT = [HIGH, CRITICAL]"

abbreviation strictness :: "decision \<Rightarrow> nat" where
  "strictness d \<equiv> index_of d PERMISSIVENESS"

definition tighten :: "decision \<Rightarrow> decision \<Rightarrow> decision" where
  \<comment> \<open>\<open>max(current, proposed, key=_PERMISSIVENESS.index)\<close>: the first of two equal keys\<close>
  "tighten current proposed =
     (if strictness current < strictness proposed then proposed else current)"

record override_signals =
  os_injection :: bool
  os_tier :: source_tier
  os_mutation :: mutation_type
  os_requires_corroboration :: bool
  os_budget_exhausted :: bool
  os_circuit_open :: bool
  os_policy_version :: string

definition rules ::
    "risk_verdict \<Rightarrow> conflict_report \<Rightarrow> override_signals \<Rightarrow> bool \<Rightarrow> bool
     \<Rightarrow> (string \<times> bool \<times> decision) list" where
  "rules risk conflict signals already_escalated corroborated =
     [(''OVR_INJECTION_DETECTED'', os_injection signals, REJECT),
      (''OVR_WEB_SOURCE_HIGH_IMPACT'',
         os_tier signals = RETRIEVED_WEB \<and> rv_level risk \<in> set HIGH_IMPACT, HITL_REVIEW),
      (''OVR_CORROBORATION_REQUIRED'',
         os_requires_corroboration signals \<and> \<not> corroborated, HITL_REVIEW),
      (''OVR_CONFLICT_HINT_ESCALATE'', cr_hint conflict = Escalate,
         if already_escalated then HITL_REVIEW else ESCALATE),
      (''OVR_BUDGET_OR_CIRCUIT'', os_budget_exhausted signals \<or> os_circuit_open signals, HITL_REVIEW),
      (''OVR_POLICY_REQUIRE_REVIEW'',
         obligation_value REQUIRE_REVIEW \<in> set (rv_obligations risk), HITL_REVIEW),
      (''OVR_CRITICAL_RETRACTION_STEP_UP'',
         rv_level risk = CRITICAL \<and> os_mutation signals = MUT_RETRACT, HITL_REVIEW)]"

fun run_rules ::
    "decision \<Rightarrow> string list \<Rightarrow> (string \<times> bool \<times> decision) list \<Rightarrow> decision \<times> string list" where
  "run_rules d codes [] = (d, codes)"
| "run_rules d codes ((c, fires, proposed) # rs) =
     (if fires then run_rules (tighten d proposed) (codes @ [c]) rs else run_rules d codes rs)"

definition apply_overrides ::
    "decision \<Rightarrow> risk_verdict \<Rightarrow> conflict_report \<Rightarrow> override_signals \<Rightarrow> bool \<Rightarrow> bool
     \<Rightarrow> decision \<times> string list" where
  "apply_overrides d risk conflict signals already_escalated corroborated =
     run_rules d [] (rules risk conflict signals already_escalated corroborated)"

section \<open>The matrix\<close>

definition CORROBORATED :: real where
  "CORROBORATED = corroboration_score 2"

definition C_BANDS :: "string list" where
  "C_BANDS = [''C_BELOW_TAU_LO'', ''C_IN_TAU_LO_BAND'', ''C_IN_TAU_MID_BAND'', ''C_AT_OR_ABOVE_TAU_HI'']"

definition R_BANDS :: "string list" where
  "R_BANDS = [''R_BELOW_RHO_LO'', ''R_IN_RHO_BAND'', ''R_AT_OR_ABOVE_RHO_HI'']"

definition MATRIX :: "decision option list list" where
  "MATRIX =
     [[Some REJECT, Some REJECT, Some HITL_REVIEW],
      [Some ESCALATE, Some ESCALATE, Some HITL_REVIEW],
      [Some AUTO_WRITE, Some HITL_REVIEW, Some HITL_REVIEW],
      [Some AUTO_WRITE, None, Some HITL_REVIEW]]"

definition confidence_band :: "real \<Rightarrow> thresholds \<Rightarrow> nat" where
  "confidence_band c t =
     (if tau_hi t \<le> c then 3 else if tau_mid t \<le> c then 2 else if tau_lo t \<le> c then 1 else 0)"

definition risk_band :: "real \<Rightarrow> thresholds \<Rightarrow> nat" where
  "risk_band r t = (if rho_hi t \<le> r then 2 else if rho_lo t \<le> r then 1 else 0)"

definition from_matrix :: "nat \<Rightarrow> nat \<Rightarrow> bool \<Rightarrow> decision \<times> string list" where
  "from_matrix cb rb corroborated =
     (let codes = [C_BANDS ! cb, R_BANDS ! rb] in
      case MATRIX ! cb ! rb of
        Some cell \<Rightarrow> (cell, codes)
      | None \<Rightarrow> if corroborated then (AUTO_WRITE, codes)
                else (HITL_REVIEW, codes @ [''CORROBORATION_BELOW_TWO'']))"

definition decide ::
    "confidence_report \<Rightarrow> risk_verdict \<Rightarrow> conflict_report \<Rightarrow> thresholds \<Rightarrow> bool \<Rightarrow> override_signals
     \<Rightarrow> decision_record" where
  "decide conf risk conflict thresholds already_escalated signals =
     (let cb = confidence_band (cf_confidence conf) thresholds;
          rb = risk_band (rv_risk risk) thresholds;
          corroborated = CORROBORATED \<le> cf_corroboration conf;
          (d, codes) = from_matrix cb rb corroborated;
          (d', override_codes) = apply_overrides d risk conflict signals already_escalated corroborated;
          codes' = codes @ override_codes;
          (d'', codes'') = (if already_escalated \<and> d' = ESCALATE
                            then (HITL_REVIEW, codes' @ [''ESCALATION_NOT_REPEATABLE''])
                            else (d', codes'))
      in \<lparr>dr_decision = d'', dr_codes = codes'', dr_confidence = conf, dr_risk = risk,
          dr_conflict = conflict, dr_thresholds_version = th_version thresholds,
          dr_policy_version = os_policy_version signals,
          dr_escalated_from = (if already_escalated then Some ESCALATE else None)\<rparr>)"

section \<open>Composing restrictions\<close>

locale tightening =
  fixes join :: "'d \<Rightarrow> 'd \<Rightarrow> 'd" and rank :: "'d \<Rightarrow> nat"
  assumes rank_join: "rank (join a b) = max (rank a) (rank b)"
    and rank_inj: "rank a = rank b \<Longrightarrow> a = b"
begin

lemma join_assoc: "join (join a b) c = join a (join b c)"
  by (rule rank_inj) (simp add: rank_join max.assoc)

lemma join_commute: "join a b = join b a"
  by (rule rank_inj) (simp add: rank_join max.commute)

lemma join_left_commute: "join (join d a) b = join (join d b) a"
  by (rule rank_inj) (simp add: rank_join max.assoc max.commute max.left_commute)

lemma join_idem: "join a a = a"
  by (rule rank_inj) (simp add: rank_join)

lemma rank_fold: "rank (fold (\<lambda>p d. join d p) ps d) = Max (insert (rank d) (rank ` set ps))"
proof (induction ps arbitrary: d)
  case (Cons p ps)
  have "insert (max (rank d) (rank p)) (rank ` set ps) = insert (max (rank d) (rank p)) (rank ` set ps)" ..
  have "Max (insert (max (rank d) (rank p)) (rank ` set ps)) =
        Max (insert (rank d) (insert (rank p) (rank ` set ps)))"
    by (cases "set ps = {}") (simp_all add: max.assoc)
  with Cons.IH [of "join d p"] show ?case by (simp add: rank_join)
qed simp

lemma never_relaxes: "rank d \<le> rank (fold (\<lambda>p d. join d p) ps d)"
  by (simp add: rank_fold)

lemma order_irrelevant: "set ps = set qs \<Longrightarrow> fold (\<lambda>p d. join d p) ps d = fold (\<lambda>p d. join d p) qs d"
  by (rule rank_inj) (simp add: rank_fold)

lemma absorbing: "p \<in> set ps \<Longrightarrow> rank p \<le> rank (fold (\<lambda>p d. join d p) ps d)"
  by (simp add: rank_fold)

lemma fold_least:
  "rank d \<le> n \<Longrightarrow> \<forall>p \<in> set ps. rank p \<le> n \<Longrightarrow> rank (fold (\<lambda>p d. join d p) ps d) \<le> n"
  by (simp add: rank_fold)

end

lemma strictness_simps [simp]:
  "strictness AUTO_WRITE = 0" "strictness ESCALATE = 1"
  "strictness HITL_REVIEW = 2" "strictness REJECT = 3"
  by (simp_all add: PERMISSIVENESS_def)

interpretation overrides: tightening tighten strictness
proof unfold_locales
  fix a b :: decision
  show "strictness (tighten a b) = max (strictness a) (strictness b)" by (simp add: tighten_def)
  show "strictness a = strictness b \<Longrightarrow> a = b" by (cases a; cases b) simp_all
qed

text \<open>The loop of \<open>apply_overrides\<close> is a fold of \<open>tighten\<close> over the rules that fire.\<close>

definition firing :: "(string \<times> bool \<times> decision) list \<Rightarrow> (string \<times> bool \<times> decision) list" where
  "firing rs = filter (\<lambda>(c, fires, p). fires) rs"

lemma run_rules_fold:
  "run_rules d codes rs =
     (fold (\<lambda>p d. tighten d p) (map (snd \<circ> snd) (firing rs)) d, codes @ map fst (firing rs))"
  by (induction d codes rs rule: run_rules.induct) (auto simp: firing_def)

lemma set_firing: "set (map (snd \<circ> snd) (firing rs)) = {p. \<exists>c. (c, True, p) \<in> set rs}"
  by (auto simp: firing_def image_iff) force+

definition matrix_decision :: "confidence_report \<Rightarrow> risk_verdict \<Rightarrow> thresholds \<Rightarrow> decision" where
  "matrix_decision conf risk t =
     fst (from_matrix (confidence_band (cf_confidence conf) t) (risk_band (rv_risk risk) t)
            (CORROBORATED \<le> cf_corroboration conf))"

definition proposals ::
    "confidence_report \<Rightarrow> risk_verdict \<Rightarrow> conflict_report \<Rightarrow> bool \<Rightarrow> override_signals \<Rightarrow> decision list" where
  "proposals conf risk conflict esc signals =
     map (snd \<circ> snd) (firing (rules risk conflict signals esc (CORROBORATED \<le> cf_corroboration conf)))"

definition overridden ::
    "confidence_report \<Rightarrow> risk_verdict \<Rightarrow> conflict_report \<Rightarrow> thresholds \<Rightarrow> bool \<Rightarrow> override_signals \<Rightarrow> decision" where
  "overridden conf risk conflict t esc signals =
     fold (\<lambda>p d. tighten d p) (proposals conf risk conflict esc signals) (matrix_decision conf risk t)"

lemma decide_decision:
  "dr_decision (decide conf risk conflict t esc signals) =
     (let d = overridden conf risk conflict t esc signals in
      if esc \<and> d = ESCALATE then HITL_REVIEW else d)"
  by (simp add: decide_def apply_overrides_def run_rules_fold overridden_def proposals_def
      matrix_decision_def Let_def split: prod.split)

lemma confidence_band_cases:
  "confidence_band c t \<in> {0, 1, 2, 3}" "risk_band r t \<in> {0, 1, 2}"
  by (simp_all add: confidence_band_def risk_band_def)

definition matrix_allows :: "confidence_report \<Rightarrow> risk_verdict \<Rightarrow> thresholds \<Rightarrow> bool" where
  "matrix_allows conf risk t \<longleftrightarrow>
     tau_mid t \<le> cf_confidence conf \<and> rv_risk risk < rho_lo t
     \<or> tau_hi t \<le> cf_confidence conf \<and> rv_risk risk < rho_hi t \<and> CORROBORATED \<le> cf_corroboration conf"

lemma matrix_auto_write:
  assumes "thresholds_ok t"
  shows "matrix_decision conf risk t = AUTO_WRITE \<longleftrightarrow> matrix_allows conf risk t"
  using assms
  by (auto simp: matrix_decision_def matrix_allows_def from_matrix_def confidence_band_def risk_band_def
      MATRIX_def thresholds_ok_def Let_def)

definition no_override :: "confidence_report \<Rightarrow> risk_verdict \<Rightarrow> conflict_report \<Rightarrow> override_signals \<Rightarrow> bool" where
  "no_override conf risk conflict signals \<longleftrightarrow>
     \<not> os_injection signals \<and>
     \<not> (os_tier signals = RETRIEVED_WEB \<and> rv_level risk \<in> {HIGH, CRITICAL}) \<and>
     (os_requires_corroboration signals \<longrightarrow> CORROBORATED \<le> cf_corroboration conf) \<and>
     cr_hint conflict \<noteq> Escalate \<and>
     \<not> os_budget_exhausted signals \<and> \<not> os_circuit_open signals \<and>
     ''require_review'' \<notin> set (rv_obligations risk) \<and>
     \<not> (rv_level risk = CRITICAL \<and> os_mutation signals = MUT_RETRACT)"

lemma firing_Nil: "firing rs = [] \<longleftrightarrow> (\<forall>(c, fires, p) \<in> set rs. \<not> fires)"
  by (auto simp: firing_def filter_empty_conv)

lemma proposals_Nil: "proposals conf risk conflict esc signals = [] \<longleftrightarrow> no_override conf risk conflict signals"
  by (simp add: proposals_def firing_Nil rules_def no_override_def HIGH_IMPACT_def)

lemma rules_strict: "\<forall>(c, fires, p) \<in> set (rules risk conflict signals esc cor). 1 \<le> strictness p"
  by (simp add: rules_def)

lemma proposals_strict: "p \<in> set (proposals conf risk conflict esc signals) \<Longrightarrow> 1 \<le> strictness p"
  using rules_strict [of risk conflict signals esc "CORROBORATED \<le> cf_corroboration conf"]
  by (auto simp: proposals_def firing_def)

lemma overridden_auto_write:
  "overridden conf risk conflict t esc signals = AUTO_WRITE \<longleftrightarrow>
     matrix_decision conf risk t = AUTO_WRITE \<and> no_override conf risk conflict signals"
proof
  assume aw: "overridden conf risk conflict t esc signals = AUTO_WRITE"
  then have z: "strictness (overridden conf risk conflict t esc signals) = 0" by simp
  then have "strictness (matrix_decision conf risk t) = 0"
    using overrides.never_relaxes [of "matrix_decision conf risk t" "proposals conf risk conflict esc signals"]
    by (simp add: overridden_def)
  then have m: "matrix_decision conf risk t = AUTO_WRITE" by (intro overrides.rank_inj) simp
  have "proposals conf risk conflict esc signals = []"
  proof (rule ccontr)
    assume "proposals conf risk conflict esc signals \<noteq> []"
    then obtain p where p: "p \<in> set (proposals conf risk conflict esc signals)"
      by (meson last_in_set)
    with z overrides.absorbing [OF p, of "matrix_decision conf risk t"] proposals_strict [OF p]
    show False by (simp add: overridden_def)
  qed
  with m show "matrix_decision conf risk t = AUTO_WRITE \<and> no_override conf risk conflict signals"
    by (simp add: proposals_Nil)
qed (simp add: overridden_def proposals_Nil [THEN iffD2])

lemma run_rules_perm:
  assumes "mset rs = mset rs'"
  shows "fst (run_rules d codes rs) = fst (run_rules d codes rs')"
    and "mset (snd (run_rules d codes rs)) = mset (snd (run_rules d codes rs'))"
proof -
  have f: "mset (firing rs) = mset (firing rs')"
    unfolding firing_def by (metis assms mset_filter)
  then have "set (map (snd \<circ> snd) (firing rs)) = set (map (snd \<circ> snd) (firing rs'))"
    by (metis mset_eq_setD mset_map)
  then show "fst (run_rules d codes rs) = fst (run_rules d codes rs')"
    unfolding run_rules_fold fst_conv by (rule overrides.order_irrelevant)
  show "mset (snd (run_rules d codes rs)) = mset (snd (run_rules d codes rs'))"
    using f by (simp add: run_rules_fold)
qed

lemma overridden_absorbing:
  "p \<in> set (proposals conf risk conflict esc signals) \<Longrightarrow>
     strictness p \<le> strictness (overridden conf risk conflict t esc signals)"
  unfolding overridden_def by (rule overrides.absorbing)

lemma proposed:
  assumes "(c, fires, p) \<in> set (rules risk conflict signals esc (CORROBORATED \<le> cf_corroboration conf))"
    and fires
  shows "p \<in> set (proposals conf risk conflict esc signals)"
proof -
  from assms have "(c, True, p) \<in> set (rules risk conflict signals esc (CORROBORATED \<le> cf_corroboration conf))"
    by (simp only: simp_thms)
  then show ?thesis unfolding proposals_def set_firing by blast
qed

lemma injection_proposed:
  "os_injection signals \<Longrightarrow> REJECT \<in> set (proposals conf risk conflict esc signals)"
  by (rule proposed [of "''OVR_INJECTION_DETECTED''" "os_injection signals"]) (simp_all add: rules_def)

lemma corroboration_proposed:
  "os_requires_corroboration signals \<and> \<not> CORROBORATED \<le> cf_corroboration conf \<Longrightarrow>
     HITL_REVIEW \<in> set (proposals conf risk conflict esc signals)"
  by (rule proposed [of "''OVR_CORROBORATION_REQUIRED''"
        "os_requires_corroboration signals \<and> \<not> CORROBORATED \<le> cf_corroboration conf"])
     (simp_all add: rules_def)

lemma capacity_proposed:
  "os_budget_exhausted signals \<or> os_circuit_open signals \<Longrightarrow>
     HITL_REVIEW \<in> set (proposals conf risk conflict esc signals)"
  by (rule proposed [of "''OVR_BUDGET_OR_CIRCUIT''" "os_budget_exhausted signals \<or> os_circuit_open signals"])
     (simp_all add: rules_def)

lemma strictness_REJECT: "3 \<le> strictness d \<Longrightarrow> d = REJECT"
  by (cases d) simp_all

section \<open>Properties\<close>

text \<open>
  C1. The exact condition for an automatic write. A candidate is written without review exactly
  when the matrix allows it (risk below the band and middling confidence, or risk below the
  upper cut with high confidence and corroboration) and none of the seven overrides applies;
  whether it was escalated before makes no difference.
\<close>

theorem auto_write_iff:
  assumes "thresholds_ok t"
  shows "dr_decision (decide conf risk conflict t esc signals) = AUTO_WRITE \<longleftrightarrow>
    (tau_mid t \<le> cf_confidence conf \<and> rv_risk risk < rho_lo t
      \<or> tau_hi t \<le> cf_confidence conf \<and> rv_risk risk < rho_hi t \<and> CORROBORATED \<le> cf_corroboration conf)
    \<and> \<not> os_injection signals
    \<and> \<not> (os_tier signals = RETRIEVED_WEB \<and> rv_level risk \<in> {HIGH, CRITICAL})
    \<and> (os_requires_corroboration signals \<longrightarrow> CORROBORATED \<le> cf_corroboration conf)
    \<and> cr_hint conflict \<noteq> Escalate
    \<and> \<not> os_budget_exhausted signals \<and> \<not> os_circuit_open signals
    \<and> ''require_review'' \<notin> set (rv_obligations risk)
    \<and> \<not> (rv_level risk = CRITICAL \<and> os_mutation signals = MUT_RETRACT)"
proof -
  have "dr_decision (decide conf risk conflict t esc signals) = AUTO_WRITE \<longleftrightarrow>
      overridden conf risk conflict t esc signals = AUTO_WRITE"
    by (auto simp: decide_decision Let_def)
  also have "\<dots> \<longleftrightarrow> matrix_allows conf risk t \<and> no_override conf risk conflict signals"
    by (simp add: overridden_auto_write matrix_auto_write [OF assms])
  finally show ?thesis by (simp add: matrix_allows_def no_override_def)
qed

theorem auto_write_iff_witness:
  "dr_decision (decide
     \<lparr>cf_entropy = 0, cf_grounding = 1, cf_schema_fit = 1, cf_corroboration = 0, cf_consistency = 1,
      cf_confidence = 3 / 4, cf_weights_version = ''v1''\<rparr>
     \<lparr>rv_level = LOW, rv_risk = 1 / 8, rv_features = [], rv_obligations = []\<rparr>
     \<lparr>cr_kind = KIND_NONE, cr_incumbent = None, cr_entailment = 0, cr_contradiction = 0, cr_cosine = 0,
      cr_hint = Coexist\<rparr>
     \<lparr>tau_lo = 1 / 4, tau_mid = 1 / 2, tau_hi = 7 / 8, rho_lo = 1 / 4, rho_hi = 1 / 2, th_version = ''t''\<rparr>
     False
     \<lparr>os_injection = False, os_tier = VERIFIED_USER, os_mutation = MUT_COEXIST,
      os_requires_corroboration = False, os_budget_exhausted = False, os_circuit_open = False,
      os_policy_version = ''none''\<rparr>) = AUTO_WRITE"
  by (subst auto_write_iff) (simp_all add: thresholds_ok_def in_unit_def)

text \<open>
  C2. Overrides compose and never relax: whatever list of rules runs, in whatever order, the
  result is the same, it is at least as strict as the matrix's answer and as every rule that
  fires, and the same reason codes are recorded.
\<close>

theorem overrides_never_relax:
  assumes "mset rs' = mset rs"
  shows "fst (run_rules d codes rs') = fst (run_rules d codes rs)
    \<and> mset (snd (run_rules d codes rs')) = mset (snd (run_rules d codes rs))
    \<and> strictness d \<le> strictness (fst (run_rules d codes rs))
    \<and> (\<forall>c p. (c, True, p) \<in> set rs \<longrightarrow>
          strictness p \<le> strictness (fst (run_rules d codes rs)) \<and> c \<in> set (snd (run_rules d codes rs)))"
proof (intro conjI allI impI)
  show "fst (run_rules d codes rs') = fst (run_rules d codes rs)"
    and "mset (snd (run_rules d codes rs')) = mset (snd (run_rules d codes rs))"
    using run_rules_perm [OF assms] by simp_all
  show "strictness d \<le> strictness (fst (run_rules d codes rs))"
    unfolding run_rules_fold fst_conv by (rule overrides.never_relaxes)
  fix c p
  assume mem: "(c, True, p) \<in> set rs"
  then have "p \<in> set (map (snd \<circ> snd) (firing rs))" unfolding set_firing by blast
  then show "strictness p \<le> strictness (fst (run_rules d codes rs))"
    unfolding run_rules_fold fst_conv by (rule overrides.absorbing)
  have "(c, True, p) \<in> set (firing rs)" using mem by (simp add: firing_def)
  then show "c \<in> set (snd (run_rules d codes rs))"
    unfolding run_rules_fold snd_conv by (simp add: image_iff) force
qed

theorem overrides_never_relax_witness:
  "fst (run_rules AUTO_WRITE [] [(''b'', True, REJECT), (''a'', True, ESCALATE)]) =
     fst (run_rules AUTO_WRITE [] [(''a'', True, ESCALATE), (''b'', True, REJECT)])
   \<and> strictness REJECT \<le>
     strictness (fst (run_rules AUTO_WRITE [] [(''a'', True, ESCALATE), (''b'', True, REJECT)]))"
  using overrides_never_relax [of "[(''b'', True, REJECT), (''a'', True, ESCALATE)]"
      "[(''a'', True, ESCALATE), (''b'', True, REJECT)]" AUTO_WRITE "[]"]
  by simp

text \<open>
  C3. The hard stops. A confirmed injection is rejected whatever the scores say; an escalated
  candidate never escalates again; and an open circuit, an exhausted budget or an unmet
  corroboration requirement never lets the decision below human review.
\<close>

theorem hard_stops:
  "(os_injection signals \<longrightarrow> dr_decision (decide conf risk conflict t esc signals) = REJECT)
   \<and> (esc \<longrightarrow> dr_decision (decide conf risk conflict t esc signals) \<noteq> ESCALATE)
   \<and> (os_budget_exhausted signals \<or> os_circuit_open signals
        \<or> os_requires_corroboration signals \<and> cf_corroboration conf < CORROBORATED \<longrightarrow>
      dr_decision (decide conf risk conflict t esc signals) \<in> {HITL_REVIEW, REJECT})"
proof (intro conjI impI)
  let ?o = "overridden conf risk conflict t esc signals"
  show "dr_decision (decide conf risk conflict t esc signals) = REJECT" if "os_injection signals"
  proof -
    have "REJECT \<in> set (proposals conf risk conflict esc signals)"
      using that by (rule injection_proposed)
    from overridden_absorbing [OF this, of t] have "?o = REJECT" by (intro strictness_REJECT) simp
    then show ?thesis by (simp add: decide_decision)
  qed
  show "dr_decision (decide conf risk conflict t esc signals) \<noteq> ESCALATE" if esc
    using that by (simp add: decide_decision Let_def)
  show "dr_decision (decide conf risk conflict t esc signals) \<in> {HITL_REVIEW, REJECT}"
    if h: "os_budget_exhausted signals \<or> os_circuit_open signals
        \<or> os_requires_corroboration signals \<and> cf_corroboration conf < CORROBORATED"
  proof -
    from h have "HITL_REVIEW \<in> set (proposals conf risk conflict esc signals)"
      using capacity_proposed corroboration_proposed by (meson not_le)
    from overridden_absorbing [OF this, of t] have "2 \<le> strictness ?o" by simp
    then have "?o \<in> {HITL_REVIEW, REJECT}" by (cases ?o) simp_all
    then show ?thesis by (auto simp: decide_decision Let_def)
  qed
qed

theorem hard_stops_witness:
  "dr_decision (decide
     \<lparr>cf_entropy = 0, cf_grounding = 1, cf_schema_fit = 1, cf_corroboration = 0, cf_consistency = 1,
      cf_confidence = 1, cf_weights_version = ''v1''\<rparr>
     \<lparr>rv_level = LOW, rv_risk = 0, rv_features = [], rv_obligations = []\<rparr>
     \<lparr>cr_kind = KIND_NONE, cr_incumbent = None, cr_entailment = 0, cr_contradiction = 0, cr_cosine = 0,
      cr_hint = Coexist\<rparr>
     \<lparr>tau_lo = 1 / 4, tau_mid = 1 / 2, tau_hi = 7 / 8, rho_lo = 1 / 4, rho_hi = 1 / 2, th_version = ''t''\<rparr>
     True
     \<lparr>os_injection = True, os_tier = VERIFIED_USER, os_mutation = MUT_COEXIST,
      os_requires_corroboration = False, os_budget_exhausted = False, os_circuit_open = True,
      os_policy_version = ''none''\<rparr>) = REJECT"
  by (rule hard_stops [THEN conjunct1, rule_format]) simp

text \<open>
  C4. Automatic writes are monotone in the scores: a candidate that is written automatically
  still is with more confidence, more corroboration and less risk, everything else unchanged.
\<close>

theorem auto_write_monotone:
  assumes "thresholds_ok t"
    and "dr_decision (decide conf risk conflict t esc signals) = AUTO_WRITE"
    and "cf_confidence conf \<le> cf_confidence conf'" and "cf_corroboration conf \<le> cf_corroboration conf'"
    and "rv_risk risk' \<le> rv_risk risk" and "rv_level risk' = rv_level risk"
    and "set (rv_obligations risk') \<subseteq> set (rv_obligations risk)"
  shows "dr_decision (decide conf' risk' conflict t esc' signals) = AUTO_WRITE"
proof -
  have "matrix_allows conf risk t" and n: "no_override conf risk conflict signals"
    using assms(1,2) overridden_auto_write [of conf risk conflict t esc signals]
      matrix_auto_write [OF assms(1), of conf risk]
    by (auto simp: decide_decision Let_def split: if_splits)
  then have "matrix_allows conf' risk' t" using assms(3-5) by (auto simp: matrix_allows_def)
  moreover have "no_override conf' risk' conflict signals"
    using n assms(4,6,7) by (auto simp: no_override_def)
  ultimately have "overridden conf' risk' conflict t esc' signals = AUTO_WRITE"
    by (simp add: overridden_auto_write matrix_auto_write [OF assms(1)])
  then show ?thesis by (simp add: decide_decision Let_def)
qed

theorem auto_write_monotone_witness:
  "dr_decision (decide
     \<lparr>cf_entropy = 0, cf_grounding = 1, cf_schema_fit = 1, cf_corroboration = 0, cf_consistency = 1,
      cf_confidence = 1, cf_weights_version = ''v1''\<rparr>
     \<lparr>rv_level = LOW, rv_risk = 0, rv_features = [], rv_obligations = []\<rparr>
     \<lparr>cr_kind = KIND_NONE, cr_incumbent = None, cr_entailment = 0, cr_contradiction = 0, cr_cosine = 0,
      cr_hint = Coexist\<rparr>
     \<lparr>tau_lo = 1 / 4, tau_mid = 1 / 2, tau_hi = 7 / 8, rho_lo = 1 / 4, rho_hi = 1 / 2, th_version = ''t''\<rparr>
     True
     \<lparr>os_injection = False, os_tier = VERIFIED_USER, os_mutation = MUT_COEXIST,
      os_requires_corroboration = False, os_budget_exhausted = False, os_circuit_open = False,
      os_policy_version = ''none''\<rparr>) = AUTO_WRITE"
proof -
  let ?c = "\<lparr>cf_entropy = 0, cf_grounding = 1, cf_schema_fit = 1, cf_corroboration = 0, cf_consistency = 1,
      cf_confidence = 3 / 4, cf_weights_version = ''v1''\<rparr>"
  let ?r = "\<lparr>rv_level = LOW, rv_risk = 1 / 8, rv_features = [], rv_obligations = []\<rparr>"
  let ?k = "\<lparr>cr_kind = KIND_NONE, cr_incumbent = None, cr_entailment = 0, cr_contradiction = 0, cr_cosine = 0,
      cr_hint = Coexist\<rparr>"
  let ?t = "\<lparr>tau_lo = 1 / 4, tau_mid = 1 / 2, tau_hi = 7 / 8, rho_lo = 1 / 4, rho_hi = 1 / 2, th_version = ''t''\<rparr>"
  let ?s = "\<lparr>os_injection = False, os_tier = VERIFIED_USER, os_mutation = MUT_COEXIST,
      os_requires_corroboration = False, os_budget_exhausted = False, os_circuit_open = False,
      os_policy_version = ''none''\<rparr>"
  have t: "thresholds_ok ?t" by (simp add: thresholds_ok_def in_unit_def)
  have "overridden ?c ?r ?k ?t False ?s = AUTO_WRITE"
    unfolding overridden_auto_write matrix_auto_write [OF t]
    by (simp add: matrix_allows_def no_override_def)
  then have "dr_decision (decide ?c ?r ?k ?t False ?s) = AUTO_WRITE" by (simp add: decide_decision Let_def)
  from auto_write_monotone [OF t this] show ?thesis by simp
qed

text \<open>
  Blast radius bounds autonomy: with the risk that \<open>score_impact\<close> returns, a predicate whose
  declared impact has a floor at or above the upper risk cut is never written automatically,
  however confident the claim is.
\<close>

theorem floor_blocks_auto_write:
  assumes "thresholds_ok t" and "score_impact f level obs betas = Inr risk" and "rho_hi t \<le> risk_floor level"
  shows "dr_decision (decide conf risk conflict t esc signals) \<noteq> AUTO_WRITE"
proof -
  have "rho_hi t \<le> rv_risk risk" using assms(2,3) by (auto simp: score_impact_Inr)
  then have "\<not> matrix_allows conf risk t" using assms(1) by (auto simp: matrix_allows_def thresholds_ok_def)
  then show ?thesis
    using overridden_auto_write [of conf risk conflict t esc signals] matrix_auto_write [OF assms(1), of conf risk]
    by (auto simp: decide_decision Let_def)
qed

theorem floor_blocks_auto_write_witness:
  "\<exists>risk. score_impact \<lparr>rf_impact = 1, rf_mutation = 0, rf_scope = 0, rf_fanout = 0, rf_pii = 0,
        rf_irreversibility = 0, rf_tier = 0, rf_novelty = 0\<rparr> CRITICAL [] V1_BETAS = Inr risk
   \<and> dr_decision (decide
     \<lparr>cf_entropy = 0, cf_grounding = 1, cf_schema_fit = 1, cf_corroboration = 1, cf_consistency = 1,
      cf_confidence = 1, cf_weights_version = ''v1''\<rparr> risk
     \<lparr>cr_kind = KIND_NONE, cr_incumbent = None, cr_entailment = 0, cr_contradiction = 0, cr_cosine = 0,
      cr_hint = Coexist\<rparr>
     \<lparr>tau_lo = 1 / 4, tau_mid = 1 / 2, tau_hi = 7 / 8, rho_lo = 1 / 4, rho_hi = 1 / 2, th_version = ''t''\<rparr>
     False
     \<lparr>os_injection = False, os_tier = VERIFIED_USER, os_mutation = MUT_COEXIST,
      os_requires_corroboration = False, os_budget_exhausted = False, os_circuit_open = False,
      os_policy_version = ''none''\<rparr>) \<noteq> AUTO_WRITE"
proof -
  let ?t = "\<lparr>tau_lo = 1 / 4, tau_mid = 1 / 2, tau_hi = 7 / 8, rho_lo = 1 / 4, rho_hi = 1 / 2, th_version = ''t''\<rparr>"
  have "1 / 2 \<le> fl (80 / 100)" by (rule fl.rnd_ge_rep [OF fl_half]) simp
  then have le: "rho_hi ?t \<le> risk_floor CRITICAL" by simp
  have t: "thresholds_ok ?t" by (simp add: thresholds_ok_def in_unit_def)
  obtain risk where r: "score_impact \<lparr>rf_impact = 1, rf_mutation = 0, rf_scope = 0, rf_fanout = 0,
      rf_pii = 0, rf_irreversibility = 0, rf_tier = 0, rf_novelty = 0\<rparr> CRITICAL [] V1_BETAS = Inr risk"
    by (auto simp: score_impact_Inr)
  from floor_blocks_auto_write [OF t r le] r show ?thesis by blast
qed

end
