(* ===== verification/Prompts.thy ===== *)
theory Prompts
  imports Schemas
begin

text \<open>
  \<open>prompts/loader.py\<close> and \<open>prompts/canary.py\<close>: the flat frontmatter parser, the loader that
  pins a prompt file to its path, single-pass template substitution, and the canary check on
  model replies. The file system is a parameter \<open>read_prompt\<close>: the text of
  \<open>prompts/<name>/v<version>.md\<close>, \<open>None\<close> when there is no such file. The loader's cache is
  not modelled (the files are read-only at run time).
\<close>

datatype tier = FAST | BALANCED | FRONTIER

fun tier_of :: "string \<Rightarrow> tier option" where
  "tier_of s = (if s = ''fast'' then Some FAST else if s = ''balanced'' then Some BALANCED
     else if s = ''frontier'' then Some FRONTIER else None)"

record prompt_spec =
  pr_name :: string
  pr_version :: int
  pr_tier :: tier
  pr_output_schema :: string
  pr_changelog :: string

record rendered_prompt =
  rp_spec :: prompt_spec
  rp_text :: string
  rp_version_id :: string

section \<open>Substrings and the canary\<close>

fun occurs :: "string \<Rightarrow> string \<Rightarrow> bool" where
  \<comment> \<open>\<open>needle in hay\<close>\<close>
  "occurs needle [] = (needle = [])"
| "occurs needle (c # cs) = (startswith (c # cs) needle \<or> occurs needle cs)"

definition reject_echo :: "string \<Rightarrow> string list \<Rightarrow> exn + unit" where
  "reject_echo canary samples =
     (if \<exists>s \<in> set samples. occurs canary s then Inl (GM InjectionDetected) else Inr ())"

lemma occurs_iff: "occurs needle hay \<longleftrightarrow> (\<exists>us vs. hay = us @ needle @ vs)"
proof (induction hay)
  case (Cons c cs)
  have "startswith (c # cs) needle \<longleftrightarrow> (\<exists>vs. c # cs = needle @ vs)"
    unfolding startswith_def by (metis append_eq_conv_conj append_take_drop_id)
  moreover have "(\<exists>us vs. c # cs = us @ needle @ vs) \<longleftrightarrow>
      (\<exists>vs. c # cs = needle @ vs) \<or> (\<exists>us vs. cs = us @ needle @ vs)"
    by (metis append_Cons append_Nil list.inject neq_Nil_conv)
  ultimately show ?case using Cons.IH by simp
qed simp

section \<open>Frontmatter\<close>

definition is_line_break :: "char \<Rightarrow> bool" where
  \<comment> \<open>the separators of \<open>str.splitlines\<close> below 256\<close>
  "is_line_break c \<longleftrightarrow>
     (let n = code c in (10 \<le> n \<and> n \<le> 13) \<or> (28 \<le> n \<and> n \<le> 30) \<or> n = 133)"

fun splitlines_from :: "string \<Rightarrow> string \<Rightarrow> string list" where
  \<comment> \<open>the first argument is the line read so far, reversed\<close>
  "splitlines_from acc [] = (if acc = [] then [] else [rev acc])"
| "splitlines_from acc [c] =
     (if is_line_break c then [rev acc] else [rev (c # acc)])"
| "splitlines_from acc (c # d # cs) =
     (if code c = 13 \<and> code d = 10 then rev acc # splitlines_from [] cs
      else if is_line_break c then rev acc # splitlines_from [] (d # cs)
      else splitlines_from (c # acc) (d # cs))"

definition splitlines :: "string \<Rightarrow> string list" where
  "splitlines s = splitlines_from [] s"

definition newline :: string where
  "newline = [CHR 0x0A]"

definition FENCE :: string where
  "FENCE = ''---''"

definition split_frontmatter :: "string \<Rightarrow> exn + string \<times> string" where
  "split_frontmatter raw =
     (case splitlines raw of
        [] \<Rightarrow> Inl ValueError
      | l # ls \<Rightarrow>
          if strip l \<noteq> FENCE then Inl ValueError
          else let before = takeWhile (\<lambda>x. strip x \<noteq> FENCE) ls;
                   rest = dropWhile (\<lambda>x. strip x \<noteq> FENCE) ls
               in case rest of
                    [] \<Rightarrow> Inl ValueError
                  | _ # body \<Rightarrow> Inr (join newline before, strip (join newline body)))"

definition ident_start :: "char \<Rightarrow> bool" where
  "ident_start c \<longleftrightarrow> (97 \<le> code c \<and> code c \<le> 122) \<or> c = CHR ''_''"

definition ident_char :: "char \<Rightarrow> bool" where
  "ident_char c \<longleftrightarrow> ident_start c \<or> is_digit c"

definition frontmatter_line :: "string \<Rightarrow> (string \<times> string) option" where
  \<comment> \<open>the groups of \<open>_FRONTMATTER_LINE\<close>, the second one stripped\<close>
  "frontmatter_line line =
     (case line of
        [] \<Rightarrow> None
      | c # cs \<Rightarrow>
          if \<not> ident_start c then None
          else case dropWhile ident_char cs of
                 [] \<Rightarrow> None
               | d # rest \<Rightarrow>
                   if d = CHR '':'' then Some (c # takeWhile ident_char cs, strip rest) else None)"

definition unquote :: "string \<Rightarrow> string" where
  "unquote v =
     (if 2 \<le> length v \<and> hd v = last v \<and> (hd v = CHR 0x22 \<or> hd v = CHR 0x27)
      then butlast (tl v) else v)"

fun parse_lines :: "(string \<times> string) list \<Rightarrow> string list \<Rightarrow> exn + (string \<times> string) list" where
  "parse_lines entries [] = Inr entries"
| "parse_lines entries (l # ls) =
     (if strip l = [] then parse_lines entries ls
      else case frontmatter_line l of
             None \<Rightarrow> Inl ValueError
           | Some (key, v) \<Rightarrow>
               if key \<in> fst ` set entries then Inl ValueError
               else parse_lines (entries @ [(key, unquote v)]) ls)"

definition parse_frontmatter :: "string \<Rightarrow> exn + (string \<times> string) list" where
  "parse_frontmatter block = parse_lines [] (splitlines block)"

definition nat_of_digits :: "string \<Rightarrow> nat" where
  "nat_of_digits s = foldl (\<lambda>n c. 10 * n + (code c - 48)) 0 s"

definition spec_from :: "(string \<times> string) list \<Rightarrow> exn + prompt_spec" where
  \<comment> \<open>a non-numeric version is pydantic's to refuse; both ways it is a \<open>ValueError\<close>\<close>
  "spec_from entries =
     (if fst ` set entries \<noteq> {''name'', ''version'', ''tier'', ''output_schema'', ''changelog''}
      then Inl ValueError
      else
        let get = (\<lambda>k. case map_of entries k of Some v \<Rightarrow> v | None \<Rightarrow> []);
            version = get ''version''
        in case tier_of (get ''tier'') of
             None \<Rightarrow> Inl ValueError
           | Some t \<Rightarrow>
               if get ''name'' \<noteq> [] \<and> version \<noteq> [] \<and> (\<forall>c \<in> set version. is_digit c) \<and>
                  1 \<le> nat_of_digits version \<and> get ''output_schema'' \<noteq> [] \<and> get ''changelog'' \<noteq> []
               then Inr \<lparr>pr_name = get ''name'', pr_version = int (nat_of_digits version),
                         pr_tier = t, pr_output_schema = get ''output_schema'',
                         pr_changelog = get ''changelog''\<rparr>
               else Inl ValueError)"

section \<open>Loading and rendering\<close>

definition plain_name :: "string \<Rightarrow> bool" where
  "plain_name name \<longleftrightarrow>
     (case name of [] \<Rightarrow> False
      | c # cs \<Rightarrow> 97 \<le> code c \<and> code c \<le> 122 \<and> (\<forall>d \<in> set cs. ident_char d))"

definition prompt_name_ok :: "string \<Rightarrow> bool" where
  \<comment> \<open>\<open>_PROMPT_NAME\<close>; its \<open>$\<close> also matches before one trailing newline\<close>
  "prompt_name_ok name \<longleftrightarrow>
     plain_name name \<or> (name \<noteq> [] \<and> code (last name) = 10 \<and> plain_name (butlast name))"

type_synonym prompt_files = "string \<Rightarrow> int \<Rightarrow> string option"

definition load :: "prompt_files \<Rightarrow> string \<Rightarrow> int \<Rightarrow> exn + prompt_spec \<times> string" where
  "load read_prompt name version =
     (if \<not> prompt_name_ok name then Inl ValueError
      else if version < 1 then Inl ValueError
      else case read_prompt name version of
             None \<Rightarrow> Inl FileNotFoundError
           | Some raw \<Rightarrow>
               bindE (split_frontmatter raw) (\<lambda>(frontmatter, body).
               bindE (parse_frontmatter frontmatter) (\<lambda>entries.
               bindE (spec_from entries) (\<lambda>spec.
                 if pr_name spec \<noteq> name \<or> pr_version spec \<noteq> version then Inl ValueError
                 else if body = [] then Inl ValueError
                 else Inr (spec, body)))))"

definition placeholder :: "string \<Rightarrow> (string \<times> string) option" where
  \<comment> \<open>\<open>_PLACEHOLDER\<close> at the start of the text: the name and the text after the match\<close>
  "placeholder s =
     (if \<not> startswith s ''{{'' then None
      else case dropWhile is_space (drop 2 s) of
             [] \<Rightarrow> None
           | c # cs \<Rightarrow>
               if \<not> ident_start c then None
               else let rest = dropWhile is_space (dropWhile ident_char cs)
                    in if startswith rest ''}}'' then Some (c # takeWhile ident_char cs, drop 2 rest)
                       else None)"

lemma length_dropWhile_le': "length (dropWhile P xs) \<le> length xs"
  by (induction xs) auto

lemma placeholder_shorter: "placeholder s = Some (n, r) \<Longrightarrow> length r < length s"
proof -
  assume a: "placeholder s = Some (n, r)"
  then obtain c cs where d: "startswith s ''{{''" "dropWhile is_space (drop 2 s) = c # cs"
    and r: "r = drop 2 (dropWhile is_space (dropWhile ident_char cs))"
    by (auto simp: placeholder_def Let_def split: if_splits list.splits)
  have "length r \<le> length cs" unfolding r
    by (metis length_drop diff_le_self length_dropWhile_le' le_trans)
  moreover have "length (c # cs) \<le> length (drop 2 s)" by (metis d(2) length_dropWhile_le')
  ultimately show ?thesis by simp
qed

function pieces :: "string \<Rightarrow> (char + string) list" where
  \<comment> \<open>the scan of \<open>re.sub\<close> and \<open>re.findall\<close>: characters, and names at the matches\<close>
  "pieces [] = []"
| "pieces (c # cs) =
     (case placeholder (c # cs) of
        Some (n, rest) \<Rightarrow> Inr n # pieces rest
      | None \<Rightarrow> Inl c # pieces cs)"
  by pat_completeness auto
termination by (relation "measure length") (auto dest: placeholder_shorter)

definition placeholders :: "string \<Rightarrow> string list" where
  "placeholders body = concat (map (\<lambda>p. case p of Inl _ \<Rightarrow> [] | Inr n \<Rightarrow> [n]) (pieces body))"

definition substitute :: "(string \<Rightarrow> string) \<Rightarrow> string \<Rightarrow> string" where
  "substitute f body = concat (map (\<lambda>p. case p of Inl c \<Rightarrow> [c] | Inr n \<Rightarrow> f n) (pieces body))"

definition render ::
    "prompt_files \<Rightarrow> string \<Rightarrow> int \<Rightarrow> (string \<times> string) list \<Rightarrow> exn + rendered_prompt" where
  "render read_prompt name version variables =
     bindE (load read_prompt name version) (\<lambda>(spec, body).
       if set (placeholders body) \<noteq> fst ` set variables then Inl ValueError
       else Inr \<lparr>rp_spec = spec,
                 rp_text = substitute (\<lambda>n. case map_of variables n of Some v \<Rightarrow> v | None \<Rightarrow> []) body,
                 rp_version_id = name @ ''@v'' @ str_int version\<rparr>)"

section \<open>Templates\<close>

text \<open>
  The abstract view of a template: literal texts and named holes. \<open>template_text\<close> prints it
  with the holes as the code writes them, \<open>fill\<close> is what a reader expects of rendering.
\<close>

fun template_text :: "(string + string) list \<Rightarrow> string" where
  "template_text [] = []"
| "template_text (Inl s # ps) = s @ template_text ps"
| "template_text (Inr n # ps) = ''{{ '' @ n @ '' }}'' @ template_text ps"

fun fill :: "(string \<Rightarrow> string) \<Rightarrow> (string + string) list \<Rightarrow> string" where
  "fill f [] = []"
| "fill f (Inl s # ps) = s @ fill f ps"
| "fill f (Inr n # ps) = f n @ fill f ps"

fun holes :: "(string + string) list \<Rightarrow> string list" where
  "holes [] = []"
| "holes (Inl _ # ps) = holes ps"
| "holes (Inr n # ps) = n # holes ps"

definition ident :: "string \<Rightarrow> bool" where
  "ident n \<longleftrightarrow> (case n of [] \<Rightarrow> False | c # cs \<Rightarrow> ident_start c \<and> (\<forall>d \<in> set cs. ident_char d))"

definition template_ok :: "(string + string) list \<Rightarrow> bool" where
  \<comment> \<open>literals without an opening brace, holes named by identifiers\<close>
  "template_ok ps \<longleftrightarrow>
     (\<forall>p \<in> set ps. case p of Inl s \<Rightarrow> CHR ''{'' \<notin> set s | Inr n \<Rightarrow> ident n)"

lemma template_ok_Cons [simp]:
  "template_ok (Inl s # ps) \<longleftrightarrow> CHR ''{'' \<notin> set s \<and> template_ok ps"
  "template_ok (Inr n # ps) \<longleftrightarrow> ident n \<and> template_ok ps"
  by (simp_all add: template_ok_def)

lemma ident_char_facts [simp]:
  "\<not> ident_char (CHR '' '')" "\<not> ident_char (CHR ''}'')" "is_space (CHR '' '')"
  "\<not> is_space (CHR ''}'')"
  by (simp_all add: ident_char_def ident_start_def is_digit_def is_space_def code_def)

lemma ident_start_not_space: "ident_start c \<Longrightarrow> \<not> is_space c"
  by (auto simp: ident_start_def is_space_def code_def Let_def)

lemma takeWhile_ident: "\<forall>d \<in> set cs. ident_char d \<Longrightarrow> takeWhile ident_char (cs @ CHR '' '' # r) = cs"
  by (induction cs) auto

lemma dropWhile_ident:
  "\<forall>d \<in> set cs. ident_char d \<Longrightarrow> dropWhile ident_char (cs @ CHR '' '' # r) = CHR '' '' # r"
  by (induction cs) auto

lemma placeholder_hole: "ident n \<Longrightarrow> placeholder (''{{ '' @ n @ '' }}'' @ r) = Some (n, r)"
proof -
  assume "ident n"
  then obtain c cs where n: "n = c # cs" "ident_start c" "\<forall>d \<in> set cs. ident_char d"
    by (auto simp: ident_def split: list.splits)
  then show ?thesis
    using ident_start_not_space [OF n(2)] takeWhile_ident [OF n(3), of "''}}'' @ r"]
      dropWhile_ident [OF n(3), of "''}}'' @ r"]
    by (simp add: placeholder_def startswith_def Let_def)
qed

lemma placeholder_literal: "c \<noteq> CHR ''{'' \<Longrightarrow> placeholder (c # cs) = None"
  by (simp add: placeholder_def startswith_def)

lemma pieces_literal: "CHR ''{'' \<notin> set s \<Longrightarrow> pieces (s @ r) = map Inl s @ pieces r"
  by (induction s) (auto simp: placeholder_literal)

lemma pieces_hole: "ident n \<Longrightarrow> pieces (''{{ '' @ n @ '' }}'' @ r) = Inr n # pieces r"
  using placeholder_hole [of n r] by simp

lemma concat_map_Inl: "concat (map (\<lambda>p. case p of Inl c \<Rightarrow> [c] | Inr n \<Rightarrow> f n) (map Inl s)) = s"
  by (induction s) auto

lemma concat_map_Inl_none:
  "concat (map (\<lambda>p. case p of Inl _ \<Rightarrow> [] | Inr n \<Rightarrow> [n]) (map Inl s)) = []"
  by (induction s) auto

lemma substitute_template: "template_ok ps \<Longrightarrow> substitute f (template_text ps) = fill f ps"
proof (induction ps)
  case (Cons p ps)
  then show ?case
    by (cases p) (simp_all add: substitute_def pieces_literal pieces_hole [simplified]
      concat_map_Inl [simplified])
qed (simp add: substitute_def)

lemma placeholders_template: "template_ok ps \<Longrightarrow> placeholders (template_text ps) = holes ps"
proof (induction ps)
  case (Cons p ps)
  then show ?case
    by (cases p) (simp_all add: placeholders_def pieces_literal pieces_hole [simplified]
      concat_map_Inl_none [simplified])
qed (simp add: placeholders_def)


text \<open>A template made of literal texts and named holes renders to the literals with the
  values inserted verbatim, in one pass: whatever a value contains, braces and placeholders
  included, none of it is expanded again; and the call returns when exactly the holes are
  supplied.\<close>

theorem render_inserts_verbatim:
  assumes "load read_prompt name version = Inr (spec, template_text ps)" and "template_ok ps"
    and "fst ` set vars = set (holes ps)"
  shows "render read_prompt name version vars =
    Inr \<lparr>rp_spec = spec, rp_text = fill (\<lambda>n. case map_of vars n of Some v \<Rightarrow> v | None \<Rightarrow> []) ps,
         rp_version_id = name @ ''@v'' @ str_int version\<rparr>"
  by (simp add: render_def assms placeholders_template substitute_template)

definition demo_prompt :: string where
  "demo_prompt = join newline [''---'', ''name: greet'', ''version: 1'', ''tier: fast'',
     ''output_schema: S'', ''changelog: c'', ''---'', ''Hi {{ who }}.'']"

theorem render_inserts_verbatim_witness:
  "render (\<lambda>_ _. Some demo_prompt) ''greet'' 1 [(''who'', ''{{ who }}'')] =
    Inr \<lparr>rp_spec = \<lparr>pr_name = ''greet'', pr_version = 1, pr_tier = FAST,
         pr_output_schema = ''S'', pr_changelog = ''c''\<rparr>,
         rp_text = ''Hi {{ who }}.'', rp_version_id = ''greet@v1''\<rparr>"
proof -
  have "load (\<lambda>_ _. Some demo_prompt) ''greet'' 1 = Inr (\<lparr>pr_name = ''greet'', pr_version = 1,
      pr_tier = FAST, pr_output_schema = ''S'', pr_changelog = ''c''\<rparr>,
      template_text [Inl ''Hi '', Inr ''who'', Inl ''.''])"
    by code_simp
  moreover have "template_ok [Inl ''Hi '', Inr ''who'', Inl ''.'']" by code_simp
  ultimately have "render (\<lambda>_ _. Some demo_prompt) ''greet'' 1 [(''who'', ''{{ who }}'')] =
    Inr \<lparr>rp_spec = \<lparr>pr_name = ''greet'', pr_version = 1, pr_tier = FAST,
         pr_output_schema = ''S'', pr_changelog = ''c''\<rparr>,
         rp_text = fill (\<lambda>n. case map_of [(''who'', ''{{ who }}'')] n of Some v \<Rightarrow> v | None \<Rightarrow> [])
           [Inl ''Hi '', Inr ''who'', Inl ''.''], rp_version_id = ''greet'' @ ''@v'' @ str_int 1\<rparr>"
    by (rule render_inserts_verbatim) simp
  moreover have "str_int 1 = ''1''" by code_simp
  ultimately show ?thesis by simp
qed

text \<open>A prompt name with any character outside lowercase letters, digits, underscore and
  newline is refused before the file system is consulted, so no path can be traversed.\<close>

theorem path_traversal_refused:
  assumes "c \<in> set name" and "\<not> ident_char c" and "code c \<noteq> 10"
  shows "render read_prompt name version vars = Inl ValueError"
proof -
  have no: "\<not> plain_name s" if "c \<in> set s" for s
    using that assms(2)
    by (cases s) (auto simp: plain_name_def ident_char_def ident_start_def)
  have "name \<noteq> [] \<and> code (last name) = 10 \<Longrightarrow> c \<in> set (butlast name)"
    using assms(1,3) by (metis append_butlast_last_id insert_iff list.simps(15) rotate1.simps(2)
      set_rotate1)
  with no assms(1) have "\<not> prompt_name_ok name" by (auto simp: prompt_name_ok_def)
  then show ?thesis by (simp add: render_def load_def)
qed

theorem path_traversal_refused_witness:
  "render (\<lambda>_ _. Some demo_prompt) ''../secret'' 1 [] = Inl ValueError"
  by (rule path_traversal_refused [of "CHR ''/''"])
    (simp_all add: ident_char_def ident_start_def is_digit_def code_def)

end
