(* ===== verification/Entropy.thy ===== *)
theory Entropy
  imports Confidence
begin

text \<open>
  \<open>pipeline/l3_score/entropy.py\<close>: clustering of the drawn samples by mutual entailment with a
  union-find forest, and the normalised entropy of the cluster sizes. The forest is the parent
  list, mutated by path halving; \<open>find_loop\<close> is the \<open>while\<close> loop of \<open>_find\<close>, returning the
  mutated list and the root, \<open>None\<close> when it does not return. The lemmas show that from a
  forest whose parents never point upwards the loop returns the least member of the tree,
  that halving changes no root, and that linking all entailing pairs leaves exactly the
  connected components. \<open>numpy\<close> is a parameter: \<open>np_log\<close> is the element-wise logarithm and
  \<open>np_sum\<close> the sum of an array.
\<close>

definition SAME_MEANING :: real where
  "SAME_MEANING = fl (8 / 10)"

partial_function (option) find_loop :: "nat list \<Rightarrow> nat \<Rightarrow> (nat list \<times> nat) option" where
  "find_loop parent node =
     (if parent ! node = node then Some (parent, node)
      else find_loop (parent[node := parent ! (parent ! node)]) (parent ! (parent ! node)))"

definition find :: "nat list \<Rightarrow> nat \<Rightarrow> exn + nat list \<times> nat" where
  "find parent node = (case find_loop parent node of None \<Rightarrow> Inl Diverges | Some r \<Rightarrow> Inr r)"

definition union :: "nat list \<Rightarrow> nat \<Rightarrow> nat \<Rightarrow> exn + nat list" where
  "union parent left right =
     bindE (find parent left) (\<lambda>(p1, root_left).
     bindE (find p1 right) (\<lambda>(p2, root_right).
     Inr (if root_left \<noteq> root_right
          then p2[max root_left root_right := min root_left root_right] else p2)))"

type_synonym entail_fn = "string \<Rightarrow> string \<Rightarrow> exn + real"

definition same_meaning :: "entail_fn \<Rightarrow> string \<Rightarrow> string \<Rightarrow> exn + bool" where
  \<comment> \<open>both directions, the second asked only when the first answers yes\<close>
  "same_meaning entail a b =
     bindE (entail a b) (\<lambda>x.
       if SAME_MEANING \<le> x then bindE (entail b a) (\<lambda>y. Inr (SAME_MEANING \<le> y)) else Inr False)"

fun link_pairs ::
    "string option list \<Rightarrow> entail_fn \<Rightarrow> nat list \<Rightarrow> (nat \<times> nat) list \<Rightarrow> exn + nat list" where
  "link_pairs samples entail parent [] = Inr parent"
| "link_pairs samples entail parent ((l, r) # ps) =
     (case (samples ! l, samples ! r) of
        (Some a, Some b) \<Rightarrow>
          bindE (same_meaning entail a b) (\<lambda>same.
            if same then bindE (union parent l r) (\<lambda>parent'. link_pairs samples entail parent' ps)
            else link_pairs samples entail parent ps)
      | _ \<Rightarrow> link_pairs samples entail parent ps)"

fun find_all :: "nat list \<Rightarrow> nat list \<Rightarrow> exn + nat list" where
  "find_all parent [] = Inr []"
| "find_all parent (i # is) =
     bindE (find parent i) (\<lambda>(parent', r). bindE (find_all parent' is) (\<lambda>rs. Inr (r # rs)))"

fun counter :: "nat list \<Rightarrow> nat list \<Rightarrow> nat list" where
  \<comment> \<open>\<open>Counter(labels).values()\<close>, in order of first appearance; the second argument holds the
     labels already counted\<close>
  "counter seen [] = []"
| "counter seen (x # xs) =
     (if x \<in> set seen then counter seen xs
      else Suc (count_list xs x) # counter (x # seen) xs)"

definition normalised_entropy ::
    "(real \<Rightarrow> real) \<Rightarrow> (real list \<Rightarrow> real) \<Rightarrow> nat list \<Rightarrow> real" where
  "normalised_entropy np_log np_sum labels =
     (let size = length labels in
      if size = 1 then 0
      else
        let ps = map (\<lambda>c. fl (of_nat c / of_nat size)) (counter [] labels);
            entropy = - np_sum (map (\<lambda>p. fl (p * np_log p)) ps)
        in clamp01 (fl (entropy / py_log (of_nat size))))"

record meaning_clusters =
  mc_labels :: "nat list"
  mc_entropy :: real
  mc_minority :: "nat list"

definition cluster_meanings ::
    "(real \<Rightarrow> real) \<Rightarrow> (real list \<Rightarrow> real) \<Rightarrow> string option list \<Rightarrow> entail_fn
     \<Rightarrow> exn + meaning_clusters" where
  "cluster_meanings np_log np_sum samples entail =
     (let size = length samples in
      if size = 0 then Inl ValueError
      else
        bindE (link_pairs samples entail [0..<size] (pairs2 [0..<size])) (\<lambda>parent.
        bindE (find_all parent [0..<size]) (\<lambda>labels.
        Inr \<lparr>mc_labels = labels, mc_entropy = normalised_entropy np_log np_sum labels,
             mc_minority = filter (\<lambda>i. labels ! i \<noteq> labels ! 0) [0..<size]\<rparr>)))"

definition semantic_entropy ::
    "(real \<Rightarrow> real) \<Rightarrow> (real list \<Rightarrow> real) \<Rightarrow> string option list \<Rightarrow> entail_fn \<Rightarrow> exn + real" where
  "semantic_entropy np_log np_sum samples entail =
     bindE (cluster_meanings np_log np_sum samples entail) (\<lambda>mc. Inr (mc_entropy mc))"

section \<open>Forests\<close>

definition forest :: "nat list \<Rightarrow> bool" where
  "forest p \<longleftrightarrow> (\<forall>i < length p. p ! i \<le> i)"

function root :: "nat list \<Rightarrow> nat \<Rightarrow> nat" where
  "root p n = (if p ! n < n then root p (p ! n) else n)"
  by pat_completeness auto
termination by (relation "measure snd") auto

declare root.simps [simp del]

lemma root_le: "root p n \<le> n"
proof (induction n rule: less_induct)
  case (less n)
  show ?case
  proof (cases "p ! n < n")
    case True
    with less.IH [OF True] show ?thesis by (subst root.simps) simp
  next
    case False
    then show ?thesis by (subst root.simps) simp
  qed
qed

lemma root_step: "p ! n \<le> n \<Longrightarrow> root p (p ! n) = root p n"
  by (cases "p ! n < n") (simp_all add: root.simps [of p n])

lemma root_fix: "p ! n = n \<Longrightarrow> root p n = n"
  by (simp add: root.simps [of p n])

lemma root_is_root:
  assumes "forest p" and "n < length p"
  shows "p ! root p n = root p n"
  using assms(2)
proof (induction n rule: less_induct)
  case (less n)
  show ?case
  proof (cases "p ! n < n")
    case True
    with less show ?thesis by (simp add: root.simps [of p n])
  next
    case False
    with less.prems assms(1) have "p ! n = n" by (metis forest_def le_neq_implies_less)
    then show ?thesis by (simp add: root_fix)
  qed
qed

lemma forest_upt: "forest [0..<n]"
  by (simp add: forest_def)

lemma root_upt: "i < n \<Longrightarrow> root [0..<n] i = i"
  by (rule root_fix) simp

text \<open>Path halving keeps the forest and every root.\<close>

lemma halve:
  assumes f: "forest p" and n: "n < length p"
  defines "q \<equiv> p[n := p ! (p ! n)]"
  shows "forest q" and "i < length p \<Longrightarrow> root q i = root p i"
proof -
  have pn: "p ! n \<le> n" using f n by (simp add: forest_def)
  then have "p ! n < length p" using n by simp
  then have ppn: "p ! (p ! n) \<le> p ! n" using f by (simp add: forest_def)
  show "forest q"
  proof (unfold forest_def, intro allI impI)
    fix i assume "i < length q"
    with f order_trans [OF ppn pn] show "q ! i \<le> i"
      by (cases "i = n") (simp_all add: forest_def q_def)
  qed
  show "root q i = root p i" if "i < length p"
    using that
  proof (induction i rule: less_induct)
    case (less i)
    show ?case
    proof (cases "i = n \<and> p ! n < n")
      case True
      then have qi: "q ! i = p ! (p ! n)" using n by (simp add: q_def)
      then have lt: "q ! i < i" using True ppn by simp
      have "root q i = root q (p ! (p ! n))" using lt qi by (simp add: root.simps [of q i])
      also have "\<dots> = root p (p ! (p ! n))" using less.IH [OF lt] lt less.prems qi by simp
      also have "\<dots> = root p n" using root_step [OF ppn] root_step [OF pn] by simp
      finally show ?thesis using True by simp
    next
      case False
      then have qi: "q ! i = p ! i" using pn n by (auto simp: q_def nth_list_update)
      have pi: "p ! i \<le> i" using f less.prems by (simp add: forest_def)
      show ?thesis
      proof (cases "p ! i < i")
        case True
        with less.IH [OF True] less.prems qi show ?thesis
          by (simp add: root.simps [of q i] root.simps [of p i])
      next
        case False
        with qi show ?thesis by (simp add: root.simps [of q i] root.simps [of p i])
      qed
    qed
  qed
qed

lemma find_loop_total:
  assumes "forest p" and "n < length p"
  shows "\<exists>q. find_loop p n = Some (q, root p n) \<and> forest q \<and> length q = length p
     \<and> (\<forall>i < length p. root q i = root p i)"
  using assms
proof (induction n arbitrary: p rule: less_induct)
  case (less n)
  show ?case
  proof (cases "p ! n = n")
    case True
    then show ?thesis using less.prems by (subst find_loop.simps) (simp add: root_fix)
  next
    case False
    let ?q = "p[n := p ! (p ! n)]" and ?m = "p ! (p ! n)"
    have pn: "p ! n \<le> n" using less.prems by (simp add: forest_def)
    then have "p ! n < length p" using less.prems by simp
    then have ppn: "?m \<le> p ! n" using less.prems(1) by (simp add: forest_def)
    have m: "?m < n" using pn ppn False by simp
    note h = halve [OF less.prems]
    obtain q where q: "find_loop ?q ?m = Some (q, root ?q ?m)" "forest q" "length q = length ?q"
        "\<forall>i < length ?q. root q i = root ?q i"
      using less.IH [OF m h(1)] m less.prems by auto
    have "root ?q ?m = root p n"
      using h(2) [of ?m] m less.prems root_step [OF ppn] root_step [OF pn] by simp
    with q h(2) False show ?thesis by (subst find_loop.simps) simp
  qed
qed

lemma find_total:
  assumes "forest p" and "n < length p"
  obtains q where "find p n = Inr (q, root p n)" and "forest q" and "length q = length p"
    and "\<And>i. i < length p \<Longrightarrow> root q i = root p i"
  using find_loop_total [OF assms] by (auto simp: find_def)

text \<open>Linking two roots moves the larger tree's members to the smaller root.\<close>

lemma link_roots:
  assumes f: "forest p" and x: "x < length p" "p ! x = x" and y: "y < x" "p ! y = y"
  defines "q \<equiv> p[x := y]"
  shows "forest q" and "i < length p \<Longrightarrow> root q i = (if root p i = x then y else root p i)"
proof -
  show "forest q"
  proof (unfold forest_def, intro allI impI)
    fix i assume "i < length q"
    with f y(1) show "q ! i \<le> i" by (cases "i = x") (simp_all add: forest_def q_def)
  qed
  show "root q i = (if root p i = x then y else root p i)" if "i < length p"
    using that
  proof (induction i rule: less_induct)
    case (less i)
    show ?case
    proof (cases "i = x")
      case True
      have "root q y = y" using x y by (intro root_fix) (simp add: q_def)
      moreover have "q ! x = y" using x by (simp add: q_def)
      ultimately have "root q x = y" using y(1) by (simp add: root.simps [of q x])
      with True x(2) show ?thesis by (simp add: root_fix)
    next
      case False
      then have qi: "q ! i = p ! i" by (simp add: q_def)
      show ?thesis
      proof (cases "p ! i < i")
        case True
        with less.IH [OF True] less.prems qi show ?thesis
          by (simp add: root.simps [of q i] root.simps [of p i])
      next
        case False
        with \<open>i \<noteq> x\<close> qi show ?thesis by (simp add: root.simps [of q i] root.simps [of p i])
      qed
    qed
  qed
qed

lemma union_total:
  assumes f: "forest p" and l: "l < length p" and r: "r < length p"
  obtains q where "union p l r = Inr q" and "forest q" and "length q = length p"
    and "\<And>i. i < length p \<Longrightarrow> root q i =
      (if root p i = max (root p l) (root p r) then min (root p l) (root p r) else root p i)"
proof -
  obtain p1 where p1: "find p l = Inr (p1, root p l)" "forest p1" "length p1 = length p"
      "\<And>i. i < length p \<Longrightarrow> root p1 i = root p i"
    using find_total [OF f l] by metis
  obtain p2 where p2: "find p1 r = Inr (p2, root p1 r)" "forest p2" "length p2 = length p1"
      "\<And>i. i < length p1 \<Longrightarrow> root p2 i = root p1 i"
    using find_total [OF p1(2)] r p1(3) by metis
  have same: "root p2 i = root p i" if "i < length p" for i
    using p1(3,4) p2(4) that by simp
  let ?a = "root p l" and ?b = "root p r"
  have u: "union p l r = Inr (if ?a \<noteq> ?b then p2[max ?a ?b := min ?a ?b] else p2)"
    using p1 p2 r by (simp add: union_def)
  show ?thesis
  proof (cases "?a = ?b")
    case True
    then have "union p l r = Inr p2" by (simp add: u)
    with that [of p2] p1(3) p2(2,3) same True show ?thesis by simp
  next
    case False
    have len: "?a < length p2" "?b < length p2"
      using root_le [of p l] root_le [of p r] l r p1(3) p2(3) by auto
    have fixed: "p2 ! ?a = ?a" "p2 ! ?b = ?b"
      using root_is_root [OF p2(2)] l r p1(3) p2(3) same by metis+
    have mx: "max ?a ?b < length p2" "p2 ! max ?a ?b = max ?a ?b"
      using len fixed by (simp_all add: max_def)
    have mn: "min ?a ?b < max ?a ?b" "p2 ! min ?a ?b = min ?a ?b"
      using False fixed by (simp_all add: min_def max_def)
    note k = link_roots [OF p2(2) mx mn]
    show ?thesis
    proof (rule that [of "p2[max ?a ?b := min ?a ?b]"])
      show "union p l r = Inr (p2[max ?a ?b := min ?a ?b])" using False by (simp add: u)
    qed (use k same p1(3) p2(3) in auto)
  qed
qed


lemma find_all_roots:
  assumes "forest p" and "\<forall>i \<in> set is. i < length p"
  shows "find_all p is = Inr (map (root p) is)"
  using assms
proof (induction "is" arbitrary: p)
  case (Cons i "is")
  then have i: "i < length p" by simp
  obtain q where q: "find p i = Inr (q, root p i)" "forest q" "length q = length p"
      "\<And>i. i < length p \<Longrightarrow> root q i = root p i"
    using find_total [OF Cons.prems(1) i] by metis
  with Cons have "find_all q is = Inr (map (root q) is)" by simp
  moreover have "map (root q) is = map (root p) is" using q(4) Cons.prems(2) by simp
  ultimately show ?case using q(1) by simp
qed simp

section \<open>Clusters are connected components\<close>

text \<open>\<open>linked\<close> is one entailing pair, \<open>kernel\<close> the equivalence a forest stands for.\<close>

definition linked :: "string option list \<Rightarrow> entail_fn \<Rightarrow> nat \<Rightarrow> nat \<Rightarrow> bool" where
  "linked samples entail i j \<longleftrightarrow>
     (case (samples ! i, samples ! j) of
        (Some a, Some b) \<Rightarrow> same_meaning entail a b = Inr True
      | _ \<Rightarrow> False)"

definition links :: "string option list \<Rightarrow> entail_fn \<Rightarrow> (nat \<times> nat) set \<Rightarrow> (nat \<times> nat) set" where
  "links samples entail ps = {(i, j) \<in> ps. linked samples entail i j}"

definition kernel :: "nat list \<Rightarrow> (nat \<times> nat) set" where
  "kernel p = {(i, j). i < length p \<and> j < length p \<and> root p i = root p j}"

definition total_on :: "string option list \<Rightarrow> entail_fn \<Rightarrow> bool" where
  "total_on samples entail \<longleftrightarrow>
     (\<forall>a b. Some a \<in> set samples \<longrightarrow> Some b \<in> set samples \<longrightarrow> returns (entail a b))"

lemma same_meaning_total:
  assumes "total_on samples entail" and "Some a \<in> set samples" and "Some b \<in> set samples"
  shows "\<exists>s. same_meaning entail a b = Inr s"
proof -
  obtain x y where "entail a b = Inr x" "entail b a = Inr y"
    using assms unfolding total_on_def returns_iff by blast
  then have "same_meaning entail a b = Inr (SAME_MEANING \<le> x \<and> SAME_MEANING \<le> y)"
    by (simp add: same_meaning_def)
  then show ?thesis by blast
qed

lemma kernel_union:
  assumes "forest p" and "l < length p" and "r < length p"
  obtains q where "union p l r = Inr q" and "forest q" and "length q = length p"
    and "kernel p \<union> {(l, r), (r, l)} \<subseteq> kernel q"
    and "kernel q \<subseteq> (kernel p \<union> {(l, r), (r, l)})\<^sup>*"
proof -
  obtain q where q: "union p l r = Inr q" "forest q" "length q = length p"
    and rt: "\<And>i. i < length p \<Longrightarrow> root q i =
      (if root p i = max (root p l) (root p r) then min (root p l) (root p r) else root p i)"
    by (rule union_total [OF assms]) blast
  have "e \<in> kernel q" if "e \<in> kernel p" for e
    using that by (cases e) (simp add: kernel_def q(3) rt)
  moreover have "(l, r) \<in> kernel q" "(r, l) \<in> kernel q"
    using assms(2,3) by (simp_all add: kernel_def q(3) rt max_def min_def)
  ultimately have sub: "kernel p \<union> {(l, r), (r, l)} \<subseteq> kernel q" by blast
  let ?R = "kernel p \<union> {(l, r), (r, l)}"
  have near: "\<exists>k \<in> {l, r}. (i, k) \<in> ?R \<and> (k, i) \<in> ?R"
    if "i < length p" "root p i = root p l \<or> root p i = root p r" for i
  proof -
    have "(i, l) \<in> kernel p \<and> (l, i) \<in> kernel p \<or> (i, r) \<in> kernel p \<and> (r, i) \<in> kernel p"
      using that assms(2,3) by (simp add: kernel_def) metis
    then show ?thesis by blast
  qed
  have lr: "(a, b) \<in> ?R\<^sup>*" if "a \<in> {l, r}" "b \<in> {l, r}" for a b
    using that by auto
  have "kernel q \<subseteq> ?R\<^sup>*"
  proof
    fix e assume "e \<in> kernel q"
    then obtain i j where e: "e = (i, j)" and ij: "i < length p" "j < length p"
      and same: "root q i = root q j" by (auto simp: kernel_def q(3))
    show "e \<in> ?R\<^sup>*"
    proof (cases "root p i = root p j")
      case True
      with ij have "(i, j) \<in> ?R" by (simp add: kernel_def)
      with e show ?thesis by blast
    next
      case False
      then have "root p i = root p l \<or> root p i = root p r"
        and "root p j = root p l \<or> root p j = root p r"
        using same unfolding rt [OF ij(1)] rt [OF ij(2)]
        by (simp_all add: max_def min_def split: if_splits)
      then obtain a b where ab: "a \<in> {l, r}" "(i, a) \<in> ?R" "b \<in> {l, r}" "(b, j) \<in> ?R"
        using near [OF ij(1)] near [OF ij(2)] by blast
      have "(i, b) \<in> ?R\<^sup>*"
        by (rule converse_rtrancl_into_rtrancl [OF ab(2) lr [OF ab(1,3)]])
      then have "(i, j) \<in> ?R\<^sup>*" using ab(4) by (rule rtrancl.rtrancl_into_rtrancl)
      with e show ?thesis by simp
    qed
  qed
  with that q sub show ?thesis by blast
qed

lemma kernel_closed: "(i, j) \<in> (kernel p)\<^sup>* \<Longrightarrow> i < length p \<Longrightarrow> (i, j) \<in> kernel p"
  by (induction rule: rtrancl_induct) (auto simp: kernel_def)

lemma link_pairs_kernel:
  assumes "forest p" and "length p = length samples" and "total_on samples entail"
    and "set ps \<subseteq> {..<length p} \<times> {..<length p}"
  shows "\<exists>q. link_pairs samples entail p ps = Inr q \<and> forest q \<and> length q = length p
    \<and> kernel q = {(i, j). i < length p \<and>
        (i, j) \<in> (kernel p \<union> links samples entail (set ps) \<union> (links samples entail (set ps))\<inverse>)\<^sup>*}"
  using assms(1,2,4)
proof (induction ps arbitrary: p)
  case Nil
  have "kernel p = {(i, j). i < length p \<and> (i, j) \<in> (kernel p)\<^sup>*}"
  proof (intro set_eqI iffI)
    fix e assume "e \<in> kernel p"
    then show "e \<in> {(i, j). i < length p \<and> (i, j) \<in> (kernel p)\<^sup>*}"
      by (cases e) (simp add: kernel_def r_into_rtrancl)
  qed (use kernel_closed in blast)
  then show ?case using Nil by (simp add: links_def)
next
  case (Cons e ps)
  obtain l r where e: "e = (l, r)" by force
  let ?E = "links samples entail (set ps)"
  have lr: "l < length p" "r < length p" using Cons.prems e by auto
  show ?case
  proof (cases "linked samples entail l r")
    case False
    then have E: "links samples entail (set (e # ps)) = ?E" by (auto simp: links_def e)
    have "link_pairs samples entail p (e # ps) = link_pairs samples entail p ps"
    proof (cases "samples ! l")
      case (Some a)
      show ?thesis
      proof (cases "samples ! r")
        case (Some b)
        have "Some a \<in> set samples" "Some b \<in> set samples"
          using \<open>samples ! l = Some a\<close> Some lr Cons.prems(2) by (metis nth_mem)+
        then obtain s where "same_meaning entail a b = Inr s"
          using same_meaning_total [OF assms(3)] by blast
        with False \<open>samples ! l = Some a\<close> Some show ?thesis by (simp add: e linked_def)
      qed (simp add: e \<open>samples ! l = Some a\<close>)
    qed (simp add: e)
    with Cons.IH [OF Cons.prems(1,2)] Cons.prems(3) show ?thesis by (simp only: E) simp
  next
    case True
    then obtain a b where ab: "samples ! l = Some a" "samples ! r = Some b"
        "same_meaning entail a b = Inr True"
      by (auto simp: linked_def split: option.splits)
    have E: "links samples entail (set (e # ps)) = insert (l, r) ?E"
      using True by (auto simp: links_def e)
    obtain q where q: "union p l r = Inr q" "forest q" "length q = length p"
      "kernel p \<union> {(l, r), (r, l)} \<subseteq> kernel q"
      "kernel q \<subseteq> (kernel p \<union> {(l, r), (r, l)})\<^sup>*"
      using kernel_union [OF Cons.prems(1) lr] by metis
    let ?X = "?E \<union> ?E\<inverse>" and ?R = "kernel p \<union> {(l, r), (r, l)}"
    have "kernel q \<union> ?X \<subseteq> (?R \<union> ?X)\<^sup>*"
      using q(5) rtrancl_mono [of ?R "?R \<union> ?X"] by blast
    then have "(kernel q \<union> ?X)\<^sup>* = (?R \<union> ?X)\<^sup>*"
      using q(4) by (intro rtrancl_subset) auto
    moreover have "?R \<union> ?X = kernel p \<union> insert (l, r) ?E \<union> (insert (l, r) ?E)\<inverse>" by blast
    ultimately have "(kernel q \<union> ?E \<union> ?E\<inverse>)\<^sup>* =
        (kernel p \<union> insert (l, r) ?E \<union> (insert (l, r) ?E)\<inverse>)\<^sup>*"
      by (simp add: Un_assoc)
    moreover have "link_pairs samples entail p (e # ps) = link_pairs samples entail q ps"
      using ab q(1) by (simp add: e)
    ultimately show ?thesis
      using Cons.IH [OF q(2)] Cons.prems(2,3) q(3) by (simp only: E) simp
  qed
qed


definition same_claim :: "string option list \<Rightarrow> entail_fn \<Rightarrow> (nat \<times> nat) set" where
  \<comment> \<open>two samples, both with text, each entailing the other at \<open>SAME_MEANING\<close> or above\<close>
  "same_claim samples entail =
     {(i, j). i < length samples \<and> j < length samples \<and> i \<noteq> j \<and>
        (\<exists>a b x y. samples ! i = Some a \<and> samples ! j = Some b \<and> entail a b = Inr x \<and>
           entail b a = Inr y \<and> SAME_MEANING \<le> x \<and> SAME_MEANING \<le> y)}"

lemma same_meaning_True_iff:
  "same_meaning entail a b = Inr True \<longleftrightarrow>
     (\<exists>x y. entail a b = Inr x \<and> entail b a = Inr y \<and> SAME_MEANING \<le> x \<and> SAME_MEANING \<le> y)"
  by (auto simp: same_meaning_def bindE_Inr_iff split: if_splits)

lemma linked_iff:
  "linked samples entail i j \<longleftrightarrow>
     (\<exists>a b x y. samples ! i = Some a \<and> samples ! j = Some b \<and> entail a b = Inr x \<and>
        entail b a = Inr y \<and> SAME_MEANING \<le> x \<and> SAME_MEANING \<le> y)"
  by (simp add: linked_def same_meaning_True_iff split: option.splits)

lemma linked_sym: "linked samples entail i j \<longleftrightarrow> linked samples entail j i"
  unfolding linked_iff by blast

lemma same_claim_links:
  "links samples entail (set (pairs2 [0..<length samples])) \<union>
     (links samples entail (set (pairs2 [0..<length samples])))\<inverse> = same_claim samples entail"
proof -
  have "(i, j) \<in> same_claim samples entail \<longleftrightarrow>
      i < length samples \<and> j < length samples \<and> i \<noteq> j \<and> linked samples entail i j" for i j
    by (simp add: same_claim_def linked_iff)
  moreover have "(i, j) \<in> links samples entail (set (pairs2 [0..<length samples])) \<longleftrightarrow>
      i < j \<and> j < length samples \<and> linked samples entail i j" for i j
    by (simp add: links_def pairs2_upt)
  ultimately show ?thesis by (auto simp: linked_sym)
qed

lemma kernel_upt: "kernel [0..<n] = {(i, j). i < n \<and> i = j}"
  by (auto simp: kernel_def root_upt)

lemma clusters_run:
  assumes "samples \<noteq> []" and "total_on samples entail"
  obtains p where "cluster_meanings np_log np_sum samples entail =
      Inr \<lparr>mc_labels = map (root p) [0..<length samples],
           mc_entropy = normalised_entropy np_log np_sum (map (root p) [0..<length samples]),
           mc_minority = filter (\<lambda>i. root p i \<noteq> root p 0) [0..<length samples]\<rparr>"
    and "forest p" and "length p = length samples"
    and "\<And>i j. i < length samples \<Longrightarrow> j < length samples \<Longrightarrow>
      root p i = root p j \<longleftrightarrow> (i, j) \<in> (same_claim samples entail)\<^sup>*"
proof -
  let ?n = "length samples" and ?E = "same_claim samples entail"
  have sub: "set (pairs2 [0..<?n]) \<subseteq> {..<?n} \<times> {..<?n}"
    using pairs2_subset [of _ _ "[0..<?n]"] by fastforce
  obtain p where p: "link_pairs samples entail [0..<?n] (pairs2 [0..<?n]) = Inr p"
      "forest p" "length p = ?n"
    and k: "kernel p = {(i, j). i < ?n \<and> (i, j) \<in> (kernel [0..<?n] \<union> ?E)\<^sup>*}"
    using link_pairs_kernel [OF forest_upt _ assms(2), of ?n "pairs2 [0..<?n]"] sub
    by (auto simp: Un_assoc same_claim_links)
  have "(kernel [0..<?n] \<union> ?E)\<^sup>* = ?E\<^sup>*"
  proof -
    have "kernel [0..<?n] \<subseteq> Id" by (auto simp: kernel_upt)
    then show ?thesis by (intro rtrancl_subset) auto
  qed
  with k have eq: "root p i = root p j \<longleftrightarrow> (i, j) \<in> ?E\<^sup>*" if "i < ?n" "j < ?n" for i j
    using that p(3) by (auto simp: kernel_def)
  have all: "find_all p [0..<?n] = Inr (map (root p) [0..<?n])"
    using p by (intro find_all_roots) simp_all
  have min: "filter (\<lambda>i. map (root p) [0..<?n] ! i \<noteq> map (root p) [0..<?n] ! 0) [0..<?n]
      = filter (\<lambda>i. root p i \<noteq> root p 0) [0..<?n]"
    using assms(1) by (intro filter_cong) auto
  have "?n \<noteq> 0" using assms(1) by simp
  with p(1) all min have "cluster_meanings np_log np_sum samples entail =
      Inr \<lparr>mc_labels = map (root p) [0..<length samples],
           mc_entropy = normalised_entropy np_log np_sum (map (root p) [0..<length samples]),
           mc_minority = filter (\<lambda>i. root p i \<noteq> root p 0) [0..<length samples]\<rparr>"
    unfolding cluster_meanings_def Let_def by (simp only: if_False bindE_simps)
  with that p eq show ?thesis by blast
qed

lemma normalised_entropy_unit: "in_unit (normalised_entropy np_log np_sum labels)"
  by (simp add: normalised_entropy_def Let_def in_unit_def [of 0])

lemma counter_same: "set xs \<subseteq> set seen \<Longrightarrow> counter seen xs = []"
  by (induction xs) auto

lemma counter_replicate: "0 < n \<Longrightarrow> counter [] (replicate n x) = [n]"
proof (cases n)
  case (Suc m)
  have "count_list (replicate m x) x = m" by (induction m) simp_all
  moreover have "counter [x] (replicate m x) = []" by (rule counter_same) auto
  ultimately show ?thesis using Suc by simp
qed simp

text \<open>C38. \<open>cluster_meanings\<close> returns for every non-empty list of samples when the entailment
  lookup answers on them, and partitions the samples into the connected components of mutual
  entailment: two samples carry the same label exactly when a chain of mutually entailing
  samples joins them, the label is the least index of the component, the minority holds the
  samples outside the component of the first one, the entropy lies in [0,1].\<close>

theorem clusters_are_components:
  assumes "samples \<noteq> []" and "total_on samples entail"
  shows "\<exists>mc. cluster_meanings np_log np_sum samples entail = Inr mc
    \<and> length (mc_labels mc) = length samples
    \<and> (\<forall>i < length samples. \<forall>j < length samples.
         (mc_labels mc ! i = mc_labels mc ! j \<longleftrightarrow> (i, j) \<in> (same_claim samples entail)\<^sup>*)
         \<and> ((i, j) \<in> (same_claim samples entail)\<^sup>* \<longrightarrow> mc_labels mc ! i \<le> j)
         \<and> (i, mc_labels mc ! i) \<in> (same_claim samples entail)\<^sup>*)
    \<and> set (mc_minority mc) =
        {i. i < length samples \<and> (i, 0) \<notin> (same_claim samples entail)\<^sup>*}
    \<and> in_unit (mc_entropy mc)"
proof -
  obtain p where run: "cluster_meanings np_log np_sum samples entail =
      Inr \<lparr>mc_labels = map (root p) [0..<length samples],
           mc_entropy = normalised_entropy np_log np_sum (map (root p) [0..<length samples]),
           mc_minority = filter (\<lambda>i. root p i \<noteq> root p 0) [0..<length samples]\<rparr>"
    and p: "forest p" "length p = length samples"
    and eq: "\<And>i j. i < length samples \<Longrightarrow> j < length samples \<Longrightarrow>
      root p i = root p j \<longleftrightarrow> (i, j) \<in> (same_claim samples entail)\<^sup>*"
    by (rule clusters_run [OF assms]) blast
  have self: "(i, root p i) \<in> (same_claim samples entail)\<^sup>*" if "i < length samples" for i
    using that root_le [of p i] root_fix [OF root_is_root [OF p(1)], of i] p(2)
      eq [of i "root p i"] by simp
  have least: "root p i \<le> j"
    if "i < length samples" "j < length samples" "(i, j) \<in> (same_claim samples entail)\<^sup>*" for i j
    using that eq [of i j] root_le [of p j] by simp
  let ?mc = "\<lparr>mc_labels = map (root p) [0..<length samples],
           mc_entropy = normalised_entropy np_log np_sum (map (root p) [0..<length samples]),
           mc_minority = filter (\<lambda>i. root p i \<noteq> root p 0) [0..<length samples]\<rparr>"
  have "set (mc_minority ?mc) =
      {i. i < length samples \<and> (i, 0) \<notin> (same_claim samples entail)\<^sup>*}"
    using assms(1) eq by auto
  then show ?thesis
    unfolding run using eq self least normalised_entropy_unit
    by (intro exI [of _ ?mc]) simp
qed

theorem clusters_are_components_witness:
  "\<exists>mc. cluster_meanings ln sum_list [Some ''a'', Some ''b'', None, Some ''c'']
      (\<lambda>a b. Inr (if a \<in> {''a'', ''c''} \<and> b \<in> {''a'', ''c''} then 1 else 0)) = Inr mc
    \<and> length (mc_labels mc) = 4"
  using clusters_are_components [of "[Some ''a'', Some ''b'', None, Some ''c'']"
    "\<lambda>a b. Inr (if a \<in> {''a'', ''c''} \<and> b \<in> {''a'', ''c''} then 1 else 0)" ln sum_list]
  by (auto simp: total_on_def)

text \<open>When every pair of samples entails each other, all samples fall into the cluster of
  the first, no sample is in the minority and the entropy is exactly 0, whatever the number
  of samples, provided \<open>numpy.log(1)\<close> is 0 and the sum of a one-element array is its element.\<close>

theorem unanimous_entropy_zero:
  assumes "samples \<noteq> []" and "total_on samples entail"
    and "\<And>i j. i < length samples \<Longrightarrow> j < length samples \<Longrightarrow> i \<noteq> j \<Longrightarrow>
      (i, j) \<in> same_claim samples entail"
    and "np_log 1 = 0" and "\<And>x. np_sum [x] = x"
  shows "cluster_meanings np_log np_sum samples entail =
    Inr \<lparr>mc_labels = replicate (length samples) 0, mc_entropy = 0, mc_minority = []\<rparr>"
proof -
  obtain p where run: "cluster_meanings np_log np_sum samples entail =
      Inr \<lparr>mc_labels = map (root p) [0..<length samples],
           mc_entropy = normalised_entropy np_log np_sum (map (root p) [0..<length samples]),
           mc_minority = filter (\<lambda>i. root p i \<noteq> root p 0) [0..<length samples]\<rparr>"
    and eq: "\<And>i j. i < length samples \<Longrightarrow> j < length samples \<Longrightarrow>
      root p i = root p j \<longleftrightarrow> (i, j) \<in> (same_claim samples entail)\<^sup>*"
    by (rule clusters_run [OF assms(1,2)]) blast
  have pos: "0 < length samples" using assms(1) by simp
  have zero: "root p i = 0" if "i < length samples" for i
  proof -
    have "(i, 0) \<in> (same_claim samples entail)\<^sup>*"
      using assms(3) [OF that pos] by (cases "i = 0") auto
    with eq [OF that pos] show ?thesis using root_le [of p 0] by simp
  qed
  have lab: "map (root p) [0..<length samples] = replicate (length samples) 0"
    using zero by (intro nth_equalityI) simp_all
  have "filter (\<lambda>i. root p i \<noteq> root p 0) [0..<length samples] = []"
    using zero pos by (simp add: filter_empty_conv)
  moreover have "normalised_entropy np_log np_sum (replicate (length samples) 0) = 0"
    using pos assms(4,5) by (simp add: normalised_entropy_def Let_def counter_replicate in_unit_def)
  ultimately show ?thesis by (simp add: run lab)
qed

theorem unanimous_entropy_zero_witness:
  "cluster_meanings ln sum_list [Some ''a'', Some ''b''] (\<lambda>a b. Inr 1) =
    Inr \<lparr>mc_labels = replicate 2 0, mc_entropy = 0, mc_minority = []\<rparr>"
proof -
  have "SAME_MEANING \<le> 1" by (simp add: SAME_MEANING_def fl.rnd_le_rep)
  then have "(i, j) \<in> same_claim [Some ''a'', Some ''b''] (\<lambda>a b. Inr 1)"
    if "i < 2" "j < 2" "i \<noteq> j" for i j :: nat
    using that by (auto simp: same_claim_def less_Suc_eq numeral_2_eq_2)
  then show ?thesis
    using unanimous_entropy_zero [of "[Some ''a'', Some ''b'']" "\<lambda>a b. Inr 1" ln sum_list]
    by (simp add: total_on_def numeral_2_eq_2)
qed

end
