(* ===== verification/Entailment.thy ===== *)
theory Entailment
  imports Prompts Entropy
begin

text \<open>
  \<open>llm/base.py\<close> and \<open>llm/entailment.py\<close>. The provider is a parameter: an \<open>llm_client\<close> maps a
  prompt, a tier, a temperature and a sample count to a response or an error. The JSON parser
  is a parameter \<open>loads\<close> (text to document); what pydantic's strict models accept of a parsed
  document is written out. \<open>lookup\<close> asks for each distinct non-trivial pair once and pairs
  the scores with the pairs positionally; \<open>reader\<close> is the synchronous callable the scorer
  uses, which raises \<open>KeyError\<close> on a pair that was not asked.
\<close>

section \<open>The provider boundary\<close>

record llm_response =
  lr_samples :: "string list"
  lr_model :: string
  lr_temperature :: "real option"
  lr_seed :: "int option"
  lr_tokens_in :: int
  lr_tokens_out :: int
  lr_cache_hit :: bool
  lr_latency_ms :: real
  lr_cost_usd :: real

definition llm_response_ok :: "llm_response \<Rightarrow> bool" where
  "llm_response_ok r \<longleftrightarrow>
     lr_samples r \<noteq> [] \<and> (case lr_temperature r of None \<Rightarrow> True | Some t \<Rightarrow> 0 \<le> t) \<and>
     0 \<le> lr_tokens_in r \<and> 0 \<le> lr_tokens_out r \<and> 0 \<le> lr_latency_ms r \<and> 0 \<le> lr_cost_usd r"

type_synonym llm_client = "string \<Rightarrow> tier \<Rightarrow> real \<Rightarrow> int \<Rightarrow> exn + llm_response"

type_synonym json_parser = "string \<Rightarrow> json option"

definition as_float :: "json \<Rightarrow> real option" where
  \<comment> \<open>a finite \<open>float\<close> field: strict mode still converts an integer\<close>
  "as_float v = (case v of JFloat (Fin x) \<Rightarrow> Some x | JInt i \<Rightarrow> Some (fl (of_int i)) | _ \<Rightarrow> None)"

definition as_unit :: "json \<Rightarrow> real option" where
  "as_unit v = (case as_float v of Some x \<Rightarrow> if in_unit x then Some x else None | None \<Rightarrow> None)"

definition exact_keys :: "string list \<Rightarrow> (string \<times> json) list \<Rightarrow> bool" where
  \<comment> \<open>every field present, \<open>extra=forbid\<close>\<close>
  "exact_keys ks d \<longleftrightarrow> fst ` set d = set ks"

fun all_some :: "'a option list \<Rightarrow> 'a list option" where
  "all_some [] = Some []"
| "all_some (None # xs) = None"
| "all_some (Some x # xs) = map_option (Cons x) (all_some xs)"

definition as_list :: "(json \<Rightarrow> 'a option) \<Rightarrow> json \<Rightarrow> 'a list option" where
  "as_list f v = (case v of JList xs \<Rightarrow> all_some (map f xs) | _ \<Rightarrow> None)"

lemma all_some_iff: "all_some xs = Some ys \<longleftrightarrow> xs = map Some ys"
  by (induction xs arbitrary: ys rule: all_some.induct) (auto simp: Cons_eq_map_conv)

lemma as_unit_in_unit: "as_unit v = Some x \<Longrightarrow> in_unit x"
  by (auto simp: as_unit_def split: option.splits if_splits)

lemma as_list_member:
  assumes "as_list f v = Some ys" and "y \<in> set ys"
  shows "\<exists>x. f x = Some y"
proof -
  obtain xs where m: "map f xs = map Some ys"
    using assms(1) by (cases v) (simp_all add: as_list_def all_some_iff)
  have "Some y \<in> set (map f xs)" unfolding m using assms(2) by simp
  then show ?thesis by auto
qed

section \<open>Entailment lookup\<close>

definition SELF_ENTAILMENT :: real where
  "SELF_ENTAILMENT = 1"

type_synonym entail_pair = "string \<times> string"

definition dict_fromkeys :: "'a list \<Rightarrow> 'a list" where
  \<comment> \<open>\<open>dict.fromkeys(xs)\<close>: the distinct elements in order of first appearance\<close>
  "dict_fromkeys xs = rev (remdups (rev xs))"

definition entail_numbered :: "entail_pair list \<Rightarrow> string" where
  "entail_numbered pairs =
     join (newline @ newline)
       (map (\<lambda>(i, (p, h)). str_nat i @ ''.'' @ newline @ ''  premise: '' @ p @ newline @
          ''  hypothesis: '' @ h) (enumerate 1 pairs))"

definition entailment_batch :: "json \<Rightarrow> real list option" where
  "entailment_batch v =
     (case v of
        JObj d \<Rightarrow> if exact_keys [''scores''] d
                  then (case map_of d ''scores'' of Some s \<Rightarrow> as_list as_unit s | None \<Rightarrow> None)
                  else None
      | _ \<Rightarrow> None)"

definition entail_parse :: "json_parser \<Rightarrow> string \<Rightarrow> nat \<Rightarrow> exn + real list" where
  "entail_parse loads sample expected =
     (case Option.bind (loads sample) entailment_batch of
        None \<Rightarrow> Inl (GM ValidationRejected)
      | Some scores \<Rightarrow>
          if length scores \<noteq> expected then Inl (GM ValidationRejected) else Inr scores)"

definition entail_score ::
    "prompt_files \<Rightarrow> json_parser \<Rightarrow> llm_client \<Rightarrow> string \<Rightarrow> entail_pair list \<Rightarrow> exn + real list" where
  "entail_score files loads llm canary pairs =
     bindE (render files ''entail_pairs'' 1
              [(''pairs'', entail_numbered pairs), (''canary'', canary)]) (\<lambda>prompt.
     bindE (llm (rp_text prompt) BALANCED 0 1) (\<lambda>reply.
     bindE (reject_echo canary (lr_samples reply)) (\<lambda>_.
       entail_parse loads (hd (lr_samples reply)) (length pairs))))"

definition zip_strict :: "'a list \<Rightarrow> 'b list \<Rightarrow> exn + ('a \<times> 'b) list" where
  "zip_strict xs ys = (if length xs = length ys then Inr (zip xs ys) else Inl ValueError)"

definition reader :: "(entail_pair \<times> real) list \<Rightarrow> entail_fn" where
  "reader answers premise hypothesis =
     (if premise = hypothesis then Inr SELF_ENTAILMENT
      else case map_of answers (premise, hypothesis) of
             None \<Rightarrow> Inl KeyError
           | Some x \<Rightarrow> Inr x)"

definition wanted_pairs :: "entail_pair list \<Rightarrow> entail_pair list" where
  "wanted_pairs pairs = filter (\<lambda>(p, h). p \<noteq> h) (dict_fromkeys pairs)"

definition lookup ::
    "prompt_files \<Rightarrow> json_parser \<Rightarrow> llm_client \<Rightarrow> string \<Rightarrow> entail_pair list \<Rightarrow> exn + entail_fn" where
  "lookup files loads llm canary pairs =
     (let wanted = wanted_pairs pairs in
      bindE (if wanted = [] then Inr [] else entail_score files loads llm canary wanted) (\<lambda>scores.
      bindE (zip_strict wanted scores) (\<lambda>answers. Inr (reader answers))))"

lemma set_dict_fromkeys [simp]: "set (dict_fromkeys xs) = set xs"
  by (simp add: dict_fromkeys_def)

lemma distinct_dict_fromkeys [simp]: "distinct (dict_fromkeys xs)"
  by (simp add: dict_fromkeys_def)

lemma entailment_batch_unit:
  assumes "entailment_batch v = Some scores" and "x \<in> set scores"
  shows "in_unit x"
proof -
  obtain s where "as_list as_unit s = Some scores"
    using assms(1) by (auto simp: entailment_batch_def split: json.splits if_splits option.splits)
  then show ?thesis using as_list_member [OF _ assms(2)] as_unit_in_unit by blast
qed

lemma entail_parse_scores:
  assumes "entail_parse loads s n = Inr scores"
  shows "length scores = n \<and> (\<forall>x \<in> set scores. in_unit x)"
proof -
  have "Option.bind (loads s) entailment_batch = Some scores \<and> length scores = n"
    using assms by (simp add: entail_parse_def split: option.splits if_splits)
  then show ?thesis using entailment_batch_unit by (auto simp: bind_eq_Some_conv)
qed

lemma entail_score_scores:
  assumes "entail_score files loads llm canary ps = Inr scores"
  shows "length scores = length ps \<and> (\<forall>x \<in> set scores. in_unit x)"
proof -
  have "\<exists>r :: llm_response. entail_parse loads (hd (lr_samples r)) (length ps) = Inr scores"
    using assms unfolding entail_score_def bindE_Inr_iff by blast
  then show ?thesis using entail_parse_scores by blast
qed

text \<open>
  What the scorer relies on: a lookup that returned answers every pair it was asked, in range,
  and answers a text against itself with 1 without asking. \<open>answers_for\<close> is the contract the
  pipeline's use of the callable is proved from.
\<close>

definition answers_for :: "entail_fn \<Rightarrow> entail_pair set \<Rightarrow> bool" where
  "answers_for entail asked \<longleftrightarrow>
     (\<forall>p h. p = h \<or> (p, h) \<in> asked \<longrightarrow> (\<exists>x. entail p h = Inr x \<and> in_unit x))"

lemma answers_forD:
  "answers_for entail asked \<Longrightarrow> p = h \<or> (p, h) \<in> asked \<Longrightarrow> \<exists>x. entail p h = Inr x \<and> in_unit x"
  unfolding answers_for_def by (rule allE, assumption, rule allE, assumption, rule mp)

locale entail_source =
  fixes ask :: "entail_pair list \<Rightarrow> exn + entail_fn"
  assumes ask_answers: "ask pairs = Inr entail \<Longrightarrow> answers_for entail (set pairs)"
begin

lemma total_on_asked:
  assumes "ask pairs = Inr entail"
    and "\<And>a b. Some a \<in> set samples \<Longrightarrow> Some b \<in> set samples \<Longrightarrow> a \<noteq> b \<Longrightarrow> (a, b) \<in> set pairs"
  shows "total_on samples entail"
proof (unfold total_on_def returns_iff, intro allI impI)
  fix a b assume "Some a \<in> set samples" "Some b \<in> set samples"
  then have "a = b \<or> (a, b) \<in> set pairs" using assms(2) by blast
  then show "\<exists>x. entail a b = Inr x"
    using answers_forD [OF ask_answers [OF assms(1)]] by metis
qed

lemma clusters_answered:
  assumes "ask pairs = Inr entail" and "samples \<noteq> []"
    and "\<And>a b. Some a \<in> set samples \<Longrightarrow> Some b \<in> set samples \<Longrightarrow> a \<noteq> b \<Longrightarrow> (a, b) \<in> set pairs"
  shows "\<exists>mc. cluster_meanings np_log np_sum samples entail = Inr mc \<and> in_unit (mc_entropy mc)"
proof -
  obtain p where "cluster_meanings np_log np_sum samples entail =
      Inr \<lparr>mc_labels = map (root p) [0..<length samples],
           mc_entropy = normalised_entropy np_log np_sum (map (root p) [0..<length samples]),
           mc_minority = filter (\<lambda>i. root p i \<noteq> root p 0) [0..<length samples]\<rparr>"
    by (rule clusters_run [OF assms(2) total_on_asked [OF assms(1,3)]])
  then show ?thesis using normalised_entropy_unit by simp
qed

end

lemma lookup_answers:
  assumes "lookup files loads llm canary pairs = Inr entail"
  shows "answers_for entail (set pairs)"
proof -
  let ?w = "wanted_pairs pairs"
  have b: "bindE (if ?w = [] then Inr [] else entail_score files loads llm canary ?w)
      (\<lambda>scores. bindE (zip_strict ?w scores) (\<lambda>answers. Inr (reader answers))) = Inr entail"
    using assms unfolding lookup_def Let_def .
  obtain scores where sc: "(if ?w = [] then Inr [] else entail_score files loads llm canary ?w) = Inr scores"
    and z: "bindE (zip_strict ?w scores) (\<lambda>answers. Inr (reader answers)) = Inr entail"
    using bindE_InrE [OF b] by blast
  have s: "length scores = length ?w" "\<forall>x \<in> set scores. in_unit x"
    using sc entail_score_scores [of files loads llm canary ?w scores]
    by (cases "?w = []"; simp)+
  have e: "entail = reader (zip ?w scores)" using z s(1) by (simp add: zip_strict_def)
  show ?thesis unfolding answers_for_def
  proof (intro allI impI)
    fix p h assume "p = h \<or> (p, h) \<in> set pairs"
    show "\<exists>x. entail p h = Inr x \<and> in_unit x"
    proof (cases "p = h")
      case True
      then show ?thesis by (simp add: e reader_def SELF_ENTAILMENT_def in_unit_def)
    next
      case False
      with \<open>p = h \<or> (p, h) \<in> set pairs\<close> have "(p, h) \<in> set ?w" by (simp add: wanted_pairs_def)
      then obtain x where x: "map_of (zip ?w scores) (p, h) = Some x"
        using s(1) by (metis map_of_zip_is_Some)
      then have "x \<in> set scores" using s(1) by (metis map_of_SomeD set_zip_rightD)
      with x False s(2) show ?thesis by (simp add: e reader_def)
    qed
  qed
qed

interpretation llm_entailer: entail_source "lookup files loads llm canary"
  for files loads llm canary
  by unfold_locales (rule lookup_answers)


lemma lookup_shape:
  assumes "lookup files loads llm canary pairs = Inr entail"
  obtains scores where "entail = reader (zip (wanted_pairs pairs) scores)"
    and "length scores = length (wanted_pairs pairs)"
proof -
  let ?w = "wanted_pairs pairs"
  obtain scores where "bindE (zip_strict ?w scores) (\<lambda>answers. Inr (reader answers)) = Inr entail"
    using assms unfolding lookup_def Let_def by (rule bindE_InrE)
  then show ?thesis using that [of scores] by (simp add: zip_strict_def split: if_splits)
qed

text \<open>A lookup that returned answers exactly the pairs it was asked and every text against
  itself: those answers exist and lie in [0,1], the self answer is 1, and any other pair
  raises \<open>KeyError\<close> instead of an invented score.\<close>

theorem lookup_answers_exactly:
  assumes "lookup files loads llm canary pairs = Inr entail"
  shows "((p, h) \<in> set pairs \<longrightarrow> (\<exists>x. entail p h = Inr x \<and> in_unit x))
    \<and> entail p p = Inr 1
    \<and> ((p, h) \<notin> set pairs \<longrightarrow> p \<noteq> h \<longrightarrow> entail p h = Inl KeyError)"
proof -
  obtain scores where e: "entail = reader (zip (wanted_pairs pairs) scores)"
    and l: "length scores = length (wanted_pairs pairs)"
    by (rule lookup_shape [OF assms])
  have "entail p h = Inl KeyError" if "(p, h) \<notin> set pairs" "p \<noteq> h"
  proof -
    have "(p, h) \<notin> set (wanted_pairs pairs)" using that by (simp add: wanted_pairs_def)
    then have "map_of (zip (wanted_pairs pairs) scores) (p, h) = None"
      using l by (simp add: map_of_zip_is_None)
    with that show ?thesis by (simp add: e reader_def)
  qed
  moreover have "entail p p = Inr 1" by (simp add: e reader_def SELF_ENTAILMENT_def)
  ultimately show ?thesis
    using answers_forD [OF llm_entailer.ask_answers [OF assms], of p h] by simp
qed

definition demo_pairs_prompt :: string where
  "demo_pairs_prompt = join newline [''---'', ''name: entail_pairs'', ''version: 1'',
     ''tier: balanced'', ''output_schema: E'', ''changelog: c'', ''---'',
     ''{{ pairs }} {{ canary }}'']"

definition demo_llm :: "string list \<Rightarrow> llm_client" where
  "demo_llm samples prompt t temp n =
     Inr \<lparr>lr_samples = samples, lr_model = ''m'', lr_temperature = Some temp, lr_seed = None,
          lr_tokens_in = 1, lr_tokens_out = 1, lr_cache_hit = False, lr_latency_ms = 0,
          lr_cost_usd = 0\<rparr>"

theorem lookup_answers_exactly_witness:
  "\<exists>entail. lookup (\<lambda>_ _. Some demo_pairs_prompt)
      (\<lambda>_. Some (JObj [(''scores'', JList [JInt 1])])) (demo_llm [''x'']) ''k'' [(''a'', ''b'')] =
      Inr entail
    \<and> (\<exists>x. entail ''a'' ''b'' = Inr x \<and> in_unit x)
    \<and> entail ''b'' ''a'' = Inl KeyError"
proof -
  let ?run = "lookup (\<lambda>_ _. Some demo_pairs_prompt)
      (\<lambda>_. Some (JObj [(''scores'', JList [JInt 1])])) (demo_llm [''x'']) ''k'' [(''a'', ''b'')]"
  have "returns (render (\<lambda>_ _. Some demo_pairs_prompt) ''entail_pairs'' 1
      [(''pairs'', entail_numbered [(''a'', ''b'')]), (''canary'', ''k'')])"
    by code_simp
  then obtain pr where pr: "render (\<lambda>_ _. Some demo_pairs_prompt) ''entail_pairs'' 1
      [(''pairs'', entail_numbered [(''a'', ''b'')]), (''canary'', ''k'')] = Inr pr"
    by (auto simp: returns_iff)
  have one: "fl 1 = 1" using fl_of_int [of 1] by simp
  have "entail_score (\<lambda>_ _. Some demo_pairs_prompt)
      (\<lambda>_. Some (JObj [(''scores'', JList [JInt 1])])) (demo_llm [''x'']) ''k''
      [(''a'', ''b'')] = Inr [1]"
    by (simp add: entail_score_def pr demo_llm_def reject_echo_def startswith_def entail_parse_def
      entailment_batch_def exact_keys_def as_list_def as_unit_def as_float_def one in_unit_def)
  then obtain entail where run: "?run = Inr entail"
    by (simp add: lookup_def wanted_pairs_def dict_fromkeys_def zip_strict_def)
  show ?thesis
    using lookup_answers_exactly [OF run, of "''a''" "''b''"]
      lookup_answers_exactly [OF run, of "''b''" "''a''"] run
    by simp
qed

text \<open>A reply that echoes the canary is an injection, whatever else it says; a reply whose
  number of scores is not the number of pairs asked is refused, never padded or cut.\<close>

lemma entail_score_refuses:
  assumes "render files ''entail_pairs'' 1
      [(''pairs'', entail_numbered pairs), (''canary'', canary)] = Inr prompt"
    and "llm (rp_text prompt) BALANCED 0 1 = Inr reply"
  shows "(\<exists>s \<in> set (lr_samples reply). \<exists>us vs. s = us @ canary @ vs) \<Longrightarrow>
      entail_score files loads llm canary pairs = Inl (GM InjectionDetected)"
    and "\<not> (\<exists>s \<in> set (lr_samples reply). \<exists>us vs. s = us @ canary @ vs) \<Longrightarrow>
      loads (hd (lr_samples reply)) = Some (JObj [(''scores'', JList xs)]) \<Longrightarrow>
      length xs \<noteq> length pairs \<Longrightarrow>
      entail_score files loads llm canary pairs = Inl (GM ValidationRejected)"
proof -
  show "entail_score files loads llm canary pairs = Inl (GM InjectionDetected)"
    if "\<exists>s \<in> set (lr_samples reply). \<exists>us vs. s = us @ canary @ vs"
    using that by (simp add: entail_score_def assms reject_echo_def occurs_iff)
  show "entail_score files loads llm canary pairs = Inl (GM ValidationRejected)"
    if "\<not> (\<exists>s \<in> set (lr_samples reply). \<exists>us vs. s = us @ canary @ vs)"
      and l: "loads (hd (lr_samples reply)) = Some (JObj [(''scores'', JList xs)])"
      and n: "length xs \<noteq> length pairs"
  proof -
    have "length ys = length xs" if "as_list as_unit (JList xs) = Some ys" for ys
      using that by (simp add: as_list_def all_some_iff) (metis length_map)
    with n have "entail_parse loads (hd (lr_samples reply)) (length pairs) =
        Inl (GM ValidationRejected)"
      by (auto simp: entail_parse_def l entailment_batch_def exact_keys_def split: option.split)
    with that(1) show ?thesis by (simp add: entail_score_def assms reject_echo_def occurs_iff)
  qed
qed

end
