(* ===== verification/Conflict.thy ===== *)
theory Conflict
  imports Entailment
begin

text \<open>
  \<open>pipeline/l2_validate/\<close>: \<open>dedupe.py\<close> (the resolution table, severity, merging of citations),
  \<open>nli.py\<close> (the judge over an LLM), \<open>conflict.py\<close> (the conflict detector) and the pure part of
  \<open>incumbents.py\<close>. A judge is a function from the candidate's text and the incumbents' texts to
  judgements; \<open>llm_judge\<close> is the one the code provides. Retrieval itself needs the stores and
  is in the pipeline theory.
\<close>

section \<open>The resolution table\<close>

definition DUPLICATE_COSINE :: real where "DUPLICATE_COSINE = fl (95 / 100)"
definition REFINEMENT_COSINE :: real where "REFINEMENT_COSINE = fl (80 / 100)"
definition ENTAILED :: real where "ENTAILED = fl (85 / 100)"
definition CONTRADICTION_FLOOR :: real where "CONTRADICTION_FLOOR = fl (65 / 100)"
definition AMBIGUOUS_FLOOR :: real where "AMBIGUOUS_FLOOR = fl (30 / 100)"

record judgement =
  j_entail_fwd :: real
  j_entail_rev :: real
  j_contradiction :: real

definition judgement_ok :: "judgement \<Rightarrow> bool" where
  "judgement_ok j \<longleftrightarrow> in_unit (j_entail_fwd j) \<and> in_unit (j_entail_rev j) \<and> in_unit (j_contradiction j)"

type_synonym resolution = "conflict_kind \<times> hint"

definition RES_DUPLICATE :: resolution where "RES_DUPLICATE = (KIND_DUPLICATE, Merge)"
definition RES_REFINEMENT :: resolution where "RES_REFINEMENT = (KIND_REFINEMENT, Supersede)"
definition RES_CONTRADICTION :: resolution where "RES_CONTRADICTION = (KIND_CONTRADICTION, Escalate)"
definition RES_AMBIGUOUS :: resolution where "RES_AMBIGUOUS = (KIND_NONE, Escalate)"
definition RES_COEXIST :: resolution where "RES_COEXIST = (KIND_NONE, Coexist)"
definition RES_CARDINALITY :: resolution where "RES_CARDINALITY = (KIND_CARDINALITY, Supersede)"
definition RES_TEMPORAL_OVERLAP :: resolution where
  "RES_TEMPORAL_OVERLAP = (KIND_TEMPORAL_OVERLAP, Supersede)"

lemmas resolution_defs = RES_DUPLICATE_def RES_REFINEMENT_def RES_CONTRADICTION_def
  RES_AMBIGUOUS_def RES_COEXIST_def RES_CARDINALITY_def RES_TEMPORAL_OVERLAP_def

definition PRECEDENCE :: "resolution list" where
  "PRECEDENCE = [RES_CONTRADICTION, RES_AMBIGUOUS, RES_CARDINALITY, RES_TEMPORAL_OVERLAP,
     RES_DUPLICATE, RES_REFINEMENT, RES_COEXIST]"

definition classify :: "real \<Rightarrow> judgement \<Rightarrow> bool \<Rightarrow> resolution" where
  "classify cosine j restates =
     (if CONTRADICTION_FLOOR \<le> j_contradiction j then RES_CONTRADICTION
      else if AMBIGUOUS_FLOOR \<le> j_contradiction j then RES_AMBIGUOUS
      else if restates then RES_DUPLICATE
      else if DUPLICATE_COSINE \<le> cosine \<and> ENTAILED \<le> j_entail_fwd j \<and> ENTAILED \<le> j_entail_rev j
      then RES_DUPLICATE
      else if REFINEMENT_COSINE \<le> cosine \<and> ENTAILED \<le> j_entail_rev j \<and> j_entail_fwd j < ENTAILED
      then RES_REFINEMENT
      else RES_COEXIST)"

definition most_severe :: "resolution list \<Rightarrow> exn + nat" where
  "most_severe resolutions =
     (if resolutions = [] then Inl ValueError
      else Inr (argmin (\<lambda>r. index_of r PRECEDENCE) resolutions))"

section \<open>Merging a citation\<close>

definition is_same_citation :: "provenance \<Rightarrow> provenance \<Rightarrow> bool" where
  "is_same_citation l r \<longleftrightarrow> pv_hash l = pv_hash r \<and> pv_span l = pv_span r"

definition merge :: "stored_assertion \<Rightarrow> candidate \<Rightarrow> stored_assertion" where
  "merge incumbent c =
     (let citation = c_provenance c in
      if \<exists>p \<in> set (a_provenance incumbent). is_same_citation p citation then incumbent
      else incumbent\<lparr>a_provenance := a_provenance incumbent @ [citation],
             a_corroboration := a_corroboration incumbent
               + (if \<forall>p \<in> set (a_provenance incumbent). pv_hash p \<noteq> pv_hash citation
                  then 1 else 0)\<rparr>)"

section \<open>The judge\<close>

type_synonym nli_judge = "string \<Rightarrow> string list \<Rightarrow> exn + judgement list"

definition nli_numbered :: "string list \<Rightarrow> string" where
  "nli_numbered incumbents =
     join newline (map (\<lambda>(i, t). str_nat i @ ''. '' @ t) (enumerate 1 incumbents))"

definition as_judgement :: "json \<Rightarrow> judgement option" where
  "as_judgement v =
     (case v of
        JObj d \<Rightarrow>
          if exact_keys [''entail_fwd'', ''entail_rev'', ''contradiction''] d
          then (case (Option.bind (map_of d ''entail_fwd'') as_unit,
                      Option.bind (map_of d ''entail_rev'') as_unit,
                      Option.bind (map_of d ''contradiction'') as_unit) of
                  (Some f, Some r, Some c) \<Rightarrow>
                    Some \<lparr>j_entail_fwd = f, j_entail_rev = r, j_contradiction = c\<rparr>
                | _ \<Rightarrow> None)
          else None
      | _ \<Rightarrow> None)"

definition adjudication_batch :: "json \<Rightarrow> judgement list option" where
  "adjudication_batch v =
     (case v of
        JObj d \<Rightarrow> if exact_keys [''judgements''] d
                  then Option.bind (map_of d ''judgements'') (as_list as_judgement) else None
      | _ \<Rightarrow> None)"

definition nli_parse :: "json_parser \<Rightarrow> string \<Rightarrow> nat \<Rightarrow> exn + judgement list" where
  "nli_parse loads sample expected =
     (case Option.bind (loads sample) adjudication_batch of
        None \<Rightarrow> Inl (GM ValidationRejected)
      | Some js \<Rightarrow> if length js \<noteq> expected then Inl (GM ValidationRejected) else Inr js)"

definition llm_judge :: "prompt_files \<Rightarrow> json_parser \<Rightarrow> llm_client \<Rightarrow> string \<Rightarrow> nli_judge" where
  "llm_judge files loads llm canary cand incumbents =
     (if incumbents = [] then Inr []
      else
        bindE (render files ''adjudicate_conflict'' 1
                 [(''candidate'', cand), (''incumbents'', nli_numbered incumbents),
                  (''canary'', canary)]) (\<lambda>prompt.
        bindE (llm (rp_text prompt) BALANCED 0 1) (\<lambda>reply.
        bindE (reject_echo canary (lr_samples reply)) (\<lambda>_.
          nli_parse loads (hd (lr_samples reply)) (length incumbents)))))"

section \<open>Incumbents\<close>

record incumbent_set =
  is_candidate :: string
  is_nearest :: "scored_assertion list"
  is_neighbours :: "edge list"

definition INCUMBENT_K :: nat where "INCUMBENT_K = 10"
definition HOPS :: nat where "HOPS = 1"

definition widening :: "edge list \<Rightarrow> scored_assertion list \<Rightarrow> edge list" where
  "widening edges nearest =
     (let seen = map (\<lambda>h. a_id (s_assertion h)) nearest
      in filter (\<lambda>e. e_assertion e \<notin> set seen) edges)"

section \<open>Detection\<close>

definition live_incumbent :: "scored_assertion list \<Rightarrow> object_value \<Rightarrow> scored_assertion option" where
  "live_incumbent incumbents obj = first (\<lambda>h. \<not> obj_eq (a_object (s_assertion h)) obj) incumbents"

definition overlaps :: "candidate \<Rightarrow> stored_assertion \<Rightarrow> bool" where
  "overlaps c a =
     (if case c_valid_to c of None \<Rightarrow> False | Some e \<Rightarrow> e \<le> a_valid_from a then False
      else \<not> (case (a_valid_to a, c_valid_from c) of (Some t, Some s) \<Rightarrow> t \<le> s | _ \<Rightarrow> False))"

definition restates :: "candidate \<Rightarrow> stored_assertion \<Rightarrow> bool" where
  "restates c a \<longleftrightarrow> obj_eq (a_object a) (c_object c) \<and> overlaps c a"

definition first_overlap :: "candidate \<Rightarrow> scored_assertion list \<Rightarrow> scored_assertion option" where
  "first_overlap c incumbents =
     first (\<lambda>h. \<not> obj_eq (a_object (s_assertion h)) (c_object c) \<and> overlaps c (s_assertion h))
       incumbents"

definition no_conflict :: "exn + conflict_report" where
  "no_conflict = mk_conflict_report
     \<lparr>cr_kind = KIND_NONE, cr_incumbent = None, cr_entailment = 0, cr_contradiction = 0,
      cr_cosine = 0, cr_hint = snd RES_COEXIST\<rparr>"

definition report :: "resolution \<Rightarrow> scored_assertion \<Rightarrow> judgement option \<Rightarrow> exn + conflict_report" where
  "report res hit j = mk_conflict_report
     \<lparr>cr_kind = fst res, cr_incumbent = Some (a_id (s_assertion hit)),
      cr_entailment = (case j of Some x \<Rightarrow> j_entail_fwd x | None \<Rightarrow> 0),
      cr_contradiction = (case j of Some x \<Rightarrow> j_contradiction x | None \<Rightarrow> 0),
      cr_cosine = s_cosine hit, cr_hint = snd res\<rparr>"

definition judge ::
    "nli_judge \<Rightarrow> candidate \<Rightarrow> incumbent_set \<Rightarrow> exn + judgement list" where
  "judge nli c incumbents =
     nli (pv_verbatim (c_provenance c))
       (map (\<lambda>h. pv_verbatim (hd (a_provenance (s_assertion h)))) (is_nearest incumbents))"

definition adjudicate ::
    "candidate \<Rightarrow> incumbent_set \<Rightarrow> judgement list \<Rightarrow> exn + conflict_report" where
  "adjudicate c incumbents judgements =
     bindE (zip_strict (is_nearest incumbents) judgements) (\<lambda>pairs.
       let resolutions =
             map (\<lambda>(h, j). classify (s_cosine h) j (restates c (s_assertion h))) pairs
       in bindE (most_severe resolutions) (\<lambda>winner.
            report (resolutions ! winner) (fst (pairs ! winner)) (Some (snd (pairs ! winner)))))"

definition detect ::
    "candidate \<Rightarrow> incumbent_set \<Rightarrow> predicate_spec \<Rightarrow> nli_judge \<Rightarrow> exn + conflict_report" where
  "detect c incumbents spec nli =
     (if is_nearest incumbents = [] then no_conflict
      else case (if ps_cardinality spec = ONE
                 then live_incumbent (is_nearest incumbents) (c_object c) else None) of
             Some hit \<Rightarrow> report RES_CARDINALITY hit None
           | None \<Rightarrow>
               (case (if ps_cardinality spec = ONE_PER_TIME
                      then first_overlap c (is_nearest incumbents) else None) of
                  Some hit \<Rightarrow> report RES_TEMPORAL_OVERLAP hit None
                | None \<Rightarrow>
                    bindE (judge nli c incumbents) (\<lambda>js. adjudicate c incumbents js)))"


section \<open>Severity\<close>

definition rank :: "resolution \<Rightarrow> nat" where
  "rank r = index_of r PRECEDENCE"

lemma rank_simps [simp]:
  "rank RES_CONTRADICTION = 0" "rank RES_AMBIGUOUS = 1" "rank RES_CARDINALITY = 2"
  "rank RES_TEMPORAL_OVERLAP = 3" "rank RES_DUPLICATE = 4" "rank RES_REFINEMENT = 5"
  "rank RES_COEXIST = 6"
  by (simp_all add: rank_def PRECEDENCE_def resolution_defs)

lemma most_severe_first:
  assumes "rs \<noteq> []"
  shows "\<exists>i < length rs. most_severe rs = Inr i \<and> (\<forall>r \<in> set rs. rank (rs ! i) \<le> rank r)
    \<and> (\<forall>j < i. rank (rs ! i) < rank (rs ! j))"
proof -
  have m: "most_severe rs = Inr (argmin rank rs)"
    using assms by (simp add: most_severe_def rank_def [abs_def])
  show ?thesis using m argmin_less [OF assms, of rank] argmin_least [of _ rs rank] argmin_first by blast
qed

lemma kinds [simp]:
  "fst RES_CONTRADICTION = KIND_CONTRADICTION" "snd RES_CONTRADICTION = Escalate"
  "fst RES_AMBIGUOUS = KIND_NONE" "snd RES_AMBIGUOUS = Escalate"
  "fst RES_CARDINALITY = KIND_CARDINALITY" "snd RES_CARDINALITY = Supersede"
  "fst RES_TEMPORAL_OVERLAP = KIND_TEMPORAL_OVERLAP" "snd RES_TEMPORAL_OVERLAP = Supersede"
  "fst RES_DUPLICATE = KIND_DUPLICATE" "snd RES_DUPLICATE = Merge"
  "fst RES_REFINEMENT = KIND_REFINEMENT" "snd RES_REFINEMENT = Supersede"
  "fst RES_COEXIST = KIND_NONE" "snd RES_COEXIST = Coexist"
  by (simp_all add: resolution_defs)

lemma floors: "AMBIGUOUS_FLOOR \<le> CONTRADICTION_FLOOR"
  by (simp add: AMBIGUOUS_FLOOR_def CONTRADICTION_FLOOR_def fl.rnd_mono)

lemma classify_cases:
  "classify cosine j r = RES_CONTRADICTION \<and> CONTRADICTION_FLOOR \<le> j_contradiction j
   \<or> classify cosine j r = RES_AMBIGUOUS \<and> AMBIGUOUS_FLOOR \<le> j_contradiction j
       \<and> j_contradiction j < CONTRADICTION_FLOOR
   \<or> classify cosine j r \<in> {RES_DUPLICATE, RES_REFINEMENT, RES_COEXIST}
       \<and> j_contradiction j < AMBIGUOUS_FLOOR"
  by (auto simp: classify_def)

lemma rank_classify_0: "rank (classify cosine j r) = 0 \<longleftrightarrow> CONTRADICTION_FLOOR \<le> j_contradiction j"
  using classify_cases [of cosine j r] floors by auto

lemma rank_classify_le_1:
  "rank (classify cosine j r) \<le> 1 \<longleftrightarrow> AMBIGUOUS_FLOOR \<le> j_contradiction j"
  using classify_cases [of cosine j r] floors by auto

lemma rank_classify_inj:
  "rank (classify cosine j r) = 0 \<Longrightarrow> classify cosine j r = RES_CONTRADICTION"
  "rank (classify cosine j r) = 1 \<Longrightarrow> classify cosine j r = RES_AMBIGUOUS"
  using classify_cases [of cosine j r] by auto

section \<open>The judge's contract\<close>

definition res_at :: "candidate \<Rightarrow> incumbent_set \<Rightarrow> judgement list \<Rightarrow> nat \<Rightarrow> resolution" where
  \<comment> \<open>the table's answer for the \<open>k\<close>th incumbent\<close>
  "res_at c incs js k =
     classify (s_cosine (is_nearest incs ! k)) (js ! k) (restates c (s_assertion (is_nearest incs ! k)))"

definition report_at :: "candidate \<Rightarrow> incumbent_set \<Rightarrow> judgement list \<Rightarrow> nat \<Rightarrow> conflict_report" where
  "report_at c incs js k =
     \<lparr>cr_kind = fst (res_at c incs js k),
      cr_incumbent = Some (a_id (s_assertion (is_nearest incs ! k))),
      cr_entailment = j_entail_fwd (js ! k), cr_contradiction = j_contradiction (js ! k),
      cr_cosine = s_cosine (is_nearest incs ! k), cr_hint = snd (res_at c incs js k)\<rparr>"

definition cosines_ok :: "incumbent_set \<Rightarrow> bool" where
  "cosines_ok incs \<longleftrightarrow> (\<forall>h \<in> set (is_nearest incs). in_cosine (s_cosine h))"

locale nli_contract =
  fixes nli :: nli_judge
  assumes one_each: "nli c incs = Inr js \<Longrightarrow> length js = length incs"
    and in_range: "nli c incs = Inr js \<Longrightarrow> j \<in> set js \<Longrightarrow> judgement_ok j"
begin

lemma judge_length: "judge nli c incs = Inr js \<Longrightarrow> length js = length (is_nearest incs)"
  unfolding judge_def using one_each by fastforce

lemma judge_range: "judge nli c incs = Inr js \<Longrightarrow> k < length js \<Longrightarrow> judgement_ok (js ! k)"
  unfolding judge_def using in_range nth_mem by metis

lemma adjudicate_report:
  assumes j: "judge nli c incs = Inr js" and ne: "is_nearest incs \<noteq> []" and cs: "cosines_ok incs"
  obtains i where "i < length (is_nearest incs)" and "adjudicate c incs js = Inr (report_at c incs js i)"
    and "conflict_report_ok (report_at c incs js i)"
    and "\<forall>k < length (is_nearest incs). rank (res_at c incs js i) \<le> rank (res_at c incs js k)"
    and "\<forall>k < i. rank (res_at c incs js i) < rank (res_at c incs js k)"
proof -
  let ?n = "is_nearest incs"
  define rs where "rs = map (\<lambda>(h, j). classify (s_cosine h) j (restates c (s_assertion h))) (zip ?n js)"
  have len: "length js = length ?n" by (rule judge_length [OF j])
  have rl: "length rs = length ?n" using len by (simp add: rs_def)
  have rk: "rs ! k = res_at c incs js k" if "k < length ?n" for k
    using len that by (simp add: res_at_def rs_def)
  have "rs \<noteq> []" using ne rl by auto
  then obtain i where i: "most_severe rs = Inr i" "i < length rs"
    and le: "\<forall>r \<in> set rs. rank (rs ! i) \<le> rank r"
    and less: "\<forall>j < i. rank (rs ! i) < rank (rs ! j)"
    using most_severe_first [of rs] by blast
  have il: "i < length ?n" using i(2) rl by simp
  have ok: "conflict_report_ok (report_at c incs js i)"
    using judge_range [OF j] il len cs nth_mem [OF il]
    by (simp add: conflict_report_ok_def report_at_def judgement_ok_def cosines_ok_def)
  have "zip ?n js ! i = (?n ! i, js ! i)" using il len by simp
  then have run: "adjudicate c incs js = Inr (report_at c incs js i)"
    using i(1) rk [OF il] ok unfolding adjudicate_def zip_strict_def Let_def
    by (simp add: len report_def mk_conflict_report_def report_at_def flip: rs_def)
  have "\<forall>k < length ?n. rank (res_at c incs js i) \<le> rank (res_at c incs js k)"
  proof (intro allI impI)
    fix k assume k: "k < length ?n"
    then have "rs ! k \<in> set rs" using rl by (metis nth_mem)
    from bspec [OF le this] show "rank (res_at c incs js i) \<le> rank (res_at c incs js k)"
      unfolding rk [OF k] rk [OF il] .
  qed
  moreover have "\<forall>k < i. rank (res_at c incs js i) < rank (res_at c incs js k)"
  proof (intro allI impI)
    fix k assume k: "k < i"
    then have "k < length ?n" using il by simp
    then show "rank (res_at c incs js i) < rank (res_at c incs js k)"
      using less [rule_format, OF k] unfolding rk [OF il] by (simp only: rk)
  qed
  ultimately show ?thesis by (rule that [OF il run ok])
qed

end

lemma as_judgement_ok: "as_judgement v = Some j \<Longrightarrow> judgement_ok j"
proof -
  assume a: "as_judgement v = Some j"
  then obtain d f r c where "v = JObj d" "Option.bind (map_of d ''entail_fwd'') as_unit = Some f"
      "Option.bind (map_of d ''entail_rev'') as_unit = Some r"
      "Option.bind (map_of d ''contradiction'') as_unit = Some c"
    and j: "j = \<lparr>j_entail_fwd = f, j_entail_rev = r, j_contradiction = c\<rparr>"
    unfolding as_judgement_def by (simp split: json.splits if_splits option.splits)
  then have "in_unit f" "in_unit r" "in_unit c"
    using as_unit_in_unit unfolding bind_eq_Some_conv by blast+
  then show ?thesis by (simp add: j judgement_ok_def)
qed

lemma nli_parse_ok:
  assumes "nli_parse loads s n = Inr js"
  shows "length js = n \<and> (\<forall>j \<in> set js. judgement_ok j)"
proof -
  obtain v where v: "adjudication_batch v = Some js" and n: "length js = n"
    using assms by (auto simp: nli_parse_def bind_eq_Some_conv split: option.splits if_splits)
  then obtain w where w: "as_list as_judgement w = Some js"
    by (auto simp: adjudication_batch_def bind_eq_Some_conv split: json.splits if_splits)
  have "judgement_ok j" if "j \<in> set js" for j
    using as_list_member [OF w that] as_judgement_ok by auto
  with n show ?thesis by simp
qed

lemma llm_judge_ok:
  assumes "llm_judge files loads llm canary c incs = Inr js"
  shows "length js = length incs \<and> (\<forall>j \<in> set js. judgement_ok j)"
proof (cases "incs = []")
  case False
  from assms have "\<exists>r :: llm_response. nli_parse loads (hd (lr_samples r)) (length incs) = Inr js"
    unfolding llm_judge_def if_not_P [OF False]
    by (rule bindE_InrE) (elim bindE_InrE, rule exI)
  then show ?thesis using nli_parse_ok by blast
qed (use assms in \<open>simp add: llm_judge_def\<close>)

interpretation llm_nli: nli_contract "llm_judge files loads llm canary"
  for files loads llm canary
  by unfold_locales (use llm_judge_ok in blast)+


section \<open>Properties\<close>

definition settled :: "candidate \<Rightarrow> incumbent_set \<Rightarrow> predicate_spec \<Rightarrow> bool" where
  \<comment> \<open>the cases answered from cardinality alone\<close>
  "settled c incs spec \<longleftrightarrow>
     ps_cardinality spec = ONE \<and>
       (\<exists>h \<in> set (is_nearest incs). \<not> obj_eq (a_object (s_assertion h)) (c_object c)) \<or>
     ps_cardinality spec = ONE_PER_TIME \<and>
       (\<exists>h \<in> set (is_nearest incs). \<not> obj_eq (a_object (s_assertion h)) (c_object c)
          \<and> overlaps c (s_assertion h))"

lemma detect_unsettled:
  assumes "\<not> settled c incs spec" and "is_nearest incs \<noteq> []"
  shows "detect c incs spec nli = bindE (judge nli c incs) (\<lambda>js. adjudicate c incs js)"
proof -
  have "(if ps_cardinality spec = ONE then live_incumbent (is_nearest incs) (c_object c) else None)
      = None"
    using assms(1) by (auto simp: settled_def live_incumbent_def first_None_iff)
  moreover have "(if ps_cardinality spec = ONE_PER_TIME
      then first_overlap c (is_nearest incs) else None) = None"
    using assms(1) by (auto simp: settled_def first_overlap_def first_None_iff)
  ultimately show ?thesis using assms(2) by (simp add: detect_def)
qed

lemma report_ok:
  assumes "cosines_ok incs" and "h \<in> set (is_nearest incs)"
  shows "report res h None = Inr
    \<lparr>cr_kind = fst res, cr_incumbent = Some (a_id (s_assertion h)), cr_entailment = 0,
     cr_contradiction = 0, cr_cosine = s_cosine h, cr_hint = snd res\<rparr>"
  using assms
  by (simp add: report_def mk_conflict_report_def conflict_report_ok_def cosines_ok_def in_unit_def)

lemma detect_settled:
  assumes "settled c incs spec" and "cosines_ok incs"
  shows "\<exists>h \<in> set (is_nearest incs). \<exists>res.
    (\<forall>nli. detect c incs spec nli = Inr
    \<lparr>cr_kind = fst res, cr_incumbent = Some (a_id (s_assertion h)), cr_entailment = 0,
     cr_contradiction = 0, cr_cosine = s_cosine h, cr_hint = snd res\<rparr>)
    \<and> \<not> obj_eq (a_object (s_assertion h)) (c_object c)
    \<and> (ps_cardinality spec = ONE \<and> res = RES_CARDINALITY \<or>
       ps_cardinality spec = ONE_PER_TIME \<and> res = RES_TEMPORAL_OVERLAP \<and> overlaps c (s_assertion h))"
proof (cases "ps_cardinality spec")
  case ONE
  then obtain h where "live_incumbent (is_nearest incs) (c_object c) = Some h"
    using assms(1) by (auto simp: settled_def live_incumbent_def dest: first_exists)
  moreover from this have h: "h \<in> set (is_nearest incs)"
      "\<not> obj_eq (a_object (s_assertion h)) (c_object c)"
    by (auto simp: live_incumbent_def dest: first_Some_D)
  moreover have "is_nearest incs \<noteq> []" using h(1) by auto
  ultimately show ?thesis
    using ONE report_ok [OF assms(2) h(1)] by (intro bexI [of _ h] exI [of _ RES_CARDINALITY])
      (simp_all add: detect_def)
next
  case ONE_PER_TIME
  then obtain h where "first_overlap c (is_nearest incs) = Some h"
    using assms(1) unfolding settled_def first_overlap_def
    by (metis (no_types, lifting) cardinality.distinct(3) first_exists)
  moreover from this have h: "h \<in> set (is_nearest incs)"
      "\<not> obj_eq (a_object (s_assertion h)) (c_object c)" "overlaps c (s_assertion h)"
    by (auto simp: first_overlap_def dest: first_Some_D)
  moreover have "is_nearest incs \<noteq> []" using h(1) by auto
  ultimately show ?thesis
    using ONE_PER_TIME report_ok [OF assms(2) h(1)]
    by (intro bexI [of _ h] exI [of _ RES_TEMPORAL_OVERLAP]) (simp_all add: detect_def)
qed (use assms(1) in \<open>simp add: settled_def\<close>)

lemma detect_answers:
  assumes "cosines_ok incs"
    and "judge (llm_judge files loads llm canary) c incs = Inr js"
  shows "\<exists>r. detect c incs spec (llm_judge files loads llm canary) = Inr r \<and> conflict_report_ok r
    \<and> (cr_incumbent r = None \<longleftrightarrow> is_nearest incs = [])
    \<and> (\<forall>h. cr_incumbent r = Some h \<longrightarrow> h \<in> (a_id \<circ> s_assertion) ` set (is_nearest incs))"
proof (cases "is_nearest incs = []")
  case True
  then show ?thesis
    by (simp add: detect_def no_conflict_def mk_conflict_report_def conflict_report_ok_def
      in_unit_def in_cosine_def)
next
  case ne: False
  show ?thesis
  proof (cases "settled c incs spec")
    case True
    from detect_settled [OF True assms(1)] show ?thesis
      using assms(1) ne
      by (auto simp: conflict_report_ok_def cosines_ok_def in_unit_def)
  next
    case False
    obtain i where "i < length (is_nearest incs)" "adjudicate c incs js = Inr (report_at c incs js i)"
      "conflict_report_ok (report_at c incs js i)"
      by (rule llm_nli.adjudicate_report [OF assms(2) ne assms(1)])
    then show ?thesis
      using detect_unsettled [OF False ne] assms(2) ne by (simp add: report_at_def)
  qed
qed

text \<open>Whenever the judge the code provides answers, \<open>detect\<close> returns a report in range; it
  names an incumbent exactly when some were retrieved, and the one it names is among them.\<close>

theorem detect_total:
  assumes "cosines_ok incs"
    and "judge (llm_judge files loads llm canary) c incs = Inr js"
  shows "\<exists>r. detect c incs spec (llm_judge files loads llm canary) = Inr r \<and> conflict_report_ok r
    \<and> (cr_incumbent r = None \<longleftrightarrow> is_nearest incs = [])
    \<and> (\<forall>h. cr_incumbent r = Some h \<longrightarrow> h \<in> (a_id \<circ> s_assertion) ` set (is_nearest incs))"
  by (rule detect_answers [OF assms])

definition demo_provenance :: provenance where
  "demo_provenance = \<lparr>pv_hash = ''h'', pv_span = (0, 1), pv_tier = VERIFIED_USER,
     pv_verbatim = ''v'', pv_alignment = 1, pv_captured_at = 0\<rparr>"

definition demo_candidate :: candidate where
  "demo_candidate = \<lparr>c_id = ''c_1'', c_tenant = ''t'', c_namespace = ''n'', c_subject = ''s'',
     c_predicate = ''p'', c_object = OBool True, c_valid_from = Some 5, c_valid_to = Some 9,
     c_provenance = demo_provenance, c_extracted_by = ''m'', c_prompt_version = ''e@v2'',
     c_trace = ''tr''\<rparr>"

definition demo_assertion :: stored_assertion where
  "demo_assertion = \<lparr>a_id = ''a'', a_tenant = ''t'', a_namespace = ''n'', a_subject = ''s'',
     a_predicate = ''p'', a_object = OBool False, a_confidence = 1, a_risk = 0, a_valid_from = 0,
     a_valid_to = Some 7, a_recorded_at = 0, a_retracted_at = None, a_superseded_by = None,
     a_provenance = [demo_provenance], a_corroboration = 1, a_trace = ''tr'', a_visible = True\<rparr>"

definition demo_spec :: "cardinality \<Rightarrow> predicate_spec" where
  "demo_spec crd = \<lparr>ps_subject = ''person'', ps_object = ScalarObject BOOLEAN,
     ps_cardinality = crd, ps_impact = HIGH, ps_pii = DIRECT, ps_irreversibility = PARTIAL,
     ps_min_tier = VERIFIED_USER, ps_requires_corroboration = False\<rparr>"

definition demo_incumbents :: incumbent_set where
  "demo_incumbents = \<lparr>is_candidate = ''c_1'',
     is_nearest = [\<lparr>s_assertion = demo_assertion, s_cosine = 1\<rparr>], is_neighbours = []\<rparr>"

definition demo_judge_prompt :: string where
  "demo_judge_prompt = join newline [''---'', ''name: adjudicate_conflict'', ''version: 1'',
     ''tier: balanced'', ''output_schema: E'', ''changelog: c'', ''---'',
     ''{{ candidate }}{{ incumbents }}{{ canary }}'']"

definition demo_verdict :: json where
  "demo_verdict = JObj [(''judgements'', JList [JObj [(''entail_fwd'', JInt 0),
     (''entail_rev'', JInt 0), (''contradiction'', JInt 1)]])]"

abbreviation demo_judge :: nli_judge where
  "demo_judge \<equiv> llm_judge (\<lambda>_ _. Some demo_judge_prompt) (\<lambda>_. Some demo_verdict)
     (demo_llm [''x'']) ''k''"

lemma demo_judged:
  "judge demo_judge demo_candidate demo_incumbents =
     Inr [\<lparr>j_entail_fwd = 0, j_entail_rev = 0, j_contradiction = 1\<rparr>]"
proof -
  have "returns (render (\<lambda>_ _. Some demo_judge_prompt) ''adjudicate_conflict'' 1
      [(''candidate'', ''v''), (''incumbents'', nli_numbered [''v'']), (''canary'', ''k'')])"
    by code_simp
  then obtain pr where pr: "render (\<lambda>_ _. Some demo_judge_prompt) ''adjudicate_conflict'' 1
      [(''candidate'', ''v''), (''incumbents'', nli_numbered [''v'']), (''canary'', ''k'')] = Inr pr"
    by (auto simp: returns_iff)
  have one: "fl 1 = 1" using fl_of_int [of 1] by simp
  have keys: "exact_keys [''entail_fwd'', ''entail_rev'', ''contradiction'']
     [(''entail_fwd'', JInt 0), (''entail_rev'', JInt 0), (''contradiction'', JInt 1)]"
    by (simp add: exact_keys_def)
  show ?thesis
    by (simp add: judge_def llm_judge_def demo_candidate_def demo_incumbents_def
      demo_assertion_def demo_provenance_def pr demo_llm_def reject_echo_def startswith_def
      nli_parse_def demo_verdict_def adjudication_batch_def exact_keys_def [of "[''judgements'']"]
      as_list_def as_judgement_def keys as_unit_def as_float_def one in_unit_def)
qed

lemma demo_cosines: "cosines_ok demo_incumbents"
  by (simp add: cosines_ok_def demo_incumbents_def in_cosine_def)

theorem detect_total_witness:
  "\<exists>r. detect demo_candidate demo_incumbents (demo_spec MANY) demo_judge = Inr r
    \<and> conflict_report_ok r \<and> cr_incumbent r = Some ''a''"
  using detect_total [OF demo_cosines demo_judged, of "demo_spec MANY"]
  by (auto simp: demo_incumbents_def demo_assertion_def)

text \<open>C37. When cardinality alone does not settle the candidate, the worst pair decides: a
  contradiction at the floor against any incumbent escalates as a contradiction with the first
  such incumbent, whatever the other pairs look like; below that, any ambiguous pair escalates;
  and the outcome is not an escalation exactly when every pair is below the ambiguous floor.\<close>

theorem worst_pair_decides:
  assumes "\<not> settled c incs spec" and "is_nearest incs \<noteq> []" and "cosines_ok incs"
    and "judge (llm_judge files loads llm canary) c incs = Inr js"
  shows "\<exists>r. detect c incs spec (llm_judge files loads llm canary) = Inr r
    \<and> (cr_hint r \<noteq> Escalate \<longleftrightarrow>
         (\<forall>k < length (is_nearest incs). j_contradiction (js ! k) < AMBIGUOUS_FLOOR))
    \<and> (cr_kind r = KIND_CONTRADICTION \<longleftrightarrow>
         (\<exists>k < length (is_nearest incs). CONTRADICTION_FLOOR \<le> j_contradiction (js ! k)))
    \<and> (\<forall>i < length (is_nearest incs).
         CONTRADICTION_FLOOR \<le> j_contradiction (js ! i) \<longrightarrow>
         (\<forall>k < i. j_contradiction (js ! k) < CONTRADICTION_FLOOR) \<longrightarrow>
         cr_incumbent r = Some (a_id (s_assertion (is_nearest incs ! i))))"
proof -
  let ?n = "length (is_nearest incs)"
  obtain w where w: "w < ?n" "adjudicate c incs js = Inr (report_at c incs js w)"
    and le: "\<forall>k < ?n. rank (res_at c incs js w) \<le> rank (res_at c incs js k)"
    and less: "\<forall>k < w. rank (res_at c incs js w) < rank (res_at c incs js k)"
    by (rule llm_nli.adjudicate_report [OF assms(4,2,3)])
  have run: "detect c incs spec (llm_judge files loads llm canary) = Inr (report_at c incs js w)"
    using detect_unsettled [OF assms(1,2)] assms(4) w(2) by simp
  have zero: "rank (res_at c incs js k) = 0 \<longleftrightarrow> CONTRADICTION_FLOOR \<le> j_contradiction (js ! k)" for k
    by (simp add: res_at_def rank_classify_0)
  have one: "rank (res_at c incs js k) \<le> 1 \<longleftrightarrow> AMBIGUOUS_FLOOR \<le> j_contradiction (js ! k)" for k
    unfolding res_at_def by (rule rank_classify_le_1)
  have hint: "cr_hint (report_at c incs js w) \<noteq> Escalate \<longleftrightarrow> \<not> rank (res_at c incs js w) \<le> 1"
    and kind: "cr_kind (report_at c incs js w) = KIND_CONTRADICTION \<longleftrightarrow> rank (res_at c incs js w) = 0"
    using classify_cases [of "s_cosine (is_nearest incs ! w)" "js ! w"
        "restates c (s_assertion (is_nearest incs ! w))"]
    by (auto simp: report_at_def res_at_def)
  have first: "w = i" if "i < ?n" "rank (res_at c incs js i) = 0" "\<forall>k < i. rank (res_at c incs js k) \<noteq> 0"
    for i
    using that le less w(1) by (metis le_zero_eq linorder_neqE_nat not_less_zero)
  have "(\<exists>k < ?n. rank (res_at c incs js k) \<le> 1) \<longleftrightarrow> rank (res_at c incs js w) \<le> 1"
    using le w(1) by (meson order_trans)
  moreover have "(\<exists>k < ?n. rank (res_at c incs js k) = 0) \<longleftrightarrow> rank (res_at c incs js w) = 0"
    using le w(1) by (metis le_zero_eq)
  ultimately show ?thesis
    using run hint kind first unfolding zero one
    by (intro exI [of _ "report_at c incs js w"]) (auto simp: report_at_def not_less not_le)
qed

theorem worst_pair_decides_witness:
  "\<exists>r. detect demo_candidate demo_incumbents (demo_spec MANY) demo_judge = Inr r
    \<and> cr_kind r = KIND_CONTRADICTION \<and> cr_hint r = Escalate \<and> cr_incumbent r = Some ''a''"
proof -
  have "CONTRADICTION_FLOOR \<le> 1" "AMBIGUOUS_FLOOR \<le> 1"
    by (simp_all add: CONTRADICTION_FLOOR_def AMBIGUOUS_FLOOR_def fl.rnd_le_rep)
  then show ?thesis
    using worst_pair_decides [OF _ _ demo_cosines demo_judged, of "demo_spec MANY"]
    by (auto simp: settled_def demo_spec_def demo_incumbents_def demo_assertion_def)
qed


text \<open>A live incumbent with another value under a single-valued predicate, or under a
  one-at-a-time predicate one whose validity meets the candidate's, is answered without the
  judge: the report is the same for every judge, even one that fails, it supersedes, and it
  names such an incumbent with its cosine and no entailment numbers.\<close>

theorem settled_without_judge:
  assumes "settled c incs spec" and "cosines_ok incs"
  shows "\<exists>r. (\<forall>nli. detect c incs spec nli = Inr r) \<and> cr_hint r = Supersede
    \<and> cr_kind r = (if ps_cardinality spec = ONE then KIND_CARDINALITY else KIND_TEMPORAL_OVERLAP)
    \<and> (\<exists>h \<in> set (is_nearest incs). cr_incumbent r = Some (a_id (s_assertion h))
         \<and> cr_cosine r = s_cosine h \<and> \<not> obj_eq (a_object (s_assertion h)) (c_object c)
         \<and> (ps_cardinality spec = ONE_PER_TIME \<longrightarrow> overlaps c (s_assertion h)))
    \<and> cr_entailment r = 0 \<and> cr_contradiction r = 0"
proof -
  obtain h res where h: "h \<in> set (is_nearest incs)"
    and run: "\<forall>nli. detect c incs spec nli = Inr
    \<lparr>cr_kind = fst res, cr_incumbent = Some (a_id (s_assertion h)), cr_entailment = 0,
     cr_contradiction = 0, cr_cosine = s_cosine h, cr_hint = snd res\<rparr>"
    and ne: "\<not> obj_eq (a_object (s_assertion h)) (c_object c)"
    and res: "ps_cardinality spec = ONE \<and> res = RES_CARDINALITY \<or>
       ps_cardinality spec = ONE_PER_TIME \<and> res = RES_TEMPORAL_OVERLAP \<and> overlaps c (s_assertion h)"
    using detect_settled [OF assms] by blast
  show ?thesis
    by (rule exI, rule conjI, rule run) (use h ne res in auto)
qed

theorem settled_without_judge_witness:
  "\<exists>r. detect demo_candidate demo_incumbents (demo_spec ONE_PER_TIME) (\<lambda>_ _. Inl TypeError) = Inr r
    \<and> cr_hint r = Supersede \<and> cr_kind r = KIND_TEMPORAL_OVERLAP"
proof -
  have "settled demo_candidate demo_incumbents (demo_spec ONE_PER_TIME)"
    by (simp add: settled_def demo_spec_def demo_incumbents_def demo_candidate_def
      demo_assertion_def obj_eq_def overlaps_def)
  from settled_without_judge [OF this demo_cosines] show ?thesis by (auto simp: demo_spec_def)
qed

definition candidate_span :: "candidate \<Rightarrow> int set" where
  "candidate_span c = {t. (case c_valid_from c of Some s \<Rightarrow> s \<le> t | None \<Rightarrow> True) \<and>
     (case c_valid_to c of Some e \<Rightarrow> t < e | None \<Rightarrow> True)}"

definition assertion_span :: "stored_assertion \<Rightarrow> int set" where
  "assertion_span a =
     {t. a_valid_from a \<le> t \<and> (case a_valid_to a of Some e \<Rightarrow> t < e | None \<Rightarrow> True)}"

text \<open>For validity intervals that are not empty, \<open>overlaps\<close> decides whether the half-open
  intervals share an instant; a missing bound is unbounded on that side.\<close>

theorem overlaps_iff_spans_meet:
  assumes "candidate_span c \<noteq> {}" and "assertion_span a \<noteq> {}"
  shows "overlaps c a \<longleftrightarrow> candidate_span c \<inter> assertion_span a \<noteq> {}"
proof
  assume o: "overlaps c a"
  let ?t = "case c_valid_from c of Some s \<Rightarrow> max s (a_valid_from a) | None \<Rightarrow> a_valid_from a"
  have "?t \<in> candidate_span c \<inter> assertion_span a"
    using assms o
    by (auto simp: overlaps_def candidate_span_def assertion_span_def max_def
        split: option.splits if_splits)
  then show "candidate_span c \<inter> assertion_span a \<noteq> {}" by blast
next
  assume "candidate_span c \<inter> assertion_span a \<noteq> {}"
  then show "overlaps c a"
    by (auto simp: overlaps_def candidate_span_def assertion_span_def split: option.splits)
qed

theorem overlaps_iff_spans_meet_witness:
  "overlaps demo_candidate demo_assertion \<longleftrightarrow>
     candidate_span demo_candidate \<inter> assertion_span demo_assertion \<noteq> {}"
proof (rule overlaps_iff_spans_meet)
  have "5 \<in> candidate_span demo_candidate" "5 \<in> assertion_span demo_assertion"
    by (simp_all add: candidate_span_def assertion_span_def demo_candidate_def demo_assertion_def)
  then show "candidate_span demo_candidate \<noteq> {}" "assertion_span demo_assertion \<noteq> {}" by blast+
qed

definition independent_count :: "stored_assertion \<Rightarrow> bool" where
  \<comment> \<open>the corroboration count is the number of distinct sources cited\<close>
  "independent_count a \<longleftrightarrow> a_corroboration a = int (card (pv_hash ` set (a_provenance a)))"

definition citations :: "stored_assertion \<Rightarrow> (string \<times> int \<times> int) list" where
  "citations a = map (\<lambda>p. (pv_hash p, pv_span p)) (a_provenance a)"

text \<open>Merging a citation keeps the corroboration count equal to the number of distinct
  sources and the citations free of duplicates, always leaves the candidate's citation present,
  drops nothing, keeps the assertion valid, and merging it twice changes nothing more.\<close>

theorem merge_counts_sources:
  assumes "independent_count a" and "distinct (citations a)" and "assertion_ok a"
    and "candidate_ok c"
  shows "independent_count (merge a c) \<and> distinct (citations (merge a c))
    \<and> assertion_ok (merge a c)
    \<and> set (citations (merge a c)) =
        insert (pv_hash (c_provenance c), pv_span (c_provenance c)) (set (citations a))
    \<and> merge (merge a c) c = merge a c
    \<and> a_id (merge a c) = a_id a \<and> a_object (merge a c) = a_object a"
proof (cases "\<exists>p \<in> set (a_provenance a). is_same_citation p (c_provenance c)")
  case True
  then have m: "merge a c = a" by (simp add: merge_def Let_def)
  have "(pv_hash (c_provenance c), pv_span (c_provenance c)) \<in> set (citations a)"
  proof -
    obtain p where "p \<in> set (a_provenance a)" "is_same_citation p (c_provenance c)"
      using True by blast
    then show ?thesis
      by (auto simp: citations_def is_same_citation_def intro!: rev_image_eqI [of p])
  qed
  with assms show ?thesis by (simp add: m insert_absorb)
next
  case False
  let ?new = "\<forall>p \<in> set (a_provenance a). pv_hash p \<noteq> pv_hash (c_provenance c)"
  have m: "merge a c = a\<lparr>a_provenance := a_provenance a @ [c_provenance c],
      a_corroboration := a_corroboration a + (if ?new then 1 else 0)\<rparr>"
    using False by (simp add: merge_def Let_def)
  have "pv_hash (c_provenance c) \<in> pv_hash ` set (a_provenance a) \<longleftrightarrow> \<not> ?new"
    by (metis (no_types, lifting) image_iff)
  then have "independent_count (merge a c)"
    using assms(1) by (simp add: m independent_count_def card_insert_if)
  moreover have "distinct (citations (merge a c))"
    using assms(2) False by (auto simp: m citations_def is_same_citation_def)
  moreover have "assertion_ok (merge a c)"
    using assms(3,4) by (cases "a_valid_to a") (auto simp: m assertion_ok_def candidate_ok_def)
  moreover have "merge (merge a c) c = merge a c"
  proof -
    have "\<exists>p \<in> set (a_provenance (merge a c)). is_same_citation p (c_provenance c)"
      by (simp add: m is_same_citation_def)
    then show ?thesis by (simp add: merge_def [of "merge a c"] Let_def)
  qed
  ultimately show ?thesis by (auto simp: m citations_def)
qed

theorem merge_counts_sources_witness:
  "a_corroboration (merge demo_assertion
     (demo_candidate\<lparr>c_provenance := demo_provenance\<lparr>pv_hash := ''other''\<rparr>\<rparr>)) = 2"
proof -
  let ?c = "demo_candidate\<lparr>c_provenance := demo_provenance\<lparr>pv_hash := ''other''\<rparr>\<rparr>"
  have "independent_count demo_assertion" "distinct (citations demo_assertion)"
    "assertion_ok demo_assertion" "candidate_ok ?c"
    by (simp_all add: independent_count_def citations_def assertion_ok_def candidate_ok_def
      demo_assertion_def demo_candidate_def demo_provenance_def provenance_ok_def span_ok_def
      in_unit_def)
  note m = merge_counts_sources [OF this]
  have "pv_hash ` set (a_provenance (merge demo_assertion ?c)) = {''h'', ''other''}"
    by (auto simp: merge_def demo_assertion_def demo_candidate_def demo_provenance_def
      is_same_citation_def)
  with m show ?thesis by (simp add: independent_count_def)
qed

end
