(* ===== verification/SchemaGate.thy ===== *)
theory SchemaGate
  imports Schemas
begin

text \<open>
  \<open>pipeline/l2_validate/schema_gate.py\<close>: the four outcomes of fitting a candidate to the
  ontology. Coercion of text to a number uses the model of \<open>float(str)\<close> and of \<open>str(float)\<close>
  of the text theory.
\<close>

definition FIT_EXACT :: real where "FIT_EXACT = 1"
definition FIT_COERCED :: real where "FIT_COERCED = fl (7 / 10)"
definition FIT_UNKNOWN :: real where "FIT_UNKNOWN = fl (4 / 10)"
definition FIT_REJECTED :: real where "FIT_REJECTED = 0"

definition TRUE_WORDS :: "string list" where "TRUE_WORDS = [''true'', ''yes'', ''y'']"
definition FALSE_WORDS :: "string list" where "FALSE_WORDS = [''false'', ''no'', ''n'']"

datatype gate_outcome = PASS | COERCED | QUARANTINED | REJECTED

record gated_candidate =
  g_candidate :: candidate
  g_outcome :: gate_outcome
  g_fit :: real
  g_reason :: string

record gate_result =
  gr_admitted :: "gated_candidate list"
  gr_quarantined :: "gated_candidate list"
  gr_rejected :: "gated_candidate list"

definition casefold :: "string \<Rightarrow> string" where
  \<comment> \<open>below 256 it differs from \<open>lower\<close> on the sharp s (and on the micro sign, whose folding
     is not below 256)\<close>
  "casefold s = concat (map (\<lambda>c. if code c = 223 then ''ss'' else [lower_char c]) s)"

definition as_text :: "object_value \<Rightarrow> (object_value \<times> bool) option" where
  "as_text v =
     (case v of
        OStr s \<Rightarrow> Some (OStr s, False)
      | OBool b \<Rightarrow> Some (OStr (if b then ''True'' else ''False''), True)
      | OFloat x \<Rightarrow> Some (OStr (repr_float x), True)
      | ODict _ \<Rightarrow> None)"

definition as_number :: "object_value \<Rightarrow> (object_value \<times> bool) option" where
  "as_number v =
     (case v of
        OBool _ \<Rightarrow> None
      | OFloat x \<Rightarrow> Some (OFloat x, False)
      | OStr s \<Rightarrow> (case parse_float s of Some x \<Rightarrow> Some (OFloat x, True) | None \<Rightarrow> None)
      | ODict _ \<Rightarrow> None)"

definition as_boolean :: "object_value \<Rightarrow> (object_value \<times> bool) option" where
  "as_boolean v =
     (case v of
        OBool b \<Rightarrow> Some (OBool b, False)
      | OStr s \<Rightarrow>
          (let word = casefold (strip s) in
           if word \<in> set TRUE_WORDS then Some (OBool True, True)
           else if word \<in> set FALSE_WORDS then Some (OBool False, True)
           else None)
      | _ \<Rightarrow> None)"

definition fit :: "object_value \<Rightarrow> object_spec \<Rightarrow> (object_value \<times> bool) option" where
  "fit v spec =
     (case spec of
        CodedObject _ \<Rightarrow> if obj_is_str v then Some (v, False) else None
      | EntityRefObject _ \<Rightarrow> if obj_is_str v then Some (v, False) else None
      | ScalarObject TEXT \<Rightarrow> as_text v
      | ScalarObject NUMBER \<Rightarrow> as_number v
      | ScalarObject BOOLEAN \<Rightarrow> as_boolean v)"

definition quarantined :: "candidate \<Rightarrow> candidate" where
  "quarantined c = c\<lparr>c_namespace := ''quarantine:'' @ c_tenant c\<rparr>"

definition gate_judge :: "ontology \<Rightarrow> candidate \<Rightarrow> gated_candidate" where
  "gate_judge o' c =
     (case predicate o' (c_predicate c) of
        None \<Rightarrow> \<lparr>g_candidate = quarantined c, g_outcome = QUARANTINED, g_fit = FIT_UNKNOWN,
                 g_reason = ''SCHEMA_UNKNOWN_PREDICATE''\<rparr>
      | Some spec \<Rightarrow>
          (case fit (c_object c) (ps_object spec) of
             None \<Rightarrow> \<lparr>g_candidate = c, g_outcome = REJECTED, g_fit = FIT_REJECTED,
                      g_reason = ''SCHEMA_TYPE''\<rparr>
           | Some (v, coerced) \<Rightarrow>
               if \<not> coerced
               then \<lparr>g_candidate = c, g_outcome = PASS, g_fit = FIT_EXACT, g_reason = ''SCHEMA_OK''\<rparr>
               else \<lparr>g_candidate = c\<lparr>c_object := v\<rparr>, g_outcome = COERCED, g_fit = FIT_COERCED,
                     g_reason = ''SCHEMA_COERCED''\<rparr>))"

fun gate_loop :: "ontology \<Rightarrow> gate_result \<Rightarrow> candidate list \<Rightarrow> gate_result" where
  "gate_loop o' r [] = r"
| "gate_loop o' r (c # cs) =
     (let verdict = gate_judge o' c in
      gate_loop o'
        (if g_outcome verdict = QUARANTINED
         then r\<lparr>gr_quarantined := gr_quarantined r @ [verdict]\<rparr>
         else if g_outcome verdict = REJECTED
         then r\<lparr>gr_rejected := gr_rejected r @ [verdict]\<rparr>
         else r\<lparr>gr_admitted := gr_admitted r @ [verdict]\<rparr>) cs)"

definition gate :: "candidate list \<Rightarrow> ontology \<Rightarrow> gate_result" where
  "gate candidates o' =
     gate_loop o' \<lparr>gr_admitted = [], gr_quarantined = [], gr_rejected = []\<rparr> candidates"

section \<open>Lemmas\<close>

definition has_type :: "object_value \<Rightarrow> object_spec \<Rightarrow> bool" where
  \<comment> \<open>the value is already of the declared type\<close>
  "has_type v spec \<longleftrightarrow>
     (case spec of
        ScalarObject NUMBER \<Rightarrow> (\<exists>x. v = OFloat x)
      | ScalarObject BOOLEAN \<Rightarrow> (\<exists>b. v = OBool b)
      | _ \<Rightarrow> (\<exists>s. v = OStr s))"

lemma fit_has_type: "fit v spec = Some (w, k) \<Longrightarrow> has_type w spec"
  by (auto simp: fit_def as_text_def as_number_def as_boolean_def has_type_def obj_is_str_def Let_def
      split: object_spec.splits scalar_type.splits object_value.splits if_splits option.splits)

lemma fit_exact_iff: "fit v spec = Some (w, False) \<longleftrightarrow> w = v \<and> has_type v spec"
  by (auto simp: fit_def as_text_def as_number_def as_boolean_def has_type_def obj_is_str_def Let_def
      split: object_spec.splits scalar_type.splits object_value.splits if_splits option.splits)

lemma gate_loop_filter:
  "gate_loop o' r cs =
     \<lparr>gr_admitted = gr_admitted r @ filter (\<lambda>g. g_outcome g \<in> {PASS, COERCED}) (map (gate_judge o') cs),
      gr_quarantined = gr_quarantined r @ filter (\<lambda>g. g_outcome g = QUARANTINED) (map (gate_judge o') cs),
      gr_rejected = gr_rejected r @ filter (\<lambda>g. g_outcome g = REJECTED) (map (gate_judge o') cs)\<rparr>"
proof (induction cs arbitrary: r)
  case (Cons c cs)
  then show ?case by (cases "g_outcome (gate_judge o' c)") (simp_all add: Let_def)
qed simp

lemma gate_filter:
  "gate cs o' =
     \<lparr>gr_admitted = filter (\<lambda>g. g_outcome g \<in> {PASS, COERCED}) (map (gate_judge o') cs),
      gr_quarantined = filter (\<lambda>g. g_outcome g = QUARANTINED) (map (gate_judge o') cs),
      gr_rejected = filter (\<lambda>g. g_outcome g = REJECTED) (map (gate_judge o') cs)\<rparr>"
  by (simp add: gate_def gate_loop_filter)

lemma gate_judge_cases:
  obtains (unknown) "predicate o' (c_predicate c) = None" "gate_judge o' c =
      \<lparr>g_candidate = quarantined c, g_outcome = QUARANTINED, g_fit = FIT_UNKNOWN,
       g_reason = ''SCHEMA_UNKNOWN_PREDICATE''\<rparr>"
  | (misfit) spec where "predicate o' (c_predicate c) = Some spec"
      "fit (c_object c) (ps_object spec) = None" "gate_judge o' c =
      \<lparr>g_candidate = c, g_outcome = REJECTED, g_fit = FIT_REJECTED, g_reason = ''SCHEMA_TYPE''\<rparr>"
  | (exact) spec where "predicate o' (c_predicate c) = Some spec" "has_type (c_object c) (ps_object spec)"
      "gate_judge o' c =
      \<lparr>g_candidate = c, g_outcome = PASS, g_fit = FIT_EXACT, g_reason = ''SCHEMA_OK''\<rparr>"
  | (coerced) spec v where "predicate o' (c_predicate c) = Some spec"
      "fit (c_object c) (ps_object spec) = Some (v, True)" "has_type v (ps_object spec)"
      "gate_judge o' c = \<lparr>g_candidate = c\<lparr>c_object := v\<rparr>, g_outcome = COERCED, g_fit = FIT_COERCED,
       g_reason = ''SCHEMA_COERCED''\<rparr>"
proof (cases "predicate o' (c_predicate c)")
  case None
  with unknown show thesis by (simp add: gate_judge_def)
next
  case (Some spec)
  show thesis
  proof (cases "fit (c_object c) (ps_object spec)")
    case None
    with misfit Some show thesis by (simp add: gate_judge_def)
  next
    case fitted: (Some vk)
    obtain v k where vk: "vk = (v, k)" by force
    show thesis
    proof (cases k)
      case True
      with coerced Some fitted vk fit_has_type show thesis by (simp add: gate_judge_def)
    next
      case False
      with exact Some fitted vk fit_exact_iff [of "c_object c" "ps_object spec" v]
      show thesis by (simp add: gate_judge_def)
    qed
  qed
qed

text \<open>The gate never raises and loses nothing: each candidate gets exactly one verdict, in
  order within its list; whatever is admitted has a declared predicate and a value of the
  declared type and differs from the candidate at most in that value; an unknown predicate is
  quarantined, and only it; a quarantined candidate carries the quarantine namespace of its
  own tenant.\<close>

theorem gate_sorts_candidates:
  "length (gr_admitted (gate cs o')) + length (gr_quarantined (gate cs o'))
     + length (gr_rejected (gate cs o')) = length cs
   \<and> (\<forall>g \<in> set (gr_admitted (gate cs o')). \<exists>c \<in> set cs. \<exists>spec.
        predicate o' (c_predicate c) = Some spec
        \<and> g_candidate g = c\<lparr>c_object := c_object (g_candidate g)\<rparr>
        \<and> has_type (c_object (g_candidate g)) (ps_object spec)
        \<and> (g_outcome g = PASS \<longleftrightarrow> has_type (c_object c) (ps_object spec)))
   \<and> (\<forall>g \<in> set (gr_quarantined (gate cs o')). \<exists>c \<in> set cs.
        predicate o' (c_predicate c) = None \<and>
        g_candidate g = c\<lparr>c_namespace := ''quarantine:'' @ c_tenant c\<rparr>)
   \<and> (\<forall>g \<in> set (gr_rejected (gate cs o')).
        g_candidate g \<in> set cs \<and> predicate o' (c_predicate (g_candidate g)) \<noteq> None)"
proof (intro conjI ballI)
  show "length (gr_admitted (gate cs o')) + length (gr_quarantined (gate cs o'))
     + length (gr_rejected (gate cs o')) = length cs"
    unfolding gate_filter
  proof (induction cs)
    case (Cons c cs)
    then show ?case by (cases "g_outcome (gate_judge o' c)") simp_all
  qed simp
next
  fix g assume "g \<in> set (gr_admitted (gate cs o'))"
  then obtain c where c: "c \<in> set cs" "g = gate_judge o' c" "g_outcome g \<in> {PASS, COERCED}"
    by (auto simp: gate_filter)
  show "\<exists>c \<in> set cs. \<exists>spec. predicate o' (c_predicate c) = Some spec
        \<and> g_candidate g = c\<lparr>c_object := c_object (g_candidate g)\<rparr>
        \<and> has_type (c_object (g_candidate g)) (ps_object spec)
        \<and> (g_outcome g = PASS \<longleftrightarrow> has_type (c_object c) (ps_object spec))"
  proof (rule bexI [OF _ c(1)])
    show "\<exists>spec. predicate o' (c_predicate c) = Some spec
        \<and> g_candidate g = c\<lparr>c_object := c_object (g_candidate g)\<rparr>
        \<and> has_type (c_object (g_candidate g)) (ps_object spec)
        \<and> (g_outcome g = PASS \<longleftrightarrow> has_type (c_object c) (ps_object spec))"
    proof (cases o' c rule: gate_judge_cases)
      case (coerced spec v)
      have "\<not> has_type (c_object c) (ps_object spec)"
        using coerced(2) fit_exact_iff [of "c_object c" "ps_object spec" "c_object c"] by auto
      with coerced c show ?thesis by simp
    qed (use c in simp_all)
  qed
next
  fix g assume "g \<in> set (gr_quarantined (gate cs o'))"
  then obtain c where c: "c \<in> set cs" "g = gate_judge o' c" "g_outcome g = QUARANTINED"
    by (auto simp: gate_filter)
  then show "\<exists>c \<in> set cs. predicate o' (c_predicate c) = None \<and>
        g_candidate g = c\<lparr>c_namespace := ''quarantine:'' @ c_tenant c\<rparr>"
    by (cases o' c rule: gate_judge_cases) (auto simp: quarantined_def)
next
  fix g assume "g \<in> set (gr_rejected (gate cs o'))"
  then obtain c where c: "c \<in> set cs" "g = gate_judge o' c" "g_outcome g = REJECTED"
    by (auto simp: gate_filter)
  then show "g_candidate g \<in> set cs" "predicate o' (c_predicate (g_candidate g)) \<noteq> None"
    by (cases o' c rule: gate_judge_cases; simp)+
qed

definition ward_ontology :: ontology where
  "ward_ontology = \<lparr>on_name = ''ward'', on_version = 1, on_entities = [''patient''],
     on_predicates = [(''smoker'', \<lparr>ps_subject = ''patient'', ps_object = ScalarObject BOOLEAN,
       ps_cardinality = ONE, ps_impact = LOW, ps_pii = PII_NONE, ps_irreversibility = REVERSIBLE,
       ps_min_tier = RETRIEVED_WEB, ps_requires_corroboration = False\<rparr>)]\<rparr>"

definition ward_candidate :: "string \<Rightarrow> object_value \<Rightarrow> candidate" where
  "ward_candidate p v = \<lparr>c_id = ''c_1'', c_tenant = ''t'', c_namespace = ''n'', c_subject = ''s'',
     c_predicate = p, c_object = v, c_valid_from = None, c_valid_to = None,
     c_provenance = \<lparr>pv_hash = ''h'', pv_span = (0, 1), pv_tier = VERIFIED_USER,
       pv_verbatim = ''v'', pv_alignment = 1, pv_captured_at = 0\<rparr>,
     c_extracted_by = ''m'', c_prompt_version = ''e@v2'', c_trace = ''tr''\<rparr>"

theorem gate_sorts_candidates_witness:
  "\<exists>g \<in> set (gr_admitted (gate [ward_candidate ''smoker'' (OStr '' Yes''),
       ward_candidate ''pet'' (OBool True)] ward_ontology)).
     has_type (c_object (g_candidate g)) (ScalarObject BOOLEAN)"
proof -
  let ?cs = "[ward_candidate ''smoker'' (OStr '' Yes''), ward_candidate ''pet'' (OBool True)]"
  have yes: "fit (OStr '' Yes'') (ScalarObject BOOLEAN) = Some (OBool True, True)" by code_simp
  have none: "predicate ward_ontology ''pet'' = None"
    by (simp add: predicate_def ward_ontology_def)
  have spec: "map_option ps_object (predicate ward_ontology ''smoker'') = Some (ScalarObject BOOLEAN)"
    by (simp add: predicate_def ward_ontology_def)
  then have "length (gr_admitted (gate ?cs ward_ontology)) = 1"
    using yes none by (auto simp: gate_filter gate_judge_def ward_candidate_def)
  then obtain g where g: "g \<in> set (gr_admitted (gate ?cs ward_ontology))"
    by (metis length_greater_0_conv less_one list.set_sel(1))
  with gate_sorts_candidates [of ?cs ward_ontology] obtain c s where "c \<in> set ?cs"
    "predicate ward_ontology (c_predicate c) = Some s" "has_type (c_object (g_candidate g)) (ps_object s)"
    by blast
  with g none spec show ?thesis by (auto simp: ward_candidate_def)
qed

lemma gate_judge_admitted_again:
  assumes "g_outcome (gate_judge o' c) \<in> {PASS, COERCED}"
  shows "gate_judge o' (g_candidate (gate_judge o' c)) =
    \<lparr>g_candidate = g_candidate (gate_judge o' c), g_outcome = PASS, g_fit = FIT_EXACT,
     g_reason = ''SCHEMA_OK''\<rparr>"
proof -
  have pass: "gate_judge o' d = \<lparr>g_candidate = d, g_outcome = PASS, g_fit = FIT_EXACT,
      g_reason = ''SCHEMA_OK''\<rparr>"
    if "predicate o' (c_predicate d) = Some spec" "has_type (c_object d) (ps_object spec)" for d spec
    using that fit_exact_iff [of "c_object d" "ps_object spec" "c_object d"]
    by (simp add: gate_judge_def)
  show ?thesis
  proof (cases o' c rule: gate_judge_cases)
    case (exact spec)
    then show ?thesis using pass by simp
  next
    case (coerced spec v)
    then show ?thesis using pass [of "c\<lparr>c_object := v\<rparr>" spec] by simp
  qed (use assms in simp_all)
qed

text \<open>Gating what was admitted admits all of it again, unchanged and as an exact fit: no
  value is coerced twice, and a coercion always lands in the declared type.\<close>

theorem gate_idempotent:
  "gate (map g_candidate (gr_admitted (gate cs o'))) o' =
    \<lparr>gr_admitted = map (\<lambda>g. \<lparr>g_candidate = g_candidate g, g_outcome = PASS, g_fit = FIT_EXACT,
       g_reason = ''SCHEMA_OK''\<rparr>) (gr_admitted (gate cs o')),
     gr_quarantined = [], gr_rejected = []\<rparr>"
proof -
  let ?p = "\<lambda>g. \<lparr>g_candidate = g_candidate g, g_outcome = PASS, g_fit = FIT_EXACT,
       g_reason = ''SCHEMA_OK''\<rparr>"
  let ?gs = "gr_admitted (gate cs o')"
  have "gate_judge o' (g_candidate g) = ?p g" if "g \<in> set ?gs" for g
    using that gate_judge_admitted_again by (auto simp: gate_filter)
  then have m: "map (gate_judge o') (map g_candidate ?gs) = map ?p ?gs" by simp
  show ?thesis unfolding gate_filter [of "map g_candidate ?gs"] m by (simp add: filter_map comp_def)
qed

text \<open>The words for infinity and not-a-number are numbers to \<open>float()\<close>: a text value \<open>nan\<close> is
  admitted under a numeric predicate, as a value that is not equal to itself.\<close>

lemma nan_is_admitted:
  assumes "predicate o' (c_predicate c) = Some spec" and "ps_object spec = ScalarObject NUMBER"
    and "c_object c = OStr ''nan''"
  shows "g_outcome (gate_judge o' c) = COERCED
    \<and> \<not> obj_eq (c_object (g_candidate (gate_judge o' c))) (c_object (g_candidate (gate_judge o' c)))"
proof -
  have "parse_float ''nan'' = Some NaN" by code_simp
  then have "fit (c_object c) (ps_object spec) = Some (OFloat NaN, True)"
    by (simp add: fit_def as_number_def assms)
  then show ?thesis using assms(1) by (simp add: gate_judge_def obj_eq_def)
qed

end
