(* ===== verification/Extract.thy ===== *)
theory Extract
  imports Entailment Sha256
begin

text \<open>
  \<open>pipeline/l1_extract/span_linker.py\<close> and \<open>extractor.py\<close>: locating a quoted claim in the
  source, drawing and parsing the samples, and turning the canonical sample into candidates
  that carry a receipt. The fuzzy aligner is a parameter (\<open>rapidfuzz\<close>): \<open>align needle source\<close>
  is the score and the window of \<open>partial_ratio_alignment\<close>, \<open>ratio\<close> the similarity of two
  texts in percent.
\<close>

section \<open>Span linking\<close>

definition FUZZY_THRESHOLD :: real where "FUZZY_THRESHOLD = 92"
definition MAX_SNAP :: nat where "MAX_SNAP = 40"

record span_match =
  sm_span :: "nat \<times> nat"
  sm_text :: string
  sm_alignment :: real

fun find_sub :: "string \<Rightarrow> string \<Rightarrow> nat option" where
  \<comment> \<open>\<open>source.find(needle)\<close>, \<open>None\<close> for -1\<close>
  "find_sub needle [] = (if needle = [] then Some 0 else None)"
| "find_sub needle (c # cs) =
     (if startswith (c # cs) needle then Some 0 else map_option Suc (find_sub needle cs))"

definition slice :: "nat \<Rightarrow> nat \<Rightarrow> 'a list \<Rightarrow> 'a list" where
  \<comment> \<open>\<open>xs[i:j]\<close>\<close>
  "slice i j xs = take (j - i) (drop i xs)"

function trim_left :: "string \<Rightarrow> nat \<Rightarrow> nat \<Rightarrow> nat" where
  "trim_left source i j = (if i < j \<and> is_space (source ! i) then trim_left source (Suc i) j else i)"
  by pat_completeness auto
termination by (relation "measure (\<lambda>(s, i, j). j - i)") auto

function trim_right :: "string \<Rightarrow> nat \<Rightarrow> nat \<Rightarrow> nat" where
  "trim_right source i j =
     (if i < j \<and> is_space (source ! (j - 1)) then trim_right source i (j - 1) else j)"
  by pat_completeness auto
termination by (relation "measure (\<lambda>(s, i, j). j)") auto

function widen_left :: "string \<Rightarrow> nat \<Rightarrow> nat \<Rightarrow> nat" where
  "widen_left source start limit =
     (if 0 < limit \<and> start - limit < MAX_SNAP \<and> \<not> is_space (source ! (limit - 1))
      then widen_left source start (limit - 1) else limit)"
  by pat_completeness auto
termination by (relation "measure (\<lambda>(s, i, j). j)") auto

function widen_right :: "string \<Rightarrow> nat \<Rightarrow> nat \<Rightarrow> nat" where
  "widen_right source end' limit =
     (if limit < length source \<and> limit - end' < MAX_SNAP \<and> \<not> is_space (source ! limit)
      then widen_right source end' (Suc limit) else limit)"
  by pat_completeness auto
termination by (relation "measure (\<lambda>(s, i, j). length s - j)") auto

declare trim_left.simps [simp del] trim_right.simps [simp del] widen_left.simps [simp del]
  widen_right.simps [simp del]

definition snap :: "string \<Rightarrow> nat \<Rightarrow> nat \<Rightarrow> nat \<times> nat" where
  "snap source start0 end0 =
     (let e0 = min end0 (length source);
          s1 = trim_left source start0 e0;
          e1 = trim_right source s1 e0;
          l = widen_left source s1 s1;
          s2 = (if s1 - l < MAX_SNAP then l else s1);
          r = widen_right source e1 e1;
          e2 = (if r - e1 < MAX_SNAP then r else e1)
      in (s2, e2))"

type_synonym aligner = "string \<Rightarrow> string \<Rightarrow> (real \<times> nat \<times> nat) option"

definition link_span ::
    "aligner \<Rightarrow> (string \<Rightarrow> string \<Rightarrow> real) \<Rightarrow> string \<Rightarrow> string \<Rightarrow> span_match option" where
  "link_span align ratio verbatim source =
     (if strip verbatim = [] \<or> source = [] then None
      else case find_sub verbatim source of
             Some start \<Rightarrow> Some \<lparr>sm_span = (start, start + length verbatim), sm_text = verbatim,
                                sm_alignment = 1\<rparr>
           | None \<Rightarrow>
               (case align verbatim source of
                  None \<Rightarrow> None
                | Some (score, i, j) \<Rightarrow>
                    if score < FUZZY_THRESHOLD then None
                    else
                      let sp = snap source i j;
                          text = slice (fst sp) (snd sp) source
                      in Some \<lparr>sm_span = sp, sm_text = text,
                               sm_alignment = fl (ratio verbatim text / 100)\<rparr>))"

section \<open>Extraction\<close>

record extraction_context =
  ec_tenant :: string
  ec_namespace :: string
  ec_trace :: string
  ec_tier :: source_tier
  ec_captured_at :: int

definition MIN_K :: int where "MIN_K = 1"

definition source_hash :: "string \<Rightarrow> string" where
  "source_hash content = ''sha256:'' @ hexdigest (sha256 (utf8 content))"

definition as_object :: "json \<Rightarrow> object_value option" where
  \<comment> \<open>\<open>str | float | bool | dict\<close> in JSON: an integer is converted, null and arrays are refused\<close>
  "as_object v =
     (case v of
        JStr s \<Rightarrow> Some (OStr s)
      | JBool b \<Rightarrow> Some (OBool b)
      | JInt i \<Rightarrow> Some (OFloat (Fin (fl (of_int i))))
      | JFloat x \<Rightarrow> Some (OFloat x)
      | JObj d \<Rightarrow> Some (ODict d)
      | _ \<Rightarrow> None)"

definition as_str :: "json \<Rightarrow> string option" where
  "as_str v = (case v of JStr s \<Rightarrow> Some s | _ \<Rightarrow> None)"

definition as_fact :: "json \<Rightarrow> fact option" where
  "as_fact v =
     (case v of
        JObj d \<Rightarrow>
          if exact_keys [''subject'', ''predicate'', ''object'', ''verbatim''] d
          then (case (Option.bind (map_of d ''subject'') as_str,
                      Option.bind (map_of d ''predicate'') as_str,
                      Option.bind (map_of d ''object'') as_object,
                      Option.bind (map_of d ''verbatim'') as_str) of
                  (Some s, Some p, Some x, Some t) \<Rightarrow>
                    if length t \<le> 2000
                    then Some \<lparr>f_subject = s, f_predicate = p, f_object = x, f_verbatim = t\<rparr>
                    else None
                | _ \<Rightarrow> None)
          else None
      | _ \<Rightarrow> None)"

definition extraction_batch :: "json \<Rightarrow> fact list option" where
  "extraction_batch v =
     (case v of
        JObj d \<Rightarrow> if exact_keys [''facts''] d
                  then Option.bind (map_of d ''facts'') (as_list as_fact) else None
      | _ \<Rightarrow> None)"

definition draw :: "llm_client \<Rightarrow> string \<Rightarrow> int \<Rightarrow> tier \<Rightarrow> exn + llm_response list" where
  "draw llm prompt k t =
     bindE (llm prompt t 0 1) (\<lambda>canonical.
       if k = 1 then Inr [canonical]
       else bindE (llm prompt t (fl (7 / 10)) (k - 1)) (\<lambda>spread. Inr [canonical, spread]))"

definition parse_sample :: "json_parser \<Rightarrow> string \<Rightarrow> exn + fact list" where
  "parse_sample loads sample =
     (case Option.bind (loads sample) extraction_batch of
        Some facts \<Rightarrow> Inr facts
      | None \<Rightarrow> Inl (GM ValidationRejected))"

definition parse_samples :: "json_parser \<Rightarrow> llm_response list \<Rightarrow> int \<Rightarrow> exn + fact list list" where
  "parse_samples loads responses k =
     (let samples = concat (map lr_samples responses) in
      if int (length samples) \<noteq> k then Inl (GM ProviderUnavailable)
      else mapE (parse_sample loads) samples)"

record extractor_env =
  ee_align :: aligner
  ee_ratio :: "string \<Rightarrow> string \<Rightarrow> real"

definition candidate_from ::
    "string \<Rightarrow> extraction_context \<Rightarrow> string \<Rightarrow> string \<Rightarrow> nat \<Rightarrow> fact \<Rightarrow> span_match
     \<Rightarrow> exn + candidate" where
  "candidate_from content context extracted_by prompt_version index f m =
     bindE (mk_provenance
       \<lparr>pv_hash = source_hash content, pv_span = (int (fst (sm_span m)), int (snd (sm_span m))),
        pv_tier = ec_tier context, pv_verbatim = sm_text m, pv_alignment = sm_alignment m,
        pv_captured_at = ec_captured_at context\<rparr>) (\<lambda>pv.
     mk_candidate
       \<lparr>c_id = ''c_'' @ str_nat index, c_tenant = ec_tenant context,
        c_namespace = ec_namespace context, c_subject = f_subject f, c_predicate = f_predicate f,
        c_object = f_object f, c_valid_from = None, c_valid_to = None, c_provenance = pv,
        c_extracted_by = extracted_by, c_prompt_version = prompt_version,
        c_trace = ec_trace context\<rparr>)"

fun to_candidates_from ::
    "extractor_env \<Rightarrow> string \<Rightarrow> extraction_context \<Rightarrow> string \<Rightarrow> string
     \<Rightarrow> candidate list \<Rightarrow> nat \<Rightarrow> fact list \<Rightarrow> exn + candidate list \<times> nat" where
  "to_candidates_from env content context by' pv cs unsourced [] = Inr (cs, unsourced)"
| "to_candidates_from env content context by' pv cs unsourced (f # fs) =
     (case link_span (ee_align env) (ee_ratio env) (f_verbatim f) content of
        None \<Rightarrow> to_candidates_from env content context by' pv cs (Suc unsourced) fs
      | Some m \<Rightarrow>
          bindE (candidate_from content context by' pv (length cs + 1) f m) (\<lambda>c.
            to_candidates_from env content context by' pv (cs @ [c]) unsourced fs))"

definition to_candidates ::
    "extractor_env \<Rightarrow> fact list \<Rightarrow> string \<Rightarrow> extraction_context \<Rightarrow> string \<Rightarrow> string
     \<Rightarrow> exn + candidate list \<times> nat" where
  "to_candidates env facts content context extracted_by prompt_version =
     to_candidates_from env content context extracted_by prompt_version [] 0 facts"

definition assemble ::
    "extractor_env \<Rightarrow> fact list list \<Rightarrow> llm_response list \<Rightarrow> string \<Rightarrow> extraction_context \<Rightarrow> int
     \<Rightarrow> string \<Rightarrow> int \<Rightarrow> exn + extraction_result" where
  "assemble env samples responses content context k prompt_version dropped_noise =
     bindE (to_candidates env (hd samples) content context (lr_model (hd responses)) prompt_version)
       (\<lambda>(candidates, unsourced).
         mk_extraction_result
           \<lparr>x_candidates = candidates, x_samples = samples, x_k_samples = k,
            x_dropped_noise = dropped_noise, x_dropped_unsourced = int unsourced,
            x_tokens_in = sum_list (map lr_tokens_in responses),
            x_tokens_out = sum_list (map lr_tokens_out responses),
            x_cache_hit = (\<forall>r \<in> set responses. lr_cache_hit r)\<rparr>)"

definition extract_candidates ::
    "extractor_env \<Rightarrow> prompt_files \<Rightarrow> json_parser \<Rightarrow> llm_client \<Rightarrow> string \<Rightarrow> string
     \<Rightarrow> extraction_context \<Rightarrow> string \<Rightarrow> int \<Rightarrow> tier \<Rightarrow> int \<Rightarrow> exn + extraction_result" where
  "extract_candidates env files loads llm canary content context ontology_yaml k t dropped_noise =
     (if k < MIN_K then Inl ValueError
      else
        bindE (render files ''extract_memories'' 2
                 [(''content'', content), (''ontology'', ontology_yaml), (''canary'', canary)])
          (\<lambda>prompt.
        bindE (draw llm (rp_text prompt) k t) (\<lambda>responses.
        bindE (reject_echo canary (concat (map lr_samples responses))) (\<lambda>_.
        bindE (parse_samples loads responses k) (\<lambda>samples.
          assemble env samples responses content context k (rp_version_id prompt) dropped_noise)))))"


section \<open>Span lemmas\<close>

lemma trim_left_bounds: "i \<le> j \<Longrightarrow> i \<le> trim_left src i j \<and> trim_left src i j \<le> j"
proof (induction src i j rule: trim_left.induct)
  case (1 src i j)
  then show ?case by (subst (1 2) trim_left.simps) auto
qed

lemma trim_left_first:
  assumes "i \<le> p" and "p < j" and "\<not> is_space (src ! p)"
  shows "trim_left src i j \<le> p \<and> \<not> is_space (src ! trim_left src i j)"
  using assms
proof (induction src i j rule: trim_left.induct)
  case (1 src i j)
  show ?case
  proof (cases "is_space (src ! i)")
    case True
    with "1.prems" have "Suc i \<le> p" by (metis Suc_leI le_neq_implies_less)
    with "1.IH" "1.prems" True show ?thesis by (subst (1 2) trim_left.simps) auto
  next
    case False
    with "1.prems" show ?thesis by (subst (1 2) trim_left.simps) auto
  qed
qed

lemma trim_right_last:
  assumes "i \<le> p" and "p < j" and "\<not> is_space (src ! p)"
  shows "p < trim_right src i j \<and> trim_right src i j \<le> j
    \<and> \<not> is_space (src ! (trim_right src i j - 1))"
  using assms
proof (induction src i j rule: trim_right.induct)
  case (1 src i j)
  show ?case
  proof (cases "is_space (src ! (j - 1))")
    case True
    with "1.prems" have "p < j - 1" by (metis Suc_pred' less_Suc_eq less_nat_zero_code neq0_conv)
    with "1.IH" "1.prems" True show ?thesis by (subst (1 2 3) trim_right.simps) auto
  next
    case False
    with "1.prems" show ?thesis by (subst (1 2 3) trim_right.simps) auto
  qed
qed

lemma widen_left_spec:
  assumes "\<not> is_space (src ! limit)"
  shows "widen_left src start limit \<le> limit \<and> \<not> is_space (src ! widen_left src start limit)"
  using assms
proof (induction src start limit rule: widen_left.induct)
  case (1 src start limit)
  then show ?case
    by (cases "0 < limit \<and> start - limit < MAX_SNAP \<and> \<not> is_space (src ! (limit - 1))")
      (auto simp: widen_left.simps [of src start limit])
qed

lemma widen_right_spec:
  assumes "0 < limit" and "limit \<le> length src" and "\<not> is_space (src ! (limit - 1))"
  shows "limit \<le> widen_right src e limit \<and> widen_right src e limit \<le> length src
    \<and> \<not> is_space (src ! (widen_right src e limit - 1))"
  using assms
proof (induction src e limit rule: widen_right.induct)
  case (1 src e limit)
  then show ?case
    by (cases "limit < length src \<and> limit - e < MAX_SNAP \<and> \<not> is_space (src ! limit)")
      (auto simp: widen_right.simps [of src e limit])
qed

definition meets_text :: "string \<Rightarrow> nat \<Rightarrow> nat \<Rightarrow> bool" where
  \<comment> \<open>the window holds a character that is not white space\<close>
  "meets_text source i j \<longleftrightarrow> (\<exists>p. i \<le> p \<and> p < j \<and> p < length source \<and> \<not> is_space (source ! p))"

lemma snap_spec:
  assumes "meets_text source i j"
  obtains a b where "snap source i j = (a, b)" and "a < b" and "b \<le> length source"
    and "\<not> is_space (source ! a)" and "\<not> is_space (source ! (b - 1))"
    and "\<forall>p. i \<le> p \<longrightarrow> p < j \<longrightarrow> p < length source \<longrightarrow> \<not> is_space (source ! p) \<longrightarrow> a \<le> p \<and> p < b"
    and "b - a < (j - i) + 2 * MAX_SNAP"
proof -
  let ?e0 = "min j (length source)"
  obtain p where p: "i \<le> p" "p < ?e0" "\<not> is_space (source ! p)"
    using assms by (auto simp: meets_text_def)
  define s1 where "s1 = trim_left source i ?e0"
  define e1 where "e1 = trim_right source s1 ?e0"
  have s1: "i \<le> s1" "s1 \<le> p" "\<not> is_space (source ! s1)"
    using trim_left_bounds [of i ?e0 source] trim_left_first [OF p] p by (simp_all add: s1_def)
  have e1: "p < e1" "e1 \<le> ?e0" "\<not> is_space (source ! (e1 - 1))"
    using trim_right_last [OF s1(2) p(2,3)] by (simp_all add: e1_def)
  define l where "l = widen_left source s1 s1"
  define r where "r = widen_right source e1 e1"
  have l: "l \<le> s1" "\<not> is_space (source ! l)"
    using widen_left_spec [OF s1(3)] by (simp_all add: l_def)
  have r: "e1 \<le> r" "r \<le> length source" "\<not> is_space (source ! (r - 1))"
    using widen_right_spec [OF _ _ e1(3), of e1] e1 by (simp_all add: r_def)
  let ?a = "if s1 - l < MAX_SNAP then l else s1" and ?b = "if r - e1 < MAX_SNAP then r else e1"
  have run: "snap source i j = (?a, ?b)"
    by (simp add: snap_def Let_def s1_def e1_def l_def r_def)
  have all: "s1 \<le> q \<and> q < e1" if "i \<le> q" "q < ?e0" "\<not> is_space (source ! q)" for q
    using trim_left_first [OF that] trim_right_last [OF _ that(2,3), of s1]
    by (simp add: s1_def e1_def)
  show thesis
  proof (rule that [OF run])
    show "?a < ?b" using l r s1 e1 by auto
    show "?b \<le> length source" using r e1 by auto
    show "\<not> is_space (source ! ?a)" using l s1 by simp
    show "\<not> is_space (source ! (?b - 1))" using r e1 by simp
    show "\<forall>p. i \<le> p \<longrightarrow> p < j \<longrightarrow> p < length source \<longrightarrow> \<not> is_space (source ! p) \<longrightarrow>
        ?a \<le> p \<and> p < ?b"
      using all l(1) r(1) by fastforce
    show "?b - ?a < (j - i) + 2 * MAX_SNAP"
      using l(1) r(1) s1(1) e1(2) by (auto simp: MAX_SNAP_def)
  qed
qed

lemma find_sub_Some:
  "find_sub needle hay = Some k \<Longrightarrow> k + length needle \<le> length hay \<and> take (length needle) (drop k hay) = needle"
proof (induction hay arbitrary: k)
  case (Cons c cs)
  show ?case
  proof (cases "startswith (c # cs) needle")
    case True
    with Cons.prems show ?thesis
      by (auto simp: startswith_def) (metis length_Cons length_take min.bounded_iff order_refl)
  next
    case False
    with Cons.prems obtain k' where "find_sub needle cs = Some k'" "k = Suc k'" by auto
    with Cons.IH [of k'] show ?thesis by simp
  qed
qed (auto split: if_splits)

lemma widen_right_bound: "limit \<le> length src \<Longrightarrow> widen_right src e limit \<le> length src"
proof (induction src e limit rule: widen_right.induct)
  case (1 src e limit)
  then show ?case
    by (cases "limit < length src \<and> limit - e < MAX_SNAP \<and> \<not> is_space (src ! limit)")
      (auto simp: widen_right.simps [of src e limit])
qed

lemma trim_right_bound: "trim_right src i j \<le> j"
proof (induction src i j rule: trim_right.induct)
  case (1 src i j)
  then show ?case by (subst trim_right.simps) (auto intro: le_trans)
qed

text \<open>Nothing is asked of the aligner here: whatever window it reports, the span it is trimmed to
  ends inside the document, and the text is read from the document at that span. That the span is
  not empty is checked later, by the receipt.\<close>

lemma snap_inside: "snd (snap source i j) \<le> length source"
proof -
  have "trim_right source a (min j (length source)) \<le> length source" for a
    using trim_right_bound [of source a "min j (length source)"] by linarith
  then show ?thesis by (simp add: snap_def Let_def widen_right_bound)
qed

lemma link_span_quotes:
  assumes "link_span align ratio verbatim source = Some m"
  shows "snd (sm_span m) \<le> length source
    \<and> sm_text m = slice (fst (sm_span m)) (snd (sm_span m)) source"
proof (cases "find_sub verbatim source")
  case (Some k)
  have "m = \<lparr>sm_span = (k, k + length verbatim), sm_text = verbatim, sm_alignment = 1\<rparr>"
    using assms(1) Some by (simp add: link_span_def split: if_splits)
  then show ?thesis using find_sub_Some [OF Some] by (simp add: slice_def)
next
  case None
  then obtain score i j where "sm_span m = snap source i j"
      "sm_text m = slice (fst (sm_span m)) (snd (sm_span m)) source"
    using assms(1) by (auto simp: link_span_def Let_def split: if_splits option.splits)
  then show ?thesis using snap_inside [of source i j] by simp
qed

text \<open>An aligner that scores a blank run of the document above the threshold, as a mostly blank
  needle can make it do, gives an empty span when no word touches the run: the receipt refuses it,
  and the whole extraction raises. The code's own comment holds this case to be impossible.\<close>

lemma blank_window_is_refused:
  assumes "sm_span m = (a, a)"
  shows "candidate_from content context by' pv n f m = Inl ValueError"
  using assms by (simp add: candidate_from_def mk_provenance_def provenance_ok_def span_ok_def)

lemma blank_window_raises:
  "to_candidates \<lparr>ee_align = \<lambda>_ _. Some (1200 / 13, 1, 14), ee_ratio = \<lambda>_ _. 0\<rparr>
     [\<lparr>f_subject = s, f_predicate = p, f_object = ob, f_verbatim = ''            .''\<rparr>]
     ''a              b'' context by' pv = Inl ValueError"
proof -
  have "find_sub ''            .'' ''a              b'' = None" "strip ''            .'' = ''.''"
    "snap ''a              b'' 1 14 = (14, 14)"
    by code_simp+
  then show ?thesis
    by (simp add: to_candidates_def link_span_def FUZZY_THRESHOLD_def Let_def blank_window_is_refused del: find_sub.simps)
qed

section \<open>Candidates carry a receipt\<close>

definition sourced :: "string \<Rightarrow> extraction_context \<Rightarrow> candidate \<Rightarrow> bool" where
  "sourced content context c \<longleftrightarrow>
     (\<exists>a b. pv_span (c_provenance c) = (int a, int b) \<and> a < b \<and> b \<le> length content
        \<and> pv_verbatim (c_provenance c) = slice a b content)
     \<and> pv_hash (c_provenance c) = source_hash content
     \<and> pv_tier (c_provenance c) = ec_tier context
     \<and> pv_captured_at (c_provenance c) = ec_captured_at context
     \<and> c_tenant c = ec_tenant context \<and> c_namespace c = ec_namespace context
     \<and> c_trace c = ec_trace context \<and> candidate_ok c"

lemma candidate_from_sourced:
  assumes "candidate_from content context by' pv n f m = Inr c"
    and "snd (sm_span m) \<le> length content
    \<and> sm_text m = slice (fst (sm_span m)) (snd (sm_span m)) content"
  shows "sourced content context c \<and> c_id c = ''c_'' @ str_nat n"
  using assms
  by (auto simp: candidate_from_def mk_provenance_def mk_candidate_def sourced_def candidate_ok_def
      provenance_ok_def span_ok_def split: if_splits)

definition numbered :: "candidate list \<Rightarrow> bool" where
  "numbered cs \<longleftrightarrow> (\<forall>i < length cs. c_id (cs ! i) = ''c_'' @ str_nat (i + 1))"

lemma to_candidates_from_sourced:
  assumes "to_candidates_from env content context by' pv cs u fs = Inr (cs', u')"
    and "\<forall>c \<in> set cs. sourced content context c" and "numbered cs"
  shows "(\<forall>c \<in> set cs'. sourced content context c) \<and> numbered cs'
    \<and> length cs' + u' = length cs + u + length fs"
  using assms
proof (induction fs arbitrary: cs u)
  case (Cons f fs)
  show ?case
  proof (cases "link_span (ee_align env) (ee_ratio env) (f_verbatim f) content")
    case None
    with Cons show ?thesis by simp
  next
    case (Some m)
    have "bindE (candidate_from content context by' pv (length cs + 1) f m)
        (\<lambda>c. to_candidates_from env content context by' pv (cs @ [c]) u fs) = Inr (cs', u')"
      using Cons.prems(1) by (simp only: to_candidates_from.simps Some option.case)
    then obtain c where
      c: "candidate_from content context by' pv (length cs + 1) f m = Inr c"
      and rest: "to_candidates_from env content context by' pv (cs @ [c]) u fs = Inr (cs', u')"
      by (rule bindE_InrE)
    have q: "sourced content context c" "c_id c = ''c_'' @ str_nat (length cs + 1)"
      using candidate_from_sourced [OF c link_span_quotes [OF Some]] by blast+
    have all: "\<forall>d \<in> set (cs @ [c]). sourced content context d" using Cons.prems(2) q(1) by simp
    have num: "numbered (cs @ [c])" unfolding numbered_def
    proof (intro allI impI)
      fix i assume "i < length (cs @ [c])"
      then show "c_id ((cs @ [c]) ! i) = ''c_'' @ str_nat (i + 1)"
        using Cons.prems(3) q(2) by (cases "i = length cs") (simp_all add: numbered_def nth_append)
    qed
    have len: "length (cs @ [c]) + u + length fs = length cs + u + length (f # fs)" by simp
    show ?thesis using Cons.IH [OF rest all num] unfolding len .
  qed
qed simp


lemma extract_steps:
  assumes "extract_candidates env files loads llm canary content context onto k t dropped = Inr r"
  obtains prompt responses samples candidates unsourced where "MIN_K \<le> k"
    and "render files ''extract_memories'' 2
           [(''content'', content), (''ontology'', onto), (''canary'', canary)] = Inr prompt"
    and "draw llm (rp_text prompt) k t = Inr responses"
    and "parse_samples loads responses k = Inr samples"
    and "to_candidates env (hd samples) content context (lr_model (hd responses))
           (rp_version_id prompt) = Inr (candidates, unsourced)"
    and "x_candidates r = candidates" and "x_samples r = samples" and "x_k_samples r = k"
    and "x_dropped_noise r = dropped" and "x_dropped_unsourced r = int unsourced"
    and "int (length samples) = k"
proof -
  have k: "\<not> k < MIN_K" using assms by (auto simp: extract_candidates_def)
  have a: "bindE (render files ''extract_memories'' 2
        [(''content'', content), (''ontology'', onto), (''canary'', canary)]) (\<lambda>prompt.
      bindE (draw llm (rp_text prompt) k t) (\<lambda>responses.
      bindE (reject_echo canary (concat (map lr_samples responses))) (\<lambda>_.
      bindE (parse_samples loads responses k) (\<lambda>samples.
        assemble env samples responses content context k (rp_version_id prompt) dropped)))) = Inr r"
    using assms unfolding extract_candidates_def if_not_P [OF k] .
  obtain prompt where p: "render files ''extract_memories'' 2
        [(''content'', content), (''ontology'', onto), (''canary'', canary)] = Inr prompt"
    and b: "bindE (draw llm (rp_text prompt) k t) (\<lambda>responses.
      bindE (reject_echo canary (concat (map lr_samples responses))) (\<lambda>_.
      bindE (parse_samples loads responses k) (\<lambda>samples.
        assemble env samples responses content context k (rp_version_id prompt) dropped))) = Inr r"
    using a by (rule bindE_InrE)
  obtain responses where d: "draw llm (rp_text prompt) k t = Inr responses"
    and c: "bindE (reject_echo canary (concat (map lr_samples responses))) (\<lambda>_.
      bindE (parse_samples loads responses k) (\<lambda>samples.
        assemble env samples responses content context k (rp_version_id prompt) dropped)) = Inr r"
    using b by (rule bindE_InrE)
  obtain samples where s: "parse_samples loads responses k = Inr samples"
    and m: "assemble env samples responses content context k (rp_version_id prompt) dropped = Inr r"
    using c by (auto elim!: bindE_InrE)
  obtain cu where cu: "to_candidates env (hd samples) content context (lr_model (hd responses))
           (rp_version_id prompt) = Inr cu"
    and rr: "(case cu of (candidates, unsourced) \<Rightarrow> mk_extraction_result
           \<lparr>x_candidates = candidates, x_samples = samples, x_k_samples = k,
            x_dropped_noise = dropped, x_dropped_unsourced = int unsourced,
            x_tokens_in = sum_list (map lr_tokens_in responses),
            x_tokens_out = sum_list (map lr_tokens_out responses),
            x_cache_hit = (\<forall>r \<in> set responses. lr_cache_hit r)\<rparr>) = Inr r"
    using m unfolding assemble_def by (rule bindE_InrE)
  obtain cs u where "cu = (cs, u)" by force
  with rr have x: "x_candidates r = cs" "x_samples r = samples" "x_k_samples r = k"
      "x_dropped_noise r = dropped" "x_dropped_unsourced r = int u" "int (length samples) = k"
    by (auto simp: mk_extraction_result_def split: if_splits)
  have "MIN_K \<le> k" using k by simp
  then show thesis by (rule that [OF _ p d s cu [unfolded \<open>cu = (cs, u)\<close>] x])
qed

lemma extraction_sourced:
  assumes "extract_candidates env files loads llm canary content context onto k t dropped = Inr r"
  shows "(\<forall>c \<in> set (x_candidates r). sourced content context c)
    \<and> numbered (x_candidates r)
    \<and> int (length (x_candidates r)) + x_dropped_unsourced r = int (length (hd (x_samples r)))
    \<and> int (length (x_samples r)) = k \<and> x_dropped_noise r = dropped"
proof -
  obtain prompt responses samples candidates unsourced where "MIN_K \<le> k"
    and "render files ''extract_memories'' 2
           [(''content'', content), (''ontology'', onto), (''canary'', canary)] = Inr prompt"
    and "draw llm (rp_text prompt) k t = Inr responses"
    and "parse_samples loads responses k = Inr samples"
    and cu: "to_candidates env (hd samples) content context (lr_model (hd responses))
           (rp_version_id prompt) = Inr (candidates, unsourced)"
    and r: "x_candidates r = candidates" "x_samples r = samples" "x_k_samples r = k"
      "x_dropped_noise r = dropped" "x_dropped_unsourced r = int unsourced"
      "int (length samples) = k"
    by (rule extract_steps [OF assms])
  have "numbered []" by (simp add: numbered_def)
  then have "(\<forall>c \<in> set candidates. sourced content context c) \<and> numbered candidates
      \<and> length candidates + unsourced = length (hd samples)"
    using to_candidates_from_sourced [OF cu [unfolded to_candidates_def]] by simp
  then show ?thesis unfolding r using r(6) by linarith
qed

text \<open>C33. Every candidate an extraction returns quotes its source: its verbatim text is exactly
  the document's text at its span, the span is non-empty and inside the document, the hash is
  the document's, and tenant, namespace, trace, tier and capture time are the caller's, never
  the model's. Candidates are numbered from 1 in order, and each fact of the canonical sample
  is either a candidate or counted as unsourced. Nothing is assumed of the aligner: a window that
  would give an empty quote makes the extraction raise.\<close>

theorem extraction_quotes_its_source:
  assumes "extract_candidates env files loads llm canary content context onto k t dropped = Inr r"
  shows "(\<forall>c \<in> set (x_candidates r). sourced content context c)
    \<and> numbered (x_candidates r)
    \<and> int (length (x_candidates r)) + x_dropped_unsourced r = int (length (hd (x_samples r)))
    \<and> int (length (x_samples r)) = k \<and> x_dropped_noise r = dropped"
  by (rule extraction_sourced [OF assms])

definition tea_context :: extraction_context where
  "tea_context = \<lparr>ec_tenant = ''t'', ec_namespace = ''user:u'', ec_trace = ''tr'',
     ec_tier = VERIFIED_USER, ec_captured_at = 0\<rparr>"

definition tea_env :: extractor_env where
  "tea_env = \<lparr>ee_align = \<lambda>needle _. if needle = ''likes tea'' then Some (1600 / 17, 2, 10) else Some (75, 2, 10),
     ee_ratio = \<lambda>_ _. 1600 / 17\<rparr>"

definition tea_prompt :: string where
  "tea_prompt = join newline [''---'', ''name: extract_memories'', ''version: 2'', ''tier: fast'',
     ''output_schema: E'', ''changelog: c'', ''---'', ''{{ content }}{{ ontology }}{{ canary }}'']"

definition tea_reply :: json where
  "tea_reply = JObj [(''facts'', JList [JObj [(''subject'', JStr ''u''), (''predicate'', JStr ''likes''),
     (''object'', JStr ''tea''), (''verbatim'', JStr ''like tea'')],
     JObj [(''subject'', JStr ''u''), (''predicate'', JStr ''likes''),
     (''object'', JStr ''gin''), (''verbatim'', JStr ''like gin'')]])]"

definition loose_reply :: json where
  "loose_reply = JObj [(''facts'', JList [JObj [(''subject'', JStr ''u''), (''predicate'', JStr ''likes''),
     (''object'', JStr ''tea''), (''verbatim'', JStr ''likes tea'')],
     JObj [(''subject'', JStr ''u''), (''predicate'', JStr ''likes''),
     (''object'', JStr ''gin''), (''verbatim'', JStr ''like gin'')]])]"

text \<open>The first citation is not in the turn word for word: the aligner finds it eight of nine
  characters long, and the receipt quotes the turn. The second one aligns too poorly.\<close>

lemma tea_extraction:
  "\<exists>r. extract_candidates tea_env (\<lambda>_ _. Some tea_prompt) (\<lambda>_. Some loose_reply) (demo_llm [''x''])
      ''k'' ''I like tea'' tea_context [] 1 FAST 0 = Inr r \<and> length (x_candidates r) = 1"
proof -
  have "returns (render (\<lambda>_ _. Some tea_prompt) ''extract_memories'' 2
      [(''content'', ''I like tea''), (''ontology'', []), (''canary'', ''k'')])"
    by code_simp
  then obtain pr where pr: "render (\<lambda>_ _. Some tea_prompt) ''extract_memories'' 2
      [(''content'', ''I like tea''), (''ontology'', []), (''canary'', ''k'')] = Inr pr"
    by (auto simp: returns_iff)
  have batch: "extraction_batch loose_reply =
      Some [\<lparr>f_subject = ''u'', f_predicate = ''likes'', f_object = OStr ''tea'', f_verbatim = ''likes tea''\<rparr>,
        \<lparr>f_subject = ''u'', f_predicate = ''likes'', f_object = OStr ''gin'', f_verbatim = ''like gin''\<rparr>]"
    by code_simp
  have sub: "find_sub ''likes tea'' ''I like tea'' = None" "find_sub ''like gin'' ''I like tea'' = None"
    "strip ''likes tea'' = ''likes tea''" "strip ''like gin'' = ''like gin''"
    "snap ''I like tea'' 2 10 = (2, 10)" "slice 2 10 ''I like tea'' = ''like tea''"
    by code_simp+
  have link: "link_span (ee_align tea_env) (ee_ratio tea_env) ''likes tea'' ''I like tea'' =
      Some \<lparr>sm_span = (2, 10), sm_text = ''like tea'', sm_alignment = fl (16 / 17)\<rparr>"
    "link_span (ee_align tea_env) (ee_ratio tea_env) ''like gin'' ''I like tea'' = None"
    by (simp_all add: link_span_def sub tea_env_def FUZZY_THRESHOLD_def Let_def del: find_sub.simps)
  have "0 \<le> fl (16 / 17 :: real)" "fl (16 / 17 :: real) \<le> 1"
    using fl.rnd_nonneg [of "16 / 17"] fl.rnd_le_one [of "16 / 17"] by simp_all
  then show ?thesis
    by (simp add: extract_candidates_def MIN_K_def pr draw_def demo_llm_def reject_echo_def
      startswith_def parse_samples_def parse_sample_def batch assemble_def to_candidates_def
      link candidate_from_def mk_provenance_def provenance_ok_def span_ok_def in_unit_def
      mk_candidate_def candidate_ok_def mk_extraction_result_def)
qed

theorem extraction_quotes_its_source_witness:
  "\<exists>r. extract_candidates tea_env (\<lambda>_ _. Some tea_prompt) (\<lambda>_. Some loose_reply) (demo_llm [''x''])
      ''k'' ''I like tea'' tea_context [] 1 FAST 0 = Inr r
    \<and> (\<forall>c \<in> set (x_candidates r). sourced ''I like tea'' tea_context c) \<and> x_dropped_unsourced r = 1"
proof -
  obtain r where r: "extract_candidates tea_env (\<lambda>_ _. Some tea_prompt) (\<lambda>_. Some loose_reply)
      (demo_llm [''x'']) ''k'' ''I like tea'' tea_context [] 1 FAST 0 = Inr r"
    and one: "length (x_candidates r) = 1"
    using tea_extraction by blast
  note q = extraction_quotes_its_source [OF r]
  have "length (hd ss) = 2" if "parse_samples (\<lambda>_. Some loose_reply) rs 1 = Inr ss" for rs ss
  proof -
    have "extraction_batch loose_reply =
      Some [\<lparr>f_subject = ''u'', f_predicate = ''likes'', f_object = OStr ''tea'', f_verbatim = ''likes tea''\<rparr>,
        \<lparr>f_subject = ''u'', f_predicate = ''likes'', f_object = OStr ''gin'', f_verbatim = ''like gin''\<rparr>]"
      by code_simp
    moreover have "int (length (concat (map lr_samples rs))) = 1"
      using that unfolding parse_samples_def Let_def by (metis Inl_Inr_False)
    then have "length (concat (map lr_samples rs)) = Suc 0" by linarith
    then obtain x where "concat (map lr_samples rs) = [x]" unfolding length_Suc_conv by auto
    ultimately show ?thesis using that by (auto simp: parse_samples_def parse_sample_def)
  qed
  then have "length (hd (x_samples r)) = 2"
    by (rule extract_steps [OF r]) simp
  with q one r show ?thesis by auto
qed

text \<open>A fuzzy citation is read from the document at whole words: both ends of the quoted text
  are not white space, the quote contains every non-blank character of the aligned window, and
  it is less than 80 characters longer than that window.\<close>

theorem snapped_quote_is_whole_words:
  assumes "find_sub verbatim source = None" and "align verbatim source = Some (score, i, j)"
    and "meets_text source i j" and "link_span align ratio verbatim source = Some m"
  shows "\<not> is_space (hd (sm_text m)) \<and> \<not> is_space (last (sm_text m))
    \<and> (\<forall>p. i \<le> p \<longrightarrow> p < j \<longrightarrow> p < length source \<longrightarrow> \<not> is_space (source ! p) \<longrightarrow>
         fst (sm_span m) \<le> p \<and> p < snd (sm_span m))
    \<and> length (sm_text m) < (j - i) + 80"
proof -
  obtain a b where ab: "snap source i j = (a, b)" "a < b" "b \<le> length source"
      "\<not> is_space (source ! a)" "\<not> is_space (source ! (b - 1))"
      "\<forall>p. i \<le> p \<longrightarrow> p < j \<longrightarrow> p < length source \<longrightarrow> \<not> is_space (source ! p) \<longrightarrow> a \<le> p \<and> p < b"
      "b - a < (j - i) + 2 * MAX_SNAP"
    by (rule snap_spec [OF assms(3)])
  have m: "sm_span m = (a, b)" "sm_text m = slice a b source"
    using assms(1,2,4) ab(1) by (auto simp: link_span_def Let_def split: if_splits)
  have len: "length (slice a b source) = b - a" using ab(2,3) by (simp add: slice_def)
  then have "hd (slice a b source) = source ! a" "last (slice a b source) = source ! (b - 1)"
    using ab(2,3) by (auto simp: slice_def hd_conv_nth last_conv_nth)
  with ab m len show ?thesis by (simp add: MAX_SNAP_def)
qed

theorem snapped_quote_is_whole_words_witness:
  "snd (sm_span (the (link_span (\<lambda>_ _. Some (95, 3, 8)) (\<lambda>_ _. 95) ''ike te'' ''I like  tea''))) > 3"
proof -
  have "find_sub ''ike te'' ''I like  tea'' = None" by code_simp
  moreover have "meets_text ''I like  tea'' 3 8"
    unfolding meets_text_def by (rule exI [of _ 3]) (simp add: is_space_def code_def)
  moreover have "link_span (\<lambda>_ _. Some (95, 3, 8)) (\<lambda>_ _. 95) ''ike te'' ''I like  tea'' \<noteq> None"
    using \<open>find_sub ''ike te'' ''I like  tea'' = None\<close>
    by (simp add: link_span_def strip_def lstrip_def is_space_def code_def FUZZY_THRESHOLD_def Let_def)
  ultimately show ?thesis
    using snapped_quote_is_whole_words [of "''ike te''" "''I like  tea''" "\<lambda>_ _. Some (95, 3, 8)" 95 3 8
      "\<lambda>_ _. 95"]
    by (auto simp: is_space_def code_def)
qed

text \<open>C39. A bad reply stops the extraction with the error of its cause, in this order: a canary in
  any sample is an injection, a sample count other than \<open>k\<close> is the provider's failure, a sample
  outside the schema is a validation error; no candidate comes out of any of them.\<close>

theorem extraction_refuses_bad_replies:
  assumes "1 \<le> k"
    and "render files ''extract_memories'' 2
      [(''content'', content), (''ontology'', onto), (''canary'', canary)] = Inr prompt"
    and "draw llm (rp_text prompt) k t = Inr responses"
  shows "extract_candidates env files loads llm canary content context onto k t dropped =
    (let samples = concat (map lr_samples responses) in
     if \<exists>s \<in> set samples. \<exists>us vs. s = us @ canary @ vs then Inl (GM InjectionDetected)
     else if int (length samples) \<noteq> k then Inl (GM ProviderUnavailable)
     else if \<exists>s \<in> set samples. Option.bind (loads s) extraction_batch = None
     then Inl (GM ValidationRejected)
     else assemble env (map (\<lambda>s. the (Option.bind (loads s) extraction_batch)) samples) responses
       content context k (rp_version_id prompt) dropped)"
proof -
  let ?samples = "concat (map lr_samples responses)"
  have all: "mapE (parse_sample loads) ss =
      (if \<exists>s \<in> set ss. Option.bind (loads s) extraction_batch = None
       then Inl (GM ValidationRejected)
       else Inr (map (\<lambda>s. the (Option.bind (loads s) extraction_batch)) ss))" for ss
  proof (induction ss)
    case (Cons s ss)
    then show ?case
      by (cases "Option.bind (loads s) extraction_batch") (simp_all add: parse_sample_def)
  qed simp
  define ss where "ss = concat (map lr_samples responses)"
  have "extract_candidates env files loads llm canary content context onto k t dropped =
      bindE (reject_echo canary ss) (\<lambda>_. bindE (parse_samples loads responses k) (\<lambda>samples.
        assemble env samples responses content context k (rp_version_id prompt) dropped))"
    using assms(1) by (simp add: extract_candidates_def MIN_K_def assms(2,3) ss_def)
  moreover have "parse_samples loads responses k =
      (if int (length ss) \<noteq> k then Inl (GM ProviderUnavailable) else mapE (parse_sample loads) ss)"
    unfolding parse_samples_def Let_def ss_def ..
  ultimately show ?thesis
    unfolding ss_def [symmetric] Let_def reject_echo_def occurs_iff all
    by (simp only: bindE_simps split: if_split) blast
qed

theorem extraction_refuses_bad_replies_witness:
  "extract_candidates tea_env (\<lambda>_ _. Some tea_prompt) (\<lambda>_. Some tea_reply) (demo_llm [''a k b''])
      ''k'' ''I like tea'' tea_context [] 1 FAST 0 = Inl (GM InjectionDetected)"
proof -
  have "returns (render (\<lambda>_ _. Some tea_prompt) ''extract_memories'' 2
      [(''content'', ''I like tea''), (''ontology'', []), (''canary'', ''k'')])"
    by code_simp
  then obtain pr where pr: "render (\<lambda>_ _. Some tea_prompt) ''extract_memories'' 2
      [(''content'', ''I like tea''), (''ontology'', []), (''canary'', ''k'')] = Inr pr"
    by (auto simp: returns_iff)
  obtain rs where rs: "draw (demo_llm [''a k b'']) (rp_text pr) 1 FAST = Inr rs"
      "concat (map lr_samples rs) = [''a k b'']"
    by (simp add: draw_def demo_llm_def)
  have "\<exists>us vs. ''a k b'' = us @ ''k'' @ vs"
    by (rule exI [of _ "''a ''"], rule exI [of _ "'' b''"]) simp
  then show ?thesis
    using extraction_refuses_bad_replies [OF _ pr rs(1), of tea_env "\<lambda>_. Some tea_reply" tea_context 0]
    by (simp add: rs(2))
qed

end
