(* ===== verification/Noise.thy ===== *)
theory Noise
  imports Entailment "HOL-Library.Multiset" "HOL-Library.Sublist"
begin

text \<open>
  \<open>pipeline/l1_extract/noise_rules.py\<close> and \<open>noise_filter.py\<close>: the deterministic drop rules, the
  history of normalised turns they look back at, and the filter that sends the ambiguous rest
  to a classifier. \<open>rapidfuzz.fuzz.ratio\<close> is the parameter \<open>ratio\<close>.
\<close>

section \<open>Word lists\<close>

fun split_from :: "string \<Rightarrow> string \<Rightarrow> string list" where
  \<comment> \<open>the first argument is the word read so far, reversed\<close>
  "split_from acc [] = (if acc = [] then [] else [rev acc])"
| "split_from acc (c # cs) =
     (if is_space c then (if acc = [] then split_from [] cs else rev acc # split_from [] cs)
      else split_from (c # acc) cs)"

definition py_split :: "string \<Rightarrow> string list" where
  \<comment> \<open>\<open>str.split()\<close>\<close>
  "py_split s = split_from [] s"

definition FILLER :: "string list" where
  "FILLER = concat (map py_split
     [''a afternoon again ah alright and anyway bye certainly'',
      ''check checking cool evening excuse fine for give go'',
      ''good goodbye got great hang hello hey hi hmm'',
      ''hold is it just k let look looking me'',
      ''mhm minute moment morning nice np of ok okay'',
      ''on one perfect please problem roger sec second sorry'',
      ''sounds sure thank thanks that there thing u uh'',
      ''uhm um understood welcome while worries you your''])"

definition MAX_FILLER_TOKENS :: nat where "MAX_FILLER_TOKENS = 6"

definition AGENT_VERBS :: "string list" where
  "AGENT_VERBS = concat (map py_split
     [''clarify continue delete explain forget ignore list read'',
      ''recap repeat rephrase reread restate say search show'',
      ''stop summarise summarize translate''])"

definition IMPERATIVE_PREFIXES :: "string list list" where
  "IMPERATIVE_PREFIXES =
     [[''can'', ''you''], [''could'', ''you''], [''would'', ''you''], [''will'', ''you''],
      [''go'', ''ahead'', ''and''], [''please''], [''just''], [''now'']]"

definition META :: "string list" where
  "META = concat (map py_split
     [''again all back everything for i it just last me my of'',
      ''one please point previous said that the them these this'',
      ''those to up what you your''])"

definition HYPOTHETICAL_PHRASES :: "string list" where
  \<comment> \<open>the alternatives of \<open>_HYPOTHETICAL\<close>\<close>
  "HYPOTHETICAL_PHRASES =
     [''hypothetically'', ''theoretically'', ''in theory'', ''what if'', ''suppose'', ''supposing'',
      ''imagine'', ''lets say'', ''lets pretend'', ''for the sake of argument'']"

definition COUNTERFACTUAL :: "string list" where
  "COUNTERFACTUAL = [''would'', ''might'']"

definition RELATIONS :: "string list" where
  "RELATIONS = concat (map py_split
     [''aunt boss boyfriend brother colleague cousin coworker'',
      ''dad daughter father friend girlfriend grandfather grandma'',
      ''grandmother grandpa husband mom mother mum neighbor'',
      ''neighbour nephew niece partner roommate sister son'',
      ''uncle wife''])"

definition SHORT_TURN_TOKENS :: nat where "SHORT_TURN_TOKENS = 6"
definition NEAR_DUPLICATE_RATIO :: real where "NEAR_DUPLICATE_RATIO = 93"

section \<open>Rules\<close>

definition word_char :: "char \<Rightarrow> bool" where
  "word_char c \<longleftrightarrow> (97 \<le> code c \<and> code c \<le> 122) \<or> is_digit c"

fun squash :: "bool \<Rightarrow> string \<Rightarrow> string" where
  \<comment> \<open>\<open>_NON_WORD.sub(" ", _)\<close>: a run of other characters becomes one space; the flag says that
     the run has been written\<close>
  "squash inrun [] = []"
| "squash inrun (c # cs) =
     (if word_char c then c # squash False cs
      else if inrun then squash True cs else CHR '' '' # squash True cs)"

definition normalise :: "string \<Rightarrow> string" where
  "normalise text = strip (squash False (filter (\<lambda>c. code c \<noteq> 39) (lower text)))"

record turn_history =
  th_texts :: "string list"
  th_seen :: "string list"

definition empty_history :: turn_history where
  "empty_history = \<lparr>th_texts = [], th_seen = []\<rparr>"

definition history_add :: "turn \<Rightarrow> turn_history \<Rightarrow> turn_history" where
  "history_add t h =
     (let n = normalise (t_text t)
      in h\<lparr>th_texts := th_texts h @ [n], th_seen := List.insert n (th_seen h)\<rparr>)"

definition history_contains :: "turn_history \<Rightarrow> string \<Rightarrow> bool" where
  "history_contains h n \<longleftrightarrow> n \<in> set (th_seen h)"

definition is_restatement :: "string \<Rightarrow> turn_history \<Rightarrow> bool" where
  "is_restatement n h \<longleftrightarrow> n \<noteq> [] \<and> history_contains h n"

definition is_ephemeral :: "string list \<Rightarrow> bool" where
  "is_ephemeral tokens \<longleftrightarrow>
     \<not> (tokens = [] \<or> MAX_FILLER_TOKENS < length tokens) \<and> (\<forall>x \<in> set tokens. x \<in> set FILLER)"

definition strip_imperative_prefix :: "string list \<Rightarrow> string list" where
  "strip_imperative_prefix tokens =
     (case first (\<lambda>p. take (length p) tokens = p) IMPERATIVE_PREFIXES of
        Some p \<Rightarrow> drop (length p) tokens
      | None \<Rightarrow> tokens)"

definition heads_an_agent_verb :: "string list \<Rightarrow> bool" where
  "heads_an_agent_verb tokens \<longleftrightarrow>
     (let body = strip_imperative_prefix tokens in body \<noteq> [] \<and> hd body \<in> set AGENT_VERBS)"

definition is_imperative :: "string list \<Rightarrow> bool" where
  "is_imperative tokens \<longleftrightarrow>
     heads_an_agent_verb tokens \<and>
     (\<forall>x \<in> set (drop 1 (strip_imperative_prefix tokens)). x \<in> set META)"

fun phrase_search :: "string \<Rightarrow> bool \<Rightarrow> string \<Rightarrow> bool" where
  \<comment> \<open>the phrase between word boundaries; the flag says that the previous character is a word
     character\<close>
  "phrase_search phrase prev [] = False"
| "phrase_search phrase prev (c # cs) =
     ((\<not> prev \<and> startswith (c # cs) phrase \<and>
        (case drop (length phrase) (c # cs) of [] \<Rightarrow> True | d # _ \<Rightarrow> \<not> word_char d))
      \<or> phrase_search phrase (word_char c) cs)"

definition is_hypothetical :: "string list \<Rightarrow> string \<Rightarrow> bool" where
  "is_hypothetical tokens n \<longleftrightarrow>
     (\<exists>p \<in> set HYPOTHETICAL_PHRASES. phrase_search p False n) \<or>
     (''if'' \<in> set tokens \<and> (\<exists>x \<in> set tokens. x \<in> set COUNTERFACTUAL))"

definition rule_verdict :: "turn \<Rightarrow> turn_history \<Rightarrow> noise_reason option" where
  "rule_verdict t h =
     (let n = normalise (t_text t); tokens = py_split n in
      if is_ephemeral tokens then Some EPHEMERAL
      else if is_restatement n h then Some RESTATEMENT
      else if is_imperative tokens then Some IMPERATIVE
      else if is_hypothetical tokens n then Some HYPOTHETICAL
      else None)"

definition near_duplicate :: "(string \<Rightarrow> string \<Rightarrow> real) \<Rightarrow> string \<Rightarrow> turn_history \<Rightarrow> bool" where
  "near_duplicate ratio n h \<longleftrightarrow> (\<exists>e \<in> set (th_texts h). NEAR_DUPLICATE_RATIO \<le> ratio n e)"

definition is_ambiguous :: "(string \<Rightarrow> string \<Rightarrow> real) \<Rightarrow> turn \<Rightarrow> turn_history \<Rightarrow> bool" where
  "is_ambiguous ratio t h \<longleftrightarrow>
     (let n = normalise (t_text t); tokens = py_split n in
      if tokens = [] then False
      else (\<exists>x \<in> set tokens. x \<in> set RELATIONS) \<or> ''if'' \<in> set tokens \<or>
           heads_an_agent_verb tokens \<or> length tokens \<le> SHORT_TURN_TOKENS \<or>
           near_duplicate ratio n h)"

section \<open>The classifier\<close>

record noise_verdict =
  nv_turn :: string
  nv_drop :: bool
  nv_reason :: "noise_reason option"

fun role_value :: "turn_role \<Rightarrow> string" where
  "role_value USER_TURN = ''user''"
| "role_value ASSISTANT_TURN = ''assistant''"
| "role_value TOOL_TURN = ''tool''"

definition noise_reason_of :: "string \<Rightarrow> noise_reason option" where
  "noise_reason_of s =
     map_of [(''ephemeral'', EPHEMERAL), (''imperative'', IMPERATIVE), (''restatement'', RESTATEMENT),
             (''hypothetical'', HYPOTHETICAL), (''third_party'', THIRD_PARTY)] s"

definition render_turns :: "turn list \<Rightarrow> string" where
  "render_turns turns =
     join newline (map (\<lambda>t. ''<turn id='' @ [CHR 0x22] @ t_id t @ [CHR 0x22] @ '' role='' @ [CHR 0x22]
        @ role_value (t_role t) @ [CHR 0x22] @ ''>'' @ newline @ t_text t @ newline @ ''</turn>'') turns)"

definition as_noise_verdict :: "json \<Rightarrow> noise_verdict option" where
  \<comment> \<open>\<open>reason\<close> defaults to \<open>None\<close>\<close>
  "as_noise_verdict v =
     (case v of
        JObj d \<Rightarrow>
          if fst ` set d \<subseteq> {''turn_id'', ''drop'', ''reason''}
          then (case (map_of d ''turn_id'', map_of d ''drop'',
                      case map_of d ''reason'' of
                        None \<Rightarrow> Some None
                      | Some JNull \<Rightarrow> Some None
                      | Some (JStr s) \<Rightarrow> map_option Some (noise_reason_of s)
                      | Some _ \<Rightarrow> None) of
                  (Some (JStr i), Some (JBool b), Some r) \<Rightarrow>
                    Some \<lparr>nv_turn = i, nv_drop = b, nv_reason = r\<rparr>
                | _ \<Rightarrow> None)
          else None
      | _ \<Rightarrow> None)"

definition noise_classification :: "json \<Rightarrow> noise_verdict list option" where
  "noise_classification v =
     (case v of
        JObj d \<Rightarrow> if exact_keys [''verdicts''] d
                  then Option.bind (map_of d ''verdicts'') (as_list as_noise_verdict) else None
      | _ \<Rightarrow> None)"

definition confident_drops ::
    "json_parser \<Rightarrow> llm_response \<Rightarrow> turn list \<Rightarrow> (string \<times> noise_reason) list" where
  "confident_drops loads response submitted =
     (case Option.bind (loads (hd (lr_samples response))) noise_classification of
        None \<Rightarrow> []
      | Some verdicts \<Rightarrow>
          concat (map (\<lambda>v. case nv_reason v of
              Some r \<Rightarrow> if nv_drop v \<and> nv_turn v \<in> t_id ` set submitted
                          \<and> count_list (map nv_turn verdicts) (nv_turn v) = 1
                        then [(nv_turn v, r)] else []
            | None \<Rightarrow> []) verdicts))"

definition classify_noise ::
    "prompt_files \<Rightarrow> json_parser \<Rightarrow> llm_client \<Rightarrow> string \<Rightarrow> turn list \<Rightarrow> string
     \<Rightarrow> exn + (string \<times> noise_reason) list" where
  "classify_noise files loads llm canary turns namespace =
     bindE (render files ''classify_noise'' 1
              [(''subject'', namespace), (''canary'', canary), (''turns'', render_turns turns)])
       (\<lambda>prompt.
     bindE (llm (rp_text prompt) (pr_tier (rp_spec prompt)) 0 1) (\<lambda>response.
     bindE (reject_echo canary (lr_samples response)) (\<lambda>_.
       Inr (confident_drops loads response turns))))"

section \<open>The filter\<close>

fun apply_drops ::
    "turn list \<Rightarrow> turn list \<Rightarrow> dropped_turn list \<Rightarrow> (string \<times> noise_reason) list \<Rightarrow> noise_result" where
  "apply_drops [] survivors dropped drops = \<lparr>nr_kept = survivors, nr_dropped = dropped\<rparr>"
| "apply_drops (t # ts) survivors dropped drops =
     (case map_of drops (t_id t) of
        None \<Rightarrow> apply_drops ts (survivors @ [t]) dropped drops
      | Some r \<Rightarrow> apply_drops ts survivors
                    (dropped @ [\<lparr>dt_turn = t, dt_reason = r, dt_decided_by = CLASSIFIER\<rparr>]) drops)"

fun rule_pass ::
    "(string \<Rightarrow> string \<Rightarrow> real) \<Rightarrow> turn list \<Rightarrow> turn_history \<Rightarrow> turn list \<times> dropped_turn list \<times> turn list
     \<Rightarrow> turn list \<times> dropped_turn list \<times> turn list" where
  "rule_pass ratio [] h acc = acc"
| "rule_pass ratio (t # ts) h (kept, dropped, ambiguous) =
     rule_pass ratio ts (history_add t h)
       (case rule_verdict t h of
          None \<Rightarrow> (kept @ [t], dropped, if is_ambiguous ratio t h then ambiguous @ [t] else ambiguous)
        | Some r \<Rightarrow> (kept, dropped @ [\<lparr>dt_turn = t, dt_reason = r, dt_decided_by = RULE\<rparr>], ambiguous))"

definition filter_noise ::
    "(string \<Rightarrow> string \<Rightarrow> real) \<Rightarrow> prompt_files \<Rightarrow> json_parser \<Rightarrow> llm_client \<Rightarrow> string \<Rightarrow> turn list
     \<Rightarrow> string \<Rightarrow> exn + noise_result" where
  "filter_noise ratio files loads llm canary turns namespace =
     (case rule_pass ratio turns empty_history ([], [], []) of
        (kept, dropped, ambiguous) \<Rightarrow>
          if ambiguous = [] then Inr \<lparr>nr_kept = kept, nr_dropped = dropped\<rparr>
          else bindE (classify_noise files loads llm canary ambiguous namespace) (\<lambda>drops.
                 Inr (apply_drops kept [] dropped drops)))"


section \<open>What the filter accounts for\<close>

definition history_of :: "turn list \<Rightarrow> turn_history" where
  "history_of ts = foldl (\<lambda>h t. history_add t h) empty_history ts"

definition ruled :: "turn list \<Rightarrow> dropped_turn \<Rightarrow> bool" where
  \<comment> \<open>a rule drop is the verdict of the rules on that turn after the turns before it\<close>
  "ruled ts d \<longleftrightarrow>
     (\<exists>us vs. ts = us @ dt_turn d # vs \<and> rule_verdict (dt_turn d) (history_of us) = Some (dt_reason d))"

definition unsure :: "(string \<Rightarrow> string \<Rightarrow> real) \<Rightarrow> turn list \<Rightarrow> turn \<Rightarrow> bool" where
  "unsure ratio ts t \<longleftrightarrow>
     (\<exists>us vs. ts = us @ t # vs \<and> rule_verdict t (history_of us) = None
        \<and> is_ambiguous ratio t (history_of us))"

lemma ruled_append: "ruled ts d \<Longrightarrow> ruled (ts @ [t]) d"
  unfolding ruled_def by (metis append_Cons append_assoc)

lemma unsure_append: "unsure ratio ts t' \<Longrightarrow> unsure ratio (ts @ [t]) t'"
  unfolding unsure_def by (metis append_Cons append_assoc)

definition pass_inv ::
    "(string \<Rightarrow> string \<Rightarrow> real) \<Rightarrow> turn list \<Rightarrow> turn list \<times> dropped_turn list \<times> turn list \<Rightarrow> bool" where
  "pass_inv ratio ts acc \<longleftrightarrow>
     (case acc of (kept, dropped, ambiguous) \<Rightarrow>
        mset kept + mset (map dt_turn dropped) = mset ts \<and> subseq kept ts
        \<and> (\<forall>d \<in> set dropped. dt_decided_by d = RULE \<and> ruled ts d)
        \<and> (\<forall>t \<in> set ambiguous. t \<in> set kept \<and> unsure ratio ts t))"

lemma pass_inv_step:
  assumes "pass_inv ratio pre (kept, dropped, ambiguous)"
  shows "pass_inv ratio (pre @ [t])
    (case rule_verdict t (history_of pre) of
       None \<Rightarrow> (kept @ [t], dropped,
                if is_ambiguous ratio t (history_of pre) then ambiguous @ [t] else ambiguous)
     | Some r \<Rightarrow> (kept, dropped @ [\<lparr>dt_turn = t, dt_reason = r, dt_decided_by = RULE\<rparr>], ambiguous))"
proof (cases "rule_verdict t (history_of pre)")
  case None
  have "is_ambiguous ratio t (history_of pre) \<Longrightarrow> unsure ratio (pre @ [t]) t"
    using None unfolding unsure_def by blast
  with None assms show ?thesis
    by (auto simp: pass_inv_def ruled_append unsure_append)
next
  case (Some r)
  have "ruled (pre @ [t]) \<lparr>dt_turn = t, dt_reason = r, dt_decided_by = RULE\<rparr>"
    using Some unfolding ruled_def by auto
  with Some assms show ?thesis
    by (auto simp: pass_inv_def ruled_append unsure_append subseq_append_iff)
qed

lemma rule_pass_inv:
  "pass_inv ratio pre acc \<Longrightarrow> pass_inv ratio (pre @ ts) (rule_pass ratio ts (history_of pre) acc)"
proof (induction ts arbitrary: pre acc)
  case (Cons t ts)
  obtain kept dropped ambiguous where acc: "acc = (kept, dropped, ambiguous)"
    by (metis prod_cases3)
  have h: "history_add t (history_of pre) = history_of (pre @ [t])" by (simp add: history_of_def)
  show ?case
    using Cons.IH [OF pass_inv_step [OF Cons.prems [unfolded acc], of t]] by (simp add: acc h)
qed simp

lemma apply_drops_filter:
  "apply_drops ts survivors dropped drops =
     \<lparr>nr_kept = survivors @ filter (\<lambda>t. map_of drops (t_id t) = None) ts,
      nr_dropped = dropped @ map (\<lambda>t. \<lparr>dt_turn = t, dt_reason = the (map_of drops (t_id t)),
         dt_decided_by = CLASSIFIER\<rparr>) (filter (\<lambda>t. map_of drops (t_id t) \<noteq> None) ts)\<rparr>"
  by (induction ts arbitrary: survivors dropped) (auto split: option.split)

lemma confident_drops_submitted:
  "map_of (confident_drops loads response submitted) i = Some r \<Longrightarrow> i \<in> t_id ` set submitted"
  by (auto simp: confident_drops_def dest!: map_of_SomeD split: option.splits if_splits)

lemma pass_inv_start: "pass_inv ratio [] ([], [], [])"
  by (simp add: pass_inv_def)

text \<open>The noise filter accounts for every turn: each is kept once or dropped once, and the kept
  ones stay in order. A rule drop is the rules' verdict on that turn after the turns before it.
  When turn ids are distinct, the classifier can only drop turns the rules were unsure about.\<close>

theorem noise_filter_accounts:
  assumes "filter_noise ratio files loads llm canary turns namespace = Inr r"
    and "distinct (map t_id turns)"
  shows "mset (nr_kept r) + mset (map dt_turn (nr_dropped r)) = mset turns
    \<and> subseq (nr_kept r) turns
    \<and> (\<forall>d \<in> set (nr_dropped r).
         (dt_decided_by d = RULE \<longrightarrow> ruled turns d) \<and>
         (dt_decided_by d = CLASSIFIER \<longrightarrow> unsure ratio turns (dt_turn d)))"
proof -
  obtain kept dropped ambiguous where
    p: "rule_pass ratio turns empty_history ([], [], []) = (kept, dropped, ambiguous)"
    by (metis prod_cases3)
  have "pass_inv ratio ([] @ turns) (rule_pass ratio turns (history_of []) ([], [], []))"
    by (rule rule_pass_inv [OF pass_inv_start])
  then have inv: "pass_inv ratio turns (kept, dropped, ambiguous)"
    by (simp add: history_of_def p)
  show ?thesis
  proof (cases "ambiguous = []")
    case True
    with assms(1) have "r = \<lparr>nr_kept = kept, nr_dropped = dropped\<rparr>" by (simp add: filter_noise_def p)
    with inv show ?thesis by (auto simp: pass_inv_def)
  next
    case False
    have "bindE (classify_noise files loads llm canary ambiguous namespace)
        (\<lambda>drops. Inr (apply_drops kept [] dropped drops)) = Inr r"
      using assms(1) False by (simp add: filter_noise_def p)
    then obtain drops where c: "classify_noise files loads llm canary ambiguous namespace = Inr drops"
      and r: "r = apply_drops kept [] dropped drops"
      by (auto elim: bindE_InrE)
    have "\<exists>resp :: llm_response. drops = confident_drops loads resp ambiguous"
      using c unfolding classify_noise_def by (elim bindE_InrE) (drule Inr_inject, rule exI, erule sym)
    then have sub: "map_of drops i = Some x \<Longrightarrow> i \<in> t_id ` set ambiguous" for i x
      using confident_drops_submitted by blast
    have km: "mset kept + mset (map dt_turn dropped) = mset turns"
      and amb: "set ambiguous \<subseteq> set kept"
      using inv by (auto simp: pass_inv_def)
    from km have kept: "set kept \<subseteq> set turns"
      by (metis mset_subset_eq_add_left set_mset_mono set_mset_mset)
    have uns: "unsure ratio turns t" if tk: "t \<in> set kept" and td: "map_of drops (t_id t) \<noteq> None" for t
    proof -
      obtain t' where "t' \<in> set ambiguous" "t_id t' = t_id t" using td sub by fastforce
      moreover from this have "t' = t"
        using kept amb tk assms(2) by (metis distinct_map inj_onD subsetD)
      ultimately show ?thesis using inv by (auto simp: pass_inv_def)
    qed
    have part: "mset (filter (\<lambda>t. map_of drops (t_id t) = None) kept)
        + (mset (map dt_turn dropped) + mset (filter (\<lambda>t. map_of drops (t_id t) \<noteq> None) kept))
        = mset kept + mset (map dt_turn dropped)"
    proof -
      have "mset kept = mset (filter (\<lambda>t. map_of drops (t_id t) = None) kept)
          + mset (filter (\<lambda>t. map_of drops (t_id t) \<noteq> None) kept)"
        unfolding mset_filter by (rule multiset_partition)
      then show ?thesis by (simp only: ac_simps)
    qed
    have sub: "subseq (filter (\<lambda>t. map_of drops (t_id t) = None) kept) turns"
      using inv subseq_order.order_trans [OF subseq_filter_left] by (auto simp: pass_inv_def)
    have "mset (nr_kept r) + mset (map dt_turn (nr_dropped r))
        = mset (filter (\<lambda>t. map_of drops (t_id t) = None) kept)
        + (mset (map dt_turn dropped) + mset (filter (\<lambda>t. map_of drops (t_id t) \<noteq> None) kept))"
      by (simp add: r apply_drops_filter comp_def del: mset_filter not_None_eq)
    then have "mset (nr_kept r) + mset (map dt_turn (nr_dropped r)) = mset turns"
      unfolding part km .
    moreover have "subseq (nr_kept r) turns" using sub by (simp add: r apply_drops_filter)
    moreover have "\<forall>d \<in> set (nr_dropped r). (dt_decided_by d = RULE \<longrightarrow> ruled turns d) \<and>
         (dt_decided_by d = CLASSIFIER \<longrightarrow> unsure ratio turns (dt_turn d))"
      using inv uns by (auto simp: r apply_drops_filter pass_inv_def)
    ultimately show ?thesis by blast
  qed
qed


definition vegan_turn :: "string \<Rightarrow> turn" where
  "vegan_turn i = \<lparr>t_id = i, t_role = USER_TURN, t_text = ''My sister is vegan.'', t_captured_at = None\<rparr>"

definition noise_prompt :: string where
  "noise_prompt = join newline [''---'', ''name: classify_noise'', ''version: 1'', ''tier: fast'',
     ''output_schema: E'', ''changelog: c'', ''---'', ''{{ subject }}{{ turns }}{{ canary }}'']"

definition drop_reply :: json where
  "drop_reply = JObj [(''verdicts'', JList [JObj [(''turn_id'', JStr ''1''), (''drop'', JBool True),
     (''reason'', JStr ''third_party'')]])]"

lemma vegan_rules:
  "rule_pass (\<lambda>_ _. 0) [vegan_turn ''1'', vegan_turn ''2''] empty_history ([], [], []) =
     ([vegan_turn ''1''], [\<lparr>dt_turn = vegan_turn ''2'', dt_reason = RESTATEMENT, dt_decided_by = RULE\<rparr>],
      [vegan_turn ''1''])"
proof -
  have n: "normalise ''My sister is vegan.'' = ''my sister is vegan''" by code_simp
  have t: "py_split ''my sister is vegan'' = [''my'', ''sister'', ''is'', ''vegan'']" by code_simp
  have e: "\<not> is_ephemeral [''my'', ''sister'', ''is'', ''vegan'']" by code_simp
  have i: "\<not> is_imperative [''my'', ''sister'', ''is'', ''vegan'']" by code_simp
  have y: "\<not> is_hypothetical [''my'', ''sister'', ''is'', ''vegan''] ''my sister is vegan''" by code_simp
  show ?thesis
    by (simp add: vegan_turn_def rule_verdict_def n t e i y is_restatement_def history_contains_def
      empty_history_def history_add_def Let_def is_ambiguous_def SHORT_TURN_TOKENS_def)
qed

text \<open>
  The first copy of a repeated turn is not always kept: here it is dropped by the classifier
  after the rules dropped its echo, and nothing survives.
\<close>

lemma echo_of_a_classified_turn:
  "\<exists>r. filter_noise (\<lambda>_ _. 0) (\<lambda>_ _. Some noise_prompt) (\<lambda>_. Some drop_reply) (demo_llm [''x''])
      ''QQ'' [vegan_turn ''1'', vegan_turn ''2''] ''user:u'' = Inr r
    \<and> nr_kept r = [] \<and> map dt_reason (nr_dropped r) = [RESTATEMENT, THIRD_PARTY]"
proof -
  have "returns (render (\<lambda>_ _. Some noise_prompt) ''classify_noise'' 1
      [(''subject'', ''user:u''), (''canary'', ''QQ''), (''turns'', render_turns [vegan_turn ''1''])])"
    by code_simp
  then obtain pr where pr: "render (\<lambda>_ _. Some noise_prompt) ''classify_noise'' 1
      [(''subject'', ''user:u''), (''canary'', ''QQ''), (''turns'', render_turns [vegan_turn ''1''])] = Inr pr"
    by (auto simp: returns_iff)
  have c: "noise_classification drop_reply =
      Some [\<lparr>nv_turn = ''1'', nv_drop = True, nv_reason = Some THIRD_PARTY\<rparr>]"
    by code_simp
  have "classify_noise (\<lambda>_ _. Some noise_prompt) (\<lambda>_. Some drop_reply) (demo_llm [''x'']) ''QQ''
      [vegan_turn ''1''] ''user:u'' = Inr [(''1'', THIRD_PARTY)]"
    by (simp add: classify_noise_def pr demo_llm_def reject_echo_def startswith_def
      confident_drops_def c) (simp add: vegan_turn_def)
  then have "filter_noise (\<lambda>_ _. 0) (\<lambda>_ _. Some noise_prompt) (\<lambda>_. Some drop_reply) (demo_llm [''x''])
      ''QQ'' [vegan_turn ''1'', vegan_turn ''2''] ''user:u'' = Inr (apply_drops [vegan_turn ''1''] []
      [\<lparr>dt_turn = vegan_turn ''2'', dt_reason = RESTATEMENT, dt_decided_by = RULE\<rparr>]
      [(''1'', THIRD_PARTY)])"
    unfolding filter_noise_def vegan_rules by simp
  then show ?thesis by (simp add: vegan_turn_def)
qed

theorem noise_filter_accounts_witness:
  "\<exists>r. filter_noise (\<lambda>_ _. 0) (\<lambda>_ _. Some noise_prompt) (\<lambda>_. Some drop_reply) (demo_llm [''x''])
      ''QQ'' [vegan_turn ''1'', vegan_turn ''2''] ''user:u'' = Inr r
    \<and> mset (map dt_turn (nr_dropped r)) = mset [vegan_turn ''1'', vegan_turn ''2'']"
proof -
  obtain r where r: "filter_noise (\<lambda>_ _. 0) (\<lambda>_ _. Some noise_prompt) (\<lambda>_. Some drop_reply)
      (demo_llm [''x'']) ''QQ'' [vegan_turn ''1'', vegan_turn ''2''] ''user:u'' = Inr r"
    and k: "nr_kept r = []"
    using echo_of_a_classified_turn by blast
  have "distinct (map t_id [vegan_turn ''1'', vegan_turn ''2''])" by (simp add: vegan_turn_def)
  from noise_filter_accounts [OF r this] r k show ?thesis by simp
qed

end
