(* ===== verification/AuditChain.thy ===== *)
theory AuditChain
  imports Sha256 Schemas "HOL-Library.Multiset"
begin

text \<open>
  \<open>observability/audit.py\<close> and \<open>observability/audit_store.py\<close>: the per-tenant hash chain. The
  chain logic is pure; the table is a list of rows in order of \<open>seq\<close>, appended to under the
  tenant's lock. A payload is a JSON object (a value outside JSON, which
  \<open>_reject_unserialisable\<close> refuses, is not a value of the model); what a \<open>JSONB\<close> column hands
  back for a payload is the parameter \<open>jsonb\<close>. Of it one law is used, which PostgreSQL documents:
  a document of moderate numbers comes back as the same document with its keys in another order.
\<close>

section \<open>Hex\<close>

definition hex_val :: "char \<Rightarrow> nat option" where
  "hex_val c =
     (let n = code c in
      if 48 \<le> n \<and> n \<le> 57 then Some (n - 48)
      else if 97 \<le> n \<and> n \<le> 102 then Some (n - 87)
      else if 65 \<le> n \<and> n \<le> 70 then Some (n - 55)
      else None)"

definition ascii_space :: "char \<Rightarrow> bool" where
  "ascii_space c \<longleftrightarrow> (let n = code c in (9 \<le> n \<and> n \<le> 13) \<or> n = 32)"

fun from_hex :: "string \<Rightarrow> byte list option" where
  \<comment> \<open>\<open>bytes.fromhex\<close>: white space between bytes is skipped, both cases are accepted\<close>
  "from_hex [] = Some []"
| "from_hex [c] = (if ascii_space c then Some [] else None)"
| "from_hex (c # d # cs) =
     (if ascii_space c then from_hex (d # cs)
      else case (hex_val c, hex_val d) of
             (Some a, Some b) \<Rightarrow> map_option (Cons (of_nat (16 * a + b))) (from_hex cs)
           | _ \<Rightarrow> None)"

lemma nat_less_16_cases:
  "n < (16::nat) \<Longrightarrow> n \<in> {0, 1, 2, 3, 4, 5, 6, 7, 8, 9, 10, 11, 12, 13, 14, 15}"
  by (auto simp: less_Suc_eq numeral_eq_Suc)

lemma hex_val_digit: "n < 16 \<Longrightarrow> hex_val (hex_digit n) = Some n \<and> \<not> ascii_space (hex_digit n)"
  by (drule nat_less_16_cases)
    (auto simp: hex_val_def hex_digit_def ascii_space_def code_def Let_def)

lemma from_hex_to_hex [simp]: "from_hex (to_hex bs) = Some bs"
proof (induction bs)
  case (Cons b bs)
  have b: "unat b div 16 < 16" "unat b mod 16 < 16"
    using unsigned_less [of b, where ?'a = nat] by (simp_all add: less_mult_imp_div_less)
  have "of_nat (16 * (unat b div 16) + unat b mod 16) = b" by simp
  with Cons b show ?case by (simp add: to_hex_def hex_byte_def hex_val_digit)
qed (simp add: to_hex_def)

section \<open>Links\<close>

record audit_event =
  ev_seq :: "int option"
  ev_tenant :: string
  ev_trace :: string
  ev_kind :: string
  ev_payload :: "(string \<times> json) list"
  ev_prev :: string
  ev_digest :: string
  ev_created :: int

definition AUDIT_KINDS :: "string list" where
  "AUDIT_KINDS = [''DECISION'', ''WRITE'', ''REVIEW'', ''POLICY_CHANGE'', ''QUARANTINE'', ''SUPERSEDE'']"

definition mk_audit_event :: "audit_event \<Rightarrow> exn + audit_event" where
  "mk_audit_event e =
     (if ev_kind e \<in> set AUDIT_KINDS \<and> (case ev_seq e of None \<Rightarrow> True | Some n \<Rightarrow> 1 \<le> n)
      then Inr e else Inl ValueError)"

definition GENESIS :: string where
  "GENESIS = concat (replicate 32 ''00'')"

record chain_verification =
  cv_verified :: bool
  cv_broken_at :: "int option"
  cv_checked :: nat

definition canonical_json :: "(string \<times> json) list \<Rightarrow> exn + string" where
  "canonical_json payload =
     (if json_finite (JObj payload) then Inr (json_dumps True '','' '':'' (JObj payload))
      else Inl ValueError)"

definition digest_bytes :: "string \<Rightarrow> exn + byte list" where
  "digest_bytes digest =
     (if length digest \<noteq> 64 then Inl ValueError
      else case from_hex digest of Some bs \<Rightarrow> Inr bs | None \<Rightarrow> Inl ValueError)"

definition digest_for :: "(string \<times> json) list \<Rightarrow> string \<Rightarrow> exn + string" where
  "digest_for payload prev_digest =
     bindE (canonical_json payload) (\<lambda>text.
     bindE (digest_bytes prev_digest) (\<lambda>prev.
       Inr (hexdigest (sha256 (utf8 text @ prev)))))"

definition next_link ::
    "string \<Rightarrow> string \<Rightarrow> string \<Rightarrow> (string \<times> json) list \<Rightarrow> string \<Rightarrow> int \<Rightarrow> exn + audit_event" where
  "next_link tenant trace kind payload prev_digest created_at =
     bindE (digest_for payload prev_digest) (\<lambda>digest.
       mk_audit_event \<lparr>ev_seq = None, ev_tenant = tenant, ev_trace = trace, ev_kind = kind,
         ev_payload = payload, ev_prev = prev_digest, ev_digest = digest, ev_created = created_at\<rparr>)"

fun verify_from :: "string \<Rightarrow> nat \<Rightarrow> audit_event list \<Rightarrow> exn + chain_verification" where
  "verify_from expected_prev index [] =
     Inr \<lparr>cv_verified = True, cv_broken_at = None, cv_checked = index\<rparr>"
| "verify_from expected_prev index (e # es) =
     (let position = (case ev_seq e of Some n \<Rightarrow> n | None \<Rightarrow> int index);
          broken = \<lparr>cv_verified = False, cv_broken_at = Some position, cv_checked = index\<rparr>
      in if ev_prev e \<noteq> expected_prev then Inr broken
         else bindE (digest_for (ev_payload e) (ev_prev e)) (\<lambda>digest.
                if ev_digest e \<noteq> digest then Inr broken
                else verify_from (ev_digest e) (Suc index) es))"

definition verify_chain :: "audit_event list \<Rightarrow> exn + chain_verification" where
  "verify_chain events = verify_from GENESIS 0 events"

section \<open>The table\<close>

record audit_row =
  ar_seq :: int
  ar_tenant :: string
  ar_trace :: string
  ar_kind :: string
  ar_payload :: "(string \<times> json) list"
  ar_prev :: "byte list"
  ar_digest :: "byte list"
  ar_created :: int

record audit_table =
  at_rows :: "audit_row list"
  at_next :: int

definition select_head :: "audit_table \<Rightarrow> string \<Rightarrow> byte list option" where
  \<comment> \<open>\<open>SELECT_HEAD\<close>: the tenant's row with the greatest \<open>seq\<close>\<close>
  "select_head db tenant =
     (case filter (\<lambda>r. ar_tenant r = tenant) (at_rows db) of
        [] \<Rightarrow> None | r # rs \<Rightarrow> Some (ar_digest (last (r # rs))))"

definition insert_audit :: "audit_table \<Rightarrow> audit_row \<Rightarrow> audit_table \<times> int" where
  \<comment> \<open>\<open>INSERT_AUDIT\<close>: \<open>seq\<close> comes from the table's \<open>BIGSERIAL\<close>\<close>
  "insert_audit db row =
     (db\<lparr>at_rows := at_rows db @ [row\<lparr>ar_seq := at_next db\<rparr>], at_next := at_next db + 1\<rparr>, at_next db)"

definition audit_append ::
    "audit_table \<Rightarrow> string \<Rightarrow> string \<Rightarrow> string \<Rightarrow> (string \<times> json) list \<Rightarrow> int
     \<Rightarrow> exn + audit_table \<times> audit_event" where
  "audit_append db tenant trace kind payload created_at =
     bindE (next_link tenant trace kind payload
              (case select_head db tenant of Some head \<Rightarrow> to_hex head | None \<Rightarrow> GENESIS) created_at)
       (\<lambda>link.
     case (from_hex (ev_prev link), from_hex (ev_digest link)) of
       (Some prev, Some digest) \<Rightarrow>
         (let (db', seq) = insert_audit db
                \<lparr>ar_seq = 0, ar_tenant = ev_tenant link, ar_trace = ev_trace link,
                 ar_kind = ev_kind link, ar_payload = ev_payload link, ar_prev = prev,
                 ar_digest = digest, ar_created = ev_created link\<rparr>
          in Inr (db', link\<lparr>ev_seq := Some seq\<rparr>))
     | _ \<Rightarrow> Inl ValueError)"

section \<open>Decision events\<close>

fun impact_value :: "impact_level \<Rightarrow> string" where
  "impact_value LOW = ''low''"
| "impact_value MEDIUM = ''medium''"
| "impact_value HIGH = ''high''"
| "impact_value CRITICAL = ''critical''"

fun conflict_value :: "conflict_kind \<Rightarrow> string" where
  "conflict_value KIND_NONE = ''none''"
| "conflict_value KIND_DUPLICATE = ''duplicate''"
| "conflict_value KIND_REFINEMENT = ''refinement''"
| "conflict_value KIND_CONTRADICTION = ''contradiction''"
| "conflict_value KIND_CARDINALITY = ''cardinality''"
| "conflict_value KIND_TEMPORAL_OVERLAP = ''temporal_overlap''"

fun hint_value :: "hint \<Rightarrow> string" where
  "hint_value Merge = ''merge''"
| "hint_value Supersede = ''supersede''"
| "hint_value Coexist = ''coexist''"
| "hint_value Escalate = ''escalate''"

definition float_field :: "string \<Rightarrow> real \<Rightarrow> string \<times> json" where
  "float_field name x = (name, JFloat (Fin x))"

definition confidence_dump :: "confidence_report \<Rightarrow> (string \<times> json) list" where
  "confidence_dump r =
     [float_field ''semantic_entropy'' (cf_entropy r), float_field ''grounding'' (cf_grounding r),
      float_field ''schema_fit'' (cf_schema_fit r), float_field ''corroboration'' (cf_corroboration r),
      float_field ''consistency'' (cf_consistency r), float_field ''confidence'' (cf_confidence r),
      (''weights_version'', JStr (cf_weights_version r))]"

definition risk_dump :: "risk_verdict \<Rightarrow> (string \<times> json) list" where
  "risk_dump v =
     [(''impact_level'', JStr (impact_value (rv_level v))), float_field ''risk'' (rv_risk v),
      (''features'', JObj (map (\<lambda>(n, x). float_field n x) (rv_features v))),
      (''obligations'', JList (map JStr (rv_obligations v)))]"

definition conflict_dump :: "conflict_report \<Rightarrow> (string \<times> json) list" where
  "conflict_dump r =
     [(''kind'', JStr (conflict_value (cr_kind r))),
      (''incumbent_assertion_id'', case cr_incumbent r of None \<Rightarrow> JNull | Some i \<Rightarrow> JStr i),
      float_field ''entailment'' (cr_entailment r), float_field ''contradiction'' (cr_contradiction r),
      float_field ''cosine'' (cr_cosine r), (''resolution_hint'', JStr (hint_value (cr_hint r)))]"

definition decision_dump :: "decision_record \<Rightarrow> (string \<times> json) list" where
  \<comment> \<open>\<open>DecisionRecord.model_dump(mode="json")\<close>\<close>
  "decision_dump r =
     [(''decision'', JStr (decision_value (dr_decision r))),
      (''reason_codes'', JList (map JStr (dr_codes r))),
      (''confidence'', JObj (confidence_dump (dr_confidence r))),
      (''risk'', JObj (risk_dump (dr_risk r))),
      (''conflict'', JObj (conflict_dump (dr_conflict r))),
      (''thresholds_version'', JStr (dr_thresholds_version r)),
      (''policy_version'', JStr (dr_policy_version r)),
      (''escalated_from'', case dr_escalated_from r of None \<Rightarrow> JNull
         | Some d \<Rightarrow> JStr (decision_value d))]"

definition append_decision ::
    "audit_table \<Rightarrow> decision_record \<Rightarrow> string \<Rightarrow> string \<Rightarrow> int \<Rightarrow> exn + audit_table \<times> audit_event" where
  "append_decision db record tenant trace created_at =
     audit_append db tenant trace ''DECISION'' (decision_dump record) created_at"

lemma decision_dump_finite: "json_finite (JObj (decision_dump r))"
  by (auto simp: decision_dump_def confidence_dump_def risk_dump_def conflict_dump_def float_field_def
      split: option.split)

section \<open>Reading the chain\<close>

definition event_from_row ::
    "((string \<times> json) list \<Rightarrow> (string \<times> json) list) \<Rightarrow> audit_row \<Rightarrow> audit_event" where
  "event_from_row jsonb row =
     \<lparr>ev_seq = Some (ar_seq row), ev_tenant = ar_tenant row, ev_trace = ar_trace row,
      ev_kind = ar_kind row, ev_payload = jsonb (ar_payload row), ev_prev = to_hex (ar_prev row),
      ev_digest = to_hex (ar_digest row), ev_created = ar_created row\<rparr>"

definition read_chain ::
    "((string \<times> json) list \<Rightarrow> (string \<times> json) list) \<Rightarrow> audit_table \<Rightarrow> string \<Rightarrow> audit_event list" where
  "read_chain jsonb db tenant =
     map (event_from_row jsonb) (filter (\<lambda>r. ar_tenant r = tenant) (at_rows db))"

definition verify_tenant_chain ::
    "((string \<times> json) list \<Rightarrow> (string \<times> json) list) \<Rightarrow> audit_table \<Rightarrow> string
     \<Rightarrow> exn + chain_verification" where
  "verify_tenant_chain jsonb db tenant = verify_chain (read_chain jsonb db tenant)"


section \<open>Encodings are injective\<close>

lemma code_less: "code c < 256"
  unfolding code_def by simp

lemma code_inj: "code c = code d \<Longrightarrow> c = d"
  by (simp add: code_def)

lemma byte_inj: "m < 256 \<Longrightarrow> n < 256 \<Longrightarrow> (of_nat m :: byte) = of_nat n \<Longrightarrow> m = n"
proof -
  have u: "unat (of_nat k :: byte) = k" if "k < 256" for k
    using that by (simp add: unsigned_of_nat take_bit_eq_mod)
  assume "m < 256" "n < 256" "(of_nat m :: byte) = of_nat n"
  then show ?thesis using u by metis
qed

lemma utf8_char_split:
  assumes "utf8_char c @ x = utf8_char d @ y"
  shows "c = d \<and> x = y"
proof -
  let ?m = "code c" and ?n = "code d"
  have lt: "?m < 256" "?n < 256" by (rule code_less)+
  then have small: "192 + ?m div 64 < 256" "192 + ?n div 64 < 256" "128 + ?m mod 64 < 256"
      "128 + ?n mod 64 < 256"
    using mod_less_divisor [of 64 ?m] mod_less_divisor [of 64 ?n] by auto
  consider "?m < 128" "?n < 128" | "\<not> ?m < 128" "\<not> ?n < 128" | "?m < 128" "\<not> ?n < 128"
    | "\<not> ?m < 128" "?n < 128" by blast
  then show ?thesis
  proof cases
    case 1
    with assms have "(of_nat ?m :: byte) = of_nat ?n" "x = y" by (simp_all add: utf8_char_def Let_def)
    with byte_inj [OF lt] code_inj show ?thesis by blast
  next
    case 2
    with assms have "(of_nat (192 + ?m div 64) :: byte) = of_nat (192 + ?n div 64)"
        "(of_nat (128 + ?m mod 64) :: byte) = of_nat (128 + ?n mod 64)" "x = y"
      by (simp_all only: utf8_char_def Let_def if_False append_Cons append_Nil list.inject)
    then have "192 + ?m div 64 = 192 + ?n div 64" "128 + ?m mod 64 = 128 + ?n mod 64"
      using byte_inj small by blast+
    then have "?m = ?n" by (metis add_left_cancel mult_div_mod_eq)
    with code_inj \<open>x = y\<close> show ?thesis by blast
  next
    case 3
    with assms have "(of_nat ?m :: byte) = of_nat (192 + ?n div 64)"
      by (simp only: utf8_char_def Let_def if_True if_False append_Cons append_Nil list.inject)
    with byte_inj [OF lt(1) small(2)] 3 show ?thesis by simp
  next
    case 4
    with assms have "(of_nat (192 + ?m div 64) :: byte) = of_nat ?n"
      by (simp only: utf8_char_def Let_def if_True if_False append_Cons append_Nil list.inject)
    with byte_inj [OF small(1) lt(2)] 4 show ?thesis by simp
  qed
qed

lemma utf8_Cons: "utf8 (c # cs) = utf8_char c @ utf8 cs"
  by (simp add: utf8_def)

lemma utf8_char_nonempty: "utf8_char c \<noteq> []"
  by (simp add: utf8_char_def Let_def)

lemma utf8_inj: "utf8 s = utf8 t \<Longrightarrow> s = t"
proof (induction s arbitrary: t)
  case Nil
  then show ?case using utf8_char_nonempty by (cases t) (auto simp: utf8_Cons utf8_def [of "[]"])
next
  case (Cons c cs)
  then obtain d ds where t: "t = d # ds"
    using utf8_char_nonempty by (cases t) (auto simp: utf8_Cons utf8_def [of "[]"])
  from Cons.prems have "c = d \<and> utf8 cs = utf8 ds" unfolding t utf8_Cons by (rule utf8_char_split)
  with Cons.IH t show ?case by blast
qed

section \<open>Links and chains\<close>

lemma digest_bytes_to_hex: "length bs = 32 \<Longrightarrow> digest_bytes (to_hex bs) = Inr bs"
  by (simp add: digest_bytes_def)

lemma GENESIS_hex: "GENESIS = to_hex (replicate 32 0)"
proof -
  have zero: "hex_digit 0 = CHR ''0''" by code_simp
  have "to_hex (replicate n 0) = concat (replicate n ''00'')" for n
    by (induction n) (simp_all add: to_hex_def hex_byte_def zero)
  then show ?thesis by (simp add: GENESIS_def)
qed

definition hex_digest :: "string \<Rightarrow> bool" where
  "hex_digest d \<longleftrightarrow> (\<exists>bs. length bs = 32 \<and> d = to_hex bs)"

lemma hex_digest_GENESIS: "hex_digest GENESIS"
  unfolding hex_digest_def GENESIS_hex by (intro exI [of _ "replicate 32 0"]) simp

definition message :: "(string \<times> json) list \<Rightarrow> string \<Rightarrow> byte list" where
  \<comment> \<open>the bytes a link's digest is taken over\<close>
  "message payload prev = utf8 (json_dumps True '','' '':'' (JObj payload)) @ the (from_hex prev)"

lemma digest_for_message:
  assumes "hex_digest prev"
  shows "digest_for payload prev =
    (if json_finite (JObj payload) then Inr (to_hex (sha256 (message payload prev))) else Inl ValueError)"
  using assms
  by (auto simp: hex_digest_def digest_for_def canonical_json_def message_def hexdigest_def
      digest_bytes_to_hex simp del: json_finite.simps)

lemma digest_for_hex: "hex_digest prev \<Longrightarrow> digest_for payload prev = Inr d \<Longrightarrow> hex_digest d"
  unfolding hex_digest_def [of d]
  by (auto simp: digest_for_message simp del: json_finite.simps split: if_splits
      intro!: exI [of _ "sha256 (message payload prev)"])

fun linked_from :: "string \<Rightarrow> audit_event list \<Rightarrow> bool" where
  "linked_from p [] = True"
| "linked_from p (e # es) =
     (ev_prev e = p \<and> digest_for (ev_payload e) (ev_prev e) = Inr (ev_digest e)
      \<and> linked_from (ev_digest e) es)"

definition tail_digest :: "string \<Rightarrow> audit_event list \<Rightarrow> string" where
  "tail_digest p es = (if es = [] then p else ev_digest (last es))"

lemma linked_from_append:
  "linked_from p (es @ fs) \<longleftrightarrow> linked_from p es \<and> linked_from (tail_digest p es) fs"
  by (induction es arbitrary: p) (auto simp: tail_digest_def)

lemma linked_from_hex: "hex_digest p \<Longrightarrow> linked_from p es \<Longrightarrow> hex_digest (tail_digest p es)"
  by (induction es arbitrary: p) (auto simp: tail_digest_def dest: digest_for_hex)

lemma verify_from_total:
  assumes "hex_digest p" and "\<forall>e \<in> set es. json_finite (JObj (ev_payload e))"
  shows "\<exists>k \<le> length es. linked_from p (take k es)
    \<and> (k = length es \<and> verify_from p n es =
          Inr \<lparr>cv_verified = True, cv_broken_at = None, cv_checked = n + k\<rparr>
       \<or> k < length es \<and> \<not> linked_from p (take (Suc k) es) \<and> verify_from p n es =
          Inr \<lparr>cv_verified = False, cv_broken_at = Some (case ev_seq (es ! k) of Some q \<Rightarrow> q
             | None \<Rightarrow> int (n + k)), cv_checked = n + k\<rparr>)"
  using assms
proof (induction es arbitrary: p n)
  case Nil
  then show ?case by simp
next
  case (Cons e es)
  show ?case
  proof (cases "ev_prev e = p \<and> digest_for (ev_payload e) p = Inr (ev_digest e)")
    case False
    have "\<exists>d. digest_for (ev_payload e) p = Inr d"
      using Cons.prems by (simp add: digest_for_message del: json_finite.simps)
    with False have "verify_from p n (e # es) = Inr \<lparr>cv_verified = False,
        cv_broken_at = Some (case ev_seq e of Some q \<Rightarrow> q | None \<Rightarrow> int n), cv_checked = n\<rparr>"
      by (auto simp: Let_def)
    with False show ?thesis by (intro exI [of _ 0]) (auto split: option.split)
  next
    case True
    have "hex_digest (ev_digest e)" using digest_for_hex [OF Cons.prems(1)] True by blast
    moreover have "\<forall>e \<in> set es. json_finite (JObj (ev_payload e))" using Cons.prems(2) by simp
    ultimately obtain k where k: "k \<le> length es" "linked_from (ev_digest e) (take k es)"
      "k = length es \<and> verify_from (ev_digest e) (Suc n) es =
          Inr \<lparr>cv_verified = True, cv_broken_at = None, cv_checked = Suc n + k\<rparr>
       \<or> k < length es \<and> \<not> linked_from (ev_digest e) (take (Suc k) es)
         \<and> verify_from (ev_digest e) (Suc n) es =
          Inr \<lparr>cv_verified = False, cv_broken_at = Some (case ev_seq (es ! k) of Some q \<Rightarrow> q
             | None \<Rightarrow> int (Suc n + k)), cv_checked = Suc n + k\<rparr>"
      using Cons.IH [of "ev_digest e" "Suc n"] by blast
    have "verify_from p n (e # es) = verify_from (ev_digest e) (Suc n) es"
      using True by (simp add: Let_def)
    with k True show ?thesis by (intro exI [of _ "Suc k"]) (auto split: option.split)
  qed
qed

text \<open>C32. On payloads that are JSON (no NaN, no infinity) \<open>verify_chain\<close> never raises. It answers
  \<open>verified\<close> exactly when every link carries its predecessor's digest and the digest of its own
  payload; otherwise it names the first link that does not add up: the links before it do, it
  does not, and the reported position is that link's \<open>seq\<close> (its index when there is none).\<close>

theorem verify_chain_finds_first_break:
  assumes "\<forall>e \<in> set es. json_finite (JObj (ev_payload e))"
  shows "\<exists>cv. verify_chain es = Inr cv \<and> (cv_verified cv \<longleftrightarrow> linked_from GENESIS es)
    \<and> cv_checked cv \<le> length es \<and> linked_from GENESIS (take (cv_checked cv) es)
    \<and> (cv_verified cv \<longrightarrow> cv_checked cv = length es \<and> cv_broken_at cv = None)
    \<and> (\<not> cv_verified cv \<longrightarrow> cv_checked cv < length es
         \<and> \<not> linked_from GENESIS (take (Suc (cv_checked cv)) es)
         \<and> cv_broken_at cv = Some (case ev_seq (es ! cv_checked cv) of Some q \<Rightarrow> q
              | None \<Rightarrow> int (cv_checked cv)))"
proof -
  obtain k where "k \<le> length es" "linked_from GENESIS (take k es)"
    and k: "k = length es \<and> verify_from GENESIS 0 es =
          Inr \<lparr>cv_verified = True, cv_broken_at = None, cv_checked = 0 + k\<rparr>
       \<or> k < length es \<and> \<not> linked_from GENESIS (take (Suc k) es) \<and> verify_from GENESIS 0 es =
          Inr \<lparr>cv_verified = False, cv_broken_at = Some (case ev_seq (es ! k) of Some q \<Rightarrow> q
             | None \<Rightarrow> int (0 + k)), cv_checked = 0 + k\<rparr>"
    using verify_from_total [OF hex_digest_GENESIS assms, of 0] by blast
  have "\<not> linked_from GENESIS es" if "\<not> linked_from GENESIS (take (Suc k) es)"
    using that linked_from_append [of GENESIS "take (Suc k) es" "drop (Suc k) es"] by simp
  with k \<open>k \<le> length es\<close> \<open>linked_from GENESIS (take k es)\<close> show ?thesis
    by (auto simp: verify_chain_def split: option.split)
qed

section \<open>Two chains ending in the same digest\<close>

lemma verify_from_linked: "verify_from p n es = Inr cv \<Longrightarrow> cv_verified cv \<Longrightarrow> linked_from p es"
  by (induction es arbitrary: p n) (auto simp: Let_def split: if_splits elim!: bindE_InrE)

definition link_message :: "audit_event \<Rightarrow> byte list" where
  "link_message e = message (ev_payload e) (ev_prev e)"

definition collide :: "audit_event \<Rightarrow> audit_event \<Rightarrow> bool" where
  \<comment> \<open>two links whose messages are a SHA-256 collision\<close>
  "collide e f \<longleftrightarrow> link_message e \<noteq> link_message f \<and> sha256 (link_message e) = sha256 (link_message f)"

lemma last_link:
  assumes "linked_from GENESIS (es @ [e])"
  shows "linked_from GENESIS es \<and> ev_prev e = tail_digest GENESIS es \<and> hex_digest (ev_prev e)
    \<and> json_finite (JObj (ev_payload e)) \<and> ev_digest e = to_hex (sha256 (link_message e))"
proof -
  have l: "linked_from GENESIS es" "linked_from (tail_digest GENESIS es) [e]"
    using assms by (simp_all only: linked_from_append)
  then have "hex_digest (tail_digest GENESIS es)" using linked_from_hex [OF hex_digest_GENESIS] by blast
  with l show ?thesis
    by (auto simp: link_message_def digest_for_message simp del: json_finite.simps split: if_splits)
qed

lemma same_message:
  assumes "link_message e = link_message f" and "hex_digest (ev_prev e)" and "hex_digest (ev_prev f)"
    and "json_finite (JObj (ev_payload e))" and "json_finite (JObj (ev_payload f))"
  shows "ev_prev e = ev_prev f \<and> canonical_json (ev_payload e) = canonical_json (ev_payload f)"
proof -
  obtain b c where b: "ev_prev e = to_hex b" "length b = 32" "ev_prev f = to_hex c" "length c = 32"
    using assms(2,3) by (auto simp: hex_digest_def)
  have "utf8 (json_dumps True '','' '':'' (JObj (ev_payload e))) =
      utf8 (json_dumps True '','' '':'' (JObj (ev_payload f))) \<and> b = c"
    using assms(1) b by (simp add: link_message_def message_def)
  then have "json_dumps True '','' '':'' (JObj (ev_payload e)) = json_dumps True '','' '':'' (JObj (ev_payload f))"
    "b = c" using utf8_inj by blast+
  with assms(4,5) b show ?thesis by (simp only: canonical_json_def if_True simp_thms)
qed

lemma tamper_evident:
  assumes "linked_from GENESIS es" and "linked_from GENESIS fs"
    and "tail_digest GENESIS es = tail_digest GENESIS fs"
  shows "map ev_digest es = map ev_digest fs
      \<and> map (canonical_json \<circ> ev_payload) es = map (canonical_json \<circ> ev_payload) fs
    \<or> (\<exists>i < min (length es) (length fs). collide (rev es ! i) (rev fs ! i))
    \<or> length es \<noteq> length fs \<and> (\<exists>e \<in> set es \<union> set fs. ev_digest e = GENESIS)"
  using assms
proof (induction es arbitrary: fs rule: rev_induct)
  case Nil
  then show ?case by (cases fs rule: rev_cases) (auto simp: tail_digest_def)
next
  case (snoc e es)
  note e = last_link [OF snoc.prems(1)]
  show ?case
  proof (cases fs rule: rev_cases)
    case Nil
    with snoc.prems(3) show ?thesis by (auto simp: tail_digest_def)
  next
    case fs: (snoc gs g)
    note g = last_link [OF snoc.prems(2) [unfolded fs]]
    have d: "ev_digest e = ev_digest g" using snoc.prems(3) by (simp add: fs tail_digest_def)
    then have sha: "sha256 (link_message e) = sha256 (link_message g)"
      using e g by (metis from_hex_to_hex option.inject)
    show ?thesis
    proof (cases "link_message e = link_message g")
      case False
      with sha have "collide (rev (es @ [e]) ! 0) (rev fs ! 0)" by (simp add: fs collide_def)
      then show ?thesis by (intro disjI2 disjI1 exI [of _ 0]) (simp add: fs)
    next
      case True
      have pc: "ev_prev e = ev_prev g" "canonical_json (ev_payload e) = canonical_json (ev_payload g)"
        using same_message [OF True] e g by blast+
      then have "tail_digest GENESIS es = tail_digest GENESIS gs" using e g by simp
      with snoc.IH [of gs] e g consider
          "map ev_digest es = map ev_digest gs" "map (canonical_json \<circ> ev_payload) es = map (canonical_json \<circ> ev_payload) gs"
        | i where "i < min (length es) (length gs)" "collide (rev es ! i) (rev gs ! i)"
        | "length es \<noteq> length gs" "\<exists>e \<in> set es \<union> set gs. ev_digest e = GENESIS" by blast
      then show ?thesis
      proof cases
        case 1
        with d pc show ?thesis by (intro disjI1) (simp add: fs comp_def)
      next
        case 2
        then show ?thesis by (intro disjI2 disjI1 exI [of _ "Suc i"]) (simp add: fs)
      next
        case 3
        then show ?thesis by (intro disjI2) (auto simp: fs)
      qed
    qed
  qed
qed

text \<open>C31. The last digest pins the whole history: if the verifier accepts two chains and they end in
  the same digest (\<open>GENESIS\<close> for an empty one), then they carry the same digests and the same
  canonical payloads link by link, or they exhibit a SHA-256 collision, two different messages of
  links at the same distance from the end with the same digest, or, which only chains of different
  lengths can do, one of them has a link whose digest is 32 zero bytes.\<close>

theorem last_digest_pins_history:
  assumes "verify_chain es = Inr cv" and "cv_verified cv" and "verify_chain fs = Inr dv" and "cv_verified dv"
    and "tail_digest GENESIS es = tail_digest GENESIS fs"
  shows "map ev_digest es = map ev_digest fs
      \<and> map (canonical_json \<circ> ev_payload) es = map (canonical_json \<circ> ev_payload) fs
    \<or> (\<exists>i < min (length es) (length fs). collide (rev es ! i) (rev fs ! i))
    \<or> length es \<noteq> length fs \<and> (\<exists>e \<in> set es \<union> set fs. ev_digest e = GENESIS)"
proof (rule tamper_evident)
  show "linked_from GENESIS es" "linked_from GENESIS fs"
    using verify_from_linked assms unfolding verify_chain_def by blast+
qed (rule assms(5))

definition demo_event :: audit_event where
  "demo_event = \<lparr>ev_seq = Some 7, ev_tenant = ''t'', ev_trace = ''tr'', ev_kind = ''WRITE'',
     ev_payload = [(''k'', JInt 1)], ev_prev = GENESIS,
     ev_digest = to_hex (sha256 (message [(''k'', JInt 1)] GENESIS)), ev_created = 0\<rparr>"

lemma demo_event_linked: "linked_from GENESIS [demo_event]"
  by (simp add: demo_event_def digest_for_message [OF hex_digest_GENESIS])

theorem verify_chain_finds_first_break_witness:
  "\<exists>cv. verify_chain [demo_event\<lparr>ev_prev := ''x''\<rparr>] = Inr cv \<and> \<not> cv_verified cv
    \<and> cv_broken_at cv = Some 7"
proof -
  let ?e = "demo_event\<lparr>ev_prev := ''x''\<rparr>"
  have fin: "\<forall>e \<in> set [?e]. json_finite (JObj (ev_payload e))" by (simp add: demo_event_def)
  have "''x'' \<noteq> GENESIS" by (auto simp: GENESIS_def numeral_eq_Suc)
  then have "\<not> linked_from GENESIS [?e]" by simp
  with verify_chain_finds_first_break [OF fin] show ?thesis by (auto simp: demo_event_def)
qed

text \<open>One history read from two replicas: the rows got other numbers and instants there, and the keys of
  the payloads came back in another order.\<close>

definition replica_event :: "int \<Rightarrow> (string \<times> json) list \<Rightarrow> string \<Rightarrow> audit_event" where
  "replica_event n payload prev = \<lparr>ev_seq = Some n, ev_tenant = ''t'', ev_trace = ''tr'', ev_kind = ''WRITE'',
     ev_payload = payload, ev_prev = prev, ev_digest = to_hex (sha256 (message payload prev)), ev_created = n\<rparr>"

definition replica :: "int \<Rightarrow> (string \<times> json) list \<Rightarrow> audit_event list" where
  "replica n payload =
     (let first_link = replica_event n payload GENESIS
      in [first_link, replica_event (n + 1) [(''k'', JInt 1)] (ev_digest first_link)])"

lemma replica_verified:
  assumes "json_finite (JObj payload)"
  shows "verify_chain (replica n payload) = Inr \<lparr>cv_verified = True, cv_broken_at = None, cv_checked = 2\<rparr>"
proof -
  have "hex_digest (to_hex (sha256 (message payload GENESIS)))"
    unfolding hex_digest_def by (intro exI [of _ "sha256 (message payload GENESIS)"]) simp
  then show ?thesis
    using assms by (simp add: verify_chain_def replica_def replica_event_def Let_def
        digest_for_message [OF hex_digest_GENESIS] digest_for_message del: json_finite.simps) simp
qed

theorem last_digest_pins_history_witness:
  "replica 1 [(''b'', JInt 2), (''a'', JNull)] \<noteq> replica 8 [(''a'', JNull), (''b'', JInt 2)]
   \<and> map (canonical_json \<circ> ev_payload) (replica 1 [(''b'', JInt 2), (''a'', JNull)]) =
     map (canonical_json \<circ> ev_payload) (replica 8 [(''a'', JNull), (''b'', JInt 2)])
   \<and> map ev_digest (replica 1 [(''b'', JInt 2), (''a'', JNull)]) = map ev_digest (replica 8 [(''a'', JNull), (''b'', JInt 2)])"
proof -
  let ?p = "[(''b'', JInt 2), (''a'', JNull)]" and ?q = "[(''a'', JNull), (''b'', JInt 2)]"
  have fin: "json_finite (JObj ?p)" "json_finite (JObj ?q)" by simp_all
  have "json_dumps True '','' '':'' (JObj ?p) = json_dumps True '','' '':'' (JObj ?q)" by code_simp
  then have m: "message ?p GENESIS = message ?q GENESIS" unfolding message_def by (simp only:)
  then have tail: "tail_digest GENESIS (replica 1 ?p) = tail_digest GENESIS (replica 8 ?q)"
    unfolding replica_def replica_event_def tail_digest_def Let_def by simp
  have none: "\<not> collide (rev (replica 1 ?p) ! i) (rev (replica 8 ?q) ! i)" if "i < 2" for i
    using that m by (auto simp: less_2_cases_iff replica_def replica_event_def Let_def collide_def link_message_def)
  have len: "length (replica n payload) = 2" for n payload by (simp add: replica_def Let_def)
  have "replica 1 ?p \<noteq> replica 8 ?q" by (simp add: replica_def replica_event_def Let_def)
  with last_digest_pins_history [OF replica_verified [OF fin(1)] _ replica_verified [OF fin(2)] _ tail] none
  show ?thesis by (auto simp: len)
qed

text \<open>
  The length check of a predecessor digest counts characters, and \<open>bytes.fromhex\<close> skips white
  space: sixty-four spaces pass as an empty predecessor.
\<close>

lemma blank_predecessor_accepted: "digest_bytes (replicate 64 (CHR '' '')) = Inr []"
proof -
  have sp: "ascii_space (CHR '' '')" by (simp add: ascii_space_def code_def)
  have "from_hex (replicate (Suc n) (CHR '' '')) = Some []" for n
    by (induction n) (simp_all add: sp)
  from this [of 63] show ?thesis by (simp add: digest_bytes_def numeral_eq_Suc)
qed

section \<open>What a JSONB column takes and hands back\<close>

definition pg_text :: "string \<Rightarrow> bool" where
  \<comment> \<open>PostgreSQL stores no NUL character in a \<open>TEXT\<close>\<close>
  "pg_text s \<longleftrightarrow> CHR 0x00 \<notin> set s"

fun nul_free :: "json \<Rightarrow> bool" where
  \<comment> \<open>nor in a \<open>JSONB\<close>\<close>
  "nul_free (JStr s) = pg_text s"
| "nul_free (JList xs) = (\<forall>x \<in> set xs. nul_free x)"
| "nul_free (JObj kvs) = (\<forall>kv \<in> set kvs. pg_text (fst kv) \<and> nul_free (snd kv))"
| "nul_free _ = True"

definition INT_DIGITS :: nat where
  \<comment> \<open>Python converts no longer an integer to text\<close>
  "INT_DIGITS = 4300"

fun json_within :: "real \<Rightarrow> json \<Rightarrow> bool" where
  \<comment> \<open>a document that can be stored, all of its floats below the bound in magnitude\<close>
  "json_within B (JInt i) = (\<bar>i\<bar> < 10 ^ INT_DIGITS)"
| "json_within B (JFloat x) = (case x of Fin y \<Rightarrow> is_double y \<and> \<bar>y\<bar> < B | _ \<Rightarrow> False)"
| "json_within B (JStr s) = pg_text s"
| "json_within B (JList xs) = (\<forall>x \<in> set xs. json_within B x)"
| "json_within B (JObj kvs) =
     (distinct (map fst kvs) \<and> (\<forall>kv \<in> set kvs. pg_text (fst kv) \<and> json_within B (snd kv)))"
| "json_within B _ = True"

lemma json_within_nul_free: "json_within B v \<Longrightarrow> nul_free v"
  by (induction B v rule: json_within.induct) auto

lemma json_within_finite: "json_within B v \<Longrightarrow> json_finite v"
  by (induction B v rule: json_within.induct) (auto split: pyfloat.splits)

inductive reordered :: "json \<Rightarrow> json \<Rightarrow> bool" where
  \<comment> \<open>the same document, the keys of its objects in another order\<close>
  same: "reordered v v"
| list: "list_all2 reordered xs ys \<Longrightarrow> reordered (JList xs) (JList ys)"
| obj: "list_all2 (\<lambda>kv lw. fst kv = fst lw \<and> reordered (snd kv) (snd lw)) kvs kvs' \<Longrightarrow>
    mset kvs' = mset lvs \<Longrightarrow> distinct (map fst kvs) \<Longrightarrow> reordered (JObj kvs) (JObj lvs)"
monos list_all2_mono

definition jsonb_law :: "((string \<times> json) list \<Rightarrow> (string \<times> json) list) \<Rightarrow> bool" where
  \<comment> \<open>\<open>JSONB\<close> does not keep the order of keys, and keeps numbers as \<open>numeric\<close>: their value, not their
      notation. A double below \<open>10 ^ 16\<close> is written with a decimal point and comes back a double; one
      from there on is written with an exponent and comes back an integer\<close>
  "jsonb_law jsonb \<longleftrightarrow> (\<forall>p. json_within (10 ^ 16) (JObj p) \<longrightarrow> reordered (JObj p) (JObj (jsonb p)))"

definition plain_table :: "audit_table \<Rightarrow> bool" where
  \<comment> \<open>a table of payloads of which \<open>jsonb_law\<close> speaks\<close>
  "plain_table db \<longleftrightarrow> (\<forall>r \<in> set (at_rows db). json_within (10 ^ 16) (JObj (ar_payload r)))"

lemma sort_key_same:
  assumes "mset xs = mset ys" and "distinct (map f xs)"
  shows "sort_key f xs = sort_key f ys"
proof (rule sort_key_inj_key_eq)
  show "mset xs = mset (sort_key f ys)" using assms(1) by simp
  show "inj_on f (set xs)" using assms(2) by (simp add: distinct_map)
  show "sorted (map f (sort_key f ys))" by simp
qed

lemma reordered_dumps: "reordered v w \<Longrightarrow> json_dumps True a b v = json_dumps True a b w"
proof (induction rule: reordered.induct)
  case (same v)
  show ?case ..
next
  case (list xs ys)
  then have "map (json_dumps True a b) xs = map (json_dumps True a b) ys"
    by (simp add: list_all2_conv_all_nth list_eq_iff_nth_eq)
  then show ?case by simp
next
  case (obj kvs kvs' lvs)
  let ?item = "\<lambda>(k, v). (k, json_string k @ b @ json_dumps True a b v)"
  have m: "map ?item kvs = map ?item kvs'"
    by (rule nth_equalityI) (use obj.IH in \<open>auto simp: list_all2_conv_all_nth case_prod_beta\<close>)
  have "mset (map ?item kvs) = mset (map ?item lvs)" unfolding m using obj.hyps(1) by simp
  moreover have "map fst (map ?item kvs) = map fst kvs" by (simp add: case_prod_beta comp_def)
  then have "distinct (map fst (map ?item kvs))" using obj.hyps(2) by (simp only:)
  ultimately have "sort_key fst (map ?item kvs) = sort_key fst (map ?item lvs)" by (rule sort_key_same)
  then show ?case by (simp only: json_dumps.simps Let_def if_True)
qed

lemma reordered_finite: "reordered v w \<Longrightarrow> json_finite v = json_finite w"
proof (induction rule: reordered.induct)
  case (obj kvs kvs' lvs)
  have "(\<forall>kv \<in> set kvs. json_finite (snd kv)) = (\<forall>kv \<in> set kvs'. json_finite (snd kv))"
    using obj.IH unfolding all_set_conv_all_nth by (simp add: list_all2_conv_all_nth)
  moreover have "set kvs' = set lvs" using obj.hyps(1) by (rule mset_eq_setD)
  ultimately show ?case by simp
qed (auto simp: list_all2_conv_all_nth all_set_conv_all_nth)

lemma reordered_canonical: "reordered (JObj p) (JObj q) \<Longrightarrow> canonical_json q = canonical_json p"
  unfolding canonical_json_def by (simp only: reordered_dumps reordered_finite)

lemma plain_canonical:
  "jsonb_law jsonb \<Longrightarrow> json_within (10 ^ 16) (JObj p) \<Longrightarrow> canonical_json (jsonb p) = canonical_json p"
  unfolding jsonb_law_def by (blast intro: reordered_canonical)

subsection \<open>An instance of the law\<close>

fun jsonb_form :: "json \<Rightarrow> json" where
  \<comment> \<open>shorter keys first; no exponents\<close>
  "jsonb_form (JFloat (Fin x)) = (if 10 ^ 16 \<le> \<bar>x\<bar> then JInt \<lfloor>x\<rfloor> else JFloat (Fin x))"
| "jsonb_form (JList xs) = JList (map jsonb_form xs)"
| "jsonb_form (JObj kvs) =
     JObj (sort_key (\<lambda>kv. length (fst kv)) (map (\<lambda>(k, v). (k, jsonb_form v)) kvs))"
| "jsonb_form v = v"

definition jsonb_read :: "(string \<times> json) list \<Rightarrow> (string \<times> json) list" where
  "jsonb_read p = (case jsonb_form (JObj p) of JObj q \<Rightarrow> q | _ \<Rightarrow> [])"

lemma jsonb_form_reordered: "json_within (10 ^ 16) v \<Longrightarrow> reordered v (jsonb_form v)"
proof (induction v rule: jsonb_form.induct)
  case (2 xs)
  then show ?case by (auto simp: list_all2_conv_all_nth intro!: reordered.list)
next
  case (3 kvs)
  let ?kvs = "map (\<lambda>(k, v). (k, jsonb_form v)) kvs"
  have "list_all2 (\<lambda>kv lw. fst kv = fst lw \<and> reordered (snd kv) (snd lw)) kvs ?kvs"
    using 3 by (auto simp: list_all2_conv_all_nth case_prod_beta prod_eq_iff)
  then show ?case using 3(2) by (auto intro!: reordered.obj [where kvs' = ?kvs])
qed (auto intro: reordered.same split: pyfloat.splits)

lemma jsonb_read_law: "jsonb_law jsonb_read"
  unfolding jsonb_law_def
proof (intro allI impI)
  fix p assume "json_within (10 ^ 16) (JObj p)"
  then have "reordered (JObj p) (jsonb_form (JObj p))" by (rule jsonb_form_reordered)
  moreover have "jsonb_form (JObj p) = JObj (jsonb_read p)" by (simp add: jsonb_read_def)
  ultimately show "reordered (JObj p) (JObj (jsonb_read p))" by simp
qed

text \<open>Without the bound the law would be false: \<open>canonical_json\<close> writes \<open>1e16\<close> with its exponent, and the
  column answers \<open>10000000000000000\<close>. A payload holding that double verifies when it is appended and
  never again.\<close>

lemma large_double_text:
  "repr_float (Fin 10000000000000000) = ''1e+16''" "str_int 10000000000000000 = ''10000000000000000''"
proof -
  have d: "digit 0 = CHR ''0''" "digit 1 = CHR ''1''" by code_simp+
  have n: "str_nat 10000000000000000 = ''10000000000000000''"
    by (simp add: str_nat.simps d d(2) [simplified])
  have e: "expo10 10000000000000000 = 16" by (simp add: expo10_def num_digits_def n)
  have f: "fl 10000000000000000 = 10000000000000000"
    using round_bin_representable [of 53 152587890625 "-1074" 16] by (simp add: fl_def)
  have s: "shortest_with 10000000000000000 (Suc 0) = Some 1"
    by (simp add: shortest_with_def e f Let_def power_int_minus)
  have t: "str_nat (Suc 0) = ''1''" "str_nat 16 = ''16''" by code_simp+
  show "repr_float (Fin 10000000000000000) = ''1e+16''"
    by (simp add: repr_pos_def s e t upt_rec strip_zeros_def format_digits_def)
  show "str_int 10000000000000000 = ''10000000000000000''" by (simp add: str_int_def n)
qed

lemma large_double_changes_form:
  "canonical_json (jsonb_read [(''k'', JFloat (Fin 10000000000000000))]) \<noteq> canonical_json [(''k'', JFloat (Fin 10000000000000000))]"
  using large_double_text by (simp add: canonical_json_def jsonb_read_def)

subsection \<open>The record of a decision\<close>

definition moderate :: "real \<Rightarrow> bool" where
  "moderate x \<longleftrightarrow> is_double x \<and> \<bar>x\<bar> < 10 ^ 16"

definition moderate_record :: "decision_record \<Rightarrow> bool" where
  "moderate_record r \<longleftrightarrow>
     (let c = dr_confidence r; v = dr_risk r; k = dr_conflict r
      in list_all moderate ([cf_entropy c, cf_grounding c, cf_schema_fit c, cf_corroboration c, cf_consistency c,
             cf_confidence c, rv_risk v, cr_entailment k, cr_contradiction k, cr_cosine k] @ map snd (rv_features v)) \<and>
         distinct (map fst (rv_features v)) \<and>
         list_all pg_text ([cf_weights_version c, dr_thresholds_version r, dr_policy_version r]
             @ dr_codes r @ rv_obligations v @ map fst (rv_features v)) \<and>
         (case cr_incumbent k of None \<Rightarrow> True | Some i \<Rightarrow> pg_text i))"

lemma decision_dump_plain:
  assumes "moderate_record r"
  shows "json_within (10 ^ 16) (JObj (decision_dump r))"
proof -
  let ?c = "dr_confidence r" and ?v = "dr_risk r" and ?k = "dr_conflict r"
  have t: "pg_text (decision_value d)" "pg_text (impact_value l)" "pg_text (conflict_value q)" "pg_text (hint_value h)" for d l q h
    by (cases d, simp_all add: pg_text_def) (cases l, simp_all, cases q, simp_all, cases h, simp_all)
  have lit: "pg_text n" if "CHR 0x00 \<notin> set n" for n using that by (simp add: pg_text_def)
  have f: "json_within (10 ^ 16) (JFloat (Fin x))" if "moderate x" for x using that by (simp add: moderate_def)
  note m = assms [unfolded moderate_record_def Let_def list_all_append list.pred_inject]
  have "json_within (10 ^ 16) (JObj (confidence_dump ?c))"
    using m f by (simp add: confidence_dump_def float_field_def lit del: json_within.simps(2))
  moreover have "json_within (10 ^ 16) (JObj (map (\<lambda>(n, x). float_field n x) (rv_features ?v)))"
    using m f by (auto simp: float_field_def case_prod_beta comp_def list_all_iff simp del: json_within.simps(2))
  then have "json_within (10 ^ 16) (JObj (risk_dump ?v))"
    using m f t by (auto simp: risk_dump_def float_field_def lit list_all_iff simp del: json_within.simps(2))
  moreover have "json_within (10 ^ 16) (JObj (conflict_dump ?k))"
    using m f t by (auto simp: conflict_dump_def float_field_def lit simp del: json_within.simps(2) split: option.splits)
  ultimately show ?thesis
    using m t by (auto simp: decision_dump_def lit list_all_iff simp del: json_within.simps(2) split: option.splits)
qed

section \<open>Appending\<close>

inductive audit_reach :: "audit_table \<Rightarrow> bool" where
  empty: "audit_reach \<lparr>at_rows = [], at_next = 1\<rparr>"
| append: "audit_reach db \<Longrightarrow> audit_append db tenant trace kind payload created = Inr (db', e)
    \<Longrightarrow> audit_reach db'"

definition audit_inv :: "((string \<times> json) list \<Rightarrow> (string \<times> json) list) \<Rightarrow> audit_table \<Rightarrow> bool" where
  "audit_inv jsonb db \<longleftrightarrow>
     sorted_wrt (<) (map ar_seq (at_rows db))
     \<and> (\<forall>r \<in> set (at_rows db). 1 \<le> ar_seq r \<and> ar_seq r < at_next db \<and> length (ar_digest r) = 32
          \<and> length (ar_prev r) = 32 \<and> json_finite (JObj (jsonb (ar_payload r))))
     \<and> (\<forall>tenant. linked_from GENESIS (read_chain jsonb db tenant)) \<and> 1 \<le> at_next db"

lemma head_is_tail:
  assumes "audit_inv jsonb db"
  shows "(case select_head db tenant of Some head \<Rightarrow> to_hex head | None \<Rightarrow> GENESIS) =
     tail_digest GENESIS (read_chain jsonb db tenant)
   \<and> hex_digest (tail_digest GENESIS (read_chain jsonb db tenant))"
proof
  show "(case select_head db tenant of Some head \<Rightarrow> to_hex head | None \<Rightarrow> GENESIS) =
     tail_digest GENESIS (read_chain jsonb db tenant)"
    by (auto simp: select_head_def read_chain_def tail_digest_def event_from_row_def last_map
        split: list.split)
  show "hex_digest (tail_digest GENESIS (read_chain jsonb db tenant))"
    using assms linked_from_hex [OF hex_digest_GENESIS] by (simp add: audit_inv_def)
qed

lemma audit_append_shape:
  assumes "audit_append db tenant trace kind payload created = Inr (db', e)"
    and "hex_digest prev"
    and "prev = (case select_head db tenant of Some head \<Rightarrow> to_hex head | None \<Rightarrow> GENESIS)"
  obtains row where "at_rows db' = at_rows db @ [row]" and "at_next db' = at_next db + 1"
    and "ar_seq row = at_next db" and "ar_tenant row = tenant" and "ar_payload row = payload"
    and "to_hex (ar_prev row) = prev" and "digest_for payload prev = Inr (to_hex (ar_digest row))"
    and "length (ar_prev row) = 32" and "length (ar_digest row) = 32"
    and "json_finite (JObj payload)" and "kind \<in> set AUDIT_KINDS"
    and "e = \<lparr>ev_seq = Some (at_next db), ev_tenant = tenant, ev_trace = trace, ev_kind = kind,
         ev_payload = payload, ev_prev = prev, ev_digest = to_hex (ar_digest row), ev_created = created\<rparr>"
    and "ar_kind row = kind" and "ar_trace row = trace" and "ar_created row = created"
proof -
  obtain pb where pb: "length pb = 32" "prev = to_hex pb" using assms(2) by (auto simp: hex_digest_def)
  define db0 where "db0 = sha256 (message payload prev)"
  have "audit_append db tenant trace kind payload created = (if json_finite (JObj payload) \<and> kind \<in> set AUDIT_KINDS
      then (let (db', seq) = insert_audit db
                \<lparr>ar_seq = 0, ar_tenant = tenant, ar_trace = trace, ar_kind = kind,
                 ar_payload = payload, ar_prev = pb, ar_digest = db0, ar_created = created\<rparr>
          in Inr (db', \<lparr>ev_seq = Some seq, ev_tenant = tenant, ev_trace = trace, ev_kind = kind,
         ev_payload = payload, ev_prev = prev, ev_digest = to_hex db0, ev_created = created\<rparr>))
      else Inl ValueError)"
    using digest_for_message [OF assms(2), of payload] pb(2)
    by (simp add: audit_append_def assms(3) [symmetric] next_link_def mk_audit_event_def db0_def
        Let_def del: json_finite.simps)
  with assms(1) have k: "json_finite (JObj payload)" "kind \<in> set AUDIT_KINDS"
    and r: "db' = db\<lparr>at_rows := at_rows db @ [\<lparr>ar_seq = at_next db, ar_tenant = tenant, ar_trace = trace,
        ar_kind = kind, ar_payload = payload, ar_prev = pb, ar_digest = db0, ar_created = created\<rparr>],
        at_next := at_next db + 1\<rparr>"
      "e = \<lparr>ev_seq = Some (at_next db), ev_tenant = tenant, ev_trace = trace, ev_kind = kind,
         ev_payload = payload, ev_prev = prev, ev_digest = to_hex db0, ev_created = created\<rparr>"
    by (auto simp: insert_audit_def Let_def simp del: json_finite.simps split: if_splits)
  show thesis
    by (rule that [of "\<lparr>ar_seq = at_next db, ar_tenant = tenant, ar_trace = trace,
        ar_kind = kind, ar_payload = payload, ar_prev = pb, ar_digest = db0, ar_created = created\<rparr>"])
      (use k r pb digest_for_message [OF assms(2), of payload] in
        \<open>simp_all add: db0_def del: json_finite.simps\<close>)
qed

lemma audit_inv_append:
  assumes inv: "audit_inv jsonb db" and j: "canonical_json (jsonb payload) = canonical_json payload"
    and run: "audit_append db tenant trace kind payload created = Inr (db', e)"
  shows "audit_inv jsonb db'"
proof -
  let ?prev = "tail_digest GENESIS (read_chain jsonb db tenant)"
  note h = head_is_tail [OF inv, of tenant]
  obtain row where row: "at_rows db' = at_rows db @ [row]" "at_next db' = at_next db + 1"
      "ar_seq row = at_next db" "ar_tenant row = tenant" "ar_payload row = payload"
      "to_hex (ar_prev row) = ?prev" "digest_for payload ?prev = Inr (to_hex (ar_digest row))"
      "length (ar_prev row) = 32" "length (ar_digest row) = 32" "json_finite (JObj payload)"
    by (rule audit_append_shape [OF run conjunct2 [OF h] conjunct1 [OF h, symmetric]])
  have "linked_from GENESIS (read_chain jsonb db' t)" for t
  proof (cases "t = tenant")
    case True
    then have "read_chain jsonb db' t = read_chain jsonb db tenant @ [event_from_row jsonb row]"
      using row(1,4) by (simp add: read_chain_def)
    moreover have "linked_from ?prev [event_from_row jsonb row]"
      using row(5-7) j by (simp add: event_from_row_def digest_for_def)
    moreover have "linked_from GENESIS (read_chain jsonb db tenant)"
      using inv by (simp add: audit_inv_def)
    ultimately show ?thesis by (simp only: linked_from_append simp_thms)
  next
    case False
    then have "read_chain jsonb db' t = read_chain jsonb db t"
      using row(1,4) by (simp add: read_chain_def)
    with inv show ?thesis by (simp add: audit_inv_def)
  qed
  moreover have "json_finite (JObj (jsonb payload))"
    using j row(10) unfolding canonical_json_def by (metis sum.distinct(1))
  ultimately show ?thesis
    using inv row unfolding audit_inv_def
    by (auto simp: sorted_wrt_append simp del: json_finite.simps)
qed

lemma audit_append_row:
  assumes "audit_append db tenant trace kind payload created = Inr (db', e)"
  shows "\<exists>row. at_rows db' = at_rows db @ [row] \<and> ar_payload row = payload"
proof -
  obtain link where l: "next_link tenant trace kind payload
        (case select_head db tenant of Some head \<Rightarrow> to_hex head | None \<Rightarrow> GENESIS) created = Inr link"
    and r: "\<exists>row. at_rows db' = at_rows db @ [row] \<and> ar_payload row = ev_payload link"
    using assms unfolding audit_append_def insert_audit_def Let_def
    by (elim bindE_InrE) (force split: option.splits)
  from l have "ev_payload link = payload"
    by (auto simp: next_link_def mk_audit_event_def elim!: bindE_InrE split: if_splits)
  with r show ?thesis by simp
qed

lemma audit_reach_inv:
  assumes "audit_reach db" and "jsonb_law jsonb" and "plain_table db"
  shows "audit_inv jsonb db"
  using assms
proof (induction rule: audit_reach.induct)
  case empty
  then show ?case by (simp add: audit_inv_def read_chain_def)
next
  case (append db tenant trace kind payload created db' e)
  from audit_append_row [OF append.hyps(2)] append.prems(2)
  have "plain_table db" "json_within (10 ^ 16) (JObj payload)"
    by (auto simp: plain_table_def simp del: json_within.simps)
  with append show ?case by (blast intro: audit_inv_append plain_canonical)
qed

text \<open>C5. Whatever sequence of appends built the table, in any interleaving of tenants, each
  tenant's chain read back verifies over its whole length, and the row numbers increase. Of
  the \<open>JSONB\<close> column only the documented law is used (\<open>jsonb_law\<close>: a stored document comes back with its
  keys in any order), on payloads of which it is true (\<open>plain_table\<close>: no NUL character, integers Python
  can print, doubles below \<open>10 ^ 16\<close> in magnitude, which as real numbers have no negative zero): that
  the digest survives is what sorting the keys buys.\<close>

theorem appended_chains_verify:
  assumes "audit_reach db" and "jsonb_law jsonb" and "plain_table db"
  shows "verify_tenant_chain jsonb db tenant =
      Inr \<lparr>cv_verified = True, cv_broken_at = None, cv_checked = length (read_chain jsonb db tenant)\<rparr>
    \<and> sorted_wrt (<) (map ar_seq (at_rows db))"
proof -
  have inv: "audit_inv jsonb db" by (rule audit_reach_inv [OF assms])
  let ?es = "read_chain jsonb db tenant"
  have fin: "\<forall>e \<in> set ?es. json_finite (JObj (ev_payload e))"
    using inv unfolding audit_inv_def read_chain_def event_from_row_def
    by (auto simp del: json_finite.simps)
  have linked: "linked_from GENESIS ?es" using inv by (simp add: audit_inv_def)
  obtain k where "k \<le> length ?es" and k: "k = length ?es \<and> verify_from GENESIS 0 ?es =
          Inr \<lparr>cv_verified = True, cv_broken_at = None, cv_checked = 0 + k\<rparr>
       \<or> k < length ?es \<and> \<not> linked_from GENESIS (take (Suc k) ?es) \<and> verify_from GENESIS 0 ?es =
          Inr \<lparr>cv_verified = False, cv_broken_at = Some (case ev_seq (?es ! k) of Some q \<Rightarrow> q
             | None \<Rightarrow> int (0 + k)), cv_checked = 0 + k\<rparr>"
    using verify_from_total [OF hex_digest_GENESIS fin, of 0] by blast
  have "linked_from GENESIS (take (Suc k) ?es)"
    using linked linked_from_append [of GENESIS "take (Suc k) ?es" "drop (Suc k) ?es"] by simp
  with k inv show ?thesis by (auto simp: verify_tenant_chain_def verify_chain_def audit_inv_def)
qed

text \<open>A column that hands keys back shortest first, and a payload it changes.\<close>

definition witness_payload :: "(string \<times> json) list" where
  "witness_payload = [(''confidence'', JFloat (Fin (1 / 2))), (''by'', JStr ''u''), (''n'', JInt 1)]"

theorem appended_chains_verify_witness:
  "\<exists>db e. audit_append \<lparr>at_rows = [], at_next = 1\<rparr> ''t'' ''tr'' ''WRITE'' witness_payload 0 = Inr (db, e)
    \<and> verify_tenant_chain jsonb_read db ''t'' = Inr \<lparr>cv_verified = True, cv_broken_at = None, cv_checked = 1\<rparr>
    \<and> map fst (jsonb_read witness_payload) = [''n'', ''by'', ''confidence'']"
proof -
  let ?db0 = "\<lparr>at_rows = [], at_next = 1\<rparr>"
  have fin: "json_finite (JObj witness_payload)" by (simp add: witness_payload_def)
  then have "digest_for witness_payload GENESIS = Inr (to_hex (sha256 (message witness_payload GENESIS)))"
    by (simp add: digest_for_message [OF hex_digest_GENESIS] del: json_finite.simps)
  then obtain db e where run: "audit_append ?db0 ''t'' ''tr'' ''WRITE'' witness_payload 0 = Inr (db, e)"
    by (auto simp: audit_append_def select_head_def next_link_def mk_audit_event_def AUDIT_KINDS_def
      GENESIS_hex insert_audit_def)
  have h: "hex_digest GENESIS" "GENESIS = (case select_head ?db0 ''t'' of Some head \<Rightarrow> to_hex head | None \<Rightarrow> GENESIS)"
    by (simp_all add: hex_digest_GENESIS select_head_def)
  obtain row where row: "at_rows db = at_rows ?db0 @ [row]" "ar_tenant row = ''t''" "ar_payload row = witness_payload"
    by (rule audit_append_shape [OF run h])
  have "(1::int) < 10 ^ INT_DIGITS" by (rule one_less_power) (simp_all add: INT_DIGITS_def)
  then have "json_within (10 ^ 16) (JObj witness_payload)"
    by (simp add: witness_payload_def pg_text_def)
  then have plain: "plain_table db" using row by (simp add: plain_table_def del: json_within.simps)
  have "length (read_chain jsonb_read db ''t'') = 1" using row by (simp add: read_chain_def)
  moreover have "audit_reach db" by (rule audit_reach.append [OF audit_reach.empty run])
  moreover have "map fst (jsonb_read witness_payload) = [''n'', ''by'', ''confidence'']"
    by (simp add: jsonb_read_def witness_payload_def)
  ultimately show ?thesis using run appended_chains_verify [OF _ jsonb_read_law plain] by fastforce
qed

end
