(* ===== verification/Uuid5.thy ===== *)
theory Uuid5
  imports Sha256
begin

text \<open>
  \<open>uuid.uuid5(NAMESPACE_URL, name)\<close>, which the store uses to derive the ids of assertions,
  citations, outbox rows and entities: SHA-1 (FIPS 180-4) of the namespace's bytes and the
  name's UTF-8, cut to 16 bytes with the version and variant bits set, printed in the
  canonical 8-4-4-4-12 form.
\<close>

section \<open>SHA-1\<close>

definition rotl :: "nat \<Rightarrow> 32 word \<Rightarrow> 32 word" where
  "rotl n x = (push_bit n x) OR (drop_bit (32 - n) x)"

fun sha1_words :: "nat \<Rightarrow> 32 word list \<Rightarrow> 32 word list" where
  \<comment> \<open>the message schedule, most recent word first\<close>
  "sha1_words 0 ws = ws"
| "sha1_words (Suc n) ws =
     sha1_words n (rotl 1 (ws ! 2 XOR ws ! 7 XOR ws ! 13 XOR ws ! 15) # ws)"

definition sha1_mix :: "nat \<Rightarrow> 32 word \<Rightarrow> 32 word \<Rightarrow> 32 word \<Rightarrow> 32 word" where
  "sha1_mix t x y z =
     (if t < 20 then sha_ch x y z
      else if 40 \<le> t \<and> t < 60 then sha_maj x y z
      else x XOR y XOR z)"

definition sha1_const :: "nat \<Rightarrow> 32 word" where
  "sha1_const t =
     (if t < 20 then 1518500249 else if t < 40 then 1859775393
      else if t < 60 then 2400959708 else 3395469782)"

fun sha1_step ::
    "32 word \<times> 32 word \<times> 32 word \<times> 32 word \<times> 32 word \<Rightarrow> nat \<times> 32 word
     \<Rightarrow> 32 word \<times> 32 word \<times> 32 word \<times> 32 word \<times> 32 word" where
  "sha1_step (a, b, c, d, e) (t, w) =
     (rotl 5 a + sha1_mix t b c d + e + sha1_const t + w, a, rotl 30 b, c, d)"

fun sha1_block :: "32 word list \<Rightarrow> byte list \<Rightarrow> 32 word list" where
  "sha1_block [a, b, c, d, e] bytes =
     (case foldl sha1_step (a, b, c, d, e)
             (zip [0..<80] (rev (sha1_words 64 (rev (map word_of_bytes (chunk 4 bytes)))))) of
        (a', b', c', d', e') \<Rightarrow> [a + a', b + b', c + c', d + d', e + e'])"
| "sha1_block hs bytes = hs"

definition SHA1_H :: "32 word list" where
  "SHA1_H = [1732584193, 4023233417, 2562383102, 271733878, 3285377520]"

definition sha1 :: "byte list \<Rightarrow> byte list" where
  "sha1 msg = concat (map bytes_of_word (foldl sha1_block SHA1_H (chunk 64 (sha_pad msg))))"

section \<open>Version 5 ids\<close>

definition NAMESPACE_URL :: "byte list" where
  "NAMESPACE_URL = [107, 167, 184, 17, 157, 173, 17, 209, 128, 180, 0, 192, 79, 212, 48, 200]"

definition uuid_text :: "byte list \<Rightarrow> string" where
  "uuid_text bs =
     join ''-'' [to_hex (take 4 bs), to_hex (take 2 (drop 4 bs)), to_hex (take 2 (drop 6 bs)),
       to_hex (take 2 (drop 8 bs)), to_hex (take 6 (drop 10 bs))]"

definition uuid5 :: "string \<Rightarrow> string" where
  "uuid5 name =
     (let h = take 16 (sha1 (NAMESPACE_URL @ utf8 name))
      in uuid_text (h[6 := (h ! 6 AND 15) OR 80, 8 := (h ! 8 AND 63) OR 128]))"

end
