(* ===== verification/Embedding.thy ===== *)
theory Embedding
  imports Sha256 Schemas
begin

text \<open>
  What is embedded: \<open>embed_text\<close> of \<open>memory/vector/base.py\<close> and \<open>embed_batch\<close> of
  \<open>memory/vector/rowmap.py\<close>. \<open>str\<close> of a value is written out, including the \<open>repr\<close> Python uses
  inside a nested document. The embedder is a parameter: it maps a list of texts to vectors or
  raises; \<open>hash_embed\<close> is the repository's own deterministic one (\<open>memory/vector/hash_embedder.py\<close>).
\<close>

section \<open>str and repr\<close>

definition unprintable :: "char \<Rightarrow> bool" where
  \<comment> \<open>the characters below 256 that \<open>str.isprintable\<close> refuses\<close>
  "unprintable c \<longleftrightarrow> (let n = code c in n < 32 \<or> (127 \<le> n \<and> n \<le> 160) \<or> n = 173)"

definition repr_char :: "char \<Rightarrow> char \<Rightarrow> string" where
  "repr_char quote c =
     (let n = code c in
      if n = 92 \<or> c = quote then [CHR 0x5C, c]
      else if n = 10 then [CHR 0x5C, CHR ''n'']
      else if n = 13 then [CHR 0x5C, CHR ''r'']
      else if n = 9 then [CHR 0x5C, CHR ''t'']
      else if unprintable c then [CHR 0x5C, CHR ''x'', hex_digit (n div 16), hex_digit (n mod 16)]
      else [c])"

definition repr_str :: "string \<Rightarrow> string" where
  "repr_str s =
     (let quote = (if CHR 0x27 \<in> set s \<and> CHR 0x22 \<notin> set s then CHR 0x22 else CHR 0x27)
      in [quote] @ concat (map (repr_char quote) s) @ [quote])"

fun py_repr :: "json \<Rightarrow> string" where
  "py_repr JNull = ''None''"
| "py_repr (JBool b) = (if b then ''True'' else ''False'')"
| "py_repr (JInt i) = str_int i"
| "py_repr (JFloat x) = repr_float x"
| "py_repr (JStr s) = repr_str s"
| "py_repr (JList xs) = ''['' @ join '', '' (map py_repr xs) @ '']''"
| "py_repr (JObj kvs) =
     ''{'' @ join '', '' (map (\<lambda>(k, v). repr_str k @ '': '' @ py_repr v) kvs) @ ''}''"

definition py_str :: "json \<Rightarrow> string" where
  "py_str v = (case v of JStr s \<Rightarrow> s | _ \<Rightarrow> py_repr v)"

section \<open>The embedded text\<close>

definition embed_render :: "object_value \<Rightarrow> string" where
  "embed_render v = (case v of ODict d \<Rightarrow> join '' '' (map (py_str \<circ> snd) d) | _ \<Rightarrow> py_str (obj_json v))"

definition embed_text :: "string \<Rightarrow> object_value \<Rightarrow> string" where
  "embed_text pname v = pname @ '': '' @ embed_render v"

type_synonym embedder = "string list \<Rightarrow> exn + real list list"

definition EMBEDDING_DIM :: nat where
  "EMBEDDING_DIM = 1024"

definition embed_batch :: "embedder \<Rightarrow> stored_assertion list \<Rightarrow> exn + real list list" where
  "embed_batch emb assertions =
     bindE (emb (map (\<lambda>a. embed_text (a_predicate a) (a_object a)) assertions)) (\<lambda>vectors.
       guardE (length vectors = length assertions) ValueError
         (guardE (\<forall>v \<in> set vectors. length v = EMBEDDING_DIM) ValueError (Inr vectors)))"

lemma embed_batch_Inr:
  "embed_batch emb assertions = Inr vs \<Longrightarrow>
     length vs = length assertions \<and> (\<forall>v \<in> set vs. length v = EMBEDDING_DIM)"
  by (auto simp: embed_batch_def bindE_Inr_iff guardE_Inr_iff)

section \<open>The hash embedder\<close>

definition FLOATS_PER_DIGEST :: nat where
  "FLOATS_PER_DIGEST = 8"

fun float_sum :: "real \<Rightarrow> real \<Rightarrow> real list \<Rightarrow> real" where
  \<comment> \<open>\<open>sum\<close> over floats, which keeps a running compensation since Python 3.12\<close>
  "float_sum acc c [] = fl (acc + c)"
| "float_sum acc c (x # xs) =
     (let t = fl (acc + x);
          d = (if \<bar>x\<bar> \<le> \<bar>acc\<bar> then fl (fl (acc - t) + x) else fl (fl (x - t) + acc))
      in float_sum t (fl (c + d)) xs)"

definition hash_raw :: "nat \<Rightarrow> string \<Rightarrow> byte list" where
  "hash_raw width text =
     concat (map (\<lambda>idx. sha256 (utf8 (str_int (int idx) @ '':'' @ text)))
       [0..<width div FLOATS_PER_DIGEST + 1])"

definition hash_values :: "nat \<Rightarrow> string \<Rightarrow> real list" where
  "hash_values width text =
     map (\<lambda>offset. fl (of_int (sint (word_of_bytes (take 4 (drop (4 * offset) (hash_raw width text))))) / 2 ^ 31))
       [0..<width]"

definition hash_vector :: "nat \<Rightarrow> string \<Rightarrow> real list" where
  "hash_vector width text =
     (let values = hash_values width text;
          root = fl (sqrt (float_sum 0 0 (map (\<lambda>v. fl (v * v)) values)));
          norm = (if root = 0 then 1 else root)
      in map (\<lambda>v. fl (v / norm)) values)"

definition hash_embed :: "nat \<Rightarrow> embedder" where
  "hash_embed width texts = Inr (map (hash_vector width) texts)"

lemma length_hash_raw: "length (hash_raw width text) = 32 * (width div 8 + 1)"
proof -
  have "length (concat (map (\<lambda>i. sha256 (f i)) [0..<n])) = 32 * n" for f :: "nat \<Rightarrow> byte list" and n
    by (induction n) simp_all
  then show ?thesis by (simp add: hash_raw_def FLOATS_PER_DIGEST_def)
qed

lemma hash_raw_covers:
  assumes "offset < width"
  shows "length (take 4 (drop (4 * offset) (hash_raw width text))) = 4"
proof -
  have "width < 8 * (width div 8) + 8"
    using mult_div_mod_eq [of 8 width] mod_less_divisor [of 8 width] by linarith
  with assms have "4 * offset + 4 \<le> 32 * (width div 8 + 1)" by simp
  then show ?thesis by (simp add: length_hash_raw)
qed

lemma hash_embed_fits:
  "embed_batch (hash_embed EMBEDDING_DIM) assertions =
     Inr (map (\<lambda>a. hash_vector EMBEDDING_DIM (embed_text (a_predicate a) (a_object a))) assertions)"
  by (simp add: embed_batch_def hash_embed_def hash_vector_def hash_values_def Let_def)

end
