(* ===== verification/Store.thy ===== *)
theory Store
  imports AuditChain Uuid5 Embedding SchemaGate
begin

text \<open>
  The relational store: the tables of \<open>0001_initial.py\<close> with their constraints, the statements of
  \<open>memory/vector/rowmap.py\<close>, \<open>memory/vector/queries.py\<close> and \<open>memory/outbox.py\<close>, the transactions
  of \<open>memory/vector/pool.py\<close>, the operations of \<open>memory/vector/pgvector_store.py\<close>, the router
  \<open>memory/router.py\<close> and the resolver \<open>memory/entities.py\<close>.

  Transactions run one after another (the code's row and advisory locks serialise those that
  touch the same rows); a transaction whose body raises leaves the tables as they were. A
  violated constraint and a refused row-level policy are \<open>DatabaseError\<close>. Identifiers are
  canonical UUID texts. The distance \<open><=>\<close> of pgvector, which of its rows a scan of the approximate
  index \<open>assertion_hnsw\<close> visits, and what a \<open>JSONB\<close> column hands back for an object are parameters.
\<close>

section \<open>Tables\<close>

record assertion_row =
  row_id :: string
  row_tenant :: string
  row_namespace :: string
  row_subject :: string
  row_predicate :: string
  row_object :: object_value
  row_confidence :: real
  row_risk :: real
  row_valid_from :: int
  row_valid_to :: "int option"
  row_recorded_at :: int
  row_retracted_at :: "int option"
  row_superseded_by :: "string option"
  row_corroboration :: int
  row_trace :: string
  row_visible :: bool
  row_embedding :: "real list"

record provenance_row =
  pr_id :: string
  pr_assertion :: string
  pr_citation :: provenance

record outbox_row =
  ob_id :: string
  ob_assertion :: string
  ob_event :: "(string \<times> json) list"
  ob_attempts :: int
  ob_created :: int
  ob_dispatched :: "int option"

record entity_row =
  en_id :: string
  en_tenant :: string
  en_type :: string
  en_name :: string

record db =
  db_tenants :: "string list"
  db_entities :: "entity_row list"
  db_assertions :: "assertion_row list"
  db_provenance :: "provenance_row list"
  db_outbox :: "outbox_row list"
  db_audit :: audit_table

section \<open>Constraints\<close>

definition assertion_check :: "assertion_row \<Rightarrow> bool" where
  \<comment> \<open>the column types and the \<open>CHECK\<close>s of the table \<open>assertion\<close>\<close>
  "assertion_check r \<longleftrightarrow>
     in_unit (row_confidence r) \<and> in_unit (row_risk r) \<and> json_finite (obj_json (row_object r)) \<and>
     1 \<le> row_corroboration r \<and> row_corroboration r < 2 ^ 31 \<and>
     (case row_valid_to r of None \<Rightarrow> True | Some t \<Rightarrow> row_valid_from r \<le> t) \<and>
     row_superseded_by r \<noteq> Some (row_id r) \<and> length (row_embedding r) = EMBEDDING_DIM \<and>
     (\<forall>x \<in> set (row_embedding r). \<bar>x\<bar> < 2 ^ 128) \<and> nul_free (obj_json (row_object r)) \<and>
     pg_text (row_namespace r) \<and> pg_text (row_predicate r) \<and> pg_text (row_trace r)"

definition assertion_refs :: "db \<Rightarrow> assertion_row \<Rightarrow> bool" where
  \<comment> \<open>the foreign keys of the table \<open>assertion\<close>\<close>
  "assertion_refs db r \<longleftrightarrow>
     row_tenant r \<in> set (db_tenants db) \<and> row_subject r \<in> en_id ` set (db_entities db) \<and>
     (case row_superseded_by r of None \<Rightarrow> True | Some i \<Rightarrow> i \<in> row_id ` set (db_assertions db))"

definition citation_check :: "provenance \<Rightarrow> bool" where
  \<comment> \<open>the \<open>CHECK\<close>s of the table \<open>provenance\<close>, the bounds of its column types included\<close>
  "citation_check p \<longleftrightarrow>
     length (pv_verbatim p) \<le> 2000 \<and> in_unit (pv_alignment p) \<and> span_ok (pv_span p) \<and>
     snd (pv_span p) < 2 ^ 31 \<and> pg_text (pv_hash p) \<and> pg_text (pv_verbatim p)"

definition owned :: "string \<Rightarrow> db \<Rightarrow> string \<Rightarrow> bool" where
  \<comment> \<open>the policy of the table \<open>assertion\<close>: the row exists and is the tenant's\<close>
  "owned tenant db i \<longleftrightarrow> (\<exists>r \<in> set (db_assertions db). row_id r = i \<and> row_tenant r = tenant)"

definition assert_provenance_exists :: "db \<Rightarrow> assertion_row \<Rightarrow> bool" where
  "assert_provenance_exists db r \<longleftrightarrow> (\<exists>p \<in> set (db_provenance db). pr_assertion p = row_id r)"

definition commit_check :: "db \<Rightarrow> db \<Rightarrow> bool" where
  \<comment> \<open>the deferred trigger, for the rows the transaction inserted\<close>
  "commit_check old new \<longleftrightarrow>
     (\<forall>r \<in> set (db_assertions new). row_id r \<in> row_id ` set (db_assertions old) \<or>
        assert_provenance_exists new r)"

section \<open>Statements\<close>

definition insert_assertion :: "string \<Rightarrow> db \<Rightarrow> assertion_row \<Rightarrow> exn + db" where
  "insert_assertion tenant db row =
     (let r = row\<lparr>row_visible := False, row_confidence := fl32 (row_confidence row),
                 row_risk := fl32 (row_risk row), row_embedding := map fl32 (row_embedding row)\<rparr>
      in guardE (row_tenant r = tenant \<and> assertion_check r) DatabaseError
           (if row_id r \<in> row_id ` set (db_assertions db) then Inr db
            else guardE (assertion_refs db r) DatabaseError
                   (Inr (db\<lparr>db_assertions := db_assertions db @ [r]\<rparr>))))"

definition insert_provenance :: "string \<Rightarrow> db \<Rightarrow> provenance_row \<Rightarrow> exn + db" where
  "insert_provenance tenant db row =
     (let r = row\<lparr>pr_citation := (pr_citation row)\<lparr>pv_alignment := fl32 (pv_alignment (pr_citation row))\<rparr>\<rparr>
      in guardE (owned tenant db (pr_assertion r) \<and> citation_check (pr_citation r)) DatabaseError
           (if pr_id r \<in> pr_id ` set (db_provenance db) then Inr db
            else Inr (db\<lparr>db_provenance := db_provenance db @ [r]\<rparr>)))"

definition insert_outbox :: "int \<Rightarrow> db \<Rightarrow> string \<times> string \<times> (string \<times> json) list \<Rightarrow> exn + db" where
  \<comment> \<open>\<open>created_at\<close> defaults to the transaction's \<open>now()\<close>; the table has no policy of its own\<close>
  "insert_outbox now db params =
     (case params of (i, assertion, event) \<Rightarrow>
        guardE (nul_free (JObj event)) DatabaseError
          (if i \<in> ob_id ` set (db_outbox db) then Inr db
           else guardE (assertion \<in> row_id ` set (db_assertions db)) DatabaseError
               (Inr (db\<lparr>db_outbox := db_outbox db @
                  [\<lparr>ob_id = i, ob_assertion = assertion, ob_event = event, ob_attempts = 0,
                    ob_created = now, ob_dispatched = None\<rparr>]\<rparr>))))"

definition insert_entity :: "string \<Rightarrow> db \<Rightarrow> entity_row \<Rightarrow> exn + db" where
  "insert_entity tenant db e =
     guardE (en_tenant e = tenant \<and> pg_text (en_type e) \<and> pg_text (en_name e)) DatabaseError
       (if en_id e \<in> en_id ` set (db_entities db) then Inr db
        else guardE (en_tenant e \<in> set (db_tenants db)) DatabaseError
               (Inr (db\<lparr>db_entities := db_entities db @ [e]\<rparr>)))"

definition live_row :: "string \<Rightarrow> string \<Rightarrow> assertion_row \<Rightarrow> bool" where
  \<comment> \<open>the rows \<open>SUPERSEDE\<close> updates under the tenant's policy\<close>
  "live_row tenant i r \<longleftrightarrow> row_id r = i \<and> row_tenant r = tenant \<and> row_valid_to r = None"

definition retire :: "int \<Rightarrow> string \<Rightarrow> assertion_row \<Rightarrow> assertion_row" where
  "retire ts new_id r = r\<lparr>row_valid_to := Some ts, row_superseded_by := Some new_id\<rparr>"

definition update_supersede :: "string \<Rightarrow> db \<Rightarrow> int \<Rightarrow> string \<Rightarrow> string \<Rightarrow> exn + db \<times> nat" where
  \<comment> \<open>the statement's new tables and its row count\<close>
  "update_supersede tenant db ts new_id old_id =
     (let hit = filter (live_row tenant old_id) (db_assertions db)
      in guardE (\<forall>r \<in> set hit. assertion_check (retire ts new_id r) \<and>
                  new_id \<in> row_id ` set (db_assertions db)) DatabaseError
           (Inr (db\<lparr>db_assertions := map (\<lambda>r. if live_row tenant old_id r then retire ts new_id r else r)
                      (db_assertions db)\<rparr>, length hit)))"

definition db_append ::
    "db \<Rightarrow> string \<Rightarrow> string \<Rightarrow> string \<Rightarrow> (string \<times> json) list \<Rightarrow> int \<Rightarrow> exn + db" where
  \<comment> \<open>\<open>append\<close> of the audit store against the tables: \<open>audit_event.tenant_id\<close> references \<open>tenant\<close>\<close>
  "db_append db tenant trace kind payload created_at =
     bindE (audit_append (db_audit db) tenant trace kind payload created_at) (\<lambda>(t, e).
       guardE (tenant \<in> set (db_tenants db) \<and> pg_text trace \<and> nul_free (JObj payload)) DatabaseError
         (Inr (db\<lparr>db_audit := t\<rparr>)))"

section \<open>Transactions\<close>

definition transaction :: "bool \<Rightarrow> (db \<Rightarrow> exn + 'a \<times> db) \<Rightarrow> db \<Rightarrow> (exn + 'a) \<times> db" where
  \<comment> \<open>\<open>free\<close>: a pooled connection became free in time\<close>
  "transaction free body db =
     (if \<not> free then (Inl (GM StoreUnavailable), db)
      else case body db of
             Inl e \<Rightarrow> (Inl e, db)
           | Inr (x, db') \<Rightarrow> if commit_check db db' then (Inr x, db') else (Inl DatabaseError, db))"

section \<open>Writing\<close>

record prepared_write =
  pw_assertions :: "assertion_row list"
  pw_citations :: "provenance_row list"
  pw_events :: "(string \<times> string \<times> (string \<times> json) list) list"

record pg_store =
  st_embed :: embedder
  st_tenant :: string

definition assertion_params :: "stored_assertion \<Rightarrow> string \<Rightarrow> real list \<Rightarrow> assertion_row" where
  "assertion_params a tenant vector =
     \<lparr>row_id = a_id a, row_tenant = tenant, row_namespace = a_namespace a, row_subject = a_subject a,
      row_predicate = a_predicate a, row_object = a_object a, row_confidence = a_confidence a,
      row_risk = a_risk a, row_valid_from = a_valid_from a, row_valid_to = a_valid_to a,
      row_recorded_at = a_recorded_at a, row_retracted_at = a_retracted_at a,
      row_superseded_by = a_superseded_by a, row_corroboration = a_corroboration a,
      row_trace = a_trace a, row_visible = False, row_embedding = vector\<rparr>"

definition citation_id :: "string \<Rightarrow> provenance \<Rightarrow> string" where
  "citation_id aid p =
     uuid5 (aid @ ''/'' @ pv_hash p @ ''/'' @ str_int (fst (pv_span p)) @ ''-'' @ str_int (snd (pv_span p)))"

definition provenance_params :: "stored_assertion \<Rightarrow> provenance_row list" where
  "provenance_params a =
     map (\<lambda>p. \<lparr>pr_id = citation_id (a_id a) p, pr_assertion = a_id a, pr_citation = p\<rparr>) (a_provenance a)"

definition EVENT_KIND :: string where
  "EVENT_KIND = ''assertion.written''"

definition outbox_id :: "string \<Rightarrow> string" where
  "outbox_id aid = uuid5 (''outbox/'' @ aid)"

definition outbox_params :: "stored_assertion \<Rightarrow> string \<Rightarrow> string \<times> string \<times> (string \<times> json) list" where
  "outbox_params a tenant =
     (outbox_id (a_id a), a_id a,
      [(''kind'', JStr EVENT_KIND), (''tenant_id'', JStr tenant), (''namespace'', JStr (a_namespace a)),
       (''trace_id'', JStr (a_trace a))])"

definition prepare :: "pg_store \<Rightarrow> stored_assertion list \<Rightarrow> exn + prepared_write option" where
  "prepare st assertions =
     (if assertions = [] then Inr None
      else bindE (embed_batch (st_embed st) assertions) (\<lambda>vectors.
        Inr (Some \<lparr>pw_assertions = map (\<lambda>(a, v). assertion_params a (st_tenant st) v) (zip assertions vectors),
                   pw_citations = concat (map provenance_params assertions),
                   pw_events = map (\<lambda>a. outbox_params a (st_tenant st)) assertions\<rparr>)))"

definition write_in :: "string \<Rightarrow> int \<Rightarrow> db \<Rightarrow> prepared_write \<Rightarrow> exn + db" where
  "write_in tenant now db w =
     bindE (foldE (insert_assertion tenant) db (pw_assertions w)) (\<lambda>db1.
     bindE (foldE (insert_provenance tenant) db1 (pw_citations w)) (\<lambda>db2.
       foldE (insert_outbox now) db2 (pw_events w)))"

definition upsert :: "pg_store \<Rightarrow> bool \<Rightarrow> int \<Rightarrow> stored_assertion list \<Rightarrow> db \<Rightarrow> (exn + unit) \<times> db" where
  "upsert st free now assertions db =
     (case prepare st assertions of
        Inl e \<Rightarrow> (Inl e, db)
      | Inr None \<Rightarrow> (Inr (), db)
      | Inr (Some w) \<Rightarrow>
          transaction free (\<lambda>db. bindE (write_in (st_tenant st) now db w) (\<lambda>db'. Inr ((), db'))) db)"

definition supersede_in :: "string \<Rightarrow> db \<Rightarrow> string \<Rightarrow> string \<Rightarrow> int \<Rightarrow> exn + db" where
  "supersede_in tenant db old_id new_id ts =
     bindE (update_supersede tenant db ts new_id old_id) (\<lambda>(db', n).
       guardE (n \<noteq> 0) (GM ConcurrencyConflict) (Inr db'))"

definition supersede ::
    "pg_store \<Rightarrow> bool \<Rightarrow> string \<Rightarrow> string \<Rightarrow> int \<Rightarrow> db \<Rightarrow> (exn + unit) \<times> db" where
  "supersede st free old_id new_id ts =
     transaction free (\<lambda>db. bindE (supersede_in (st_tenant st) db old_id new_id ts) (\<lambda>db'. Inr ((), db')))"

section \<open>Reading\<close>

datatype sql_clause =
    NamespaceIs string
  | Visible
  | NotRetracted
  | HasEmbedding
  | LiveClause
  | RetiredClause
  | ValidAsOf int
  | SubjectIs string
  | PredicateIs string

fun holds :: "sql_clause \<Rightarrow> assertion_row \<Rightarrow> bool" where
  "holds (NamespaceIs ns) r = (row_namespace r = ns)"
| "holds Visible r = row_visible r"
| "holds NotRetracted r = (row_retracted_at r = None)"
| "holds HasEmbedding r = True" \<comment> \<open>no statement writes a row without one\<close>
| "holds LiveClause r = (row_valid_to r = None)"
| "holds RetiredClause r = (row_valid_to r \<noteq> None)"
| "holds (ValidAsOf t) r =
     (row_valid_from r \<le> t \<and> (case row_valid_to r of None \<Rightarrow> True | Some e \<Rightarrow> t < e))"
| "holds (SubjectIs s) r = (row_subject r = s)"
| "holds (PredicateIs p) r = (row_predicate r = p)"

definition ALWAYS :: "string \<Rightarrow> sql_clause list" where
  "ALWAYS ns = [NamespaceIs ns, Visible, NotRetracted, HasEmbedding]"

definition filter_clause :: "string \<times> string \<Rightarrow> exn + sql_clause" where
  "filter_clause kv =
     (if fst kv = ''subject_id'' then Inr (SubjectIs (snd kv))
      else if fst kv = ''predicate'' then Inr (PredicateIs (snd kv))
      else Inl KeyError)"

definition predicates :: "string \<Rightarrow> (string \<times> string) list \<Rightarrow> int option \<Rightarrow> exn + sql_clause list" where
  "predicates ns filters as_of =
     bindE (mapE filter_clause filters) (\<lambda>cs.
       Inr (ALWAYS ns @ [case as_of of None \<Rightarrow> LiveClause | Some t \<Rightarrow> ValidAsOf t] @ cs))"

definition tenant_rows :: "db \<Rightarrow> string \<Rightarrow> sql_clause list \<Rightarrow> assertion_row list" where
  \<comment> \<open>the rows a \<open>SELECT\<close> of the tenant sees\<close>
  "tenant_rows db tenant clauses =
     filter (\<lambda>r. row_tenant r = tenant \<and> (\<forall>c \<in> set clauses. holds c r)) (db_assertions db)"

record search_env =
  se_dist :: "real list \<Rightarrow> real list \<Rightarrow> real"
  se_reach :: "assertion_row list \<Rightarrow> real list \<Rightarrow> assertion_row \<Rightarrow> bool"
    \<comment> \<open>whether a scan of the index over these rows, from this vector, visits the row; the index is
        approximate, and a plan that does not use it visits every row\<close>
  se_jsonb :: "object_value \<Rightarrow> object_value"
  se_free :: bool

definition index_rows :: "db \<Rightarrow> assertion_row list" where
  \<comment> \<open>\<open>assertion_hnsw\<close>, over all tenants: \<open>WHERE valid_to IS NULL AND visible\<close>\<close>
  "index_rows db = filter (\<lambda>r. holds LiveClause r \<and> holds Visible r) (db_assertions db)"

definition reaches :: "search_env \<Rightarrow> db \<Rightarrow> sql_clause list \<Rightarrow> real list \<Rightarrow> assertion_row \<Rightarrow> bool" where
  \<comment> \<open>the partial index serves only a statement that asks for live rows\<close>
  "reaches env db clauses vector r \<longleftrightarrow>
     LiveClause \<notin> set clauses \<or> se_reach env (index_rows db) vector r"

definition nearest_statement ::
    "search_env \<Rightarrow> db \<Rightarrow> string \<Rightarrow> sql_clause list \<Rightarrow> real list \<Rightarrow> nat \<Rightarrow> assertion_row list" where
  "nearest_statement env db tenant clauses vector k =
     take k (sort_key (\<lambda>r. se_dist env (row_embedding r) vector)
       (filter (reaches env db clauses vector) (tenant_rows db tenant clauses)))"

definition retired_statement ::
    "db \<Rightarrow> string \<Rightarrow> sql_clause list \<Rightarrow> nat \<Rightarrow> exn + assertion_row list" where
  "retired_statement db tenant clauses limit =
     guardE (LiveClause \<in> set clauses) ValueError
       (Inr (take limit (sort_key (\<lambda>r. - the (row_valid_to r))
          (tenant_rows db tenant (map (\<lambda>c. if c = LiveClause then RetiredClause else c) clauses)))))"

definition fetch_citations :: "db \<Rightarrow> string \<Rightarrow> string \<Rightarrow> provenance list" where
  \<comment> \<open>the group of one assertion id: its citations in order of \<open>captured_at\<close>\<close>
  "fetch_citations db tenant i =
     sort_key pv_captured_at
       (map pr_citation (filter (\<lambda>p. pr_assertion p = i \<and> owned tenant db i) (db_provenance db)))"

definition assertion_from_row ::
    "(object_value \<Rightarrow> object_value) \<Rightarrow> assertion_row \<Rightarrow> provenance list \<Rightarrow> exn + stored_assertion" where
  "assertion_from_row jsonb r ps =
     bindE (mapE mk_provenance ps) (\<lambda>ps'.
       mk_assertion \<lparr>a_id = row_id r, a_tenant = row_tenant r, a_namespace = row_namespace r,
         a_subject = row_subject r, a_predicate = row_predicate r, a_object = jsonb (row_object r),
         a_confidence = row_confidence r, a_risk = row_risk r, a_valid_from = row_valid_from r,
         a_valid_to = row_valid_to r, a_recorded_at = row_recorded_at r,
         a_retracted_at = row_retracted_at r, a_superseded_by = row_superseded_by r,
         a_provenance = ps', a_corroboration = row_corroboration r, a_trace = row_trace r,
         a_visible = row_visible r\<rparr>)"

definition read_row ::
    "(object_value \<Rightarrow> object_value) \<Rightarrow> db \<Rightarrow> string \<Rightarrow> assertion_row \<Rightarrow> exn + stored_assertion" where
  "read_row jsonb db tenant r = assertion_from_row jsonb r (fetch_citations db tenant (row_id r))"

definition scored_row :: "search_env \<Rightarrow> db \<Rightarrow> string \<Rightarrow> real list \<Rightarrow> assertion_row \<Rightarrow> exn + scored_assertion" where
  "scored_row env db tenant vector r =
     bindE (read_row (se_jsonb env) db tenant r) (\<lambda>a.
       let cosine = fl (1 - se_dist env (row_embedding r) vector)
       in guardE (in_cosine cosine) ValueError (Inr \<lparr>s_assertion = a, s_cosine = cosine\<rparr>))"

definition search ::
    "search_env \<Rightarrow> db \<Rightarrow> string \<Rightarrow> string \<Rightarrow> real list \<Rightarrow> nat \<Rightarrow> (string \<times> string) list \<Rightarrow> int option
     \<Rightarrow> exn + scored_assertion list" where
  "search env db tenant ns vector k filters as_of =
     bindE (predicates ns filters as_of) (\<lambda>clauses.
       guardE (se_free env) (GM StoreUnavailable)
         (mapE (scored_row env db tenant vector)
            (nearest_statement env db tenant clauses vector k)))"

definition retired ::
    "search_env \<Rightarrow> db \<Rightarrow> string \<Rightarrow> string \<Rightarrow> (string \<times> string) list \<Rightarrow> nat \<Rightarrow> exn + stored_assertion list" where
  "retired env db tenant ns filters limit =
     bindE (predicates ns filters None) (\<lambda>clauses.
       guardE (se_free env) (GM StoreUnavailable)
         (bindE (retired_statement db tenant clauses limit) (mapE (read_row (se_jsonb env) db tenant))))"

section \<open>The router and the resolver\<close>

definition VECTOR :: string where "VECTOR = ''vector''"
definition GRAPH :: string where "GRAPH = ''graph''"

definition route :: "stored_assertion \<Rightarrow> string set" where
  "route a = {VECTOR, GRAPH}"

definition router_write ::
    "string \<Rightarrow> pg_store \<Rightarrow> bool \<Rightarrow> int \<Rightarrow> stored_assertion list \<Rightarrow> db \<Rightarrow> (exn + unit) \<times> db" where
  \<comment> \<open>\<open>_reject_foreign_tenants\<close>, \<open>_reject_presumed_visibility\<close>, then the vector store\<close>
  "router_write tenant st free now assertions db =
     (if \<exists>a \<in> set assertions. a_tenant a \<noteq> tenant then (Inl (GM ValidationRejected), db)
      else if \<exists>a \<in> set assertions. a_visible a then (Inl (GM ValidationRejected), db)
      else upsert st free now assertions db)"

definition derive_entity_id :: "string \<Rightarrow> string \<Rightarrow> string" where
  "derive_entity_id tenant ns = uuid5 (''guardmem/'' @ tenant @ ''/entity/'' @ ns)"

definition subject_type_of :: "string \<Rightarrow> string option" where
  \<comment> \<open>\<open>namespace.partition(":")\<close>\<close>
  "subject_type_of ns =
     (let prefix = takeWhile (\<lambda>c. c \<noteq> CHR '':'') ns;
          rest = drop (Suc (length prefix)) ns
      in if CHR '':'' \<notin> set ns \<or> prefix = [] \<or> rest = [] then None else Some prefix)"

definition ensure_entity ::
    "bool \<Rightarrow> string \<Rightarrow> string \<Rightarrow> string \<Rightarrow> string \<Rightarrow> db \<Rightarrow> (exn + unit) \<times> db" where
  "ensure_entity free i tenant typ name db =
     (case transaction free (\<lambda>db. bindE (insert_entity tenant db
             \<lparr>en_id = i, en_tenant = tenant, en_type = typ, en_name = (if name = [] then i else name)\<rparr>)
             (\<lambda>db'. Inr ((), db'))) db of
        (Inl DatabaseError, db') \<Rightarrow> (Inl (GM StoreUnavailable), db')
      | r \<Rightarrow> r)"

definition resolve ::
    "bool \<Rightarrow> string \<Rightarrow> string \<Rightarrow> string \<Rightarrow> string \<Rightarrow> db \<Rightarrow> (exn + string) \<times> db" where
  "resolve free subject tenant ns expected_type db =
     (case subject_type_of ns of
        None \<Rightarrow> (Inl (GM ValidationRejected), db)
      | Some declared \<Rightarrow>
          if casefold declared \<noteq> casefold expected_type then (Inl (GM ValidationRejected), db)
          else let i = derive_entity_id tenant ns
               in case ensure_entity free i tenant expected_type subject db of
                    (Inl e, db') \<Rightarrow> (Inl e, db')
                  | (Inr _, db') \<Rightarrow> (Inr i, db'))"

end
