(* ===== verification/StoreLaws.thy ===== *)
theory StoreLaws
  imports Store
begin

text \<open>
  What every statement of the store keeps: the integrity of the tables (\<open>db_core\<close>, \<open>sourced\<close>),
  and \<open>tenant_step\<close>, the shape of every change a tenant's transaction can make: nothing is
  deleted, a row's facts never change, a retired row stays as it was retired, and only the
  tenant's own rows and audit events are touched.
\<close>

section \<open>Integrity and permitted change\<close>

definition assertion_ids :: "db \<Rightarrow> string set" where
  "assertion_ids db = row_id ` set (db_assertions db)"

definition db_core :: "db \<Rightarrow> bool" where
  "db_core db \<longleftrightarrow>
     distinct (map row_id (db_assertions db)) \<and> distinct (map ob_id (db_outbox db)) \<and>
     (\<forall>r \<in> set (db_assertions db). assertion_check r \<and> assertion_refs db r) \<and>
     (\<forall>p \<in> set (db_provenance db). citation_check (pr_citation p) \<and> pr_assertion p \<in> assertion_ids db) \<and>
     (\<forall>q \<in> set (db_outbox db). ob_assertion q \<in> assertion_ids db)"

definition sourced :: "db \<Rightarrow> bool" where
  "sourced db \<longleftrightarrow> (\<forall>r \<in> set (db_assertions db). assert_provenance_exists db r)"

definition row_evolves :: "assertion_row \<Rightarrow> assertion_row \<Rightarrow> bool" where
  "row_evolves r r' \<longleftrightarrow>
     r' = r\<lparr>row_valid_to := row_valid_to r', row_superseded_by := row_superseded_by r',
           row_visible := row_visible r'\<rparr> \<and>
     (row_valid_to r \<noteq> None \<longrightarrow> row_valid_to r' = row_valid_to r \<and> row_superseded_by r' = row_superseded_by r) \<and>
     (row_visible r \<longrightarrow> row_visible r')"

definition foreign :: "string \<Rightarrow> db \<Rightarrow> assertion_row list" where
  "foreign tenant db = filter (\<lambda>r. row_tenant r \<noteq> tenant) (db_assertions db)"

definition tenant_step :: "string \<Rightarrow> db \<Rightarrow> db \<Rightarrow> bool" where
  "tenant_step tenant db db' \<longleftrightarrow>
     db_tenants db' = db_tenants db \<and>
     (\<exists>es. db_entities db' = db_entities db @ es) \<and>
     (\<exists>ps. db_provenance db' = db_provenance db @ ps) \<and>
     (\<exists>us vs. db_assertions db' = us @ vs \<and> list_all2 row_evolves (db_assertions db) us) \<and>
     foreign tenant db' = foreign tenant db \<and>
     (\<exists>rs. at_rows (db_audit db') = at_rows (db_audit db) @ rs \<and> (\<forall>r \<in> set rs. ar_tenant r = tenant))"

section \<open>The order of change\<close>

lemma row_evolves_refl [simp]: "row_evolves r r"
  by (simp add: row_evolves_def)

lemma row_evolves_trans: "row_evolves r s \<Longrightarrow> row_evolves s t \<Longrightarrow> row_evolves r t"
  unfolding row_evolves_def by (cases r; cases s; cases t) auto

lemma row_evolves_facts:
  "row_evolves r r' \<Longrightarrow> row_id r' = row_id r \<and> row_tenant r' = row_tenant r \<and>
     row_subject r' = row_subject r"
  unfolding row_evolves_def by (cases r; cases r') auto

lemma row_evolves_retire: "row_valid_to r = None \<Longrightarrow> row_evolves r (retire ts i r)"
  by (simp add: row_evolves_def retire_def)

lemma evolves_refl [simp]: "list_all2 row_evolves rs rs"
  by (simp add: list_all2_refl)

lemma tenant_stepI:
  assumes "db_tenants db' = db_tenants db" and "db_entities db' = db_entities db @ es"
    and "db_provenance db' = db_provenance db @ ps" and "db_assertions db' = us @ vs"
    and "list_all2 row_evolves (db_assertions db) us" and "foreign tenant db' = foreign tenant db"
    and "at_rows (db_audit db') = at_rows (db_audit db) @ rs" and "\<forall>r \<in> set rs. ar_tenant r = tenant"
  shows "tenant_step tenant db db'"
  unfolding tenant_step_def using assms by blast

lemma tenant_step_refl [simp]: "tenant_step tenant db db"
  by (rule tenant_stepI [of _ _ "[]" "[]" "db_assertions db" "[]" _ "[]"]) simp_all

lemma tenant_step_trans:
  assumes a: "tenant_step t db1 db2" and b: "tenant_step t db2 db3"
  shows "tenant_step t db1 db3"
proof -
  obtain us vs where u: "db_assertions db2 = us @ vs" "list_all2 row_evolves (db_assertions db1) us"
    using a by (auto simp: tenant_step_def)
  obtain us' vs' where w: "db_assertions db3 = us' @ vs'" "list_all2 row_evolves (us @ vs) us'"
    using b u by (auto simp: tenant_step_def)
  then obtain x y where xy: "us' = x @ y" "list_all2 row_evolves us x"
    by (auto simp: list_all2_append1)
  have "list_all2 row_evolves (db_assertions db1) x"
    using u(2) xy(2) row_evolves_trans by (rule list_all2_trans [rotated])
  with w xy have "\<exists>us vs. db_assertions db3 = us @ vs \<and> list_all2 row_evolves (db_assertions db1) us"
    by (intro exI [of _ x] exI [of _ "y @ vs'"]) simp
  moreover have "\<exists>es. db_entities db3 = db_entities db1 @ es" "\<exists>ps. db_provenance db3 = db_provenance db1 @ ps"
    using a b by (auto simp: tenant_step_def)
  moreover have "\<exists>rs. at_rows (db_audit db3) = at_rows (db_audit db1) @ rs \<and> (\<forall>r \<in> set rs. ar_tenant r = t)"
    using a b unfolding tenant_step_def by (metis Un_iff append_assoc set_append)
  ultimately show ?thesis using a b by (simp add: tenant_step_def)
qed

lemma tenant_step_ids: "tenant_step t db db' \<Longrightarrow> assertion_ids db \<subseteq> assertion_ids db'"
proof -
  assume "tenant_step t db db'"
  then obtain us vs where u: "db_assertions db' = us @ vs" "list_all2 row_evolves (db_assertions db) us"
    by (auto simp: tenant_step_def)
  from u(2) have "map row_id us = map row_id (db_assertions db)"
    by (induction rule: list_all2_induct) (auto dest: row_evolves_facts)
  then have "row_id ` set us = row_id ` set (db_assertions db)" by (metis set_map)
  with u(1) show ?thesis by (auto simp: assertion_ids_def)
qed

lemma assertion_refs_mono:
  "tenant_step t db db' \<Longrightarrow> assertion_refs db r \<Longrightarrow> assertion_refs db' r"
  using tenant_step_ids [of t db db']
  by (auto simp: assertion_refs_def tenant_step_def assertion_ids_def split: option.splits)

section \<open>Statements\<close>

lemma insert_assertion_Inr:
  assumes "insert_assertion tenant db row = Inr db'"
  obtains "row_id row \<in> assertion_ids db" and "db' = db"
  | r where "db' = db\<lparr>db_assertions := db_assertions db @ [r]\<rparr>" and "row_id row \<notin> assertion_ids db"
    and "r = row\<lparr>row_visible := False, row_confidence := fl32 (row_confidence row),
                 row_risk := fl32 (row_risk row), row_embedding := map fl32 (row_embedding row)\<rparr>"
    and "row_tenant r = tenant" and "assertion_check r" and "assertion_refs db r"
  using assms unfolding insert_assertion_def Let_def guardE_Inr_iff assertion_ids_def
  by (auto simp: guardE_Inr_iff split: if_splits)

lemma insert_assertion_step:
  assumes "insert_assertion tenant db row = Inr db'"
  shows "tenant_step tenant db db' \<and> (db_core db \<longrightarrow> db_core db')"
  using assms
proof (cases rule: insert_assertion_Inr)
  case 1
  then show ?thesis by simp
next
  case (2 r)
  have step: "tenant_step tenant db db'"
    by (rule tenant_stepI [of _ _ "[]" "[]" "db_assertions db" "[r]" _ "[]"])
      (use 2 in \<open>simp_all add: foreign_def\<close>)
  have "db_core db'" if "db_core db"
    using that 2 assertion_refs_mono [OF step]
    by (auto simp: db_core_def assertion_ids_def)
  with step show ?thesis by simp
qed

lemma insert_provenance_step:
  assumes "insert_provenance tenant db row = Inr db'"
  shows "tenant_step tenant db db' \<and> (db_core db \<longrightarrow> db_core db')"
proof -
  let ?r = "row\<lparr>pr_citation := (pr_citation row)\<lparr>pv_alignment := fl32 (pv_alignment (pr_citation row))\<rparr>\<rparr>"
  have g: "owned tenant db (pr_assertion row)" "citation_check (pr_citation ?r)"
    and "db' = db \<or> db' = db\<lparr>db_provenance := db_provenance db @ [?r]\<rparr>"
    using assms by (auto simp: insert_provenance_def Let_def guardE_Inr_iff split: if_splits)
  then consider "db' = db" | "db' = db\<lparr>db_provenance := db_provenance db @ [?r]\<rparr>" by blast
  then show ?thesis
  proof cases
    case 2
    have step: "tenant_step tenant db db'"
      by (rule tenant_stepI [of _ _ "[]" "[?r]" "db_assertions db" "[]" _ "[]"])
        (simp_all add: 2 foreign_def)
    have "pr_assertion row \<in> assertion_ids db" using g(1) by (force simp: owned_def assertion_ids_def)
    with g(2) have "db_core db'" if "db_core db"
      using that assertion_refs_mono [OF step] by (auto simp: db_core_def 2 assertion_ids_def)
    with step show ?thesis by simp
  qed simp
qed

lemma insert_outbox_step:
  assumes "insert_outbox now db params = Inr db'"
  shows "tenant_step tenant db db' \<and> (db_core db \<longrightarrow> db_core db')"
proof -
  obtain i a e where p: "params = (i, a, e)" by (cases params)
  let ?o = "\<lparr>ob_id = i, ob_assertion = a, ob_event = e, ob_attempts = 0, ob_created = now, ob_dispatched = None\<rparr>"
  consider "db' = db"
    | "db' = db\<lparr>db_outbox := db_outbox db @ [?o]\<rparr>" "a \<in> assertion_ids db" "i \<notin> ob_id ` set (db_outbox db)"
    using assms by (auto simp: insert_outbox_def p guardE_Inr_iff assertion_ids_def split: if_splits)
  then show ?thesis
  proof cases
    case 2
    have step: "tenant_step tenant db db'"
      by (rule tenant_stepI [of _ _ "[]" "[]" "db_assertions db" "[]" _ "[]"])
        (simp_all add: 2 foreign_def)
    have "db_core db'" if "db_core db"
      using that 2(2,3) assertion_refs_mono [OF step] by (auto simp: db_core_def 2(1) assertion_ids_def)
    with step show ?thesis by simp
  qed simp
qed

lemma insert_entity_step:
  assumes "insert_entity tenant db e = Inr db'"
  shows "tenant_step tenant db db' \<and> (db_core db \<longrightarrow> db_core db')"
proof -
  consider "db' = db" | "db' = db\<lparr>db_entities := db_entities db @ [e]\<rparr>"
    using assms by (auto simp: insert_entity_def guardE_Inr_iff split: if_splits)
  then show ?thesis
  proof cases
    case 2
    have step: "tenant_step tenant db db'"
      by (rule tenant_stepI [of _ _ "[e]" "[]" "db_assertions db" "[]" _ "[]"])
        (simp_all add: 2 foreign_def)
    have "db_core db'" if "db_core db"
      using that assertion_refs_mono [OF step] by (auto simp: db_core_def 2 assertion_ids_def)
    with step show ?thesis by simp
  qed simp
qed

lemma map_update_evolves:
  assumes "\<And>r. p r \<Longrightarrow> row_evolves r (f r)"
  shows "list_all2 row_evolves rs (map (\<lambda>r. if p r then f r else r) rs)"
  using assms by (simp add: list_all2_conv_all_nth)

lemma map_update_ids:
  assumes "\<And>r. p r \<Longrightarrow> row_evolves r (f r)"
  shows "map row_id (map (\<lambda>r. if p r then f r else r) rs) = map row_id rs"
  using assms row_evolves_facts by (auto simp: comp_def)

lemma map_update_foreign:
  assumes "\<And>r. p r \<Longrightarrow> row_evolves r (f r)" and "\<And>r. p r \<Longrightarrow> row_tenant r = tenant"
  shows "filter (\<lambda>r. row_tenant r \<noteq> tenant) (map (\<lambda>r. if p r then f r else r) rs) =
    filter (\<lambda>r. row_tenant r \<noteq> tenant) rs"
proof -
  have "row_tenant (f r) = tenant" if "p r" for r
    using row_evolves_facts [OF assms(1) [OF that]] assms(2) [OF that] by simp
  then show ?thesis using assms(2) by (induction rs) auto
qed

lemma update_rows_step:
  assumes p: "\<And>r. p r \<Longrightarrow> row_evolves r (f r)" "\<And>r. p r \<Longrightarrow> row_tenant r = tenant"
    and db': "db' = db\<lparr>db_assertions := map (\<lambda>r. if p r then f r else r) (db_assertions db)\<rparr>"
    and ok: "\<And>r. r \<in> set (db_assertions db) \<Longrightarrow> p r \<Longrightarrow> assertion_check r \<Longrightarrow> assertion_refs db r \<Longrightarrow>
        assertion_check (f r) \<and> assertion_refs db (f r)"
  shows "tenant_step tenant db db' \<and> (db_core db \<longrightarrow> db_core db') \<and> assertion_ids db' = assertion_ids db"
proof -
  have step: "tenant_step tenant db db'"
    by (rule tenant_stepI [of _ _ "[]" "[]" "db_assertions db'" "[]" _ "[]"])
      (use p in \<open>auto simp: db' foreign_def intro!: map_update_evolves map_update_foreign\<close>)
  have ids: "map row_id (db_assertions db') = map row_id (db_assertions db)"
    using map_update_ids [of p f "db_assertions db"] p(1) by (simp add: db')
  then have idset: "assertion_ids db' = assertion_ids db"
    unfolding assertion_ids_def by (metis set_map)
  have "db_core db'" if "db_core db"
    unfolding db_core_def idset ids
  proof (intro conjI ballI)
    fix r' assume "r' \<in> set (db_assertions db')"
    then obtain r where r: "r \<in> set (db_assertions db)" "r' = (if p r then f r else r)"
      by (auto simp: db')
    then have "assertion_check r' \<and> assertion_refs db r'"
      using ok [of r] that by (auto simp: db_core_def)
    then show "assertion_check r'" "assertion_refs db' r'" using assertion_refs_mono [OF step] by auto
  qed (use that in \<open>auto simp: db_core_def db'\<close>)
  with step idset show ?thesis by simp
qed

lemma update_supersede_step:
  assumes "update_supersede tenant db ts new_id old_id = Inr (db', n)"
  shows "tenant_step tenant db db' \<and> (db_core db \<longrightarrow> db_core db') \<and> assertion_ids db' = assertion_ids db"
proof -
  let ?hit = "filter (live_row tenant old_id) (db_assertions db)"
  have g: "\<forall>r \<in> set ?hit. assertion_check (retire ts new_id r) \<and> new_id \<in> assertion_ids db"
    and db': "db' = db\<lparr>db_assertions := map (\<lambda>r. if live_row tenant old_id r then retire ts new_id r else r)
                      (db_assertions db)\<rparr>"
    using assms by (auto simp: update_supersede_def Let_def guardE_Inr_iff assertion_ids_def)
  show ?thesis
    by (rule update_rows_step [OF _ _ db'])
      (use g in \<open>auto simp: live_row_def row_evolves_retire assertion_refs_def assertion_ids_def
        intro: row_evolves_retire\<close>, simp_all add: retire_def)
qed

lemma audit_append_rows:
  assumes "audit_append db tenant trace kind payload ts = Inr (db', e)"
  obtains r where "at_rows db' = at_rows db @ [r]" and "ar_tenant r = tenant" and "ar_kind r = kind"
    and "ar_payload r = payload" and "ar_trace r = trace"
  using assms unfolding audit_append_def next_link_def mk_audit_event_def insert_audit_def Let_def
  by (auto elim!: bindE_InrE split: if_splits option.splits prod.splits)

lemma db_append_step:
  assumes "db_append db tenant trace kind payload ts = Inr db'"
  shows "tenant_step tenant db db' \<and> (db_core db \<longrightarrow> db_core db') \<and> db_assertions db' = db_assertions db
    \<and> db_provenance db' = db_provenance db \<and> db_outbox db' = db_outbox db"
proof -
  obtain t e where a: "audit_append (db_audit db) tenant trace kind payload ts = Inr (t, e)"
    and db': "db' = db\<lparr>db_audit := t\<rparr>"
    using assms by (auto simp: db_append_def bindE_Inr_iff guardE_Inr_iff)
  obtain r where r: "at_rows t = at_rows (db_audit db) @ [r]" "ar_tenant r = tenant"
    by (rule audit_append_rows [OF a])
  have step: "tenant_step tenant db db'"
    by (rule tenant_stepI [of _ _ "[]" "[]" "db_assertions db" "[]" _ "[r]"])
      (simp_all add: db' r foreign_def)
  have "db_core db'" if "db_core db"
    using that assertion_refs_mono [OF step] by (auto simp: db_core_def db' assertion_ids_def)
  with step show ?thesis by (simp add: db')
qed

end
