(* ===== verification/Applier.thy ===== *)
theory Applier
  imports StoreLaws
begin

text \<open>
  \<open>memory/applier.py\<close>: a governed candidate's decision recorded and, when it is a write, applied:
  the assertion with its citation and outbox row, the audit events and the retirement of the
  incumbent, in one transaction per candidate.
\<close>

section \<open>The operations\<close>

record governed =
  gv_candidate :: candidate
  gv_subject :: string
  gv_record :: decision_record
  gv_incumbent :: "stored_assertion option"

record applied =
  ap_candidate :: string
  ap_assertion :: "string option"
  ap_reason :: "string option"

definition WRITES :: "decision list" where
  "WRITES = [AUTO_WRITE]"

definition MERGE :: hint where
  "MERGE = Merge"

definition refusal :: "governed \<Rightarrow> string option" where
  "refusal g =
     (if dr_decision (gv_record g) \<notin> set WRITES
      then Some (''decision_'' @ decision_value (dr_decision (gv_record g)))
      else if cr_hint (dr_conflict (gv_record g)) = MERGE then Some ''merge_not_implemented''
      else None)"

definition assertion_id :: "governed \<Rightarrow> string" where
  "assertion_id g =
     uuid5 (''guardmem/assertion/'' @ c_trace (gv_candidate g) @ ''/'' @ c_id (gv_candidate g))"

definition fresh_assertion :: "governed \<Rightarrow> int \<Rightarrow> stored_assertion" where
  "fresh_assertion g recorded_at =
     (let c = gv_candidate g in
      \<lparr>a_id = assertion_id g, a_tenant = c_tenant c, a_namespace = c_namespace c,
       a_subject = gv_subject g, a_predicate = c_predicate c, a_object = c_object c,
       a_confidence = cf_confidence (dr_confidence (gv_record g)), a_risk = rv_risk (dr_risk (gv_record g)),
       a_valid_from = (case c_valid_from c of Some t \<Rightarrow> t | None \<Rightarrow> pv_captured_at (c_provenance c)),
       a_valid_to = None, a_recorded_at = recorded_at, a_retracted_at = None, a_superseded_by = None,
       a_provenance = [c_provenance c], a_corroboration = 1, a_trace = c_trace c, a_visible = False\<rparr>)"

definition fresh :: "governed \<Rightarrow> int \<Rightarrow> exn + stored_assertion" where
  "fresh g recorded_at = mk_assertion (fresh_assertion g recorded_at)"

text \<open>What one call reads besides its arguments: the pool, the clock (twice) and \<open>now()\<close>.\<close>

record call_env =
  ce_free :: bool
  ce_recorded_at :: int
  ce_at :: int
  ce_now :: int

definition write_payload :: "stored_assertion \<Rightarrow> (string \<times> json) list" where
  "write_payload a = [(''assertion_id'', JStr (a_id a)), (''predicate'', JStr (a_predicate a))]"

definition supersede_payload :: "string \<Rightarrow> string \<Rightarrow> (string \<times> json) list" where
  "supersede_payload old_id new_id = [(''retired'', JStr old_id), (''by'', JStr new_id)]"

definition retires :: "governed \<Rightarrow> string option" where
  \<comment> \<open>the incumbent to retire: the hint is \<open>supersede\<close> and there is one\<close>
  "retires g =
     (if cr_hint (dr_conflict (gv_record g)) = Supersede then cr_incumbent (dr_conflict (gv_record g))
      else None)"

definition apply_in ::
    "governed \<Rightarrow> (stored_assertion \<times> prepared_write) option \<Rightarrow> string \<Rightarrow> string \<Rightarrow> call_env \<Rightarrow> db
     \<Rightarrow> exn + applied \<times> db" where
  \<comment> \<open>the body of the transaction\<close>
  "apply_in g prepared tenant trace env db =
     bindE (db_append db tenant trace ''DECISION'' (decision_dump (gv_record g)) (ce_at env)) (\<lambda>db1.
     case prepared of
       None \<Rightarrow> Inr (\<lparr>ap_candidate = c_id (gv_candidate g), ap_assertion = None, ap_reason = refusal g\<rparr>, db1)
     | Some (a, w) \<Rightarrow>
         bindE (write_in tenant (ce_now env) db1 w) (\<lambda>db2.
         bindE (db_append db2 tenant trace ''WRITE'' (write_payload a) (ce_at env)) (\<lambda>db3.
         bindE (case retires g of
                  None \<Rightarrow> Inr db3
                | Some old_id \<Rightarrow>
                    bindE (supersede_in tenant db3 old_id (a_id a) (ce_at env)) (\<lambda>db4.
                      db_append db4 tenant trace ''SUPERSEDE'' (supersede_payload old_id (a_id a)) (ce_at env)))
           (\<lambda>db5. Inr (\<lparr>ap_candidate = c_id (gv_candidate g), ap_assertion = Some (a_id a),
                        ap_reason = None\<rparr>, db5)))))"

definition prepare_fresh ::
    "pg_store \<Rightarrow> governed \<Rightarrow> int \<Rightarrow> exn + (stored_assertion \<times> prepared_write) option" where
  \<comment> \<open>outside the transaction: the assertion, its validation and its embedding\<close>
  "prepare_fresh st g recorded_at =
     (if refusal g \<noteq> None then Inr None
      else bindE (fresh g recorded_at) (\<lambda>a.
             bindE (prepare st [a]) (\<lambda>w. Inr (map_option (Pair a) w))))"

definition apply_governed ::
    "pg_store \<Rightarrow> string \<Rightarrow> string \<Rightarrow> governed \<Rightarrow> call_env \<Rightarrow> db \<Rightarrow> (exn + applied) \<times> db" where
  "apply_governed st tenant trace g env db =
     (case prepare_fresh st g (ce_recorded_at env) of
        Inl e \<Rightarrow> (Inl e, db)
      | Inr prepared \<Rightarrow> transaction (ce_free env) (apply_in g prepared tenant trace env) db)"

fun dict_put :: "'k \<Rightarrow> 'v \<Rightarrow> ('k \<times> 'v) list \<Rightarrow> ('k \<times> 'v) list" where
  \<comment> \<open>\<open>d[k] = v\<close>: a new key goes last, an old one keeps its place\<close>
  "dict_put k v [] = [(k, v)]"
| "dict_put k v ((k', w) # d) = (if k' = k then (k, v) # d else (k', w) # dict_put k v d)"

record apply_result =
  ares_applied :: "(string \<times> applied) list"
  ares_failures :: "(string \<times> exn) list"

fun apply_loop ::
    "pg_store \<Rightarrow> string \<Rightarrow> string \<Rightarrow> (governed \<times> call_env) list \<Rightarrow> apply_result \<Rightarrow> db
     \<Rightarrow> apply_result \<times> db" where
  "apply_loop st tenant trace [] res db = (res, db)"
| "apply_loop st tenant trace ((g, env) # rest) res db =
     (case apply_governed st tenant trace g env db of
        (Inl e, db') \<Rightarrow>
          apply_loop st tenant trace rest
            (res\<lparr>ares_failures := ares_failures res @ [(c_id (gv_candidate g), e)]\<rparr>) db'
      | (Inr outcome, db') \<Rightarrow>
          apply_loop st tenant trace rest
            (res\<lparr>ares_applied := dict_put (ap_candidate outcome) outcome (ares_applied res)\<rparr>) db')"

definition apply_all ::
    "pg_store \<Rightarrow> string \<Rightarrow> string \<Rightarrow> (governed \<times> call_env) list \<Rightarrow> db \<Rightarrow> apply_result \<times> db" where
  "apply_all st tenant trace governed db =
     apply_loop st tenant trace governed \<lparr>ares_applied = [], ares_failures = []\<rparr> db"

section \<open>Transactions keep the tables sound\<close>

definition sound :: "db \<Rightarrow> bool" where
  "sound db \<longleftrightarrow> db_core db \<and> sourced db"

lemma step_trans:
  assumes "tenant_step t db db1 \<and> (db_core db \<longrightarrow> db_core db1)"
    and "tenant_step t db1 db2 \<and> (db_core db1 \<longrightarrow> db_core db2)"
  shows "tenant_step t db db2 \<and> (db_core db \<longrightarrow> db_core db2)"
  using assms tenant_step_trans by blast

lemma foldE_step:
  assumes "foldE f db xs = Inr db'"
    and "\<And>db x db'. f db x = Inr db' \<Longrightarrow> tenant_step t db db' \<and> (db_core db \<longrightarrow> db_core db')"
  shows "tenant_step t db db' \<and> (db_core db \<longrightarrow> db_core db')"
proof (rule foldE_invariant [OF assms(1), of "\<lambda>d. tenant_step t db d \<and> (db_core db \<longrightarrow> db_core d)"])
  fix s x s'
  assume "f s x = Inr s'" and i: "tenant_step t db s \<and> (db_core db \<longrightarrow> db_core s)"
  then show "tenant_step t db s' \<and> (db_core db \<longrightarrow> db_core s')"
    using step_trans [OF i assms(2)] by blast
qed simp

lemma write_in_step:
  assumes "write_in t now db w = Inr db'"
  shows "tenant_step t db db' \<and> (db_core db \<longrightarrow> db_core db')"
proof -
  obtain db1 db2 where f: "foldE (insert_assertion t) db (pw_assertions w) = Inr db1"
    "foldE (insert_provenance t) db1 (pw_citations w) = Inr db2"
    "foldE (insert_outbox now) db2 (pw_events w) = Inr db'"
    using assms unfolding write_in_def by (elim bindE_InrE)
  show ?thesis
    by (rule step_trans [OF foldE_step [OF f(1)] step_trans [OF foldE_step [OF f(2)] foldE_step [OF f(3)]]])
      (rule insert_assertion_step insert_provenance_step insert_outbox_step; assumption)+
qed

lemma supersede_in_Inr:
  assumes "supersede_in t db old_id new_id ts = Inr db'"
  obtains n where "update_supersede t db ts new_id old_id = Inr (db', n)" and "n \<noteq> 0"
  using assms by (auto simp: supersede_in_def guardE_Inr_iff elim!: bindE_InrE)

lemma supersede_in_step:
  assumes "supersede_in t db old_id new_id ts = Inr db'"
  shows "tenant_step t db db' \<and> (db_core db \<longrightarrow> db_core db')"
  using assms update_supersede_step by (auto elim!: supersede_in_Inr)

lemma sourced_after:
  assumes "tenant_step t db db'" and "commit_check db db'" and "sourced db"
  shows "sourced db'"
proof -
  obtain ps where ps: "db_provenance db' = db_provenance db @ ps"
    using assms(1) by (auto simp: tenant_step_def)
  have "assert_provenance_exists db' r" if r: "r \<in> set (db_assertions db')" for r
  proof (cases "row_id r \<in> assertion_ids db")
    case True
    then obtain q where "q \<in> set (db_assertions db)" "row_id q = row_id r"
      by (auto simp: assertion_ids_def)
    with assms(3) have "\<exists>p \<in> set (db_provenance db). pr_assertion p = row_id r"
      by (metis sourced_def assert_provenance_exists_def)
    with ps show ?thesis by (auto simp: assert_provenance_exists_def)
  next
    case False
    with assms(2) r show ?thesis by (auto simp: commit_check_def assertion_ids_def)
  qed
  then show ?thesis by (simp add: sourced_def)
qed

lemma transaction_step:
  assumes "\<And>x db'. body db = Inr (x, db') \<Longrightarrow> tenant_step t db db' \<and> (db_core db \<longrightarrow> db_core db')"
  shows "tenant_step t db (snd (transaction free body db))
    \<and> (sound db \<longrightarrow> sound (snd (transaction free body db)))"
proof (cases "body db")
  case (Inr y)
  obtain x db' where y: "y = (x, db')" by (cases y)
  with Inr assms have "tenant_step t db db' \<and> (db_core db \<longrightarrow> db_core db')" by blast
  with Inr y show ?thesis
    by (auto simp: transaction_def sound_def dest: sourced_after)
qed (simp add: transaction_def)

lemma transaction_Inl: "fst (transaction free body db) = Inl e \<Longrightarrow> snd (transaction free body db) = db"
  by (auto simp: transaction_def split: if_splits sum.splits prod.splits)

lemma transaction_Inr:
  assumes "transaction free body db = (Inr x, db')"
  shows "free \<and> body db = Inr (x, db') \<and> commit_check db db'"
  using assms by (auto simp: transaction_def split: if_splits sum.splits prod.splits)

section \<open>One apply, step by step\<close>

lemma insert_provenance_frame:
  "insert_provenance t db row = Inr db' \<Longrightarrow> \<exists>ps. db' = db\<lparr>db_provenance := db_provenance db @ ps\<rparr>
     \<and> ps \<in> {[], [row\<lparr>pr_citation := (pr_citation row)\<lparr>pv_alignment := fl32 (pv_alignment (pr_citation row))\<rparr>\<rparr>]}"
  by (auto simp: insert_provenance_def Let_def guardE_Inr_iff split: if_splits intro: exI [of _ "[]"])

lemma insert_outbox_frame:
  "insert_outbox now db params = Inr db' \<Longrightarrow> \<exists>os. db' = db\<lparr>db_outbox := db_outbox db @ os\<rparr>"
  by (cases params) (auto simp: insert_outbox_def guardE_Inr_iff split: if_splits intro: exI [of _ "[]"])

definition stored_row :: "stored_assertion \<Rightarrow> string \<Rightarrow> real list \<Rightarrow> assertion_row" where
  \<comment> \<open>the row as the column types keep it\<close>
  "stored_row a tenant v =
     (assertion_params a tenant v)\<lparr>row_confidence := fl32 (a_confidence a), row_risk := fl32 (a_risk a),
        row_embedding := map fl32 v\<rparr>"

definition stored_citation :: "provenance \<Rightarrow> provenance" where
  "stored_citation p = p\<lparr>pv_alignment := fl32 (pv_alignment p)\<rparr>"

lemma prepare_one:
  assumes "prepare st [a] = Inr w'"
  obtains v where "w' = Some \<lparr>pw_assertions = [assertion_params a (st_tenant st) v],
      pw_citations = provenance_params a, pw_events = [outbox_params a (st_tenant st)]\<rparr>"
    and "length v = EMBEDDING_DIM"
proof -
  obtain vs where vs: "embed_batch (st_embed st) [a] = Inr vs"
    and w: "w' = Some \<lparr>pw_assertions = map (\<lambda>(a, v). assertion_params a (st_tenant st) v) (zip [a] vs),
                   pw_citations = concat (map provenance_params [a]),
                   pw_events = map (\<lambda>a. outbox_params a (st_tenant st)) [a]\<rparr>"
    using assms by (auto simp: prepare_def elim!: bindE_InrE)
  from embed_batch_Inr [OF vs] obtain v where "vs = [v]" "length v = EMBEDDING_DIM"
    by (cases vs) auto
  with w that show thesis by simp
qed

lemma write_one:
  assumes "write_in t now db \<lparr>pw_assertions = [assertion_params a t' v],
      pw_citations = [\<lparr>pr_id = i, pr_assertion = a_id a, pr_citation = p\<rparr>], pw_events = [ev]\<rparr> = Inr db'"
  obtains us ps os where "db' = db\<lparr>db_assertions := db_assertions db @ us,
      db_provenance := db_provenance db @ ps, db_outbox := db_outbox db @ os\<rparr>"
    and "us = (if a_id a \<in> assertion_ids db then [] else [stored_row a t' v])" and "t' = t"
    and "ps \<in> {[], [\<lparr>pr_id = i, pr_assertion = a_id a, pr_citation = stored_citation p\<rparr>]}"
    and "citation_check (stored_citation p)"
proof -
  let ?row = "assertion_params a t' v"
  let ?pr = "\<lparr>pr_id = i, pr_assertion = a_id a, pr_citation = p\<rparr>"
  obtain db1 db2 where f: "insert_assertion t db ?row = Inr db1" "insert_provenance t db1 ?pr = Inr db2"
    "insert_outbox now db2 ev = Inr db'"
    using assms unfolding write_in_def by (auto elim!: bindE_InrE)
  have t: "t' = t"
    using f(1) by (simp add: insert_assertion_def Let_def guardE_Inr_iff assertion_params_def)
  have c: "citation_check (stored_citation p)"
    using f(2) by (simp add: insert_provenance_def Let_def guardE_Inr_iff stored_citation_def)
  obtain us where us: "db1 = db\<lparr>db_assertions := db_assertions db @ us\<rparr>"
    "us = (if a_id a \<in> assertion_ids db then [] else [stored_row a t' v])"
    using f(1) by (cases rule: insert_assertion_Inr) (auto simp: assertion_params_def stored_row_def)
  obtain ps where ps: "db2 = db1\<lparr>db_provenance := db_provenance db1 @ ps\<rparr>"
    "ps \<in> {[], [\<lparr>pr_id = i, pr_assertion = a_id a, pr_citation = stored_citation p\<rparr>]}"
    using insert_provenance_frame [OF f(2)] by (auto simp: stored_citation_def)
  obtain os where os: "db' = db2\<lparr>db_outbox := db_outbox db2 @ os\<rparr>"
    using insert_outbox_frame [OF f(3)] by blast
  show thesis by (rule that [of os ps us]) (use t c us ps os in simp_all)
qed

definition new_audit :: "db \<Rightarrow> db \<Rightarrow> (string \<times> (string \<times> json) list) list" where
  \<comment> \<open>kind and payload of the audit rows the second state has over the first\<close>
  "new_audit db db' =
     map (\<lambda>r. (ar_kind r, ar_payload r)) (drop (length (at_rows (db_audit db))) (at_rows (db_audit db')))"

lemma db_append_Inr:
  assumes "db_append db t trace kind payload ts = Inr db'"
  obtains a r where "db' = db\<lparr>db_audit := a\<rparr>" and "at_rows a = at_rows (db_audit db) @ [r]"
    and "ar_kind r = kind" and "ar_payload r = payload" and "ar_tenant r = t"
proof -
  obtain a e where a: "audit_append (db_audit db) t trace kind payload ts = Inr (a, e)"
    and "db' = db\<lparr>db_audit := a\<rparr>"
    using assms by (auto simp: db_append_def bindE_Inr_iff guardE_Inr_iff)
  moreover obtain r where "at_rows a = at_rows (db_audit db) @ [r]" "ar_kind r = kind"
    "ar_payload r = payload" "ar_tenant r = t"
    by (rule audit_append_rows [OF a])
  ultimately show thesis by (rule_tac that)
qed

lemma apply_in_step:
  assumes "apply_in g prepared t trace env db = Inr (ap, db')"
  shows "tenant_step t db db' \<and> (db_core db \<longrightarrow> db_core db')"
proof -
  obtain db1 where d: "db_append db t trace ''DECISION'' (decision_dump (gv_record g)) (ce_at env) = Inr db1"
    and rest: "(case prepared of
       None \<Rightarrow> Inr (\<lparr>ap_candidate = c_id (gv_candidate g), ap_assertion = None, ap_reason = refusal g\<rparr>, db1)
     | Some (a, w) \<Rightarrow>
         bindE (write_in t (ce_now env) db1 w) (\<lambda>db2.
         bindE (db_append db2 t trace ''WRITE'' (write_payload a) (ce_at env)) (\<lambda>db3.
         bindE (case retires g of
                  None \<Rightarrow> Inr db3
                | Some old_id \<Rightarrow>
                    bindE (supersede_in t db3 old_id (a_id a) (ce_at env)) (\<lambda>db4.
                      db_append db4 t trace ''SUPERSEDE'' (supersede_payload old_id (a_id a)) (ce_at env)))
           (\<lambda>db5. Inr (\<lparr>ap_candidate = c_id (gv_candidate g), ap_assertion = Some (a_id a),
                        ap_reason = None\<rparr>, db5))))) = Inr (ap, db')"
    using assms unfolding apply_in_def by (rule bindE_InrE)
  note d' = db_append_step [OF d]
  show ?thesis
  proof (cases prepared)
    case None
    with rest d' show ?thesis by simp
  next
    case (Some aw)
    obtain a w where aw: "aw = (a, w)" by (cases aw)
    obtain db2 db3 where w: "write_in t (ce_now env) db1 w = Inr db2"
      and e: "db_append db2 t trace ''WRITE'' (write_payload a) (ce_at env) = Inr db3"
      and r: "(case retires g of None \<Rightarrow> Inr db3
                | Some old_id \<Rightarrow>
                    bindE (supersede_in t db3 old_id (a_id a) (ce_at env)) (\<lambda>db4.
                      db_append db4 t trace ''SUPERSEDE'' (supersede_payload old_id (a_id a)) (ce_at env)))
              = Inr db'"
      using rest by (auto simp: Some aw elim!: bindE_InrE)
    have s3: "tenant_step t db db3 \<and> (db_core db \<longrightarrow> db_core db3)"
      using step_trans [OF step_trans [OF _ write_in_step [OF w]], of db] d' db_append_step [OF e] by blast
    show ?thesis
    proof (cases "retires g")
      case None
      with r s3 show ?thesis by simp
    next
      case (Some old_id)
      then obtain db4 where s: "supersede_in t db3 old_id (a_id a) (ce_at env) = Inr db4"
        and e': "db_append db4 t trace ''SUPERSEDE'' (supersede_payload old_id (a_id a)) (ce_at env) = Inr db'"
        using r by (auto elim!: bindE_InrE)
      show ?thesis
        using step_trans [OF s3 step_trans [OF supersede_in_step [OF s]]] db_append_step [OF e'] by blast
    qed
  qed
qed

section \<open>Beliefs\<close>

text \<open>
  The abstract view of the table: what each assertion id stands for, and whether it still
  holds. \<open>believe\<close> is the specification of an applied write on this view.
\<close>

record belief =
  bl_tenant :: string
  bl_subject :: string
  bl_predicate :: string
  bl_object :: object_value
  bl_from :: int
  bl_until :: "int option"
  bl_by :: "string option"

type_synonym beliefs = "string \<Rightarrow> belief option"

definition belief_of :: "assertion_row \<Rightarrow> belief" where
  "belief_of r = \<lparr>bl_tenant = row_tenant r, bl_subject = row_subject r, bl_predicate = row_predicate r,
     bl_object = row_object r, bl_from = row_valid_from r, bl_until = row_valid_to r,
     bl_by = row_superseded_by r\<rparr>"

definition beliefs :: "db \<Rightarrow> beliefs" where
  "beliefs db = map_of (map (\<lambda>r. (row_id r, belief_of r)) (db_assertions db))"

definition learn :: "string \<Rightarrow> belief \<Rightarrow> beliefs \<Rightarrow> beliefs" where
  "learn i b m = (if m i = None then m(i \<mapsto> b) else m)"

definition give_up :: "string \<Rightarrow> string \<Rightarrow> int \<Rightarrow> string \<Rightarrow> beliefs \<Rightarrow> beliefs option" where
  \<comment> \<open>only a belief of the tenant that still holds can be given up, and not for itself\<close>
  "give_up tenant old_id ts new_id m =
     (case m old_id of
        Some b \<Rightarrow> if bl_until b = None \<and> bl_tenant b = tenant \<and> old_id \<noteq> new_id
                   then Some (m(old_id \<mapsto> b\<lparr>bl_until := Some ts, bl_by := Some new_id\<rparr>)) else None
      | None \<Rightarrow> None)"

definition believe :: "governed \<Rightarrow> string \<Rightarrow> int \<Rightarrow> beliefs \<Rightarrow> beliefs option" where
  "believe g tenant ts m =
     (let a = fresh_assertion g ts;
          m' = learn (a_id a) \<lparr>bl_tenant = tenant, bl_subject = a_subject a, bl_predicate = a_predicate a,
                 bl_object = a_object a, bl_from = a_valid_from a, bl_until = None, bl_by = None\<rparr> m
      in case retires g of None \<Rightarrow> Some m' | Some old_id \<Rightarrow> give_up tenant old_id ts (a_id a) m')"

lemma beliefs_None_iff: "beliefs db i = None \<longleftrightarrow> i \<notin> assertion_ids db"
  by (auto simp: beliefs_def map_of_eq_None_iff assertion_ids_def image_image)

lemma beliefs_cong: "db_assertions db = db_assertions db' \<Longrightarrow> beliefs db = beliefs db'"
  by (simp add: beliefs_def)

lemma beliefs_row:
  assumes "db_core db" and "r \<in> set (db_assertions db)"
  shows "beliefs db (row_id r) = Some (belief_of r)"
proof -
  have "distinct (map fst (map (\<lambda>r. (row_id r, belief_of r)) (db_assertions db)))"
    using assms(1) by (simp add: db_core_def comp_def)
  with assms(2) show ?thesis unfolding beliefs_def by (intro map_of_is_SomeI) auto
qed

lemma beliefs_insert:
  assumes "row_id r \<notin> assertion_ids db"
  shows "beliefs (db\<lparr>db_assertions := db_assertions db @ [r]\<rparr>) = (beliefs db)(row_id r \<mapsto> belief_of r)"
proof -
  have "map_of (map (\<lambda>r. (row_id r, belief_of r)) (db_assertions db)) (row_id r) = None"
    using assms beliefs_None_iff [of db] by (simp add: beliefs_def)
  then show ?thesis by (auto simp: beliefs_def map_add_def split: option.split)
qed

lemma map_of_update_other:
  assumes "\<And>r. p r \<Longrightarrow> row_id r = old_id" and "\<And>r. p r \<Longrightarrow> row_id (f r) = old_id" and "i \<noteq> old_id"
  shows "map_of (map (\<lambda>r. (row_id r, belief_of r)) (map (\<lambda>r. if p r then f r else r) rs)) i =
    map_of (map (\<lambda>r. (row_id r, belief_of r)) rs) i"
  using assms by (induction rs) auto

lemma supersede_beliefs:
  assumes "supersede_in t db old_id new_id ts = Inr db'" and core: "db_core db"
  shows "give_up t old_id ts new_id (beliefs db) = Some (beliefs db')"
proof -
  obtain n where u: "update_supersede t db ts new_id old_id = Inr (db', n)" and "n \<noteq> 0"
    by (rule supersede_in_Inr [OF assms(1)])
  let ?p = "live_row t old_id"
  let ?f = "retire ts new_id"
  have db': "db' = db\<lparr>db_assertions := map (\<lambda>r. if ?p r then ?f r else r) (db_assertions db)\<rparr>"
    and n: "n = length (filter ?p (db_assertions db))"
    and ok: "\<forall>r \<in> set (filter ?p (db_assertions db)). assertion_check (?f r)"
    using u by (auto simp: update_supersede_def Let_def guardE_Inr_iff)
  have rows: "db_assertions db' = map (\<lambda>r. if ?p r then ?f r else r) (db_assertions db)"
    by (simp add: db')
  from n \<open>n \<noteq> 0\<close> obtain r where "r \<in> set (filter ?p (db_assertions db))"
    by (cases "filter ?p (db_assertions db)") auto
  then have r: "r \<in> set (db_assertions db)" "?p r" by auto
  then have id: "row_id r = old_id" and live: "row_valid_to r = None" "row_tenant r = t"
    by (auto simp: live_row_def)
  have b: "beliefs db old_id = Some (belief_of r)" using beliefs_row [OF core r(1)] id by simp
  have core': "db_core db'" using update_supersede_step [OF u] core by blast
  have "?f r \<in> set (db_assertions db')" using r by (auto simp: db' image_iff intro: bexI [of _ r])
  from beliefs_row [OF core' this] id
  have b': "beliefs db' old_id = Some (belief_of (?f r))" by (simp add: retire_def)
  have ne: "old_id \<noteq> new_id" using ok r id by (auto simp: assertion_check_def retire_def)
  have "beliefs db' = (beliefs db)(old_id \<mapsto> belief_of (?f r))"
  proof
    fix i
    show "beliefs db' i = ((beliefs db)(old_id \<mapsto> belief_of (?f r))) i"
    proof (cases "i = old_id")
      case False
      have "beliefs db' i = beliefs db i"
        unfolding beliefs_def rows using False
        by (intro map_of_update_other) (auto simp: live_row_def retire_def)
      with False show ?thesis by simp
    qed (simp add: b')
  qed
  with b ne live show ?thesis by (simp add: give_up_def belief_of_def retire_def)
qed

section \<open>What an apply does\<close>

lemma new_audit_refl [simp]: "new_audit db db = []"
  by (simp add: new_audit_def)

lemma new_audit_trans:
  "at_rows (db_audit db2) = at_rows (db_audit db1) @ xs \<Longrightarrow> at_rows (db_audit db3) = at_rows (db_audit db2) @ ys
   \<Longrightarrow> new_audit db1 db3 = new_audit db1 db2 @ new_audit db2 db3"
  by (simp add: new_audit_def)

lemma prepare_fresh_refused: "refusal g \<noteq> None \<Longrightarrow> prepare_fresh st g ts = Inr None"
  by (simp add: prepare_fresh_def)

lemma fresh_Inr: "fresh g ts = Inr a \<Longrightarrow> a = fresh_assertion g ts \<and> assertion_ok a"
  by (auto simp: fresh_def mk_assertion_def split: if_splits)

lemma prepare_fresh_write:
  assumes "prepare_fresh st g ts = Inr prepared" and "refusal g = None"
  obtains v where "prepared = Some (fresh_assertion g ts,
      \<lparr>pw_assertions = [assertion_params (fresh_assertion g ts) (st_tenant st) v],
       pw_citations = provenance_params (fresh_assertion g ts),
       pw_events = [outbox_params (fresh_assertion g ts) (st_tenant st)]\<rparr>)"
    and "length v = EMBEDDING_DIM" and "assertion_ok (fresh_assertion g ts)"
proof -
  let ?a = "fresh_assertion g ts"
  obtain a w where fa: "fresh g ts = Inr a" and w: "prepare st [a] = Inr w"
    and p: "prepared = map_option (Pair a) w"
    using assms by (auto simp: prepare_fresh_def elim!: bindE_InrE)
  from fresh_Inr [OF fa] have a: "a = ?a" and ok: "assertion_ok ?a" by auto
  obtain v where "w = Some \<lparr>pw_assertions = [assertion_params a (st_tenant st) v],
      pw_citations = provenance_params a, pw_events = [outbox_params a (st_tenant st)]\<rparr>"
    and "length v = EMBEDDING_DIM"
    by (rule prepare_one [OF w])
  with a p ok that show thesis by simp
qed

lemma provenance_params_fresh:
  "provenance_params (fresh_assertion g ts) =
     [\<lparr>pr_id = citation_id (assertion_id g) (c_provenance (gv_candidate g)), pr_assertion = assertion_id g,
       pr_citation = c_provenance (gv_candidate g)\<rparr>]"
  by (simp add: provenance_params_def fresh_assertion_def Let_def)

definition write_events :: "governed \<Rightarrow> (string \<times> (string \<times> json) list) list" where
  \<comment> \<open>the audit events of an applied write after its decision\<close>
  "write_events g =
     (''WRITE'', [(''assertion_id'', JStr (assertion_id g)), (''predicate'', JStr (c_predicate (gv_candidate g)))])
     # (case retires g of None \<Rightarrow> []
        | Some old_id \<Rightarrow> [(''SUPERSEDE'', supersede_payload old_id (assertion_id g))])"

lemma write_payload_fresh:
  "write_payload (fresh_assertion g ts) =
     [(''assertion_id'', JStr (assertion_id g)), (''predicate'', JStr (c_predicate (gv_candidate g)))]"
  by (simp add: write_payload_def fresh_assertion_def Let_def)

lemma believe_alt:
  "believe g t ts m =
    (let m' = learn (assertion_id g) (belief_of (stored_row (fresh_assertion g ts') t v)) m
     in case retires g of None \<Rightarrow> Some m' | Some old_id \<Rightarrow> give_up t old_id ts (assertion_id g) m')"
  by (simp add: believe_def Let_def belief_of_def stored_row_def assertion_params_def fresh_assertion_def
      split: option.split)

lemma believe_insert:
  assumes "us = (if assertion_id g \<in> assertion_ids db then [] else [stored_row (fresh_assertion g ts') t v])"
    and "db_assertions db' = db_assertions db @ us"
  shows "beliefs db' = learn (assertion_id g) (belief_of (stored_row (fresh_assertion g ts') t v)) (beliefs db)"
proof (cases "assertion_id g \<in> assertion_ids db")
  case True
  then have "beliefs db (assertion_id g) \<noteq> None" by (simp add: beliefs_None_iff)
  moreover have "beliefs db' = beliefs db" by (rule beliefs_cong) (simp add: assms True)
  ultimately show ?thesis by (auto simp: learn_def)
next
  case False
  have id: "row_id (stored_row (fresh_assertion g ts') t v) = assertion_id g"
    by (simp add: stored_row_def assertion_params_def fresh_assertion_def Let_def)
  have "beliefs db' = beliefs (db\<lparr>db_assertions := db_assertions db @ us\<rparr>)"
    by (rule beliefs_cong) (simp add: assms(2))
  also have "\<dots> = (beliefs db)(assertion_id g \<mapsto> belief_of (stored_row (fresh_assertion g ts') t v))"
    using beliefs_insert [of "stored_row (fresh_assertion g ts') t v" db] False assms(1) id by simp
  finally show ?thesis using False beliefs_None_iff [of db] by (simp add: learn_def)
qed

lemma apply_in_write:
  assumes run: "apply_in g (Some (fresh_assertion g ts,
      \<lparr>pw_assertions = [assertion_params (fresh_assertion g ts) t' v],
       pw_citations = provenance_params (fresh_assertion g ts), pw_events = [ev]\<rparr>)) t trace env db = Inr (ap, db')"
    and core: "db_core db"
  obtains us ps where "t' = t" and "ap = \<lparr>ap_candidate = c_id (gv_candidate g), ap_assertion = Some (assertion_id g), ap_reason = None\<rparr>"
    and "new_audit db db' = (''DECISION'', decision_dump (gv_record g)) # write_events g"
    and "believe g t (ce_at env) (beliefs db) = Some (beliefs db')"
    and "us = (if assertion_id g \<in> assertion_ids db then [] else [stored_row (fresh_assertion g ts) t v])"
    and "assertion_ids db' = assertion_ids db \<union> {assertion_id g}"
    and "\<And>r. r \<in> set us \<Longrightarrow> \<exists>r' \<in> set (db_assertions db'). row_evolves r r' \<and> row_visible r' = row_visible r"
    and "retires g = None \<Longrightarrow> db_assertions db' = db_assertions db @ us"
    and "db_provenance db' = db_provenance db @ ps"
    and "ps \<in> {[], [\<lparr>pr_id = citation_id (assertion_id g) (c_provenance (gv_candidate g)),
           pr_assertion = assertion_id g, pr_citation = stored_citation (c_provenance (gv_candidate g))\<rparr>]}"
    and "citation_check (stored_citation (c_provenance (gv_candidate g)))"
proof -
  let ?a = "fresh_assertion g ts"
  have id: "a_id ?a = assertion_id g" by (simp add: fresh_assertion_def Let_def)
  obtain db1 db2 db3 where d: "db_append db t trace ''DECISION'' (decision_dump (gv_record g)) (ce_at env) = Inr db1"
    and w: "write_in t (ce_now env) db1 \<lparr>pw_assertions = [assertion_params ?a t' v],
       pw_citations = provenance_params ?a, pw_events = [ev]\<rparr> = Inr db2"
    and e: "db_append db2 t trace ''WRITE'' (write_payload ?a) (ce_at env) = Inr db3"
    and r: "(case retires g of None \<Rightarrow> Inr db3
                | Some old_id \<Rightarrow>
                    bindE (supersede_in t db3 old_id (a_id ?a) (ce_at env)) (\<lambda>db4.
                      db_append db4 t trace ''SUPERSEDE'' (supersede_payload old_id (a_id ?a)) (ce_at env)))
              = Inr db'"
    and ap: "ap = \<lparr>ap_candidate = c_id (gv_candidate g), ap_assertion = Some (a_id ?a), ap_reason = None\<rparr>"
    using run unfolding apply_in_def by (auto elim!: bindE_InrE)
  obtain r1 where d1: "db_assertions db1 = db_assertions db" "db_provenance db1 = db_provenance db"
    "at_rows (db_audit db1) = at_rows (db_audit db) @ [r1]" "ar_kind r1 = ''DECISION''"
    "ar_payload r1 = decision_dump (gv_record g)"
    by (rule db_append_Inr [OF d]) auto
  obtain us ps os where d2: "db2 = db1\<lparr>db_assertions := db_assertions db1 @ us,
      db_provenance := db_provenance db1 @ ps, db_outbox := db_outbox db1 @ os\<rparr>"
    and us: "us = (if a_id ?a \<in> assertion_ids db1 then [] else [stored_row ?a t' v])" and t: "t' = t"
    and ps: "ps \<in> {[], [\<lparr>pr_id = citation_id (assertion_id g) (c_provenance (gv_candidate g)),
       pr_assertion = a_id ?a, pr_citation = stored_citation (c_provenance (gv_candidate g))\<rparr>]}"
    and cc: "citation_check (stored_citation (c_provenance (gv_candidate g)))"
    by (rule write_one [of t "ce_now env" db1 ?a t' v "citation_id (assertion_id g) (c_provenance (gv_candidate g))"
        "c_provenance (gv_candidate g)" ev db2])
      (use w in \<open>simp_all add: provenance_params_fresh id\<close>)
  obtain r3 where d3: "db_assertions db3 = db_assertions db2" "db_provenance db3 = db_provenance db2"
    "at_rows (db_audit db3) = at_rows (db_audit db2) @ [r3]" "ar_kind r3 = ''WRITE''"
    "ar_payload r3 = write_payload ?a"
    by (rule db_append_Inr [OF e]) auto
  have us': "us = (if assertion_id g \<in> assertion_ids db then [] else [stored_row ?a t v])"
    using us t d1(1) id by (simp add: assertion_ids_def)
  have rows3: "db_assertions db3 = db_assertions db @ us" using d1(1) d2 d3(1) by simp
  have ids3: "assertion_ids db3 = assertion_ids db \<union> {assertion_id g}"
    using us' by (auto simp: assertion_ids_def rows3 stored_row_def assertion_params_def fresh_assertion_def Let_def)
  have bel3: "beliefs db3 = learn (assertion_id g) (belief_of (stored_row ?a t v)) (beliefs db)"
    by (rule believe_insert [OF us' rows3])
  have core3: "db_core db3"
    using core db_append_step [OF d] write_in_step [OF w] db_append_step [OF e] by blast
  have aud3: "at_rows (db_audit db3) = at_rows (db_audit db) @ [r1, r3]" using d1(3) d2 d3(3) by simp
  have prov3: "db_provenance db3 = db_provenance db @ ps" using d1(2) d2 d3(2) by simp
  show thesis
  proof (cases "retires g")
    case None
    with r have db': "db' = db3" by simp
    have ev: "\<exists>r' \<in> set (db_assertions db'). row_evolves r r' \<and> row_visible r' = row_visible r" if "r \<in> set us" for r
      using that by (intro bexI [of _ r]) (auto simp: db' rows3)
    show thesis
      by (rule that [OF t ap [unfolded id] _ _ us' _ ev])
        (use None ids3 bel3 aud3 prov3 rows3 ps cc id d1 d3 in
          \<open>auto simp: db' new_audit_def write_events_def believe_alt [of g t _ _ ts v] Let_def write_payload_fresh\<close>)
  next
    case (Some old_id)
    then obtain db4 where s: "supersede_in t db3 old_id (a_id ?a) (ce_at env) = Inr db4"
      and e': "db_append db4 t trace ''SUPERSEDE'' (supersede_payload old_id (a_id ?a)) (ce_at env) = Inr db'"
      using r by (auto elim!: bindE_InrE)
    obtain n where u: "update_supersede t db3 (ce_at env) (a_id ?a) old_id = Inr (db4, n)"
      by (rule supersede_in_Inr [OF s])
    obtain r5 where d5: "db_assertions db' = db_assertions db4" "db_provenance db' = db_provenance db4"
      "at_rows (db_audit db') = at_rows (db_audit db4) @ [r5]" "ar_kind r5 = ''SUPERSEDE''"
      "ar_payload r5 = supersede_payload old_id (a_id ?a)"
      by (rule db_append_Inr [OF e']) auto
    have d4: "db_assertions db4 = map (\<lambda>r. if live_row t old_id r then retire (ce_at env) (a_id ?a) r else r) (db_assertions db3)"
      "db_provenance db4 = db_provenance db3" "db_audit db4 = db_audit db3"
      using u by (auto simp: update_supersede_def Let_def guardE_Inr_iff)
    have ids: "assertion_ids db' = assertion_ids db \<union> {assertion_id g}"
      using update_supersede_step [OF u] d5(1) ids3 by (simp add: assertion_ids_def)
    have "give_up t old_id (ce_at env) (a_id ?a) (beliefs db3) = Some (beliefs db4)"
      by (rule supersede_beliefs [OF s core3])
    then have bel: "believe g t (ce_at env) (beliefs db) = Some (beliefs db')"
      using Some bel3 beliefs_cong [OF d5(1)] by (simp add: believe_alt [of g t _ _ ts v] Let_def id)
    have ev: "\<exists>r' \<in> set (db_assertions db'). row_evolves r r' \<and> row_visible r' = row_visible r" if "r \<in> set us" for r
    proof -
      let ?r' = "if live_row t old_id r then retire (ce_at env) (a_id ?a) r else r"
      have "?r' \<in> set (db_assertions db')" using that by (auto simp: d5(1) d4(1) rows3)
      moreover have "row_evolves r ?r' \<and> row_visible ?r' = row_visible r"
        using row_evolves_retire by (auto simp: live_row_def retire_def row_evolves_def)
      ultimately show ?thesis by blast
    qed
    show thesis
      by (rule that [OF t ap [unfolded id] _ bel us' ids ev])
        (use Some aud3 prov3 ps cc id d1 d3 d4 d5 in
          \<open>auto simp: new_audit_def write_events_def write_payload_fresh\<close>)
  qed
qed

lemma apply_governed_step:
  "tenant_step t db (snd (apply_governed st t trace g env db))
   \<and> (sound db \<longrightarrow> sound (snd (apply_governed st t trace g env db)))"
proof (cases "prepare_fresh st g (ce_recorded_at env)")
  case (Inr prepared)
  have "tenant_step t db (snd (transaction (ce_free env) (apply_in g prepared t trace env) db))
    \<and> (sound db \<longrightarrow> sound (snd (transaction (ce_free env) (apply_in g prepared t trace env) db)))"
    by (rule transaction_step) (rule apply_in_step)
  with Inr show ?thesis by (simp add: apply_governed_def)
qed (simp add: apply_governed_def)

lemma apply_governed_Inl:
  "fst (apply_governed st t trace g env db) = Inl e \<Longrightarrow> snd (apply_governed st t trace g env db) = db"
  by (cases "prepare_fresh st g (ce_recorded_at env)")
    (auto simp: apply_governed_def dest: transaction_Inl)

lemma apply_governed_refused:
  assumes "apply_governed st t trace g env db = (Inr ap, db')" and "refusal g \<noteq> None"
  shows "ap = \<lparr>ap_candidate = c_id (gv_candidate g), ap_assertion = None, ap_reason = refusal g\<rparr>
    \<and> new_audit db db' = [(''DECISION'', decision_dump (gv_record g))]
    \<and> db_assertions db' = db_assertions db \<and> db_provenance db' = db_provenance db \<and> db_outbox db' = db_outbox db"
proof -
  have "apply_in g None t trace env db = Inr (ap, db')"
    using assms by (auto simp: apply_governed_def prepare_fresh_refused dest!: transaction_Inr)
  then obtain db1 where d: "db_append db t trace ''DECISION'' (decision_dump (gv_record g)) (ce_at env) = Inr db1"
    and "ap = \<lparr>ap_candidate = c_id (gv_candidate g), ap_assertion = None, ap_reason = refusal g\<rparr>" "db' = db1"
    by (auto simp: apply_in_def elim!: bindE_InrE)
  then show ?thesis
    by (auto simp: new_audit_def intro: db_append_Inr [OF d])
qed

lemma apply_governed_written:
  assumes run: "apply_governed st t trace g env db = (Inr ap, db')" and ref: "refusal g = None"
  obtains v where "apply_in g (Some (fresh_assertion g (ce_recorded_at env),
      \<lparr>pw_assertions = [assertion_params (fresh_assertion g (ce_recorded_at env)) (st_tenant st) v],
       pw_citations = provenance_params (fresh_assertion g (ce_recorded_at env)),
       pw_events = [outbox_params (fresh_assertion g (ce_recorded_at env)) (st_tenant st)]\<rparr>)) t trace env db
      = Inr (ap, db')"
    and "length v = EMBEDDING_DIM" and "assertion_ok (fresh_assertion g (ce_recorded_at env))"
    and "commit_check db db'"
proof -
  obtain prepared where p: "prepare_fresh st g (ce_recorded_at env) = Inr prepared"
    and tr: "transaction (ce_free env) (apply_in g prepared t trace env) db = (Inr ap, db')"
    using run by (cases "prepare_fresh st g (ce_recorded_at env)") (auto simp: apply_governed_def)
  obtain v where v: "prepared = Some (fresh_assertion g (ce_recorded_at env),
      \<lparr>pw_assertions = [assertion_params (fresh_assertion g (ce_recorded_at env)) (st_tenant st) v],
       pw_citations = provenance_params (fresh_assertion g (ce_recorded_at env)),
       pw_events = [outbox_params (fresh_assertion g (ce_recorded_at env)) (st_tenant st)]\<rparr>)"
    and rest: "length v = EMBEDDING_DIM" "assertion_ok (fresh_assertion g (ce_recorded_at env))"
    by (rule prepare_fresh_write [OF p ref])
  from transaction_Inr [OF tr] v rest that show thesis by blast
qed

end
