(* ===== verification/Graph.thy ===== *)
theory Graph
  imports Schemas
begin

text \<open>
  The graph stores of \<open>memory/graph/\<close>: the object key (\<open>keys.py\<close>), the NetworkX backend
  (\<open>networkx_store.py\<close>) over the operations of a multigraph library, which are a parameter with
  their documented laws, and the Neo4j backend (\<open>neo4j_store.py\<close>) whose Cypher statements
  (\<open>cypher.py\<close>) are given over explicit nodes and relationships. What \<open>json.loads\<close> makes of a
  stored object text is the parameter \<open>loads\<close>.
\<close>

section \<open>Keys and edges\<close>

definition LITERAL_PREFIX :: string where
  "LITERAL_PREFIX = ''literal:''"

definition object_key :: "object_value \<Rightarrow> string" where
  "object_key v = (case v of OStr s \<Rightarrow> s | _ \<Rightarrow> LITERAL_PREFIX @ json_default (obj_json v))"

definition edge_of :: "stored_assertion \<Rightarrow> edge" where
  "edge_of a = \<lparr>e_assertion = a_id a, e_subject = a_subject a, e_predicate = a_predicate a,
     e_object = a_object a, e_confidence = a_confidence a, e_valid_from = a_valid_from a,
     e_valid_to = a_valid_to a, e_trace = a_trace a\<rparr>"

definition live_edge :: "edge \<Rightarrow> bool" where
  "live_edge e \<longleftrightarrow> e_valid_to e = None"

section \<open>The NetworkX backend\<close>

text \<open>
  The calls the backend makes on \<open>nx.MultiDiGraph\<close>: \<open>add_node\<close> with a tenant attribute or
  without, \<open>add_edge\<close> with a key, the tenant attribute of a node, membership, and the edges out
  of and into a node, each with its other end and its key.
\<close>

record 'g multigraph_ops =
  mg_empty :: 'g
  mg_add_node :: "string \<Rightarrow> string option \<Rightarrow> 'g \<Rightarrow> 'g"
  mg_add_edge :: "string \<Rightarrow> string \<Rightarrow> string \<Rightarrow> edge \<Rightarrow> 'g \<Rightarrow> 'g"
  mg_tenant :: "'g \<Rightarrow> string \<Rightarrow> string option"
  mg_has :: "'g \<Rightarrow> string \<Rightarrow> bool"
  mg_out :: "'g \<Rightarrow> string \<Rightarrow> (string \<times> string \<times> edge) list"
  mg_in :: "'g \<Rightarrow> string \<Rightarrow> (string \<times> string \<times> edge) list"

definition nx_upsert :: "'g multigraph_ops \<Rightarrow> 'g \<Rightarrow> stored_assertion \<Rightarrow> (exn + unit) \<times> 'g" where
  "nx_upsert G g a =
     (if (case mg_tenant G g (a_subject a) of None \<Rightarrow> False | Some held \<Rightarrow> held \<noteq> a_tenant a)
      then (Inl (GM ValidationRejected), g)
      else (Inr (), mg_add_edge G (a_subject a) (object_key (a_object a)) (a_id a) (edge_of a)
             (mg_add_node G (object_key (a_object a)) None
                (mg_add_node G (a_subject a) (Some (a_tenant a)) g))))"

record walk =
  wk_seen :: "string list"
  wk_found :: "edge list"
  wk_next :: "string list"

definition add_key :: "string \<Rightarrow> string list \<Rightarrow> string list" where
  \<comment> \<open>\<open>following[target] = None\<close>\<close>
  "add_key k ks = (if k \<in> set ks then ks else ks @ [k])"

definition visit :: "string \<times> string \<times> edge \<times> bool \<Rightarrow> walk \<Rightarrow> walk" where
  \<comment> \<open>one edge of the walk: its target, its key, its data and whether the target is an entity\<close>
  "visit x w =
     (case x of (target, key, e, follow) \<Rightarrow>
        if key \<in> set (wk_seen w) then w
        else w\<lparr>wk_seen := wk_seen w @ [key], wk_found := wk_found w @ [e],
               wk_next := (if follow then add_key target (wk_next w) else wk_next w)\<rparr>)"

definition nx_expand :: "'g multigraph_ops \<Rightarrow> 'g \<Rightarrow> string \<Rightarrow> walk \<Rightarrow> walk" where
  "nx_expand G g node w =
     (if \<not> mg_has G g node then w
      else fold visit (map (\<lambda>(target, key, e). (target, key, e, obj_is_str (e_object e)))
             (filter (\<lambda>(target, key, e). live_edge e) (mg_out G g node))) w)"

fun nx_walk :: "'g multigraph_ops \<Rightarrow> 'g \<Rightarrow> nat \<Rightarrow> string list \<Rightarrow> walk \<Rightarrow> edge list" where
  "nx_walk G g 0 frontier w = wk_found w"
| "nx_walk G g (Suc n) frontier w =
     (let w' = fold (nx_expand G g) frontier (w\<lparr>wk_next := []\<rparr>)
      in if wk_next w' = [] then wk_found w' else nx_walk G g n (wk_next w') w')"

definition walk_start :: walk where
  "walk_start = \<lparr>wk_seen = [], wk_found = [], wk_next = []\<rparr>"

definition nx_neighbors :: "'g multigraph_ops \<Rightarrow> 'g \<Rightarrow> string \<Rightarrow> int \<Rightarrow> edge list" where
  "nx_neighbors G g entity hops = nx_walk G g (nat hops) [entity] walk_start"

definition nx_degree :: "'g multigraph_ops \<Rightarrow> 'g \<Rightarrow> string \<Rightarrow> nat" where
  "nx_degree G g entity =
     (if \<not> mg_has G g entity then 0
      else length (filter (\<lambda>(_, _, e). live_edge e) (mg_out G g entity @ mg_in G g entity)))"

section \<open>The Neo4j backend\<close>

record neo_node =
  nn_entity :: bool \<comment> \<open>the label: \<open>Entity\<close> or \<open>Literal\<close>\<close>
  nn_key :: string
  nn_tenant :: "string option"

record neo_rel =
  nl_source :: string
  nl_target :: "bool \<times> string"
  nl_assertion :: string
  nl_subject :: string
  nl_predicate :: string
  nl_object_json :: string
  nl_confidence :: real
  nl_valid_from :: int
  nl_valid_to :: "int option"
  nl_trace :: string
  nl_tenant :: string

record neo_graph =
  ng_nodes :: "neo_node list"
  ng_rels :: "neo_rel list"

text \<open>What the driver does with one statement: it answers, it fails without running it, or it
  runs it and the answer is lost.\<close>

datatype driver_reply = Answered | Unreachable | ReplyLost

definition start_tenant :: "neo_graph \<Rightarrow> string \<Rightarrow> string option option" where
  \<comment> \<open>\<open>START_TENANT\<close>: no row, or the row's tenant\<close>
  "start_tenant g entity =
     map_option nn_tenant (first (\<lambda>n. nn_entity n \<and> nn_key n = entity) (ng_nodes g))"

definition merge_node :: "neo_node \<Rightarrow> neo_graph \<Rightarrow> neo_graph" where
  \<comment> \<open>\<open>MERGE (n:Label {key: ...}) ON CREATE SET ...\<close>\<close>
  "merge_node n g =
     (if \<exists>m \<in> set (ng_nodes g). nn_entity m = nn_entity n \<and> nn_key m = nn_key n then g
      else g\<lparr>ng_nodes := ng_nodes g @ [n]\<rparr>)"

definition same_rel :: "neo_rel \<Rightarrow> neo_rel \<Rightarrow> bool" where
  "same_rel r q \<longleftrightarrow>
     nl_source r = nl_source q \<and> nl_target r = nl_target q \<and> nl_assertion r = nl_assertion q"

definition merge_rel :: "neo_rel \<Rightarrow> neo_graph \<Rightarrow> neo_graph" where
  \<comment> \<open>\<open>MERGE (s)-[r:ASSERTS {assertion_id: ...}]->(o) SET ...\<close>\<close>
  "merge_rel r g =
     (if \<exists>q \<in> set (ng_rels g). same_rel r q
      then g\<lparr>ng_rels := map (\<lambda>q. if same_rel r q then r else q) (ng_rels g)\<rparr>
      else g\<lparr>ng_rels := ng_rels g @ [r]\<rparr>)"

definition upsert_statement :: "stored_assertion \<Rightarrow> neo_graph \<Rightarrow> neo_graph" where
  \<comment> \<open>\<open>UPSERT_ENTITY_OBJECT\<close> and \<open>UPSERT_LITERAL_OBJECT\<close>\<close>
  "upsert_statement a g =
     (let target = (obj_is_str (a_object a), object_key (a_object a));
          g1 = merge_node \<lparr>nn_entity = True, nn_key = a_subject a, nn_tenant = Some (a_tenant a)\<rparr> g;
          g2 = merge_node \<lparr>nn_entity = fst target, nn_key = snd target, nn_tenant = None\<rparr> g1
      in merge_rel \<lparr>nl_source = a_subject a, nl_target = target, nl_assertion = a_id a,
           nl_subject = a_subject a, nl_predicate = a_predicate a,
           nl_object_json = json_default (obj_json (a_object a)), nl_confidence = a_confidence a,
           nl_valid_from = a_valid_from a, nl_valid_to = a_valid_to a, nl_trace = a_trace a,
           nl_tenant = a_tenant a\<rparr> g2)"

definition neo_upsert ::
    "driver_reply \<Rightarrow> driver_reply \<Rightarrow> neo_graph \<Rightarrow> stored_assertion \<Rightarrow> (exn + unit) \<times> neo_graph" where
  "neo_upsert read_reply write_reply g a =
     (if read_reply \<noteq> Answered then (Inl (GM StoreUnavailable), g)
      else if (case start_tenant g (a_subject a) of Some (Some held) \<Rightarrow> held \<noteq> a_tenant a | _ \<Rightarrow> False)
      then (Inl (GM ValidationRejected), g)
      else case write_reply of
             Answered \<Rightarrow> (Inr (), upsert_statement a g)
           | Unreachable \<Rightarrow> (Inl (GM StoreUnavailable), g)
           | ReplyLost \<Rightarrow> (Inl (GM StoreUnavailable), upsert_statement a g))"

definition edge_from :: "(string \<Rightarrow> object_value) \<Rightarrow> neo_rel \<Rightarrow> edge" where
  "edge_from loads r = \<lparr>e_assertion = nl_assertion r, e_subject = nl_subject r,
     e_predicate = nl_predicate r, e_object = loads (nl_object_json r), e_confidence = nl_confidence r,
     e_valid_from = nl_valid_from r, e_valid_to = nl_valid_to r, e_trace = nl_trace r\<rparr>"

definition hop :: "neo_graph \<Rightarrow> string list \<Rightarrow> string option \<Rightarrow> neo_rel list" where
  \<comment> \<open>\<open>HOP\<close>; without an \<open>ORDER BY\<close> the order of the rows is the database's, here the order of creation\<close>
  "hop g frontier tenant =
     filter (\<lambda>r. nl_source r \<in> set frontier \<and> nl_valid_to r = None \<and>
        (tenant = None \<or> tenant = Some (nl_tenant r))) (ng_rels g)"

fun neo_walk ::
    "(string \<Rightarrow> object_value) \<Rightarrow> neo_graph \<Rightarrow> string option \<Rightarrow> nat \<Rightarrow> string list \<Rightarrow> walk \<Rightarrow> edge list" where
  "neo_walk loads g tenant 0 frontier w = wk_found w"
| "neo_walk loads g tenant (Suc n) frontier w =
     (let w' = fold visit (map (\<lambda>r. (snd (nl_target r), nl_assertion r, edge_from loads r, fst (nl_target r)))
                 (hop g frontier tenant)) (w\<lparr>wk_next := []\<rparr>)
      in if wk_next w' = [] then wk_found w' else neo_walk loads g tenant n (wk_next w') w')"

definition tenant_of :: "neo_graph \<Rightarrow> string \<Rightarrow> string option" where
  "tenant_of g entity = (case start_tenant g entity of Some t \<Rightarrow> t | None \<Rightarrow> None)"

definition neo_neighbors :: "(string \<Rightarrow> object_value) \<Rightarrow> neo_graph \<Rightarrow> string \<Rightarrow> int \<Rightarrow> edge list" where
  \<comment> \<open>with every statement answered\<close>
  "neo_neighbors loads g entity hops =
     neo_walk loads g (tenant_of g entity) (nat hops) [entity] walk_start"

definition neo_degree :: "neo_graph \<Rightarrow> string \<Rightarrow> nat" where
  \<comment> \<open>\<open>DEGREE\<close>; an undirected pattern matches a relationship once, a loop included\<close>
  "neo_degree g entity =
     (case start_tenant g entity of
        None \<Rightarrow> 0
      | Some tenant \<Rightarrow> length (filter (\<lambda>r. (nl_source r = entity \<or> nl_target r = (True, entity)) \<and>
          nl_valid_to r = None \<and> (tenant = None \<or> tenant = Some (nl_tenant r))) (ng_rels g)))"

end
