(* ===== verification/GraphLaws.thy ===== *)
theory GraphLaws
  imports Graph
begin

text \<open>
  The two graph backends against one contract and against each other: the locale \<open>multigraph\<close>
  holds the documented laws of the multigraph library, \<open>graph_store\<close> is what the relay relies on
  (both backends provide it), and the two backends answer \<open>degree\<close> and \<open>neighbors\<close> alike on the
  same history.
\<close>

section \<open>The contract of a graph store\<close>

locale graph_store =
  fixes store :: "'r \<Rightarrow> 'g \<Rightarrow> stored_assertion \<Rightarrow> (exn + unit) \<times> 'g"
    and shows_edge :: "'g \<Rightarrow> edge \<Rightarrow> bool"
  assumes stored: "store r g a = (Inr (), g') \<Longrightarrow> shows_edge g' (edge_of a)"
    and kept: "shows_edge g e \<Longrightarrow> e_assertion e \<noteq> a_id a \<Longrightarrow> shows_edge (snd (store r g a)) e"
    and failed: "shows_edge g e \<Longrightarrow> store r g a = (Inl x, g') \<Longrightarrow>
      \<exists>e'. e_assertion e' = e_assertion e \<and> shows_edge g' e'"
begin

lemma kept_or_replaced:
  assumes "shows_edge g e"
  shows "\<exists>e'. e_assertion e' = e_assertion e \<and> shows_edge (snd (store r g a)) e'"
proof (cases "fst (store r g a)")
  case (Inl x)
  with failed [OF assms, of r a x "snd (store r g a)"] show ?thesis
    by (cases "store r g a") simp
next
  case (Inr u)
  show ?thesis
  proof (cases "e_assertion e = a_id a")
    case True
    have "e_assertion (edge_of a) = a_id a" by (simp add: edge_of_def)
    moreover have "shows_edge (snd (store r g a)) (edge_of a)"
      using stored [of r g a "snd (store r g a)"] Inr by (cases "store r g a") simp
    ultimately show ?thesis using True by metis
  next
    case False
    with kept [OF assms] show ?thesis by blast
  qed
qed

end

section \<open>The laws of the multigraph library\<close>

locale multigraph =
  fixes G :: "'g multigraph_ops"
  assumes out_empty: "mg_out G (mg_empty G) n = []"
    and tenant_empty: "mg_tenant G (mg_empty G) n = None"
    and tenant_node: "mg_tenant G (mg_add_node G m t g) n = (if n = m \<and> t \<noteq> None then t else mg_tenant G g n)"
    and has_node: "mg_has G (mg_add_node G m t g) n \<longleftrightarrow> n = m \<or> mg_has G g n"
    and out_node: "mg_out G (mg_add_node G m t g) n = mg_out G g n"
    and tenant_edge: "mg_tenant G (mg_add_edge G u v k e g) n = mg_tenant G g n"
    and has_edge: "mg_has G (mg_add_edge G u v k e g) n \<longleftrightarrow> n = u \<or> n = v \<or> mg_has G g n"
    and out_edge: "(y, i, d) \<in> set (mg_out G (mg_add_edge G u v k e g) x) \<longleftrightarrow>
      (if (x, y, i) = (u, v, k) then d = e else (y, i, d) \<in> set (mg_out G g x))"
    and in_out: "(x, i, d) \<in> set (mg_in G g y) \<longleftrightarrow> (y, i, d) \<in> set (mg_out G g x)"
    and distinct_out: "distinct (mg_out G g n)"
    and distinct_in: "distinct (mg_in G g n)"
begin

lemma out_upsert:
  assumes "nx_upsert G g a = (Inr (), g')"
  shows "(y, i, d) \<in> set (mg_out G g' x) \<longleftrightarrow>
     (if (x, y, i) = (a_subject a, object_key (a_object a), a_id a) then d = edge_of a
      else (y, i, d) \<in> set (mg_out G g x))"
  using assms by (auto simp: nx_upsert_def out_edge out_node split: if_splits)

lemma has_upsert:
  assumes "nx_upsert G g a = (Inr (), g')"
  shows "mg_has G g' n \<longleftrightarrow> n = a_subject a \<or> n = object_key (a_object a) \<or> mg_has G g n"
  using assms by (auto simp: nx_upsert_def has_edge has_node split: if_splits)

lemma tenant_upsert:
  assumes "nx_upsert G g a = (Inr (), g')"
  shows "mg_tenant G g' n = (if n = a_subject a then Some (a_tenant a) else mg_tenant G g n)"
  using assms by (auto simp: nx_upsert_def tenant_edge tenant_node split: if_splits)

end

definition nx_shows :: "'g multigraph_ops \<Rightarrow> 'g \<Rightarrow> edge \<Rightarrow> bool" where
  "nx_shows G g e \<longleftrightarrow> (object_key (e_object e), e_assertion e, e) \<in> set (mg_out G g (e_subject e))"

sublocale multigraph \<subseteq> nx: graph_store "\<lambda>r :: unit. nx_upsert G" "nx_shows G"
proof (unfold_locales, goal_cases)
  case (1 r g a g')
  show ?case
    unfolding nx_shows_def by (subst out_upsert [OF 1]) (simp add: edge_of_def)
next
  case (2 g e a r)
  obtain res g' where u: "nx_upsert G g a = (res, g')" by (cases "nx_upsert G g a")
  show ?case
  proof (cases res)
    case (Inl x)
    with u 2 show ?thesis by (simp add: nx_upsert_def split: if_splits)
  next
    case (Inr y)
    with u have "nx_upsert G g a = (Inr (), g')" by simp
    from out_upsert [OF this] 2 u show ?thesis by (simp add: nx_shows_def)
  qed
next
  case (3 g e r a x g')
  then have "g' = g" by (auto simp: nx_upsert_def split: if_splits)
  with 3 show ?case by blast
qed

section \<open>Neo4j\<close>

definition rel_of :: "string \<Rightarrow> edge \<Rightarrow> neo_rel" where
  \<comment> \<open>the relationship that stands for an edge\<close>
  "rel_of tenant e = \<lparr>nl_source = e_subject e, nl_target = (obj_is_str (e_object e), object_key (e_object e)),
     nl_assertion = e_assertion e, nl_subject = e_subject e, nl_predicate = e_predicate e,
     nl_object_json = json_default (obj_json (e_object e)), nl_confidence = e_confidence e,
     nl_valid_from = e_valid_from e, nl_valid_to = e_valid_to e, nl_trace = e_trace e, nl_tenant = tenant\<rparr>"

definition neo_shows :: "neo_graph \<Rightarrow> edge \<Rightarrow> bool" where
  "neo_shows g e \<longleftrightarrow> (\<exists>tenant. rel_of tenant e \<in> set (ng_rels g))"

lemma merge_node_rels [simp]: "ng_rels (merge_node n g) = ng_rels g"
  by (simp add: merge_node_def)

lemma upsert_statement_merge:
  "upsert_statement a g = merge_rel (rel_of (a_tenant a) (edge_of a))
     (merge_node \<lparr>nn_entity = obj_is_str (a_object a), nn_key = object_key (a_object a), nn_tenant = None\<rparr>
       (merge_node \<lparr>nn_entity = True, nn_key = a_subject a, nn_tenant = Some (a_tenant a)\<rparr> g))"
  by (simp add: upsert_statement_def rel_of_def edge_of_def Let_def)

lemma merge_rel_set:
  "q \<in> set (ng_rels (merge_rel r g)) \<longleftrightarrow> q = r \<or> (q \<in> set (ng_rels g) \<and> \<not> same_rel r q)"
  by (auto simp: merge_rel_def image_iff same_rel_def)

lemma upsert_rels:
  "q \<in> set (ng_rels (upsert_statement a g)) \<longleftrightarrow>
     q = rel_of (a_tenant a) (edge_of a) \<or>
     (q \<in> set (ng_rels g) \<and> \<not> same_rel (rel_of (a_tenant a) (edge_of a)) q)"
  unfolding upsert_statement_merge by (subst merge_rel_set) simp

lemma neo_kept:
  assumes "neo_shows g e" and "e_assertion e \<noteq> a_id a"
  shows "neo_shows (upsert_statement a g) e"
proof -
  obtain t where t: "rel_of t e \<in> set (ng_rels g)" using assms(1) by (auto simp: neo_shows_def)
  have "\<not> same_rel (rel_of (a_tenant a) (edge_of a)) (rel_of t e)"
    using assms(2) by (simp add: same_rel_def rel_of_def edge_of_def)
  with t have "rel_of t e \<in> set (ng_rels (upsert_statement a g))" by (simp add: upsert_rels)
  then show ?thesis by (auto simp: neo_shows_def)
qed

interpretation neo: graph_store "\<lambda>(r, w). neo_upsert r w" neo_shows
proof (unfold_locales, goal_cases)
  case (1 r g a g')
  then have "g' = upsert_statement a g"
    by (cases r) (auto simp: neo_upsert_def split: if_splits driver_reply.splits)
  then have "rel_of (a_tenant a) (edge_of a) \<in> set (ng_rels g')" by (simp add: upsert_rels)
  then show ?case unfolding neo_shows_def by blast
next
  case (2 g e a r)
  obtain x w where r: "r = (x, w)" by (cases r)
  have "snd (neo_upsert x w g a) \<in> {g, upsert_statement a g}"
    by (auto simp: neo_upsert_def split: driver_reply.split)
  with r 2 neo_kept show ?case by auto
next
  case (3 g e r a y g')
  obtain x w where r: "r = (x, w)" by (cases r)
  with 3 have "g' = g \<or> g' = upsert_statement a g"
    by (auto simp: neo_upsert_def split: if_splits driver_reply.splits)
  moreover have "neo_shows (upsert_statement a g) (edge_of a)"
    unfolding neo_shows_def upsert_rels by blast
  moreover have "e_assertion (edge_of a) = a_id a" by (simp add: edge_of_def)
  ultimately show ?case using 3(1) neo_kept [OF 3(1), of a] by metis
qed

section \<open>Walks depend on sets of edges only\<close>

definition item_key :: "string \<times> string \<times> edge \<times> bool \<Rightarrow> string" where
  "item_key x = fst (snd x)"

definition keyed :: "(string \<times> string \<times> edge \<times> bool) set \<Rightarrow> bool" where
  "keyed S \<longleftrightarrow> inj_on item_key S"

definition unseen :: "(string \<times> string \<times> edge \<times> bool) set \<Rightarrow> string set \<Rightarrow> (string \<times> string \<times> edge \<times> bool) set" where
  "unseen S seen = {x \<in> S. item_key x \<notin> seen}"

lemma set_add_key [simp]: "set (add_key k ks) = insert k (set ks)"
  by (auto simp: add_key_def)

lemma visit_sets:
  assumes "keyed (set xs)"
  shows "set (wk_seen (fold visit xs w)) = set (wk_seen w) \<union> item_key ` set xs
    \<and> set (wk_found (fold visit xs w)) =
        set (wk_found w) \<union> (\<lambda>x. fst (snd (snd x))) ` unseen (set xs) (set (wk_seen w))
    \<and> set (wk_next (fold visit xs w)) =
        set (wk_next w) \<union> fst ` {x \<in> unseen (set xs) (set (wk_seen w)). snd (snd (snd x))}"
  using assms
proof (induction xs arbitrary: w)
  case Nil
  then show ?case by (simp add: unseen_def)
next
  case (Cons x xs)
  obtain t k e f where x: "x = (t, k, e, f)" by (cases x)
  have keyed: "keyed (set xs)" using Cons.prems by (simp add: keyed_def)
  show ?case
  proof (cases "k \<in> set (wk_seen w)")
    case True
    then have "unseen (set (x # xs)) (set (wk_seen w)) = unseen (set xs) (set (wk_seen w))"
      by (auto simp: unseen_def x item_key_def)
    moreover have "visit x w = w" using True by (simp add: visit_def x)
    ultimately show ?thesis using Cons.IH [OF keyed, of w] True by (auto simp: x item_key_def)
  next
    case False
    let ?w = "w\<lparr>wk_seen := wk_seen w @ [k], wk_found := wk_found w @ [e],
               wk_next := (if f then add_key t (wk_next w) else wk_next w)\<rparr>"
    have v: "visit x w = ?w" using False by (simp add: visit_def x)
    have same: "y = x" if "y \<in> set xs" "item_key y = k" for y
      using Cons.prems that by (auto simp: keyed_def x item_key_def inj_on_def)
    have U: "unseen (set (x # xs)) (set (wk_seen w)) = insert x (unseen (set xs) (set (wk_seen ?w)))"
      using False same by (auto simp: unseen_def x item_key_def)
    have f: "fold visit (x # xs) w = fold visit xs ?w" by (simp add: v)
    have "{y \<in> insert x (unseen (set xs) (set (wk_seen ?w))). snd (snd (snd y))} =
        (if f then insert x {y \<in> unseen (set xs) (set (wk_seen ?w)). snd (snd (snd y))}
         else {y \<in> unseen (set xs) (set (wk_seen ?w)). snd (snd (snd y))})"
      by (auto simp: x)
    then show ?thesis
      unfolding U f using Cons.IH [OF keyed, of ?w] by (simp add: x item_key_def)
  qed
qed

section \<open>The two backends on one history\<close>

definition edges_of :: "stored_assertion list \<Rightarrow> string \<Rightarrow> edge option" where
  \<comment> \<open>what a history of upserts should leave: the latest edge of each assertion\<close>
  "edges_of as = map_of (map (\<lambda>a. (a_id a, edge_of a)) (rev as))"

definition nx_run :: "'g multigraph_ops \<Rightarrow> stored_assertion list \<Rightarrow> 'g" where
  "nx_run G as = foldl (\<lambda>g a. snd (nx_upsert G g a)) (mg_empty G) as"

definition neo_run :: "stored_assertion list \<Rightarrow> neo_graph" where
  "neo_run as = foldl (\<lambda>g a. snd (neo_upsert Answered Answered g a)) \<lparr>ng_nodes = [], ng_rels = []\<rparr> as"

definition history :: "string \<Rightarrow> stored_assertion list \<Rightarrow> bool" where
  \<comment> \<open>one tenant, and an assertion's subject and object never change\<close>
  "history t as \<longleftrightarrow> (\<forall>a \<in> set as. a_tenant a = t) \<and>
     (\<forall>a \<in> set as. \<forall>b \<in> set as. a_id a = a_id b \<longrightarrow> a_subject a = a_subject b \<and> a_object a = a_object b)"

lemma edges_of_snoc: "edges_of (as @ [a]) = (edges_of as)(a_id a \<mapsto> edge_of a)"
  by (simp add: edges_of_def)

lemma edges_of_Nil [simp]: "edges_of [] = Map.empty"
  by (simp add: edges_of_def)

lemma edges_of_Some:
  "edges_of as i = Some d \<Longrightarrow> \<exists>a \<in> set as. a_id a = i \<and> d = edge_of a"
  unfolding edges_of_def by (drule map_of_SomeD) auto

lemma historyD:
  "history t as \<Longrightarrow> a \<in> set as \<Longrightarrow> b \<in> set as \<Longrightarrow> a_id a = a_id b \<Longrightarrow>
     a_subject a = a_subject b \<and> a_object a = a_object b"
  unfolding history_def by blast

lemma history_snoc:
  assumes "history t (as @ [a])"
  shows "history t as" and "a_tenant a = t"
    and "edges_of as (a_id a) = Some d \<Longrightarrow> e_subject d = a_subject a \<and> e_object d = a_object a"
proof -
  show "history t as"
    unfolding history_def using assms historyD [OF assms] by (metis (no_types, lifting) Un_iff history_def set_append)
  show "a_tenant a = t" using assms by (simp add: history_def)
  assume "edges_of as (a_id a) = Some d"
  then obtain b where b: "b \<in> set as" "a_id b = a_id a" "d = edge_of b" using edges_of_Some by blast
  then have "a_subject b = a_subject a \<and> a_object b = a_object a"
    by (intro historyD [OF assms]) simp_all
  with b show "e_subject d = a_subject a \<and> e_object d = a_object a" by (simp add: edge_of_def)
qed

definition linked_edge :: "stored_assertion list \<Rightarrow> string \<Rightarrow> string \<Rightarrow> string \<Rightarrow> edge \<Rightarrow> bool" where
  "linked_edge as x y i d \<longleftrightarrow> edges_of as i = Some d \<and> e_subject d = x \<and> object_key (e_object d) = y"

context multigraph
begin

lemma run_inv:
  assumes "history t as"
  shows "(\<forall>x y i d. (y, i, d) \<in> set (mg_out G (nx_run G as) x) \<longleftrightarrow> linked_edge as x y i d)
    \<and> (\<forall>n. mg_tenant G (nx_run G as) n \<in> {None, Some t})
    \<and> (\<forall>a \<in> set as. mg_has G (nx_run G as) (a_subject a) \<and> mg_has G (nx_run G as) (object_key (a_object a)))"
  using assms
proof (induction as rule: rev_induct)
  case Nil
  then show ?case by (simp add: nx_run_def out_empty tenant_empty linked_edge_def)
next
  case (snoc a as)
  note h = history_snoc [OF snoc.prems]
  let ?g = "nx_run G as"
  note IH = snoc.IH [OF h(1)]
  have "mg_tenant G ?g (a_subject a) \<in> {None, Some t}" using IH by blast
  then have "\<exists>g'. nx_upsert G ?g a = (Inr (), g')"
    using h(2) by (auto simp: nx_upsert_def)
  then obtain g' where u: "nx_upsert G ?g a = (Inr (), g')" by blast
  have run: "nx_run G (as @ [a]) = g'" by (simp add: nx_run_def u [unfolded nx_run_def])
  have "(y, i, d) \<in> set (mg_out G g' x) \<longleftrightarrow> linked_edge (as @ [a]) x y i d" for x y i d
    using IH h(3) unfolding out_upsert [OF u]
    by (auto simp: linked_edge_def edges_of_snoc edge_of_def)
  with IH h(2) show ?case unfolding run by (auto simp: tenant_upsert [OF u] has_upsert [OF u])
qed

lemma run_out:
  "history t as \<Longrightarrow> (y, i, d) \<in> set (mg_out G (nx_run G as) x) \<longleftrightarrow> linked_edge as x y i d"
  using run_inv by blast

lemma run_has:
  assumes "history t as" and "linked_edge as x y i d"
  shows "mg_has G (nx_run G as) x \<and> mg_has G (nx_run G as) y"
proof -
  obtain a where "a \<in> set as" "d = edge_of a"
    using assms(2) edges_of_Some unfolding linked_edge_def by blast
  with assms run_inv [OF assms(1)] show ?thesis by (auto simp: linked_edge_def edge_of_def)
qed

lemma count_ids:
  assumes "distinct xs" and "\<forall>p \<in> set xs. \<forall>q \<in> set xs. fst (snd p) = fst (snd q) \<longrightarrow> p = q"
  shows "length xs = card ((\<lambda>p. fst (snd p)) ` set xs)"
  using assms by (metis (mono_tags, lifting) card_image distinct_card inj_onI)

lemma run_degree:
  assumes h: "history t as"
  shows "nx_degree G (nx_run G as) x =
    card {i. \<exists>y d. linked_edge as x y i d \<and> live_edge d} + card {i. \<exists>y d. linked_edge as y x i d \<and> live_edge d}"
proof (cases "mg_has G (nx_run G as) x")
  case False
  then have "{i. \<exists>y d. linked_edge as x y i d \<and> live_edge d} = {}" "{i. \<exists>y d. linked_edge as y x i d \<and> live_edge d} = {}"
    using run_has [OF h] by blast+
  then have "card {i. \<exists>y d. linked_edge as x y i d \<and> live_edge d} = 0"
      "card {i. \<exists>y d. linked_edge as y x i d \<and> live_edge d} = 0"
    by (simp_all only: card.empty)
  with False show ?thesis by (simp add: nx_degree_def)
next
  case True
  let ?g = "nx_run G as"
  let ?live = "\<lambda>(_, _, d). live_edge d"
  have out: "length (filter ?live (mg_out G ?g x)) = card {i. \<exists>y d. linked_edge as x y i d \<and> live_edge d}"
    by (subst count_ids)
      (auto simp: distinct_out run_out [OF h] linked_edge_def image_iff intro!: arg_cong [of _ _ card])
  have "length (filter ?live (mg_in G ?g x)) = card {i. \<exists>y d. linked_edge as y x i d \<and> live_edge d}"
    by (subst count_ids)
      (auto simp: distinct_in in_out run_out [OF h] linked_edge_def image_iff intro!: arg_cong [of _ _ card])
  with out True show ?thesis by (simp add: nx_degree_def)
qed

definition items :: "'g \<Rightarrow> string list \<Rightarrow> (string \<times> string \<times> edge \<times> bool) list" where
  "items g frontier = concat (map (\<lambda>n. if mg_has G g n then
      map (\<lambda>(target, key, e). (target, key, e, obj_is_str (e_object e)))
        (filter (\<lambda>(target, key, e). live_edge e) (mg_out G g n)) else []) frontier)"

lemma expand_items: "fold (nx_expand G g) frontier w = fold visit (items g frontier) w"
  by (induction frontier arbitrary: w) (auto simp: items_def nx_expand_def)

lemma run_items:
  assumes h: "history t as"
  shows "set (items (nx_run G as) frontier) =
    {(y, i, d, obj_is_str (e_object d)) |x y i d. x \<in> set frontier \<and> linked_edge as x y i d \<and> live_edge d}"
proof -
  have items: "set (items g frontier) = {(y, i, d, obj_is_str (e_object d)) |x y i d.
      x \<in> set frontier \<and> mg_has G g x \<and> (y, i, d) \<in> set (mg_out G g x) \<and> live_edge d}" for g
  proof (induction frontier)
    case (Cons n ns)
    have "items g (n # ns) = (if mg_has G g n then
        map (\<lambda>(target, key, e). (target, key, e, obj_is_str (e_object e)))
          (filter (\<lambda>(target, key, e). live_edge e) (mg_out G g n)) else []) @ items g ns"
      by (simp add: items_def)
    moreover have "set (map (\<lambda>(target, key, e). (target, key, e, obj_is_str (e_object e)))
          (filter (\<lambda>(target, key, e). live_edge e) (mg_out G g n))) =
        {(y, i, d, obj_is_str (e_object d)) |y i d. (y, i, d) \<in> set (mg_out G g n) \<and> live_edge d}"
      by force
    ultimately show ?case using Cons.IH by (cases "mg_has G g n") (simp_all, blast+)
  qed (simp add: items_def)
  show ?thesis unfolding items run_out [OF h] using run_has [OF h] by blast
qed

end

lemma start_tenant_merge:
  "start_tenant (merge_node n g) x =
     (case start_tenant g x of Some t \<Rightarrow> Some t
      | None \<Rightarrow> if nn_entity n \<and> nn_key n = x then Some (nn_tenant n) else None)"
proof (cases "\<exists>m \<in> set (ng_nodes g). nn_entity m = nn_entity n \<and> nn_key m = nn_key n")
  case True
  have "start_tenant g x \<noteq> None" if "nn_entity n" "nn_key n = x"
    using True that by (auto simp: start_tenant_def first_None_iff)
  with True show ?thesis by (auto simp: merge_node_def split: option.split)
next
  case False
  have snoc: "first p (xs @ [y]) = (case first p xs of Some z \<Rightarrow> Some z | None \<Rightarrow> if p y then Some y else None)"
    for p and xs :: "neo_node list" and y
    by (induction xs) auto
  have "ng_nodes (merge_node n g) = ng_nodes g @ [n]" using False by (auto simp: merge_node_def)
  then show ?thesis by (simp add: start_tenant_def snoc split: option.split)
qed

lemma start_tenant_rels [simp]: "start_tenant (merge_rel r g) x = start_tenant g x"
  by (simp add: start_tenant_def merge_rel_def)

lemma merge_rel_ids:
  "map nl_assertion (ng_rels (merge_rel r g)) =
     (if \<exists>q \<in> set (ng_rels g). same_rel r q then map nl_assertion (ng_rels g)
      else map nl_assertion (ng_rels g) @ [nl_assertion r])"
  by (auto simp: merge_rel_def same_rel_def)

lemma neo_run_inv:
  assumes "history t as"
  shows "set (ng_rels (neo_run as)) = {rel_of t d |i d. edges_of as i = Some d}
    \<and> distinct (map nl_assertion (ng_rels (neo_run as)))
    \<and> (\<forall>x. start_tenant (neo_run as) x \<in> {None, Some None, Some (Some t)})
    \<and> (\<forall>a \<in> set as. start_tenant (neo_run as) (a_subject a) \<noteq> None
        \<and> (obj_is_str (a_object a) \<longrightarrow> start_tenant (neo_run as) (object_key (a_object a)) \<noteq> None))"
  using assms
proof (induction as rule: rev_induct)
  case Nil
  then show ?case by (simp add: neo_run_def start_tenant_def)
next
  case (snoc a as)
  note h = history_snoc [OF snoc.prems]
  let ?g = "neo_run as"
  let ?r = "rel_of t (edge_of a)"
  note IH = snoc.IH [OF h(1)]
  have "start_tenant ?g (a_subject a) \<in> {None, Some None, Some (Some t)}" using IH by blast
  then have "\<not> (\<exists>held. start_tenant ?g (a_subject a) = Some (Some held) \<and> held \<noteq> a_tenant a)"
    using h(2) by auto
  then have u: "snd (neo_upsert Answered Answered ?g a) = upsert_statement a ?g"
    by (auto simp: neo_upsert_def split: option.splits)
  have run: "neo_run (as @ [a]) = upsert_statement a ?g" by (simp add: neo_run_def u [unfolded neo_run_def])
  have same: "same_rel ?r (rel_of t d) \<longleftrightarrow> i = a_id a" if "edges_of as i = Some d" for i d
    using edges_of_Some [OF that] h(3) [of d] that by (auto simp: same_rel_def rel_of_def edge_of_def)
  have rels: "set (ng_rels (upsert_statement a ?g)) = {rel_of t d |i d. edges_of (as @ [a]) i = Some d}"
  proof (intro set_eqI iffI)
    fix q assume "q \<in> set (ng_rels (upsert_statement a ?g))"
    then consider "q = ?r" | "q \<in> set (ng_rels ?g)" "\<not> same_rel ?r q"
      using h(2) by (auto simp: upsert_rels)
    then show "q \<in> {rel_of t d |i d. edges_of (as @ [a]) i = Some d}"
    proof cases
      case 2
      then obtain i d where "q = rel_of t d" "edges_of as i = Some d" using IH by auto
      moreover from this 2(2) same have "i \<noteq> a_id a" by blast
      ultimately show ?thesis by (auto simp: edges_of_snoc intro!: exI [of _ i])
    qed (auto simp: edges_of_snoc intro!: exI [of _ "a_id a"])
  next
    fix q assume "q \<in> {rel_of t d |i d. edges_of (as @ [a]) i = Some d}"
    then obtain i d where q: "q = rel_of t d" "edges_of (as @ [a]) i = Some d" by blast
    show "q \<in> set (ng_rels (upsert_statement a ?g))"
    proof (cases "i = a_id a")
      case True
      with q h(2) show ?thesis by (simp add: upsert_rels edges_of_snoc)
    next
      case False
      with q have "edges_of as i = Some d" by (simp add: edges_of_snoc)
      with IH False same q h(2) show ?thesis by (auto simp: upsert_rels)
    qed
  qed
  have "distinct (map nl_assertion (ng_rels (upsert_statement a ?g)))"
  proof (cases "\<exists>q \<in> set (ng_rels ?g). same_rel ?r q")
    case True
    with IH h(2) show ?thesis by (simp only: upsert_statement_merge merge_rel_ids merge_node_rels if_True)
  next
    case False
    have "nl_assertion ?r \<notin> nl_assertion ` set (ng_rels ?g)"
    proof
      assume "nl_assertion ?r \<in> nl_assertion ` set (ng_rels ?g)"
      then obtain i d where d: "edges_of as i = Some d" "nl_assertion ?r = nl_assertion (rel_of t d)"
        "rel_of t d \<in> set (ng_rels ?g)"
        using IH by (auto simp: image_iff)
      then have "i = a_id a" using edges_of_Some [OF d(1)] by (auto simp: rel_of_def edge_of_def)
      with same [OF d(1)] d(3) False show False by blast
    qed
    moreover have "distinct (map nl_assertion (ng_rels ?g))" using IH by blast
    moreover have "map nl_assertion (ng_rels (upsert_statement a ?g)) = map nl_assertion (ng_rels ?g) @ [nl_assertion ?r]"
      using False h(2) by (simp only: upsert_statement_merge merge_rel_ids merge_node_rels if_False)
    ultimately show ?thesis by simp
  qed
  note dist = this
  have st: "start_tenant (upsert_statement a ?g) x =
      (case start_tenant ?g x of Some v \<Rightarrow> Some v
       | None \<Rightarrow> if a_subject a = x then Some (Some t)
                 else if obj_is_str (a_object a) \<and> object_key (a_object a) = x then Some None else None)" for x
    by (simp add: upsert_statement_merge start_tenant_merge h(2) split: option.split)
  have tn: "start_tenant (upsert_statement a ?g) x \<in> {None, Some None, Some (Some t)}" for x
  proof -
    have "start_tenant ?g x \<in> {None, Some None, Some (Some t)}" using IH by blast
    then show ?thesis unfolding st by auto
  qed
  have grow: "start_tenant ?g x \<noteq> None \<Longrightarrow> start_tenant (upsert_statement a ?g) x \<noteq> None" for x
    unfolding st by (auto split: option.split)
  have "start_tenant (upsert_statement a ?g) (a_subject b) \<noteq> None
      \<and> (obj_is_str (a_object b) \<longrightarrow> start_tenant (upsert_statement a ?g) (object_key (a_object b)) \<noteq> None)"
    if "b \<in> set (as @ [a])" for b
  proof (cases "b = a")
    case True
    then show ?thesis unfolding st by (auto split: option.split)
  next
    case False
    with that have "b \<in> set as" by simp
    with IH grow show ?thesis by blast
  qed
  then show ?case unfolding run using rels dist tn by blast
qed

lemma finite_edges: "finite {i. \<exists>d. edges_of as i = Some d \<and> P i d}"
proof -
  have "{i. \<exists>d. edges_of as i = Some d \<and> P i d} \<subseteq> a_id ` set as"
    using edges_of_Some by fastforce
  then show ?thesis by (rule finite_subset) simp
qed

lemma rel_touches:
  "(nl_source (rel_of t d) = x \<or> nl_target (rel_of t d) = (True, x)) \<longleftrightarrow> (e_subject d = x \<or> e_object d = OStr x)"
  by (cases "e_object d") (auto simp: rel_of_def obj_is_str_def object_key_def)

lemma image_comprehension:
  assumes "\<And>i d. E i d \<Longrightarrow> h (f d) = i"
  shows "h ` {x \<in> {f d |i d. E i d}. P x} = {i. \<exists>d. E i d \<and> P (f d)}"
proof (intro set_eqI iffI)
  fix i assume "i \<in> {i. \<exists>d. E i d \<and> P (f d)}"
  then obtain d where "E i d" "P (f d)" by blast
  moreover from this assms have "i = h (f d)" by simp
  ultimately show "i \<in> h ` {x \<in> {f d |i d. E i d}. P x}" by blast
qed (use assms in auto)

lemma neo_run_degree:
  assumes h: "history t as"
  shows "neo_degree (neo_run as) x =
    card {i. \<exists>d. edges_of as i = Some d \<and> live_edge d \<and> (e_subject d = x \<or> e_object d = OStr x)}"
    (is "_ = card ?S")
proof -
  let ?g = "neo_run as"
  note inv = neo_run_inv [OF h]
  have rels: "set (ng_rels ?g) = {rel_of t d |i d. edges_of as i = Some d}"
    and dist: "distinct (map nl_assertion (ng_rels ?g))"
    and st: "start_tenant ?g x \<in> {None, Some None, Some (Some t)}"
    using inv by blast+
  show ?thesis
  proof (cases "start_tenant ?g x")
    case None
    have "\<not> (edges_of as i = Some d \<and> (e_subject d = x \<or> e_object d = OStr x))" for i d
    proof
      assume a: "edges_of as i = Some d \<and> (e_subject d = x \<or> e_object d = OStr x)"
      then obtain a where a': "a \<in> set as" "d = edge_of a" using edges_of_Some by blast
      with a have "a_subject a = x \<or> a_object a = OStr x" by (simp add: edge_of_def)
      moreover have "start_tenant ?g (a_subject a) \<noteq> None"
          "obj_is_str (a_object a) \<longrightarrow> start_tenant ?g (object_key (a_object a)) \<noteq> None"
        using inv a'(1) by blast+
      ultimately show False using None by (auto simp: obj_is_str_def object_key_def)
    qed
    then have "?S = {}" by blast
    then have "card ?S = 0" by (simp only: card.empty)
    with None show ?thesis by (simp add: neo_degree_def)
  next
    case (Some tn)
    let ?P = "\<lambda>r. (nl_source r = x \<or> nl_target r = (True, x)) \<and> nl_valid_to r = None"
    have "neo_degree ?g x = length (filter ?P (ng_rels ?g))"
    proof -
      have "nl_tenant r = t" if "r \<in> set (ng_rels ?g)" for r
      proof -
        obtain d where "r = rel_of t d" using \<open>r \<in> _\<close> rels by blast
        then show ?thesis by (simp add: rel_of_def)
      qed
      with Some st show ?thesis
        by (auto simp: neo_degree_def intro!: arg_cong [of _ _ length] filter_cong)
    qed
    also have "\<dots> = length (map nl_assertion (filter ?P (ng_rels ?g)))" by simp
    also have "\<dots> = card (set (map nl_assertion (filter ?P (ng_rels ?g))))"
      by (rule distinct_card [symmetric]) (rule distinct_map_filter [OF dist])
    also have "set (map nl_assertion (filter ?P (ng_rels ?g))) = ?S"
    proof -
      have id: "nl_assertion (rel_of t d) = i" if "edges_of as i = Some d" for i d
        using edges_of_Some [OF that] by (auto simp: rel_of_def edge_of_def)
      have "set (map nl_assertion (filter ?P (ng_rels ?g))) = {i. \<exists>d. edges_of as i = Some d \<and> ?P (rel_of t d)}"
        unfolding set_map set_filter rels
        by (rule image_comprehension [where f = "rel_of t" and E = "\<lambda>i d. edges_of as i = Some d"]) (rule id)
      also have "\<dots> = ?S" unfolding rel_touches by (auto simp: rel_of_def live_edge_def)
      finally show ?thesis .
    qed
    finally show ?thesis .
  qed
qed

lemma key_of_entity:
  "\<not> startswith x LITERAL_PREFIX \<Longrightarrow> object_key v = x \<longleftrightarrow> v = OStr x"
  by (cases v) (auto simp: object_key_def startswith_def)

definition self_loops :: "stored_assertion list \<Rightarrow> string \<Rightarrow> string set" where
  \<comment> \<open>the assertions whose latest edge is live and leads from the entity to itself\<close>
  "self_loops as x = set (filter (\<lambda>i. case edges_of as i of
       Some d \<Rightarrow> live_edge d \<and> e_subject d = x \<and> e_object d = OStr x | None \<Rightarrow> False) (map a_id as))"

lemma self_loops_iff:
  "i \<in> self_loops as x \<longleftrightarrow> (\<exists>d. edges_of as i = Some d \<and> live_edge d \<and> e_subject d = x \<and> e_object d = OStr x)"
proof -
  have "i \<in> a_id ` set as" if "edges_of as i = Some d" for d using edges_of_Some [OF that] by blast
  then show ?thesis by (auto simp: self_loops_def split: option.splits)
qed

lemma same_degree:
  assumes G: "multigraph G" and h: "history t as" and x: "\<not> startswith x LITERAL_PREFIX"
  shows "nx_degree G (nx_run G as) x = neo_degree (neo_run as) x + card (self_loops as x)"
proof -
  let ?A = "{i. \<exists>d. edges_of as i = Some d \<and> live_edge d \<and> e_subject d = x}"
  let ?B = "{i. \<exists>d. edges_of as i = Some d \<and> live_edge d \<and> e_object d = OStr x}"
  have "{i. \<exists>y d. linked_edge as x y i d \<and> live_edge d} = ?A" by (auto simp: linked_edge_def)
  moreover have "{i. \<exists>y d. linked_edge as y x i d \<and> live_edge d} = ?B"
    using key_of_entity [OF x] by (auto simp: linked_edge_def)
  moreover have "?A \<inter> ?B = self_loops as x" by (auto simp: self_loops_iff)
  moreover have "{i. \<exists>d. edges_of as i = Some d \<and> live_edge d \<and> (e_subject d = x \<or> e_object d = OStr x)} = ?A \<union> ?B"
    by auto
  moreover have "finite ?A" "finite ?B"
    using finite_edges [of as] by (auto intro: rev_finite_subset)
  ultimately show ?thesis
    using multigraph.run_degree [OF G h, of x] neo_run_degree [OF h, of x] card_Un_Int [of ?A ?B] by simp
qed

section \<open>The two walks\<close>

definition walk_items :: "stored_assertion list \<Rightarrow> string set \<Rightarrow> (string \<times> string \<times> edge \<times> bool) set" where
  "walk_items as F =
     {(y, i, d, obj_is_str (e_object d)) |x y i d. x \<in> F \<and> linked_edge as x y i d \<and> live_edge d}"

lemma walk_items_keyed: "keyed (walk_items as F)"
  by (auto simp: keyed_def walk_items_def inj_on_def item_key_def linked_edge_def)

definition faithful_loads :: "(string \<Rightarrow> object_value) \<Rightarrow> stored_assertion list \<Rightarrow> bool" where
  "faithful_loads loads as \<longleftrightarrow> (\<forall>a \<in> set as. loads (json_default (obj_json (a_object a))) = a_object a)"

lemma edge_from_rel:
  assumes "faithful_loads loads as" and "edges_of as i = Some d"
  shows "edge_from loads (rel_of t d) = d \<and> nl_assertion (rel_of t d) = i"
proof -
  obtain a where a: "a \<in> set as" "a_id a = i" "d = edge_of a" using edges_of_Some [OF assms(2)] by blast
  then have "loads (json_default (obj_json (e_object d))) = e_object d"
    using assms(1) by (simp add: faithful_loads_def edge_of_def)
  with a show ?thesis by (simp add: edge_from_def rel_of_def edge_of_def)
qed

definition neo_items ::
    "(string \<Rightarrow> object_value) \<Rightarrow> neo_graph \<Rightarrow> string option \<Rightarrow> string list \<Rightarrow> (string \<times> string \<times> edge \<times> bool) list" where
  "neo_items loads g tenant frontier =
     map (\<lambda>r. (snd (nl_target r), nl_assertion r, edge_from loads r, fst (nl_target r))) (hop g frontier tenant)"

lemma image_comprehension2:
  assumes "\<And>i d. E i d \<Longrightarrow> h (f d) = k i d"
  shows "h ` {f d |i d. E i d} = {k i d |i d. E i d}"
proof (intro set_eqI iffI)
  fix x assume "x \<in> {k i d |i d. E i d}"
  then obtain i d where "E i d" "x = k i d" by blast
  moreover from this assms have "x = h (f d)" by simp
  ultimately show "x \<in> h ` {f d |i d. E i d}" by blast
qed (use assms in auto)

lemma comprehension_filter:
  "(\<And>d. Q (f d) \<longleftrightarrow> R d) \<Longrightarrow>
     {x \<in> {f d |i d. E i d}. Q x} = {f d |i d. E i d \<and> R d}"
  by blast

lemma neo_items_set:
  assumes h: "history t as" and l: "faithful_loads loads as" and tn: "tenant \<in> {None, Some t}"
  shows "set (neo_items loads (neo_run as) tenant frontier) = walk_items as (set frontier)"
proof -
  have rels: "set (ng_rels (neo_run as)) = {rel_of t d |i d. edges_of as i = Some d}"
    using neo_run_inv [OF h] by blast
  have "set (hop (neo_run as) frontier tenant) =
      {rel_of t d |i d. edges_of as i = Some d \<and> e_subject d \<in> set frontier \<and> live_edge d}"
  proof -
    have "(nl_source (rel_of t d) \<in> set frontier \<and> nl_valid_to (rel_of t d) = None \<and>
        (tenant = None \<or> tenant = Some (nl_tenant (rel_of t d)))) \<longleftrightarrow> e_subject d \<in> set frontier \<and> live_edge d" for d
      using tn by (auto simp: rel_of_def live_edge_def)
    then show ?thesis
      unfolding hop_def set_filter rels
      by (rule comprehension_filter [where f = "rel_of t" and R = "\<lambda>d. e_subject d \<in> set frontier \<and> live_edge d"
          and E = "\<lambda>i d. edges_of as i = Some d"])
  qed
  then have "set (neo_items loads (neo_run as) tenant frontier) =
      (\<lambda>r. (snd (nl_target r), nl_assertion r, edge_from loads r, fst (nl_target r))) `
        {rel_of t d |i d. edges_of as i = Some d \<and> e_subject d \<in> set frontier \<and> live_edge d}"
    by (simp add: neo_items_def)
  also have "\<dots> = {(object_key (e_object d), i, d, obj_is_str (e_object d)) |i d.
         edges_of as i = Some d \<and> e_subject d \<in> set frontier \<and> live_edge d}"
  proof (rule image_comprehension2)
    fix i d assume "edges_of as i = Some d \<and> e_subject d \<in> set frontier \<and> live_edge d"
    then have "edge_from loads (rel_of t d) = d \<and> nl_assertion (rel_of t d) = i"
      using edge_from_rel [OF l] by blast
    then show "(snd (nl_target (rel_of t d)), nl_assertion (rel_of t d), edge_from loads (rel_of t d),
        fst (nl_target (rel_of t d))) = (object_key (e_object d), i, d, obj_is_str (e_object d))"
      by (simp only: prod.inject) (simp add: rel_of_def)
  qed
  finally have "set (neo_items loads (neo_run as) tenant frontier) = {(object_key (e_object d), i, d, obj_is_str (e_object d)) |i d.
         edges_of as i = Some d \<and> e_subject d \<in> set frontier \<and> live_edge d}" .
  then show ?thesis by (auto simp: walk_items_def linked_edge_def)
qed

definition same_walk :: "walk \<Rightarrow> walk \<Rightarrow> bool" where
  "same_walk w v \<longleftrightarrow> set (wk_seen w) = set (wk_seen v) \<and> set (wk_found w) = set (wk_found v)
     \<and> set (wk_next w) = set (wk_next v)"

lemma same_walk_visit:
  assumes "same_walk w v" and "set xs = S" and "set ys = S" and "keyed S"
  shows "same_walk (fold visit xs w) (fold visit ys v)"
  using assms visit_sets [of xs w] visit_sets [of ys v] by (simp add: same_walk_def)

lemma same_walks:
  assumes G: "multigraph G" and h: "history t as" and l: "faithful_loads loads as" and tn: "tenant \<in> {None, Some t}"
  shows "same_walk w v \<Longrightarrow> set fr = set fr' \<Longrightarrow>
    set (nx_walk G (nx_run G as) n fr w) = set (neo_walk loads (neo_run as) tenant n fr' v)"
proof (induction n arbitrary: fr fr' w v)
  case 0
  then show ?case by (simp add: same_walk_def)
next
  case (Suc n)
  let ?w = "fold visit (multigraph.items G (nx_run G as) fr) (w\<lparr>wk_next := []\<rparr>)"
  let ?v = "fold visit (neo_items loads (neo_run as) tenant fr') (v\<lparr>wk_next := []\<rparr>)"
  have same: "same_walk ?w ?v"
  proof (rule same_walk_visit)
    show "same_walk (w\<lparr>wk_next := []\<rparr>) (v\<lparr>wk_next := []\<rparr>)" using Suc.prems(1) by (simp add: same_walk_def)
    show "set (multigraph.items G (nx_run G as) fr) = walk_items as (set fr)"
      using multigraph.run_items [OF G h] by (simp add: walk_items_def)
    show "set (neo_items loads (neo_run as) tenant fr') = walk_items as (set fr)"
      using neo_items_set [OF h l tn, of fr'] Suc.prems(2) by simp
  qed (rule walk_items_keyed)
  have "set (wk_next ?w) = set (wk_next ?v)" "set (wk_found ?w) = set (wk_found ?v)"
    using same by (simp_all add: same_walk_def)
  moreover from this have "wk_next ?w = [] \<longleftrightarrow> wk_next ?v = []" by (metis set_empty)
  moreover have "nx_walk G (nx_run G as) (Suc n) fr w =
      (if wk_next ?w = [] then wk_found ?w else nx_walk G (nx_run G as) n (wk_next ?w) ?w)"
    by (simp add: multigraph.expand_items [OF G] Let_def)
  moreover have "neo_walk loads (neo_run as) tenant (Suc n) fr' v =
      (if wk_next ?v = [] then wk_found ?v else neo_walk loads (neo_run as) tenant n (wk_next ?v) ?v)"
    by (simp add: neo_items_def Let_def)
  ultimately show ?case using Suc.IH [OF same] by simp
qed

section \<open>A multigraph\<close>

text \<open>Edge lists satisfy the laws, so they are not vacuous.\<close>

record list_graph =
  lg_nodes :: "(string \<times> string option) list"
  lg_edges :: "(string \<times> string \<times> string \<times> edge) list"

definition lg_add_node :: "string \<Rightarrow> string option \<Rightarrow> list_graph \<Rightarrow> list_graph" where
  "lg_add_node n t g =
     (if t = None \<and> n \<in> fst ` set (lg_nodes g) then g else g\<lparr>lg_nodes := (n, t) # lg_nodes g\<rparr>)"

definition lg_add_edge :: "string \<Rightarrow> string \<Rightarrow> string \<Rightarrow> edge \<Rightarrow> list_graph \<Rightarrow> list_graph" where
  "lg_add_edge u v k e g =
     (let g' = lg_add_node v None (lg_add_node u None g)
      in g'\<lparr>lg_edges := (u, v, k, e) # filter (\<lambda>(u', v', k', _). (u', v', k') \<noteq> (u, v, k)) (lg_edges g)\<rparr>)"

definition list_multigraph :: "list_graph multigraph_ops" where
  "list_multigraph = \<lparr>mg_empty = \<lparr>lg_nodes = [], lg_edges = []\<rparr>, mg_add_node = lg_add_node,
     mg_add_edge = lg_add_edge,
     mg_tenant = (\<lambda>g n. case map_of (lg_nodes g) n of Some t \<Rightarrow> t | None \<Rightarrow> None),
     mg_has = (\<lambda>g n. n \<in> fst ` set (lg_nodes g)),
     mg_out = (\<lambda>g n. remdups (map snd (filter (\<lambda>x. fst x = n) (lg_edges g)))),
     mg_in = (\<lambda>g n. remdups (map (\<lambda>(u, v, k, e). (u, k, e)) (filter (\<lambda>(u, v, k, e). v = n) (lg_edges g))))\<rparr>"

lemma lg_add_node_simps:
  "lg_edges (lg_add_node n t g) = lg_edges g"
  "fst ` set (lg_nodes (lg_add_node n t g)) = insert n (fst ` set (lg_nodes g))"
  "(case map_of (lg_nodes (lg_add_node m t g)) n of Some t \<Rightarrow> t | None \<Rightarrow> None) =
     (if n = m \<and> t \<noteq> None then t else (case map_of (lg_nodes g) n of Some t \<Rightarrow> t | None \<Rightarrow> None))"
  by (auto simp: lg_add_node_def map_of_eq_None_iff split: option.split) (force dest: map_of_SomeD)+

interpretation list_mg: multigraph list_multigraph
proof (unfold_locales, goal_cases)
  case (8 y i d u v k e g x)
  show ?case
    by (force simp: list_multigraph_def lg_add_edge_def Let_def)
next
  case (9 x i d g y)
  show ?case by (force simp: list_multigraph_def)
qed (auto simp: list_multigraph_def lg_add_edge_def lg_add_node_simps Let_def)

section \<open>The backends agree\<close>

lemma start_walk: "same_walk walk_start walk_start"
  by (simp add: same_walk_def)

text \<open>C28. Take a history of upserts by one tenant in which no assertion changes its subject or its
  object, a multigraph library with the documented laws, an entity whose key is not in the literal
  namespace, and \<open>json.loads\<close> reading the objects of that history back. Then the two backends
  answer \<open>neighbors\<close> with the same set of edges for any number of hops, and they answer \<open>degree\<close>
  alike except for live self-loops, each of which counts twice with NetworkX and once with Neo4j: the
  first degree is the second plus their number, so the two are equal if and only if there is none.\<close>

theorem backends_agree:
  assumes "multigraph G" and "history tenant as" and "\<not> startswith x LITERAL_PREFIX"
    and "faithful_loads loads as"
  shows "nx_degree G (nx_run G as) x = neo_degree (neo_run as) x + card (self_loops as x)
    \<and> set (nx_neighbors G (nx_run G as) x hops) = set (neo_neighbors loads (neo_run as) x hops)"
proof -
  have "start_tenant (neo_run as) x \<in> {None, Some None, Some (Some tenant)}"
    using neo_run_inv [OF assms(2)] by blast
  then have "tenant_of (neo_run as) x \<in> {None, Some tenant}" by (auto simp: tenant_of_def)
  from same_walks [OF assms(1,2,4) this start_walk, of "[x]" "[x]" "nat hops"]
  show ?thesis
    using same_degree [OF assms(1-3)] by (simp add: nx_neighbors_def neo_neighbors_def)
qed

definition note_assertion :: "string \<Rightarrow> string \<Rightarrow> object_value \<Rightarrow> stored_assertion" where
  "note_assertion i s v = \<lparr>a_id = i, a_tenant = ''t'', a_namespace = ''user:u'', a_subject = s,
     a_predicate = ''knows'', a_object = v, a_confidence = 1, a_risk = 0, a_valid_from = 0,
     a_valid_to = None, a_recorded_at = 0, a_retracted_at = None, a_superseded_by = None,
     a_provenance = [], a_corroboration = 1, a_trace = ''tr'', a_visible = False\<rparr>"

theorem backends_agree_witness:
  "nx_degree list_multigraph (nx_run list_multigraph
       [note_assertion ''1'' ''a'' (OStr ''b''), note_assertion ''2'' ''b'' (OBool True), note_assertion ''3'' ''b'' (OStr ''b'')]) ''b'' =
   neo_degree (neo_run
       [note_assertion ''1'' ''a'' (OStr ''b''), note_assertion ''2'' ''b'' (OBool True), note_assertion ''3'' ''b'' (OStr ''b'')]) ''b'' + 1"
proof -
  let ?as = "[note_assertion ''1'' ''a'' (OStr ''b''), note_assertion ''2'' ''b'' (OBool True),
    note_assertion ''3'' ''b'' (OStr ''b'')]"
  let ?loads = "\<lambda>s. if s = json_default (JStr ''b'') then OStr ''b'' else OBool True"
  have "history ''t'' ?as" by (simp add: history_def note_assertion_def)
  moreover have "faithful_loads ?loads ?as"
    by (simp add: faithful_loads_def note_assertion_def json_default_def json_string_def)
  moreover have "\<not> startswith ''b'' LITERAL_PREFIX" by (simp add: startswith_def LITERAL_PREFIX_def)
  moreover have "self_loops ?as ''b'' = {''3''}"
    by (auto simp: self_loops_def edges_of_def note_assertion_def edge_of_def live_edge_def)
  ultimately show ?thesis
    using backends_agree [OF list_mg.multigraph_axioms, of "''t''" ?as "''b''" ?loads] by simp
qed

text \<open>
  The two degrees must agree, says the comment on the query, and on a self-loop they do not: an
  assertion whose object is its own subject's id counts twice with NetworkX and once with Neo4j.
\<close>

lemma self_loop_counts_twice:
  "nx_degree list_multigraph (nx_run list_multigraph [note_assertion ''1'' ''a'' (OStr ''a'')]) ''a'' = 2
   \<and> neo_degree (neo_run [note_assertion ''1'' ''a'' (OStr ''a'')]) ''a'' = 1"
  by (simp add: nx_degree_def nx_run_def nx_upsert_def list_multigraph_def lg_add_edge_def lg_add_node_def
      note_assertion_def edge_of_def object_key_def live_edge_def Let_def neo_degree_def neo_run_def
      neo_upsert_def upsert_statement_def merge_node_def merge_rel_def same_rel_def obj_is_str_def start_tenant_def)

text \<open>
  An entity that is first met as an object is created without a tenant, and \<open>ON CREATE SET\<close> never
  adds one: when it later becomes a subject, the collision check lets any tenant through.
\<close>

lemma object_first_is_unowned:
  "fst (neo_upsert Answered Answered
      (neo_run [note_assertion ''1'' ''a'' (OStr ''b''), note_assertion ''2'' ''b'' (OBool True)])
      ((note_assertion ''3'' ''b'' (OBool True))\<lparr>a_tenant := ''other''\<rparr>)) = Inr ()
   \<and> fst (neo_upsert Answered Answered (neo_run [note_assertion ''2'' ''b'' (OBool True)])
      ((note_assertion ''3'' ''b'' (OBool True))\<lparr>a_tenant := ''other''\<rparr>)) = Inl (GM ValidationRejected)"
  by (simp add: note_assertion_def object_key_def neo_run_def LITERAL_PREFIX_def
      neo_upsert_def upsert_statement_def merge_node_def merge_rel_def same_rel_def obj_is_str_def
      start_tenant_def Let_def)

end
