(* ===== verification/Relay.thy ===== *)
theory Relay
  imports Applier GraphLaws
begin

text \<open>
  \<open>memory/relay.py\<close> and the claiming half of \<open>memory/outbox.py\<close>: the outbox relay, which carries
  written assertions to the graph store and only then makes them visible. The graph store is a
  parameter with the contract \<open>graph_store\<close>.
\<close>

section \<open>Pending events\<close>

record pending_event =
  pe_outbox :: string
  pe_assertion :: string
  pe_tenant :: string
  pe_namespace :: string
  pe_trace :: string

definition payload_text :: "(string \<times> json) list \<Rightarrow> string \<Rightarrow> exn + string" where
  \<comment> \<open>\<open>payload[key]\<close>; the relay's payloads hold texts\<close>
  "payload_text payload key =
     (case map_of payload key of None \<Rightarrow> Inl KeyError | Some (JStr s) \<Rightarrow> Inr s | Some _ \<Rightarrow> Inl TypeError)"

definition pending_from_row :: "outbox_row \<Rightarrow> exn + pending_event" where
  "pending_from_row r =
     bindE (payload_text (ob_event r) ''tenant_id'') (\<lambda>tenant.
     bindE (payload_text (ob_event r) ''namespace'') (\<lambda>ns.
     bindE (payload_text (ob_event r) ''trace_id'') (\<lambda>trace.
       Inr \<lparr>pe_outbox = ob_id r, pe_assertion = ob_assertion r, pe_tenant = tenant,
            pe_namespace = ns, pe_trace = trace\<rparr>)))"

definition DEFAULT_BATCH_SIZE :: nat where
  "DEFAULT_BATCH_SIZE = 50"

definition DEFAULT_MAX_ATTEMPTS :: int where
  "DEFAULT_MAX_ATTEMPTS = 5"

section \<open>Statements\<close>

definition claimable :: "int \<Rightarrow> outbox_row \<Rightarrow> bool" where
  "claimable max_attempts r \<longleftrightarrow> ob_dispatched r = None \<and> ob_attempts r < max_attempts"

definition claimed_rows :: "int \<Rightarrow> nat \<Rightarrow> db \<Rightarrow> outbox_row list" where
  \<comment> \<open>the rows \<open>CLAIM_OUTBOX\<close> selects\<close>
  "claimed_rows max_attempts batch db =
     take batch (sort_key ob_created (filter (claimable max_attempts) (db_outbox db)))"

definition claim_outbox :: "int \<Rightarrow> nat \<Rightarrow> db \<Rightarrow> outbox_row list \<times> db" where
  "claim_outbox max_attempts batch db =
     (let rows = claimed_rows max_attempts batch db
      in (rows, db\<lparr>db_outbox := map (\<lambda>r. if ob_id r \<in> ob_id ` set rows
            then r\<lparr>ob_attempts := ob_attempts r + 1\<rparr> else r) (db_outbox db)\<rparr>))"

definition reveal_assertion :: "string \<Rightarrow> string \<Rightarrow> db \<Rightarrow> db" where
  \<comment> \<open>\<open>REVEAL_ASSERTION\<close> under the tenant's policy\<close>
  "reveal_assertion tenant i db =
     db\<lparr>db_assertions := map (\<lambda>r. if row_id r = i \<and> row_tenant r = tenant then r\<lparr>row_visible := True\<rparr> else r)
          (db_assertions db)\<rparr>"

definition mark_dispatched :: "int \<Rightarrow> string \<Rightarrow> db \<Rightarrow> db" where
  "mark_dispatched ts i db =
     db\<lparr>db_outbox := map (\<lambda>r. if ob_id r = i \<and> ob_dispatched r = None then r\<lparr>ob_dispatched := Some ts\<rparr> else r)
          (db_outbox db)\<rparr>"

section \<open>The relay\<close>

record relay_env =
  re_free_load :: bool
  re_free_complete :: bool
  re_clock :: int

definition relay_claim :: "bool \<Rightarrow> int \<Rightarrow> nat \<Rightarrow> db \<Rightarrow> (exn + pending_event list) \<times> db" where
  \<comment> \<open>the events are read off the rows after the claim has committed\<close>
  "relay_claim free max_attempts batch db =
     (case transaction free (\<lambda>db. Inr (claim_outbox max_attempts batch db)) db of
        (Inl e, db') \<Rightarrow> (Inl e, db')
      | (Inr rows, db') \<Rightarrow> (mapE pending_from_row rows, db'))"

definition relay_load ::
    "(object_value \<Rightarrow> object_value) \<Rightarrow> pending_event \<Rightarrow> db \<Rightarrow> exn + stored_assertion option" where
  "relay_load jsonb event db =
     (case first (\<lambda>r. row_id r = pe_assertion event \<and> row_tenant r = pe_tenant event) (db_assertions db) of
        None \<Rightarrow> Inr None
      | Some r \<Rightarrow> bindE (read_row jsonb db (pe_tenant event) r) (\<lambda>a. Inr (Some a)))"

definition relay_complete :: "int \<Rightarrow> pending_event \<Rightarrow> db \<Rightarrow> db" where
  "relay_complete ts event db =
     mark_dispatched ts (pe_outbox event) (reveal_assertion (pe_tenant event) (pe_assertion event) db)"

definition relay_dispatch ::
    "('g \<Rightarrow> stored_assertion \<Rightarrow> (exn + unit) \<times> 'g) \<Rightarrow> (object_value \<Rightarrow> object_value) \<Rightarrow> relay_env
     \<Rightarrow> pending_event \<Rightarrow> db \<times> 'g \<Rightarrow> (exn + bool) \<times> db \<times> 'g" where
  "relay_dispatch store jsonb env event st =
     (case st of (db, g) \<Rightarrow>
      case fst (transaction (re_free_load env) (\<lambda>db. bindE (relay_load jsonb event db) (\<lambda>a. Inr (a, db))) db) of
        Inl e \<Rightarrow> (Inl e, db, g)
      | Inr None \<Rightarrow> (Inr False, db, g)
      | Inr (Some a) \<Rightarrow>
          (case store g a of
             (Inl e, g') \<Rightarrow> if e = GM StoreUnavailable then (Inr False, db, g') else (Inl e, db, g')
           | (Inr _, g') \<Rightarrow>
               (case transaction (re_free_complete env) (\<lambda>db. Inr ((), relay_complete (re_clock env) event db)) db of
                  (Inl e, db') \<Rightarrow> (Inl e, db', g')
                | (Inr _, db') \<Rightarrow> (Inr True, db', g'))))"

record relay_run =
  rr_claimed :: nat
  rr_dispatched :: nat

fun relay_loop ::
    "(nat \<Rightarrow> 'g \<Rightarrow> stored_assertion \<Rightarrow> (exn + unit) \<times> 'g) \<Rightarrow> (object_value \<Rightarrow> object_value)
     \<Rightarrow> (nat \<Rightarrow> relay_env) \<Rightarrow> nat \<Rightarrow> pending_event list \<Rightarrow> nat \<Rightarrow> db \<times> 'g \<Rightarrow> (exn + nat) \<times> db \<times> 'g" where
  \<comment> \<open>the \<open>n\<close>-th dispatch meets the \<open>n\<close>-th reply of the graph and the \<open>n\<close>-th environment\<close>
  "relay_loop store jsonb env n [] dispatched st = (Inr dispatched, st)"
| "relay_loop store jsonb env n (e # es) dispatched st =
     (case relay_dispatch (store n) jsonb (env n) e st of
        (Inl x, st') \<Rightarrow> (Inl x, st')
      | (Inr ok, st') \<Rightarrow> relay_loop store jsonb env (Suc n) es (if ok then dispatched + 1 else dispatched) st')"

definition run_once ::
    "(nat \<Rightarrow> 'g \<Rightarrow> stored_assertion \<Rightarrow> (exn + unit) \<times> 'g) \<Rightarrow> (object_value \<Rightarrow> object_value)
     \<Rightarrow> (nat \<Rightarrow> relay_env) \<Rightarrow> bool \<Rightarrow> int \<Rightarrow> nat \<Rightarrow> db \<times> 'g \<Rightarrow> (exn + relay_run) \<times> db \<times> 'g" where
  "run_once store jsonb env free max_attempts batch st =
     (case relay_claim free max_attempts batch (fst st) of
        (Inl e, db') \<Rightarrow> (Inl e, db', snd st)
      | (Inr events, db') \<Rightarrow>
          (case relay_loop store jsonb env 0 events 0 (db', snd st) of
             (Inl e, st') \<Rightarrow> (Inl e, st')
           | (Inr n, st') \<Rightarrow> (Inr \<lparr>rr_claimed = length events, rr_dispatched = n\<rparr>, st')))"

section \<open>Visibility\<close>

definition visible_ids :: "db \<Rightarrow> string set" where
  "visible_ids db = row_id ` {r \<in> set (db_assertions db). row_visible r}"

definition quiet :: "db \<Rightarrow> db \<Rightarrow> bool" where
  \<comment> \<open>nothing becomes visible\<close>
  "quiet db db' \<longleftrightarrow> visible_ids db' \<subseteq> visible_ids db"

lemma quiet_refl [simp]: "quiet db db"
  by (simp add: quiet_def)

lemma quiet_trans: "quiet a b \<Longrightarrow> quiet b c \<Longrightarrow> quiet a c"
  by (auto simp: quiet_def)

lemma quiet_same_rows: "db_assertions db' = db_assertions db \<Longrightarrow> quiet db db'"
  by (simp add: quiet_def visible_ids_def)

lemma quiet_foldE:
  assumes "foldE f db xs = Inr db'" and "\<And>db x db'. f db x = Inr db' \<Longrightarrow> quiet db db'"
  shows "quiet db db'"
proof (rule foldE_invariant [OF assms(1), of "quiet db"])
  fix s x s' assume "f s x = Inr s'" "quiet db s"
  with assms(2) [of s x s'] show "quiet db s'" using quiet_trans by blast
qed simp

lemma quiet_insert: "insert_assertion t db row = Inr db' \<Longrightarrow> quiet db db'"
  by (erule insert_assertion_Inr) (auto simp: quiet_def visible_ids_def)

lemma quiet_provenance: "insert_provenance t db row = Inr db' \<Longrightarrow> quiet db db'"
  by (drule insert_provenance_frame) (auto intro: quiet_same_rows)

lemma quiet_outbox: "insert_outbox now db params = Inr db' \<Longrightarrow> quiet db db'"
  by (drule insert_outbox_frame) (auto intro: quiet_same_rows)

lemma quiet_write_in: "write_in t now db w = Inr db' \<Longrightarrow> quiet db db'"
proof -
  assume "write_in t now db w = Inr db'"
  then obtain db1 db2 where f: "foldE (insert_assertion t) db (pw_assertions w) = Inr db1"
    "foldE (insert_provenance t) db1 (pw_citations w) = Inr db2"
    "foldE (insert_outbox now) db2 (pw_events w) = Inr db'"
    unfolding write_in_def by (elim bindE_InrE)
  have "quiet db db1" by (rule quiet_foldE [OF f(1)]) (rule quiet_insert)
  moreover have "quiet db1 db2"
    by (rule quiet_foldE [OF f(2)]) (rule quiet_provenance)
  moreover have "quiet db2 db'"
    by (rule quiet_foldE [OF f(3)]) (rule quiet_outbox)
  ultimately show ?thesis using quiet_trans by blast
qed

lemma quiet_supersede: "supersede_in t db old_id new_id ts = Inr db' \<Longrightarrow> quiet db db'"
  by (erule supersede_in_Inr)
    (auto simp: update_supersede_def Let_def guardE_Inr_iff quiet_def visible_ids_def retire_def image_iff
      split: if_splits, force+)

lemma quiet_append: "db_append db t trace kind payload ts = Inr db' \<Longrightarrow> quiet db db'"
  using db_append_step quiet_same_rows by blast

lemma quiet_apply_in: "apply_in g prepared t trace env db = Inr (ap, db') \<Longrightarrow> quiet db db'"
  unfolding apply_in_def
  by (auto elim!: bindE_InrE split: option.splits
      dest!: quiet_append quiet_write_in quiet_supersede) (meson quiet_trans)+

lemma quiet_transaction:
  assumes "\<And>x db'. body db = Inr (x, db') \<Longrightarrow> quiet db db'"
  shows "quiet db (snd (transaction free body db))"
  using assms by (auto simp: transaction_def split: sum.split prod.split)

lemma quiet_apply: "quiet db (snd (apply_governed st t trace g env db))"
proof (cases "prepare_fresh st g (ce_recorded_at env)")
  case (Inr prepared)
  have "quiet db (snd (transaction (ce_free env) (apply_in g prepared t trace env) db))"
    by (rule quiet_transaction) (rule quiet_apply_in)
  with Inr show ?thesis by (simp add: apply_governed_def)
qed (simp add: apply_governed_def)

lemma quiet_upsert: "quiet db (snd (upsert st free now as db))"
  unfolding upsert_def
  by (auto split: sum.split option.split intro!: quiet_transaction elim!: bindE_InrE dest: quiet_write_in)

lemma quiet_router: "quiet db (snd (router_write t st free now as db))"
  by (simp add: router_write_def quiet_upsert)

lemma quiet_supersede_op: "quiet db (snd (supersede st free old_id new_id ts db))"
  unfolding supersede_def by (rule quiet_transaction) (auto elim!: bindE_InrE dest: quiet_supersede)

lemma insert_entity_rows: "insert_entity t db e = Inr db' \<Longrightarrow> db_assertions db' = db_assertions db"
  by (auto simp: insert_entity_def guardE_Inr_iff split: if_splits)

lemma resolve_snd:
  "snd (resolve free subject t ns typ db) \<in>
     {db, snd (transaction free (\<lambda>db. bindE (insert_entity t db
        \<lparr>en_id = derive_entity_id t ns, en_tenant = t, en_type = typ,
          en_name = (if subject = [] then derive_entity_id t ns else subject)\<rparr>) (\<lambda>db'. Inr ((), db'))) db)}"
  by (auto simp: resolve_def ensure_entity_def Let_def split: option.split prod.split sum.split exn.split)

lemma quiet_resolve: "quiet db (snd (resolve free subject t ns typ db))"
proof -
  have "quiet db (snd (transaction free (\<lambda>db. bindE (insert_entity t db
        \<lparr>en_id = derive_entity_id t ns, en_tenant = t, en_type = typ,
          en_name = (if subject = [] then derive_entity_id t ns else subject)\<rparr>) (\<lambda>db'. Inr ((), db'))) db))"
    by (rule quiet_transaction) (auto elim!: bindE_InrE dest: insert_entity_rows intro: quiet_same_rows)
  with resolve_snd show ?thesis by (metis insertE quiet_refl singletonD)
qed

end
