(* ===== verification/Outbox.thy ===== *)
theory Outbox
  imports Relay
begin

text \<open>
  The outbox keeps its addresses: every event names the tenant that owns its assertion, whatever
  the writers do, so that the relay (which runs under the tenant its event names) can read and
  reveal the assertion.
\<close>

section \<open>Addressed events\<close>

definition addressed :: "db \<Rightarrow> bool" where
  "addressed db \<longleftrightarrow>
     (\<forall>q \<in> set (db_outbox db). \<exists>r \<in> set (db_assertions db). row_id r = ob_assertion q \<and>
        (\<exists>ns trace. map_of (ob_event q) ''tenant_id'' = Some (JStr (row_tenant r)) \<and>
           map_of (ob_event q) ''namespace'' = Some (JStr ns) \<and> map_of (ob_event q) ''trace_id'' = Some (JStr trace)))"

definition outlives :: "db \<Rightarrow> db \<Rightarrow> bool" where
  \<comment> \<open>every assertion row is still there for its tenant\<close>
  "outlives db db' \<longleftrightarrow> (\<forall>i t. owned t db i \<longrightarrow> owned t db' i)"

lemma outlives_refl [simp]: "outlives db db"
  by (simp add: outlives_def)

lemma outlives_trans: "outlives a b \<Longrightarrow> outlives b c \<Longrightarrow> outlives a c"
  by (simp add: outlives_def)

lemma outlives_step:
  assumes "tenant_step t db db'"
  shows "outlives db db'"
proof -
  obtain us vs where rows: "db_assertions db' = us @ vs" "list_all2 row_evolves (db_assertions db) us"
    using assms by (auto simp: tenant_step_def)
  have "\<exists>r' \<in> set us. row_id r' = row_id r \<and> row_tenant r' = row_tenant r" if "r \<in> set (db_assertions db)" for r
    using rows(2) that row_evolves_facts by (metis in_set_conv_nth list_all2_conv_all_nth)
  with rows(1) show ?thesis unfolding outlives_def owned_def by (metis Un_iff set_append)
qed

lemma addressed_iff:
  "addressed db \<longleftrightarrow>
     (\<forall>q \<in> set (db_outbox db). \<exists>t. owned t db (ob_assertion q) \<and>
        (\<exists>ns trace. map_of (ob_event q) ''tenant_id'' = Some (JStr t) \<and>
           map_of (ob_event q) ''namespace'' = Some (JStr ns) \<and> map_of (ob_event q) ''trace_id'' = Some (JStr trace)))"
  unfolding addressed_def owned_def by (intro ball_cong refl) metis

lemma addressed_same_outbox:
  assumes "addressed db" and "outlives db db'" and "db_outbox db' = db_outbox db"
  shows "addressed db'"
  using assms unfolding addressed_iff outlives_def by metis

section \<open>The writers keep them\<close>

lemma insert_assertion_outbox: "insert_assertion t db row = Inr db' \<Longrightarrow> db_outbox db' = db_outbox db"
  by (auto simp: insert_assertion_def Let_def guardE_Inr_iff split: if_splits)

lemma insert_provenance_rest:
  "insert_provenance t db row = Inr db' \<Longrightarrow> db_outbox db' = db_outbox db \<and> db_assertions db' = db_assertions db
     \<and> owned t db (pr_assertion row)"
  by (auto simp: insert_provenance_def Let_def guardE_Inr_iff split: if_splits)

lemma foldE_outbox:
  assumes "foldE f db xs = Inr db'" and "\<And>db x db'. f db x = Inr db' \<Longrightarrow> db_outbox db' = db_outbox db"
  shows "db_outbox db' = db_outbox db"
  by (rule foldE_invariant [OF assms(1), of "\<lambda>d. db_outbox d = db_outbox db"]) (auto dest: assms(2))

lemma provenance_owned:
  "foldE (insert_provenance t) db ps = Inr db' \<Longrightarrow>
     db_assertions db' = db_assertions db \<and> db_outbox db' = db_outbox db \<and> (\<forall>p \<in> set ps. owned t db (pr_assertion p))"
proof (induction ps arbitrary: db)
  case (Cons p ps)
  from Cons.prems obtain db1 where 1: "insert_provenance t db p = Inr db1" "foldE (insert_provenance t) db1 ps = Inr db'"
    by (auto elim: bindE_InrE)
  with Cons.IH [OF 1(2)] insert_provenance_rest [OF 1(1)] show ?case by (auto simp: owned_def)
qed simp

lemma insert_event_addressed:
  assumes "insert_outbox now db (outbox_params a t) = Inr db'" and "addressed db" and "owned t db (a_id a)"
  shows "addressed db' \<and> db_assertions db' = db_assertions db"
proof -
  let ?q = "\<lparr>ob_id = outbox_id (a_id a), ob_assertion = a_id a, ob_event = snd (snd (outbox_params a t)),
      ob_attempts = 0, ob_created = now, ob_dispatched = None\<rparr>"
  have "db' = db \<or> db' = db\<lparr>db_outbox := db_outbox db @ [?q]\<rparr>"
    using assms(1) by (auto simp: insert_outbox_def outbox_params_def guardE_Inr_iff split: if_splits)
  then consider "db' = db" | "db' = db\<lparr>db_outbox := db_outbox db @ [?q]\<rparr>" by blast
  then show ?thesis
  proof cases
    case 2
    obtain r where r: "r \<in> set (db_assertions db)" "row_id r = a_id a" "row_tenant r = t"
      using assms(3) by (auto simp: owned_def)
    have "addressed db'"
      unfolding addressed_def
    proof
      fix q assume "q \<in> set (db_outbox db')"
      then consider "q \<in> set (db_outbox db)" | "q = ?q" by (auto simp: 2)
      then show "\<exists>r \<in> set (db_assertions db'). row_id r = ob_assertion q \<and>
        (\<exists>ns trace. map_of (ob_event q) ''tenant_id'' = Some (JStr (row_tenant r)) \<and>
           map_of (ob_event q) ''namespace'' = Some (JStr ns) \<and> map_of (ob_event q) ''trace_id'' = Some (JStr trace))"
      proof cases
        case 1
        with assms(2) show ?thesis by (simp add: addressed_def 2)
      next
        case q: 2
        show ?thesis by (rule bexI [of _ r]) (simp_all add: q outbox_params_def r 2)
      qed
    qed
    then show ?thesis by (simp add: 2)
  qed (simp add: assms(2))
qed

lemma insert_events_addressed:
  "foldE (insert_outbox now) db (map (\<lambda>a. outbox_params a t) as) = Inr db' \<Longrightarrow> addressed db \<Longrightarrow>
     (\<forall>a \<in> set as. owned t db (a_id a)) \<Longrightarrow> addressed db'"
proof (induction as arbitrary: db)
  case (Cons a as)
  from Cons.prems(1) obtain db1 where 1: "insert_outbox now db (outbox_params a t) = Inr db1"
    "foldE (insert_outbox now) db1 (map (\<lambda>a. outbox_params a t) as) = Inr db'"
    by (auto elim: bindE_InrE)
  have "addressed db1" "db_assertions db1 = db_assertions db"
    using insert_event_addressed [OF 1(1)] Cons.prems(2,3) by simp_all
  with Cons.IH [OF 1(2)] Cons.prems(3) show ?case by (simp add: owned_def)
qed simp

lemma write_in_addressed:
  assumes run: "write_in t now db w = Inr db'" and prep: "prepare st as = Inr (Some w)" and t: "st_tenant st = t"
    and ok: "\<forall>a \<in> set as. assertion_ok a" and addr: "addressed db"
  shows "addressed db'"
proof -
  obtain db1 db2 where f: "foldE (insert_assertion t) db (pw_assertions w) = Inr db1"
    "foldE (insert_provenance t) db1 (pw_citations w) = Inr db2"
    "foldE (insert_outbox now) db2 (pw_events w) = Inr db'"
    using run unfolding write_in_def by (elim bindE_InrE)
  have cits: "pw_citations w = concat (map provenance_params as)" and evs: "pw_events w = map (\<lambda>a. outbox_params a t) as"
    using prep t by (auto simp: prepare_def split: if_splits elim!: bindE_InrE)
  have "outlives db db1"
    by (rule foldE_invariant [OF f(1), of "outlives db"])
      (auto dest!: insert_assertion_step intro: outlives_trans outlives_step)
  moreover have "db_outbox db1 = db_outbox db" by (rule foldE_outbox [OF f(1) insert_assertion_outbox])
  ultimately have "addressed db1" using addressed_same_outbox [OF addr] by blast
  moreover have two: "db_assertions db2 = db_assertions db1" "db_outbox db2 = db_outbox db1"
    "\<forall>p \<in> set (pw_citations w). owned t db1 (pr_assertion p)"
    using provenance_owned [OF f(2)] by auto
  ultimately have "addressed db2" by (simp add: addressed_def)
  moreover have "owned t db2 (a_id a)" if a: "a \<in> set as" for a
  proof -
    have "a_provenance a \<noteq> []" using ok a by (simp add: assertion_ok_def)
    then have "provenance_params a \<noteq> []" by (simp add: provenance_params_def)
    then obtain p where "p \<in> set (provenance_params a)" by (meson last_in_set)
    moreover from this have "pr_assertion p = a_id a" by (auto simp: provenance_params_def)
    moreover from this a have "p \<in> set (pw_citations w)" using calculation(1) by (auto simp: cits)
    ultimately have "owned t db1 (a_id a)" using two(3) by metis
    then show ?thesis by (simp add: owned_def two(1))
  qed
  ultimately show ?thesis using insert_events_addressed f(3) unfolding evs by blast
qed

lemma supersede_outbox: "supersede_in t db old_id new_id ts = Inr db' \<Longrightarrow> db_outbox db' = db_outbox db"
  by (erule supersede_in_Inr) (auto simp: update_supersede_def Let_def guardE_Inr_iff)

lemma append_outbox: "db_append db t trace kind payload ts = Inr db' \<Longrightarrow> db_outbox db' = db_outbox db"
  by (auto simp: db_append_def guardE_Inr_iff elim!: bindE_InrE)

lemma entity_outbox: "insert_entity t db e = Inr db' \<Longrightarrow> db_outbox db' = db_outbox db"
  by (auto simp: insert_entity_def guardE_Inr_iff split: if_splits)

lemma append_addressed: "db_append db t trace kind payload ts = Inr db' \<Longrightarrow> addressed db \<Longrightarrow> addressed db'"
  using append_outbox db_append_step outlives_step addressed_same_outbox by meson

lemma supersede_addressed: "supersede_in t db old_id new_id ts = Inr db' \<Longrightarrow> addressed db \<Longrightarrow> addressed db'"
  using supersede_outbox supersede_in_step outlives_step addressed_same_outbox by meson

lemma entity_addressed: "insert_entity t db e = Inr db' \<Longrightarrow> addressed db \<Longrightarrow> addressed db'"
  using entity_outbox insert_entity_step outlives_step addressed_same_outbox by meson

lemma transaction_addressed:
  assumes "addressed db" and "\<And>x db'. body db = Inr (x, db') \<Longrightarrow> addressed db'"
  shows "addressed (snd (transaction free body db))"
  using assms by (auto simp: transaction_def split: sum.split prod.split)

lemma apply_addressed:
  assumes "addressed db" and "st_tenant st = t"
  shows "addressed (snd (apply_governed st t trace g env db))"
proof (cases "prepare_fresh st g (ce_recorded_at env)")
  case (Inr prepared)
  have w: "prepare st [a] = Inr (Some w) \<and> assertion_ok a" if "prepared = Some (a, w)" for a w
    using Inr that by (auto simp: prepare_fresh_def split: if_splits elim!: bindE_InrE dest: fresh_Inr)
  have "addressed (snd (transaction (ce_free env) (apply_in g prepared t trace env) db))"
  proof (rule transaction_addressed [OF assms(1)])
    fix x db' assume "apply_in g prepared t trace env db = Inr (x, db')"
    then show "addressed db'"
      unfolding apply_in_def using assms
      by (auto elim!: bindE_InrE split: option.splits dest!: w dest: append_addressed supersede_addressed)
        (metis append_addressed write_in_addressed supersede_addressed list.set(1,2) singletonD empty_iff insert_iff)+
  qed
  with Inr show ?thesis by (simp add: apply_governed_def)
qed (simp add: apply_governed_def assms)

lemma router_addressed:
  assumes "addressed db" and "\<forall>a \<in> set as. assertion_ok a"
  shows "addressed (snd (router_write t st free now as db))"
  unfolding router_write_def upsert_def using assms
  by (auto split: sum.split option.split intro!: transaction_addressed elim!: bindE_InrE dest: write_in_addressed)

lemma supersede_op_addressed:
  assumes "addressed db"
  shows "addressed (snd (supersede st free old_id new_id ts db))"
  unfolding supersede_def
  by (rule transaction_addressed [OF assms]) (auto elim!: bindE_InrE dest: supersede_addressed [OF _ assms])

lemma resolve_addressed: "addressed db \<Longrightarrow> addressed (snd (resolve free subject t ns typ db))"
proof -
  assume a: "addressed db"
  have "addressed (snd (transaction free (\<lambda>db. bindE (insert_entity t db
        \<lparr>en_id = derive_entity_id t ns, en_tenant = t, en_type = typ,
          en_name = (if subject = [] then derive_entity_id t ns else subject)\<rparr>) (\<lambda>db'. Inr ((), db'))) db))"
    by (rule transaction_addressed [OF a]) (auto elim!: bindE_InrE dest: entity_addressed [OF _ a])
  with a resolve_snd show ?thesis by (metis insertE singletonD)
qed

end
