(* ===== verification/ApplierLaws.thy ===== *)
theory ApplierLaws
  imports Applier
begin

text \<open>
  The properties of the applier: what a write leaves in the tables and in the audit chain, that
  it refines the abstract change of beliefs, that it reads back, that it commits whenever its
  inputs are acceptable, and that a failed candidate leaves the others alone.
\<close>

section \<open>Appending never fails on what the applier appends\<close>

lemma audit_append_total:
  assumes "audit_inv jsonb db" and "json_finite (JObj payload)" and "kind \<in> set AUDIT_KINDS"
  shows "\<exists>db' e. audit_append db tenant trace kind payload ts = Inr (db', e)"
proof -
  let ?prev = "tail_digest GENESIS (read_chain jsonb db tenant)"
  note h = head_is_tail [OF assms(1), of tenant]
  obtain bs where bs: "length bs = 32" "?prev = to_hex bs" using h by (auto simp: hex_digest_def)
  have "digest_for payload ?prev = Inr (to_hex (sha256 (message payload ?prev)))"
    using digest_for_message [OF conjunct2 [OF h]] assms(2) by simp
  with assms(3) show ?thesis
    unfolding audit_append_def conjunct1 [OF h]
    by (simp add: next_link_def mk_audit_event_def bs(2) insert_audit_def)
qed

definition audit_ready :: "db \<Rightarrow> bool" where
  "audit_ready db \<longleftrightarrow> audit_inv id (db_audit db)"

lemma db_append_ready:
  "db_append db t trace kind payload ts = Inr db' \<Longrightarrow> audit_ready db \<Longrightarrow> audit_ready db'"
  using audit_inv_append [of id]
  by (auto simp: db_append_def guardE_Inr_iff audit_ready_def elim!: bindE_InrE)

lemma db_append_total:
  assumes "audit_ready db" and "t \<in> set (db_tenants db)" and "json_finite (JObj payload)"
    and "kind \<in> set AUDIT_KINDS" and "pg_text trace" and "nul_free (JObj payload)"
  obtains a where "db_append db t trace kind payload ts = Inr (db\<lparr>db_audit := a\<rparr>)"
    and "audit_ready (db\<lparr>db_audit := a\<rparr>)"
proof -
  obtain a e where a: "audit_append (db_audit db) t trace kind payload ts = Inr (a, e)"
    using audit_append_total assms(1,3,4) unfolding audit_ready_def by blast
  then have "db_append db t trace kind payload ts = Inr (db\<lparr>db_audit := a\<rparr>)"
    using assms(2,5,6) by (simp add: db_append_def)
  with db_append_ready [OF this assms(1)] that show thesis by blast
qed

section \<open>What is written, and what is recorded\<close>

lemma written_effect:
  assumes run: "apply_governed st t trace g env db = (Inr ap, db')" and ref: "refusal g = None"
    and core: "db_core db"
  shows "\<exists>v us ps. ap = \<lparr>ap_candidate = c_id (gv_candidate g), ap_assertion = Some (assertion_id g), ap_reason = None\<rparr>
    \<and> st_tenant st = t
    \<and> new_audit db db' = (''DECISION'', decision_dump (gv_record g)) # write_events g
    \<and> believe g t (ce_at env) (beliefs db) = Some (beliefs db')
    \<and> us = (if assertion_id g \<in> assertion_ids db then []
            else [stored_row (fresh_assertion g (ce_recorded_at env)) t v])
    \<and> assertion_ids db' = assertion_ids db \<union> {assertion_id g}
    \<and> (\<forall>r \<in> set us. \<exists>r' \<in> set (db_assertions db'). row_evolves r r' \<and> row_visible r' = row_visible r)
    \<and> db_provenance db' = db_provenance db @ ps
    \<and> ps \<in> {[], [\<lparr>pr_id = citation_id (assertion_id g) (c_provenance (gv_candidate g)),
           pr_assertion = assertion_id g, pr_citation = stored_citation (c_provenance (gv_candidate g))\<rparr>]}
    \<and> citation_check (stored_citation (c_provenance (gv_candidate g)))
    \<and> assertion_ok (fresh_assertion g (ce_recorded_at env)) \<and> commit_check db db' \<and> db_core db'"
proof -
  obtain v where v: "apply_in g (Some (fresh_assertion g (ce_recorded_at env),
      \<lparr>pw_assertions = [assertion_params (fresh_assertion g (ce_recorded_at env)) (st_tenant st) v],
       pw_citations = provenance_params (fresh_assertion g (ce_recorded_at env)),
       pw_events = [outbox_params (fresh_assertion g (ce_recorded_at env)) (st_tenant st)]\<rparr>)) t trace env db
      = Inr (ap, db')"
    and rest: "length v = EMBEDDING_DIM" "assertion_ok (fresh_assertion g (ce_recorded_at env))" "commit_check db db'"
    by (rule apply_governed_written [OF run ref])
  have core': "db_core db'" using apply_in_step [OF v] core by blast
  show ?thesis
    by (rule apply_in_write [OF v core], rule exI [of _ v], intro exI conjI ballI)
      (assumption | rule rest core')+
qed

text \<open>C6. An applied candidate changes the beliefs exactly as the specification says. A decision
  that is not a write leaves them alone and is answered with its reason; a write adds the
  candidate's assertion unless its id is already known, and when the hint is \<open>supersede\<close>
  gives up the incumbent in its favour, which must still hold and be the tenant's.\<close>

theorem apply_refines_belief:
  assumes "apply_governed st tenant trace g env db = (Inr ap, db')" and "db_core db"
  shows "if refusal g = None
    then ap_assertion ap = Some (assertion_id g) \<and> ap_reason ap = None
       \<and> believe g tenant (ce_at env) (beliefs db) = Some (beliefs db')
    else ap_assertion ap = None \<and> ap_reason ap = refusal g \<and> beliefs db' = beliefs db"
proof (cases "refusal g = None")
  case True
  have "ap = \<lparr>ap_candidate = c_id (gv_candidate g), ap_assertion = Some (assertion_id g), ap_reason = None\<rparr>"
    using written_effect [OF assms(1) True assms(2)] by (elim exE conjE)
  moreover have "believe g tenant (ce_at env) (beliefs db) = Some (beliefs db')"
    using written_effect [OF assms(1) True assms(2)] by (elim exE conjE)
  ultimately show ?thesis using True by simp
next
  case False
  with apply_governed_refused [OF assms(1)] beliefs_cong [of db' db] show ?thesis by simp
qed

text \<open>C21. Every apply that returns has appended, to the tenant's audit chain and in this order,
  the decision with its whole record, then for a write the \<open>WRITE\<close> event and, when an incumbent
  was retired, the \<open>SUPERSEDE\<close> event; an apply that raises has changed no table at all.\<close>

theorem apply_is_audited:
  assumes "db_core db"
  shows "case apply_governed st tenant trace g env db of
      (Inr ap, db') \<Rightarrow> new_audit db db' =
         (''DECISION'', decision_dump (gv_record g)) # (if refusal g = None then write_events g else [])
    | (Inl e, db') \<Rightarrow> db' = db"
proof (cases "apply_governed st tenant trace g env db")
  case (Pair res db')
  show ?thesis
  proof (cases res)
    case (Inl e)
    with Pair apply_governed_Inl [of st tenant trace g env db e] show ?thesis by simp
  next
    case (Inr ap)
    with Pair have run: "apply_governed st tenant trace g env db = (Inr ap, db')" by simp
    have "new_audit db db' = (''DECISION'', decision_dump (gv_record g)) # write_events g" if ok: "refusal g = None"
      using written_effect [OF run ok assms] by (elim exE conjE)
    with Inr Pair apply_governed_refused [OF run] show ?thesis by simp
  qed
qed

section \<open>Reading back\<close>

lemma sourced_fresh_citation:
  assumes "db_core db" and "i \<notin> assertion_ids db" and "ps \<in> {[], [x]}" and "pr_assertion x = i"
    and "db_provenance db' = db_provenance db @ ps" and "r \<in> set (db_assertions db')" and "row_id r = i"
    and "row_tenant r = tenant" and "assert_provenance_exists db' r"
  shows "fetch_citations db' tenant i = [pr_citation x]"
proof -
  have none: "filter (\<lambda>p. pr_assertion p = i) (db_provenance db) = []"
    using assms(1,2) by (auto simp: db_core_def filter_empty_conv)
  have "owned tenant db' i" using assms(6-8) by (auto simp: owned_def)
  moreover have "ps = [x]"
    using assms(3,5,7,9) none by (auto simp: assert_provenance_exists_def filter_empty_conv)
  ultimately show ?thesis using none assms(4,5) by (simp add: fetch_citations_def)
qed

lemma believe_new:
  "believe g tenant ts m = Some m' \<Longrightarrow> m (assertion_id g) = None \<Longrightarrow>
     \<exists>b. m' (assertion_id g) = Some b \<and> bl_until b = None \<and> bl_by b = None"
  by (auto simp: believe_def Let_def learn_def give_up_def fresh_assertion_def
      split: option.splits if_splits)

text \<open>C22. A written candidate reads back: when its id was new, the row selected by that id after
  the transaction, with its citations, is the assertion that was written, under the store's
  tenant, with its scores and its citation's alignment rounded to single precision (the columns
  are \<open>REAL\<close>), its object as the \<open>JSONB\<close> column returns it, not yet visible and still holding.\<close>

theorem applied_assertion_reads_back:
  assumes run: "apply_governed st tenant trace g env db = (Inr ap, db')" and ref: "refusal g = None"
    and sound: "sound db" and new: "assertion_id g \<notin> assertion_ids db"
  shows "\<exists>r \<in> set (db_assertions db'). row_id r = assertion_id g \<and>
    read_row jsonb db' tenant r =
      Inr ((fresh_assertion g (ce_recorded_at env))\<lparr>a_tenant := tenant,
        a_object := jsonb (c_object (gv_candidate g)),
        a_confidence := fl32 (cf_confidence (dr_confidence (gv_record g))),
        a_risk := fl32 (rv_risk (dr_risk (gv_record g))),
        a_provenance := [stored_citation (c_provenance (gv_candidate g))]\<rparr>)"
proof -
  let ?a = "fresh_assertion g (ce_recorded_at env)"
  let ?p = "stored_citation (c_provenance (gv_candidate g))"
  have core: "db_core db" using sound by (simp add: sound_def)
  obtain v us ps where bel: "believe g tenant (ce_at env) (beliefs db) = Some (beliefs db')"
    and us: "us = (if assertion_id g \<in> assertion_ids db then [] else [stored_row ?a tenant v])"
    and ev: "\<forall>r \<in> set us. \<exists>r' \<in> set (db_assertions db'). row_evolves r r' \<and> row_visible r' = row_visible r"
    and prov: "db_provenance db' = db_provenance db @ ps"
    and ps: "ps \<in> {[], [\<lparr>pr_id = citation_id (assertion_id g) (c_provenance (gv_candidate g)),
           pr_assertion = assertion_id g, pr_citation = ?p\<rparr>]}"
    and cc: "citation_check ?p" and ok: "assertion_ok ?a" and commit: "commit_check db db'" and core': "db_core db'"
    using written_effect [OF run ref core] by (elim exE conjE) (rule that)
  let ?r = "stored_row ?a tenant v"
  have id: "row_id ?r = assertion_id g" by (simp add: stored_row_def assertion_params_def fresh_assertion_def Let_def)
  obtain r where r: "r \<in> set (db_assertions db')" "row_evolves ?r r" "row_visible r = row_visible ?r"
    using ev us new by auto
  have rid: "row_id r = assertion_id g" "row_tenant r = tenant"
    using row_evolves_facts [OF r(2)] id by (simp_all add: stored_row_def assertion_params_def)
  have "beliefs db' (assertion_id g) = Some (belief_of r)" using beliefs_row [OF core' r(1)] rid by simp
  moreover have "\<exists>b. beliefs db' (assertion_id g) = Some b \<and> bl_until b = None \<and> bl_by b = None"
    using new beliefs_None_iff [of db] by (intro believe_new [OF bel]) simp
  ultimately have "row_valid_to r = None" "row_superseded_by r = None" by (auto simp: belief_of_def)
  with r(2,3) have req: "r = ?r"
    unfolding row_evolves_def by (simp add: stored_row_def assertion_params_def fresh_assertion_def Let_def)
  have "assert_provenance_exists db' r"
    using commit r(1) rid(1) new unfolding commit_check_def assertion_ids_def by metis
  from sourced_fresh_citation [OF core new ps _ prov r(1) rid this]
  have cit: "fetch_citations db' tenant (row_id r) = [?p]" by (simp add: rid)
  have "assertion_check r" using core' r(1) by (simp add: db_core_def)
  then have units: "in_unit (fl32 (a_confidence ?a))" "in_unit (fl32 (a_risk ?a))"
    by (auto simp: req assertion_check_def stored_row_def)
  have "read_row jsonb db' tenant r =
      Inr (?a\<lparr>a_tenant := tenant, a_object := jsonb (c_object (gv_candidate g)),
        a_confidence := fl32 (cf_confidence (dr_confidence (gv_record g))),
        a_risk := fl32 (rv_risk (dr_risk (gv_record g))), a_provenance := [?p]\<rparr>)"
    unfolding read_row_def cit assertion_from_row_def using units cc
    by (simp add: req stored_row_def assertion_params_def fresh_assertion_def Let_def mk_assertion_def
        assertion_ok_def mk_provenance_def provenance_ok_def citation_check_def)
  with r(1) rid show ?thesis by blast
qed

section \<open>Committing\<close>

lemma event_text:
  assumes "assertion_check (stored_row a t v)"
  shows "pg_text (a_namespace a)" "pg_text (a_trace a)" "pg_text EVENT_KIND"
    "pg_text ''kind''" "pg_text ''tenant_id''" "pg_text ''namespace''" "pg_text ''trace_id''"
  using assms by (simp_all add: assertion_check_def stored_row_def assertion_params_def EVENT_KIND_def pg_text_def)

lemma write_in_total:
  assumes "a_id a \<notin> assertion_ids db" and "assertion_check (stored_row a t v)"
    and "assertion_refs db (stored_row a t v)" and "citation_check (stored_citation p)"
    and "i \<notin> pr_id ` set (db_provenance db)" and "pg_text t"
  shows "\<exists>os. write_in t now db \<lparr>pw_assertions = [assertion_params a t v],
      pw_citations = [\<lparr>pr_id = i, pr_assertion = a_id a, pr_citation = p\<rparr>], pw_events = [outbox_params a t]\<rparr>
    = Inr (db\<lparr>db_assertions := db_assertions db @ [stored_row a t v],
         db_provenance := db_provenance db @ [\<lparr>pr_id = i, pr_assertion = a_id a, pr_citation = stored_citation p\<rparr>],
         db_outbox := os\<rparr>)"
proof -
  let ?db1 = "db\<lparr>db_assertions := db_assertions db @ [stored_row a t v]\<rparr>"
  let ?db2 = "?db1\<lparr>db_provenance := db_provenance db @
      [\<lparr>pr_id = i, pr_assertion = a_id a, pr_citation = stored_citation p\<rparr>]\<rparr>"
  have row: "(assertion_params a t v)\<lparr>row_visible := False, row_confidence := fl32 (row_confidence (assertion_params a t v)),
      row_risk := fl32 (row_risk (assertion_params a t v)), row_embedding := map fl32 (row_embedding (assertion_params a t v))\<rparr>
      = stored_row a t v"
    by (simp add: stored_row_def assertion_params_def)
  have id: "row_id (stored_row a t v) = a_id a" "row_tenant (stored_row a t v) = t"
    by (simp_all add: stored_row_def assertion_params_def)
  have "insert_assertion t db (assertion_params a t v) = Inr ?db1"
    unfolding insert_assertion_def Let_def row id using assms(1-3) by (simp add: assertion_ids_def)
  moreover have "insert_provenance t ?db1 \<lparr>pr_id = i, pr_assertion = a_id a, pr_citation = p\<rparr> = Inr ?db2"
    using assms(4,5) id by (simp add: insert_provenance_def Let_def owned_def stored_citation_def)
  moreover have "\<exists>os. insert_outbox now ?db2 (outbox_params a t) = Inr (?db2\<lparr>db_outbox := os\<rparr>)"
    using id assms(2,6) by (auto simp: insert_outbox_def outbox_params_def event_text [OF assms(2)] intro: exI [of _ "db_outbox db"])
  ultimately show ?thesis by (auto simp: write_in_def)
qed

lemma supersede_in_total:
  assumes "db_core db" and "r \<in> set (db_assertions db)" and "live_row t old_id r"
    and "row_valid_from r \<le> ts" and "new_id \<in> assertion_ids db" and "new_id \<noteq> old_id"
  shows "\<exists>rows. supersede_in t db old_id new_id ts = Inr (db\<lparr>db_assertions := rows\<rparr>)"
proof -
  let ?hit = "filter (live_row t old_id) (db_assertions db)"
  have "\<forall>q \<in> set ?hit. assertion_check (retire ts new_id q)"
  proof
    fix q assume "q \<in> set ?hit"
    then have q: "q \<in> set (db_assertions db)" "row_id q = old_id" by (auto simp: live_row_def)
    moreover have "row_id r = old_id" using assms(3) by (simp add: live_row_def)
    ultimately have "q = r"
      using assms(1,2) by (auto simp: db_core_def distinct_map inj_on_def)
    with assms(1,2,4,6) q(2) show "assertion_check (retire ts new_id q)"
      by (auto simp: db_core_def assertion_check_def retire_def)
  qed
  moreover have "?hit \<noteq> []" using assms(2,3) by (auto simp: filter_empty_conv)
  ultimately show ?thesis
    using assms(5) by (auto simp: supersede_in_def update_supersede_def Let_def assertion_ids_def)
qed

definition storable :: "pg_store \<Rightarrow> string \<Rightarrow> string \<Rightarrow> governed \<Rightarrow> call_env \<Rightarrow> db \<Rightarrow> bool" where
  \<comment> \<open>what the statements of a write rely on: a valid new assertion of a known entity, whose texts and
     documents PostgreSQL can store (no NUL, no number out of range) and whose indexed texts are short,
     whose span fits the column, an embedding of the right width and of single precision, and, when it
     retires an incumbent, an incumbent that still holds and began in the past\<close>
  "storable st tenant trace g env db \<longleftrightarrow>
     (let a = fresh_assertion g (ce_recorded_at env); p = c_provenance (gv_candidate g) in
      st_tenant st = tenant \<and> assertion_ok a \<and> json_within (2 ^ 1024) (obj_json (a_object a))
      \<and> json_within (2 ^ 1024) (JObj (decision_dump (gv_record g)))
      \<and> pg_text tenant \<and> pg_text trace \<and> length trace \<le> 500
      \<and> pg_text (a_namespace a) \<and> pg_text (a_predicate a) \<and> pg_text (a_trace a)
      \<and> pg_text (pv_hash p) \<and> length (pv_hash p) \<le> 500 \<and> pg_text (pv_verbatim p)
      \<and> snd (pv_span p) < 2 ^ 31
      \<and> a_id a \<notin> assertion_ids db
      \<and> citation_id (a_id a) p \<notin> pr_id ` set (db_provenance db)
      \<and> gv_subject g \<in> en_id ` set (db_entities db)
      \<and> (\<exists>v. st_embed st [embed_text (a_predicate a) (a_object a)] = Inr [v] \<and> length v = EMBEDDING_DIM
          \<and> (\<forall>x \<in> set v. \<bar>fl32 x\<bar> < 2 ^ 128))
      \<and> (case retires g of None \<Rightarrow> True
          | Some old_id \<Rightarrow> pg_text old_id \<and>
              (\<exists>r \<in> set (db_assertions db). live_row tenant old_id r \<and> row_valid_from r \<le> ce_at env)))"

definition pg_uuid :: "string \<Rightarrow> bool" where
  "pg_uuid s \<longleftrightarrow> (\<exists>bs. length bs = 16 \<and> s = uuid_text bs)"

definition acceptable :: "pg_store \<Rightarrow> string \<Rightarrow> string \<Rightarrow> governed \<Rightarrow> call_env \<Rightarrow> db \<Rightarrow> bool" where
  \<comment> \<open>and every id is a UUID\<close>
  "acceptable st tenant trace g env db \<longleftrightarrow>
     storable st tenant trace g env db \<and> pg_uuid tenant \<and> pg_uuid (gv_subject g)
     \<and> (case retires g of None \<Rightarrow> True | Some old_id \<Rightarrow> pg_uuid old_id)"

lemma hex_text: "pg_text (to_hex bs)"
proof -
  have "hex_val (CHR 0x00) = None" by code_simp
  then have "hex_digit n \<noteq> CHR 0x00" if "n < 16" for n
    using hex_val_digit [OF that] by auto
  moreover have "unat b div 16 < 16" "unat b mod 16 < 16" for b :: byte
    using unsigned_less [of b, where ?'a = nat] by (simp_all add: less_mult_imp_div_less)
  ultimately have "CHR 0x00 \<notin> set (hex_byte b)" for b unfolding hex_byte_def by (metis empty_iff empty_set set_ConsD)
  then show ?thesis by (simp add: pg_text_def to_hex_def)
qed

lemma uuid5_text: "pg_text (uuid5 s)"
  using hex_text by (simp add: uuid5_def uuid_text_def pg_text_def Let_def)

lemma storable_row:
  assumes "storable st t trace g env db" and "t \<in> set (db_tenants db)" and "length v = EMBEDDING_DIM"
    and "\<forall>x \<in> set v. \<bar>fl32 x\<bar> < 2 ^ 128"
  shows "assertion_check (stored_row (fresh_assertion g (ce_recorded_at env)) t v)
    \<and> assertion_refs db (stored_row (fresh_assertion g (ce_recorded_at env)) t v)
    \<and> citation_check (stored_citation (c_provenance (gv_candidate g)))"
  using assms
  by (auto simp: storable_def Let_def assertion_check_def assertion_refs_def citation_check_def
      stored_row_def assertion_params_def fresh_assertion_def stored_citation_def assertion_ok_def
      provenance_ok_def fl32.rnd_unit json_within_nul_free json_within_finite)

lemma apply_in_total:
  assumes acc: "storable st t trace g env db" and t: "t \<in> set (db_tenants db)" and v: "length v = EMBEDDING_DIM"
    and single: "\<forall>x \<in> set v. \<bar>fl32 x\<bar> < 2 ^ 128" and core: "db_core db" and ready: "audit_ready db"
  defines "a \<equiv> fresh_assertion g (ce_recorded_at env)"
  shows "\<exists>ap db'. apply_in g (Some (a, \<lparr>pw_assertions = [assertion_params a t v],
       pw_citations = provenance_params a, pw_events = [outbox_params a t]\<rparr>)) t trace env db = Inr (ap, db')
    \<and> (\<exists>p \<in> set (db_provenance db'). pr_assertion p = a_id a)"
proof -
  let ?p = "c_provenance (gv_candidate g)"
  let ?i = "citation_id (a_id a) ?p"
  have kinds: "''DECISION'' \<in> set AUDIT_KINDS" "''WRITE'' \<in> set AUDIT_KINDS" "''SUPERSEDE'' \<in> set AUDIT_KINDS"
    by (simp_all add: AUDIT_KINDS_def)
  have fin: "json_finite (JObj (write_payload a))" "\<And>x y. json_finite (JObj (supersede_payload x y))"
    by (simp_all add: write_payload_def supersede_payload_def)
  have acc': "a_id a \<notin> assertion_ids db" "?i \<notin> pr_id ` set (db_provenance db)" "pg_text t" "pg_text trace"
    "nul_free (JObj (decision_dump (gv_record g)))" "pg_text (a_predicate a)"
    using acc json_within_nul_free by (auto simp: storable_def Let_def a_def simp del: json_within.simps nul_free.simps)
  have id: "a_id a = assertion_id g" by (simp add: a_def fresh_assertion_def Let_def)
  have nul: "nul_free (JObj (write_payload a))" "\<And>x. pg_text x \<Longrightarrow> nul_free (JObj (supersede_payload x (a_id a)))"
    using acc'(6) uuid5_text by (simp_all add: write_payload_def supersede_payload_def id assertion_id_def pg_text_def)
  obtain au1 where d: "db_append db t trace ''DECISION'' (decision_dump (gv_record g)) (ce_at env) = Inr (db\<lparr>db_audit := au1\<rparr>)"
    and r1: "audit_ready (db\<lparr>db_audit := au1\<rparr>)"
    by (rule db_append_total [OF ready t decision_dump_finite kinds(1) acc'(4,5)])
  let ?db1 = "db\<lparr>db_audit := au1\<rparr>"
  have prov: "provenance_params a = [\<lparr>pr_id = ?i, pr_assertion = a_id a, pr_citation = ?p\<rparr>]"
    using id by (simp add: a_def provenance_params_fresh)
  have row: "assertion_check (stored_row a t v)" "citation_check (stored_citation ?p)"
    using storable_row [OF acc t v single] by (simp_all add: a_def)
  have "assertion_refs ?db1 (stored_row a t v)"
    using storable_row [OF acc t v single] by (auto simp: a_def assertion_refs_def split: option.splits)
  then obtain os where w: "write_in t (ce_now env) ?db1 \<lparr>pw_assertions = [assertion_params a t v],
      pw_citations = provenance_params a, pw_events = [outbox_params a t]\<rparr>
    = Inr (?db1\<lparr>db_assertions := db_assertions ?db1 @ [stored_row a t v],
         db_provenance := db_provenance ?db1 @ [\<lparr>pr_id = ?i, pr_assertion = a_id a, pr_citation = stored_citation ?p\<rparr>],
         db_outbox := os\<rparr>)" (is "_ = Inr ?db2")
    using write_in_total [of a ?db1 t v ?p ?i "ce_now env"] row acc'(1-3) unfolding prov
    by (auto simp: assertion_ids_def)
  obtain au3 where e: "db_append ?db2 t trace ''WRITE'' (write_payload a) (ce_at env) = Inr (?db2\<lparr>db_audit := au3\<rparr>)"
    and r3: "audit_ready (?db2\<lparr>db_audit := au3\<rparr>)"
    by (rule db_append_total [OF _ _ fin(1) kinds(2) acc'(4) nul(1), of ?db2 t]) (use r1 t in \<open>simp_all add: audit_ready_def\<close>)
  let ?db3 = "?db2\<lparr>db_audit := au3\<rparr>"
  have core3: "db_core ?db3" using core db_append_step [OF d] write_in_step [OF w] db_append_step [OF e] by blast
  have cit: "\<exists>p \<in> set (db_provenance ?db3). pr_assertion p = a_id a" by simp
  show ?thesis
  proof (cases "retires g")
    case None
    with d w e cit show ?thesis by (auto simp: apply_in_def)
  next
    case (Some old_id)
    then obtain r where r: "r \<in> set (db_assertions db)" "live_row t old_id r" "row_valid_from r \<le> ce_at env"
      and old: "pg_text old_id"
      using acc by (auto simp: storable_def Let_def simp del: json_within.simps)
    have "a_id a \<noteq> old_id" using acc'(1) r(1,2) by (auto simp: live_row_def assertion_ids_def)
    moreover have "a_id a \<in> assertion_ids ?db3"
      by (simp add: assertion_ids_def stored_row_def assertion_params_def)
    ultimately obtain rows where s: "supersede_in t ?db3 old_id (a_id a) (ce_at env) = Inr (?db3\<lparr>db_assertions := rows\<rparr>)"
      using supersede_in_total [OF core3 _ r(2,3)] r(1) by auto
    let ?db4 = "?db3\<lparr>db_assertions := rows\<rparr>"
    obtain au5 where "db_append ?db4 t trace ''SUPERSEDE'' (supersede_payload old_id (a_id a)) (ce_at env)
        = Inr (?db4\<lparr>db_audit := au5\<rparr>)"
      by (rule db_append_total [OF _ _ fin(2) kinds(3) acc'(4) nul(2) [OF old], of ?db4 t]) (use r3 t in \<open>simp_all add: audit_ready_def\<close>)
    with d w e s cit Some show ?thesis by (auto simp: apply_in_def)
  qed
qed

lemma storable_commits:
  assumes "refusal g = None" and "storable st tenant trace g env db" and "ce_free env" and "sound db"
    and "audit_ready db" and "tenant \<in> set (db_tenants db)"
  shows "\<exists>db'. apply_governed st tenant trace g env db =
    (Inr \<lparr>ap_candidate = c_id (gv_candidate g), ap_assertion = Some (assertion_id g), ap_reason = None\<rparr>, db')"
proof -
  let ?a = "fresh_assertion g (ce_recorded_at env)"
  have core: "db_core db" using assms(4) by (simp add: sound_def)
  obtain v where v: "st_embed st [embed_text (a_predicate ?a) (a_object ?a)] = Inr [v]" "length v = EMBEDDING_DIM"
      "\<forall>x \<in> set v. \<bar>fl32 x\<bar> < 2 ^ 128"
    and ok: "assertion_ok ?a" "st_tenant st = tenant"
    using assms(2) by (auto simp: storable_def Let_def simp del: json_within.simps)
  have p: "prepare_fresh st g (ce_recorded_at env) = Inr (Some (?a, \<lparr>pw_assertions = [assertion_params ?a tenant v],
       pw_citations = provenance_params ?a, pw_events = [outbox_params ?a tenant]\<rparr>))"
    using assms(1) v ok by (simp add: prepare_fresh_def fresh_def mk_assertion_def prepare_def embed_batch_def)
  obtain ap db' where run: "apply_in g (Some (?a, \<lparr>pw_assertions = [assertion_params ?a tenant v],
       pw_citations = provenance_params ?a, pw_events = [outbox_params ?a tenant]\<rparr>)) tenant trace env db = Inr (ap, db')"
    and cit: "\<exists>p \<in> set (db_provenance db'). pr_assertion p = a_id ?a"
    using apply_in_total [OF assms(2,6) v(2,3) core assms(5)] by blast
  have id: "a_id ?a = assertion_id g" by (simp add: fresh_assertion_def Let_def)
  have ids: "assertion_ids db' = assertion_ids db \<union> {assertion_id g}"
    and ap: "ap = \<lparr>ap_candidate = c_id (gv_candidate g), ap_assertion = Some (assertion_id g), ap_reason = None\<rparr>"
    by (rule apply_in_write [OF run core], assumption)+
  have "commit_check db db'"
    unfolding commit_check_def
  proof
    fix r assume "r \<in> set (db_assertions db')"
    then have "row_id r \<in> assertion_ids db \<union> {assertion_id g}" using ids by (auto simp: assertion_ids_def)
    with cit id show "row_id r \<in> row_id ` set (db_assertions db) \<or> assert_provenance_exists db' r"
      by (auto simp: assertion_ids_def assert_provenance_exists_def)
  qed
  with p run ap assms(3) show ?thesis by (simp add: apply_governed_def transaction_def)
qed

text \<open>C23. A write that should succeed does: given a database that answers, a free connection, a sound
  database with a verifying chain, a known tenant and an acceptable candidate (\<open>acceptable\<close> spells it
  out: valid, new, of a known entity, its texts free of NUL, its numbers storable, its ids UUIDs, its
  embedding finite in single precision, its incumbent still live), the apply returns the new
  assertion's id.\<close>

theorem acceptable_write_commits:
  assumes "refusal g = None" and "acceptable st tenant trace g env db" and "ce_free env" and "sound db"
    and "audit_ready db" and "tenant \<in> set (db_tenants db)"
  shows "\<exists>db'. apply_governed st tenant trace g env db =
    (Inr \<lparr>ap_candidate = c_id (gv_candidate g), ap_assertion = Some (assertion_id g), ap_reason = None\<rparr>, db')"
  using assms by (intro storable_commits) (simp_all add: acceptable_def)

section \<open>A proposal's candidates, one after the other\<close>

lemma apply_loop_append:
  "apply_loop st t trace (xs @ ys) res db =
     (case apply_loop st t trace xs res db of (res', db') \<Rightarrow> apply_loop st t trace ys res' db')"
  by (induction xs arbitrary: res db) (auto split: prod.splits sum.splits)

lemma apply_loop_failures:
  "apply_loop st t trace xs (res\<lparr>ares_failures := fs @ ares_failures res\<rparr>) db =
     (case apply_loop st t trace xs res db of
        (res', db') \<Rightarrow> (res'\<lparr>ares_failures := fs @ ares_failures res'\<rparr>, db'))"
proof (induction xs arbitrary: res db)
  case (Cons x xs)
  obtain g env where x: "x = (g, env)" by (cases x)
  obtain r db1 where r: "apply_governed st t trace g env db = (r, db1)" by (cases "apply_governed st t trace g env db")
  show ?case
  proof (cases r)
    case (Inl e)
    with x r Cons.IH [of "res\<lparr>ares_failures := ares_failures res @ [(c_id (gv_candidate g), e)]\<rparr>" db1]
    show ?thesis by simp
  next
    case (Inr a)
    have comm: "res\<lparr>ares_failures := fs @ ares_failures res, ares_applied := dict_put (ap_candidate a) a (ares_applied res)\<rparr>
        = res\<lparr>ares_applied := dict_put (ap_candidate a) a (ares_applied res), ares_failures := fs @ ares_failures res\<rparr>"
      by simp
    from x r Inr Cons.IH [of "res\<lparr>ares_applied := dict_put (ap_candidate a) a (ares_applied res)\<rparr>" db1]
    show ?thesis by (simp add: comm)
  qed
qed simp

lemma apply_loop_step:
  "tenant_step t db (snd (apply_loop st t trace xs res db))
   \<and> (sound db \<longrightarrow> sound (snd (apply_loop st t trace xs res db)))"
proof (induction xs arbitrary: res db)
  case (Cons x xs)
  obtain g env where x: "x = (g, env)" by (cases x)
  obtain r db1 where r: "apply_governed st t trace g env db = (r, db1)" by (cases "apply_governed st t trace g env db")
  have s: "tenant_step t db db1 \<and> (sound db \<longrightarrow> sound db1)"
    using apply_governed_step [of t db st trace g env] r by simp
  obtain res' where "apply_loop st t trace (x # xs) res db = apply_loop st t trace xs res' db1"
    using x r by (cases r) auto
  with s Cons.IH [of db1 res'] show ?case using tenant_step_trans by auto
qed simp

text \<open>C29. Applying a proposal's candidates can only add to the record: no row, citation, entity or
  audit event is removed, the facts of a row never change, a retired row stays as it was
  retired, only the tenant's own rows and chain are touched, and the tables stay sound (every
  assertion cited, every reference resolved, every check kept).\<close>

theorem applying_only_adds:
  "tenant_step tenant db (snd (apply_all st tenant trace governed db))
   \<and> (sound db \<longrightarrow> sound (snd (apply_all st tenant trace governed db)))"
  unfolding apply_all_def by (rule apply_loop_step)

text \<open>C30. A candidate whose apply raises is reported and costs nothing else: the tables and the
  outcomes of the others are what they would be without it.\<close>

theorem failed_apply_is_isolated:
  assumes "fst (apply_governed st tenant trace g env (snd (apply_all st tenant trace xs db))) = Inl e"
  shows "snd (apply_all st tenant trace (xs @ (g, env) # ys) db) = snd (apply_all st tenant trace (xs @ ys) db)
    \<and> ares_applied (fst (apply_all st tenant trace (xs @ (g, env) # ys) db)) =
        ares_applied (fst (apply_all st tenant trace (xs @ ys) db))
    \<and> (c_id (gv_candidate g), e) \<in> set (ares_failures (fst (apply_all st tenant trace (xs @ (g, env) # ys) db)))"
proof -
  let ?r0 = "\<lparr>ares_applied = [], ares_failures = []\<rparr>"
  obtain res db1 where x: "apply_loop st tenant trace xs ?r0 db = (res, db1)"
    by (cases "apply_loop st tenant trace xs ?r0 db")
  have bad: "apply_governed st tenant trace g env db1 = (Inl e, db1)"
    using assms x apply_governed_Inl [of st tenant trace g env db1 e]
    by (cases "apply_governed st tenant trace g env db1") (auto simp: apply_all_def)
  let ?f = "(c_id (gv_candidate g), e)"
  obtain res' db2 where y: "apply_loop st tenant trace ys (res\<lparr>ares_failures := []\<rparr>) db1 = (res', db2)"
    by (cases "apply_loop st tenant trace ys (res\<lparr>ares_failures := []\<rparr>) db1")
  have "apply_loop st tenant trace ys res db1 =
      (res'\<lparr>ares_failures := ares_failures res @ ares_failures res'\<rparr>, db2)"
    using apply_loop_failures [where res = "res\<lparr>ares_failures := []\<rparr>" and fs = "ares_failures res" and xs = ys and db = db1] y
    by simp
  moreover have "apply_loop st tenant trace ys (res\<lparr>ares_failures := ares_failures res @ [?f]\<rparr>) db1 =
      (res'\<lparr>ares_failures := (ares_failures res @ [?f]) @ ares_failures res'\<rparr>, db2)"
    using apply_loop_failures [where res = "res\<lparr>ares_failures := []\<rparr>" and fs = "ares_failures res @ [?f]" and xs = ys and db = db1] y
    by simp
  ultimately show ?thesis using x bad by (simp add: apply_all_def apply_loop_append)
qed

section \<open>A concrete run\<close>

definition tea_candidate :: candidate where
  "tea_candidate = \<lparr>c_id = ''c1'', c_tenant = ''t'', c_namespace = ''user:u'', c_subject = ''ann'',
     c_predicate = ''likes'', c_object = OStr ''tea'', c_valid_from = None, c_valid_to = None,
     c_provenance = \<lparr>pv_hash = ''h'', pv_span = (0, 3), pv_tier = VERIFIED_USER, pv_verbatim = ''tea'',
       pv_alignment = 1, pv_captured_at = 5\<rparr>,
     c_extracted_by = ''m'', c_prompt_version = ''2'', c_trace = ''tr''\<rparr>"

definition tea_record :: decision_record where
  "tea_record = \<lparr>dr_decision = AUTO_WRITE, dr_codes = [],
     dr_confidence = \<lparr>cf_entropy = 0, cf_grounding = 1, cf_schema_fit = 1, cf_corroboration = 0,
       cf_consistency = 1, cf_confidence = 1, cf_weights_version = ''v1''\<rparr>,
     dr_risk = \<lparr>rv_level = LOW, rv_risk = 0, rv_features = [], rv_obligations = []\<rparr>,
     dr_conflict = \<lparr>cr_kind = KIND_NONE, cr_incumbent = None, cr_entailment = 0, cr_contradiction = 0,
       cr_cosine = 0, cr_hint = Coexist\<rparr>,
     dr_thresholds_version = ''v1'', dr_policy_version = ''p'', dr_escalated_from = None\<rparr>"

definition tea_governed :: governed where
  "tea_governed = \<lparr>gv_candidate = tea_candidate, gv_subject = ''e'', gv_record = tea_record, gv_incumbent = None\<rparr>"

definition tea_store :: pg_store where
  "tea_store = \<lparr>st_embed = (\<lambda>ts. Inr [replicate EMBEDDING_DIM 0]), st_tenant = ''t''\<rparr>"

definition tea_call :: call_env where
  "tea_call = \<lparr>ce_free = True, ce_recorded_at = 6, ce_at = 7, ce_now = 8\<rparr>"

definition tea_db :: db where
  "tea_db = \<lparr>db_tenants = [''t''], db_entities = [\<lparr>en_id = ''e'', en_tenant = ''t'', en_type = ''user'', en_name = ''ann''\<rparr>],
     db_assertions = [], db_provenance = [], db_outbox = [], db_audit = \<lparr>at_rows = [], at_next = 1\<rparr>\<rparr>"

lemma tea_db_sound: "sound tea_db" "audit_ready tea_db" "''t'' \<in> set (db_tenants tea_db)"
  by (simp_all add: tea_db_def sound_def db_core_def sourced_def audit_ready_def audit_inv_def read_chain_def)

lemma tea_retires: "refusal tea_governed = None" "retires tea_governed = None"
  by (simp_all add: refusal_def retires_def tea_governed_def tea_record_def WRITES_def MERGE_def)

lemma tea_storable: "storable tea_store ''t'' ''tr'' tea_governed tea_call tea_db"
  unfolding storable_def Let_def
  by (simp add: retires_def tea_store_def fresh_assertion_def Let_def assertion_ok_def tea_governed_def
      tea_candidate_def tea_record_def in_unit_def provenance_ok_def span_ok_def tea_db_def assertion_ids_def
      pg_text_def decision_dump_def confidence_dump_def risk_dump_def conflict_dump_def float_field_def
      fl32.rnd_zero)

lemma tea_commits: "\<exists>db'. apply_governed tea_store ''t'' ''tr'' tea_governed tea_call tea_db =
    (Inr \<lparr>ap_candidate = ''c1'', ap_assertion = Some (assertion_id tea_governed), ap_reason = None\<rparr>, db')"
  using storable_commits [OF tea_retires(1) tea_storable _ tea_db_sound]
  by (simp add: tea_call_def tea_governed_def tea_candidate_def)

theorem apply_refines_belief_witness:
  "\<exists>ap db'. apply_governed tea_store ''t'' ''tr'' tea_governed tea_call tea_db = (Inr ap, db')
    \<and> believe tea_governed ''t'' 7 (beliefs tea_db) = Some (beliefs db')"
proof -
  obtain ap db' where run: "apply_governed tea_store ''t'' ''tr'' tea_governed tea_call tea_db = (Inr ap, db')"
    using tea_commits by blast
  have "db_core tea_db" using tea_db_sound(1) by (simp add: sound_def)
  with apply_refines_belief [OF run] run show ?thesis by (simp add: tea_retires) (simp add: tea_call_def)
qed

theorem apply_is_audited_witness:
  "\<exists>db'. snd (apply_governed tea_store ''t'' ''tr'' tea_governed tea_call tea_db) = db'
    \<and> map fst (new_audit tea_db db') = [''DECISION'', ''WRITE'']"
proof -
  have "db_core tea_db" using tea_db_sound(1) by (simp add: sound_def)
  from apply_is_audited [OF this, where st = tea_store and tenant = "''t''" and trace = "''tr''"
      and g = tea_governed and env = tea_call] tea_commits
  show ?thesis by (auto simp: tea_retires write_events_def)
qed

theorem applied_assertion_reads_back_witness:
  "\<exists>ap db' r a. apply_governed tea_store ''t'' ''tr'' tea_governed tea_call tea_db = (Inr ap, db')
    \<and> r \<in> set (db_assertions db') \<and> read_row id db' ''t'' r = Inr a \<and> a_object a = OStr ''tea''
    \<and> a_confidence a = fl32 1"
proof -
  obtain ap db' where run: "apply_governed tea_store ''t'' ''tr'' tea_governed tea_call tea_db = (Inr ap, db')"
    using tea_commits by blast
  have "assertion_id tea_governed \<notin> assertion_ids tea_db" by (simp add: tea_db_def assertion_ids_def)
  from applied_assertion_reads_back [OF run tea_retires(1) tea_db_sound(1) this, of id] run
  show ?thesis by (auto simp: tea_governed_def tea_candidate_def tea_record_def)
qed

text \<open>The same write with ids as the database has them.\<close>

definition office_id :: "byte \<Rightarrow> string" where
  "office_id b = uuid_text (replicate 16 b)"

definition office_governed :: governed where
  "office_governed = tea_governed\<lparr>gv_candidate := tea_candidate\<lparr>c_tenant := office_id 1\<rparr>, gv_subject := office_id 2\<rparr>"

definition office_store :: pg_store where
  "office_store = tea_store\<lparr>st_tenant := office_id 1\<rparr>"

definition office_db :: db where
  "office_db = tea_db\<lparr>db_tenants := [office_id 1],
     db_entities := [\<lparr>en_id = office_id 2, en_tenant = office_id 1, en_type = ''user'', en_name = ''ann''\<rparr>]\<rparr>"

lemma office_sound: "sound office_db" "audit_ready office_db" "office_id 1 \<in> set (db_tenants office_db)"
  by (simp_all add: office_db_def tea_db_def sound_def db_core_def sourced_def audit_ready_def audit_inv_def read_chain_def)

lemma office_acceptable: "acceptable office_store (office_id 1) ''tr'' office_governed tea_call office_db"
proof -
  have u: "pg_uuid (office_id b)" for b
    unfolding pg_uuid_def office_id_def by (intro exI [of _ "replicate 16 b"]) simp
  have t: "pg_text (office_id b)" for b
    using hex_text by (simp add: office_id_def uuid_text_def pg_text_def)
  have "storable office_store (office_id 1) ''tr'' office_governed tea_call office_db"
    using tea_storable t unfolding storable_def Let_def
    by (simp add: office_store_def office_governed_def office_db_def retires_def tea_governed_def tea_candidate_def
        tea_record_def tea_store_def tea_db_def fresh_assertion_def Let_def assertion_ok_def assertion_ids_def assertion_id_def
        del: json_within.simps)
  then show ?thesis
    using u by (simp add: acceptable_def office_governed_def retires_def tea_governed_def tea_record_def)
qed

theorem acceptable_write_commits_witness:
  "fst (apply_governed office_store (office_id 1) ''tr'' office_governed tea_call office_db) =
    Inr \<lparr>ap_candidate = ''c1'', ap_assertion = Some (assertion_id office_governed), ap_reason = None\<rparr>"
proof -
  have "refusal office_governed = None"
    by (simp add: refusal_def office_governed_def tea_governed_def tea_record_def WRITES_def MERGE_def)
  from acceptable_write_commits [OF this office_acceptable _ office_sound]
  show ?thesis by (auto simp: tea_call_def office_governed_def tea_governed_def tea_candidate_def)
qed

theorem failed_apply_is_isolated_witness:
  "snd (apply_all (tea_store\<lparr>st_embed := (\<lambda>_. Inl (GM ProviderUnavailable))\<rparr>) ''t'' ''tr''
     [(tea_governed, tea_call)] tea_db) = tea_db"
proof -
  let ?st = "tea_store\<lparr>st_embed := (\<lambda>_. Inl (GM ProviderUnavailable))\<rparr>"
  have none: "apply_all ?st ''t'' ''tr'' [] tea_db = (\<lparr>ares_applied = [], ares_failures = []\<rparr>, tea_db)"
    by (simp add: apply_all_def)
  have "assertion_ok (fresh_assertion tea_governed (ce_recorded_at tea_call))"
    using tea_storable by (simp add: storable_def Let_def del: json_within.simps)
  then have bad: "fst (apply_governed ?st ''t'' ''tr'' tea_governed tea_call (snd (apply_all ?st ''t'' ''tr'' [] tea_db)))
      = Inl (GM ProviderUnavailable)"
    by (simp add: none apply_governed_def prepare_fresh_def tea_retires fresh_def mk_assertion_def prepare_def
        embed_batch_def)
  from failed_apply_is_isolated [OF bad, of "[]"] none show ?thesis by simp
qed

theorem applying_only_adds_witness:
  "sound (snd (apply_all tea_store ''t'' ''tr'' [(tea_governed, tea_call)] tea_db))"
  using applying_only_adds [of "''t''" tea_db tea_store "''tr''" "[(tea_governed, tea_call)]"] tea_db_sound(1)
  by blast

end
