(* ===== verification/Reading.thy ===== *)
theory Reading
  imports ApplierLaws
begin

text \<open>
  Reading the store back: every row of a sound database reads as a valid assertion of its tenant,
  so a search answers, with the nearest of the rows it may show and its plan visits.
\<close>

definition fetched :: "(object_value \<Rightarrow> object_value) \<Rightarrow> db \<Rightarrow> string \<Rightarrow> assertion_row \<Rightarrow> stored_assertion" where
  \<comment> \<open>the assertion a row of the tenant denotes\<close>
  "fetched jsonb db tenant r =
     \<lparr>a_id = row_id r, a_tenant = row_tenant r, a_namespace = row_namespace r,
      a_subject = row_subject r, a_predicate = row_predicate r, a_object = jsonb (row_object r),
      a_confidence = row_confidence r, a_risk = row_risk r, a_valid_from = row_valid_from r,
      a_valid_to = row_valid_to r, a_recorded_at = row_recorded_at r,
      a_retracted_at = row_retracted_at r, a_superseded_by = row_superseded_by r,
      a_provenance = fetch_citations db tenant (row_id r), a_corroboration = row_corroboration r,
      a_trace = row_trace r, a_visible = row_visible r\<rparr>"

lemma fetched_id [simp]: "a_id (fetched jsonb db t r) = row_id r"
  and fetched_tenant [simp]: "a_tenant (fetched jsonb db t r) = row_tenant r"
  and fetched_subject [simp]: "a_subject (fetched jsonb db t r) = row_subject r"
  by (simp_all add: fetched_def)

lemma sound_row_reads:
  assumes "sound db" and r: "r \<in> set (db_assertions db)"
  shows "read_row jsonb db (row_tenant r) r = Inr (fetched jsonb db (row_tenant r) r)
    \<and> assertion_ok (fetched jsonb db (row_tenant r) r)"
proof -
  let ?ps = "fetch_citations db (row_tenant r) (row_id r)"
  have core: "db_core db" and src: "assert_provenance_exists db r"
    using assms by (auto simp: sound_def sourced_def)
  have own: "owned (row_tenant r) db (row_id r)" using r by (auto simp: owned_def)
  have "set ?ps = pr_citation ` {p \<in> set (db_provenance db). pr_assertion p = row_id r}"
    using own by (auto simp: fetch_citations_def)
  moreover have "citation_check (pr_citation p)" if "p \<in> set (db_provenance db)" for p
    using core that by (simp add: db_core_def)
  ultimately have ok: "provenance_ok p" if "p \<in> set ?ps" for p
    using that by (auto simp: citation_check_def provenance_ok_def)
  have "pr_citation p \<in> set ?ps" if "p \<in> set (db_provenance db)" "pr_assertion p = row_id r" for p
    using that own by (auto simp: fetch_citations_def)
  with src have ne: "?ps \<noteq> []" by (auto simp: assert_provenance_exists_def)
  have "mapE mk_provenance ?ps = Inr ?ps"
    using mapE_total [of ?ps mk_provenance "\<lambda>p. p"] ok by (simp add: mk_provenance_def)
  moreover have "assertion_check r" using core r by (simp add: db_core_def)
  ultimately show ?thesis
    using ok ne by (cases "row_valid_to r") (simp_all add: read_row_def assertion_from_row_def fetched_def
        mk_assertion_def assertion_ok_def assertion_check_def)
qed

section \<open>Searching\<close>

definition may_show :: "string \<Rightarrow> string \<Rightarrow> (string \<times> string) list \<Rightarrow> int option \<Rightarrow> assertion_row \<Rightarrow> bool" where
  \<comment> \<open>what a search of the namespace promises of a row\<close>
  "may_show tenant ns filters as_of r \<longleftrightarrow>
     row_tenant r = tenant \<and> row_namespace r = ns \<and> row_visible r \<and> row_retracted_at r = None \<and>
     (case as_of of
        None \<Rightarrow> row_valid_to r = None
      | Some t \<Rightarrow> row_valid_from r \<le> t \<and> (case row_valid_to r of None \<Rightarrow> True | Some e \<Rightarrow> t < e)) \<and>
     (\<forall>(c, v) \<in> set filters. (c = ''subject_id'' \<longrightarrow> row_subject r = v) \<and> (c = ''predicate'' \<longrightarrow> row_predicate r = v))"

lemma filter_clauses:
  assumes "\<forall>(c, v) \<in> set filters. c \<in> {''subject_id'', ''predicate''}"
  shows "mapE filter_clause filters =
    Inr (map (\<lambda>(c, v). if c = ''subject_id'' then SubjectIs v else PredicateIs v) filters)"
  using assms by (intro mapE_total) (auto simp: filter_clause_def split: prod.splits)

lemma tenant_rows_may_show:
  assumes "\<forall>(c, v) \<in> set filters. c \<in> {''subject_id'', ''predicate''}"
    and "predicates ns filters as_of = Inr clauses"
  shows "tenant_rows db tenant clauses = filter (may_show tenant ns filters as_of) (db_assertions db)"
proof -
  have c: "clauses = ALWAYS ns @ [case as_of of None \<Rightarrow> LiveClause | Some t \<Rightarrow> ValidAsOf t]
      @ map (\<lambda>(c, v). if c = ''subject_id'' then SubjectIs v else PredicateIs v) filters"
    using assms by (simp add: predicates_def filter_clauses)
  have f: "(\<forall>x \<in> set (map (\<lambda>(c, v). if c = ''subject_id'' then SubjectIs v else PredicateIs v) filters). holds x r)
      \<longleftrightarrow> (\<forall>(c, v) \<in> set filters. (c = ''subject_id'' \<longrightarrow> row_subject r = v) \<and> (c = ''predicate'' \<longrightarrow> row_predicate r = v))"
    for r using assms(1) by (fastforce split: if_splits)
  show ?thesis
    unfolding tenant_rows_def c set_append ball_Un f may_show_def
    by (intro filter_cong refl) (auto simp: ALWAYS_def split: option.splits)
qed

definition visited ::
    "search_env \<Rightarrow> db \<Rightarrow> string \<Rightarrow> string \<Rightarrow> (string \<times> string) list \<Rightarrow> int option \<Rightarrow> real list
     \<Rightarrow> assertion_row \<Rightarrow> bool" where
  \<comment> \<open>a row the search may show and comes by: every one at an instant, those the index reaches now\<close>
  "visited env db tenant ns filters as_of vector r \<longleftrightarrow>
     may_show tenant ns filters as_of r \<and> (as_of = None \<longrightarrow> se_reach env (index_rows db) vector r)"

lemma reaches_clauses:
  assumes "\<forall>(c, v) \<in> set filters. c \<in> {''subject_id'', ''predicate''}"
    and "predicates ns filters as_of = Inr clauses"
  shows "reaches env db clauses vector r \<longleftrightarrow> (as_of = None \<longrightarrow> se_reach env (index_rows db) vector r)"
proof -
  have "clauses = ALWAYS ns @ [case as_of of None \<Rightarrow> LiveClause | Some t \<Rightarrow> ValidAsOf t]
      @ map (\<lambda>(c, v). if c = ''subject_id'' then SubjectIs v else PredicateIs v) filters"
    using assms by (simp add: predicates_def filter_clauses)
  then show ?thesis by (auto simp: reaches_def ALWAYS_def split: option.splits if_splits)
qed

lemma search_nearest:
  assumes sound: "sound db" and free: "se_free env"
    and filters: "\<forall>(c, v) \<in> set filters. c \<in> {''subject_id'', ''predicate''}"
    and unit: "\<forall>u v. in_cosine (fl (1 - se_dist env u v))"
  shows "\<exists>rows. search env db tenant ns vector k filters as_of =
      Inr (map (\<lambda>r. \<lparr>s_assertion = fetched (se_jsonb env) db tenant r,
                     s_cosine = fl (1 - se_dist env (row_embedding r) vector)\<rparr>) rows)
    \<and> length rows = min k (length (filter (visited env db tenant ns filters as_of vector) (db_assertions db)))
    \<and> (\<forall>r \<in> set rows. r \<in> set (db_assertions db) \<and> may_show tenant ns filters as_of r
          \<and> assertion_ok (fetched (se_jsonb env) db tenant r))
    \<and> sorted (map (\<lambda>r. se_dist env (row_embedding r) vector) rows)
    \<and> (\<forall>r \<in> set (db_assertions db). visited env db tenant ns filters as_of vector r \<longrightarrow> r \<in> set rows \<or>
          (\<forall>q \<in> set rows. se_dist env (row_embedding q) vector \<le> se_dist env (row_embedding r) vector))"
proof -
  let ?d = "\<lambda>r. se_dist env (row_embedding r) vector"
  obtain clauses where cl: "predicates ns filters as_of = Inr clauses"
    using filter_clauses [OF filters] by (simp add: predicates_def)
  define shown where "shown = filter (visited env db tenant ns filters as_of vector) (db_assertions db)"
  define ordered where "ordered = sort_key ?d shown"
  have rows: "nearest_statement env db tenant clauses vector k = take k ordered"
    unfolding nearest_statement_def tenant_rows_may_show [OF filters cl] reaches_clauses [OF filters cl, abs_def]
      ordered_def shown_def visited_def filter_filter by (simp only: conj_commute)
  have ok: "r \<in> set (db_assertions db) \<and> may_show tenant ns filters as_of r" if "r \<in> set (take k ordered)" for r
    using in_set_takeD [OF that] by (simp add: ordered_def shown_def visited_def)
  have read: "read_row (se_jsonb env) db tenant r = Inr (fetched (se_jsonb env) db tenant r)
      \<and> assertion_ok (fetched (se_jsonb env) db tenant r)" if "r \<in> set (take k ordered)" for r
    using ok [OF that] sound_row_reads [OF sound, of r] by (auto simp: may_show_def)
  have "mapE (scored_row env db tenant vector) (take k ordered) =
      Inr (map (\<lambda>r. \<lparr>s_assertion = fetched (se_jsonb env) db tenant r, s_cosine = fl (1 - ?d r)\<rparr>) (take k ordered))"
    using read unit by (intro mapE_total) (simp add: scored_row_def)
  then have answer: "search env db tenant ns vector k filters as_of =
      Inr (map (\<lambda>r. \<lparr>s_assertion = fetched (se_jsonb env) db tenant r, s_cosine = fl (1 - ?d r)\<rparr>) (take k ordered))"
    by (simp add: search_def cl free rows)
  have sorted: "sorted (map ?d ordered)" by (simp add: ordered_def)
  then have "sorted (map ?d (take k ordered))" by (metis sorted_wrt_take take_map)
  moreover have "length (take k ordered) = min k (length shown)" by (simp add: ordered_def min.commute)
  moreover have "r \<in> set (take k ordered) \<or> (\<forall>q \<in> set (take k ordered). ?d q \<le> ?d r)"
    if "r \<in> set (db_assertions db)" "visited env db tenant ns filters as_of vector r" for r
  proof -
    have "r \<in> set (take k ordered @ drop k ordered)" using that by (simp add: ordered_def shown_def)
    moreover have "sorted (map ?d (take k ordered) @ map ?d (drop k ordered))"
      using sorted by (metis append_take_drop_id map_append)
    ultimately show ?thesis unfolding set_append by (auto simp: sorted_append simp del: append_take_drop_id)
  qed
  ultimately show ?thesis
    using ok read answer unfolding shown_def by blast
qed


definition shelf_citation :: provenance where
  "shelf_citation = \<lparr>pv_hash = ''h'', pv_span = (0, 3), pv_tier = VERIFIED_USER, pv_verbatim = ''tea'',
     pv_alignment = 1, pv_captured_at = 1\<rparr>"

definition shelf_row :: assertion_row where
  "shelf_row = \<lparr>row_id = ''a'', row_tenant = ''t'', row_namespace = ''n'', row_subject = ''e'',
     row_predicate = ''likes'', row_object = OStr ''tea'', row_confidence = 1, row_risk = 0, row_valid_from = 1,
     row_valid_to = None, row_recorded_at = 2, row_retracted_at = None, row_superseded_by = None,
     row_corroboration = 1, row_trace = ''tr'', row_visible = True, row_embedding = replicate EMBEDDING_DIM 0\<rparr>"

definition shelf_db :: db where
  "shelf_db = \<lparr>db_tenants = [''t''], db_entities = [\<lparr>en_id = ''e'', en_tenant = ''t'', en_type = ''user'', en_name = ''ann''\<rparr>],
     db_assertions = [shelf_row],
     db_provenance = [\<lparr>pr_id = ''p'', pr_assertion = ''a'', pr_citation = shelf_citation\<rparr>],
     db_outbox = [], db_audit = \<lparr>at_rows = [], at_next = 1\<rparr>\<rparr>"

lemma shelf_sound: "sound shelf_db"
  by (simp add: sound_def db_core_def sourced_def shelf_db_def shelf_row_def shelf_citation_def assertion_check_def pg_text_def
      assertion_refs_def citation_check_def assertion_ids_def assert_provenance_exists_def in_unit_def span_ok_def)

text \<open>An index that never gets to the row: a search about now misses it, one about an instant does not.\<close>

definition blind_env :: search_env where
  "blind_env = \<lparr>se_dist = (\<lambda>_ _. 0), se_reach = (\<lambda>_ _ _. False), se_jsonb = id, se_free = True\<rparr>"


end
