(* ===== verification/RelayLaws.thy ===== *)
theory RelayLaws
  imports Outbox Reading
begin

text \<open>
  The store, the applier and any number of relays as one transition system, step by step and in
  any interleaving: what every reachable state keeps, and what one healthy run of the relay
  achieves.
\<close>

section \<open>The relay's statements keep the tables sound\<close>

lemma claim_core:
  assumes "db_core db"
  shows "db_core (snd (claim_outbox m b db))"
proof -
  let ?f = "\<lambda>r :: outbox_row. if ob_id r \<in> ob_id ` set (claimed_rows m b db) then r\<lparr>ob_attempts := ob_attempts r + 1\<rparr> else r"
  have "ob_id \<circ> ?f = ob_id" by (rule ext) simp
  with assms show ?thesis
    by (auto simp: claim_outbox_def Let_def db_core_def assertion_ids_def assertion_refs_def split: option.splits)
qed

lemma claim_rest [simp]:
  "db_assertions (snd (claim_outbox m b db)) = db_assertions db"
  "db_provenance (snd (claim_outbox m b db)) = db_provenance db"
  by (simp_all add: claim_outbox_def Let_def)

lemma sound_claim: "sound db \<Longrightarrow> sound (snd (claim_outbox m b db))"
  using claim_core by (auto simp: sound_def sourced_def assert_provenance_exists_def)

lemma row_evolves_reveal: "row_evolves r (r\<lparr>row_visible := True\<rparr>)"
  by (simp add: row_evolves_def)

lemma reveal_step:
  "tenant_step t db (reveal_assertion t i db) \<and> (db_core db \<longrightarrow> db_core (reveal_assertion t i db))
   \<and> assertion_ids (reveal_assertion t i db) = assertion_ids db"
  by (rule update_rows_step [where p = "\<lambda>r. row_id r = i \<and> row_tenant r = t" and f = "\<lambda>r. r\<lparr>row_visible := True\<rparr>"])
    (auto simp: reveal_assertion_def row_evolves_reveal assertion_check_def assertion_refs_def split: option.splits)

lemma reveal_provenance [simp]: "db_provenance (reveal_assertion t i db) = db_provenance db"
  by (simp add: reveal_assertion_def)

lemma mark_rest [simp]:
  "db_assertions (mark_dispatched ts i db) = db_assertions db"
  "db_provenance (mark_dispatched ts i db) = db_provenance db"
  "db_tenants (mark_dispatched ts i db) = db_tenants db"
  "db_entities (mark_dispatched ts i db) = db_entities db"
  by (simp_all add: mark_dispatched_def)

lemma mark_core:
  assumes "db_core db"
  shows "db_core (mark_dispatched ts i db)"
proof -
  let ?f = "\<lambda>r :: outbox_row. if ob_id r = i \<and> ob_dispatched r = None then r\<lparr>ob_dispatched := Some ts\<rparr> else r"
  have "ob_id \<circ> ?f = ob_id" by (rule ext) simp
  with assms show ?thesis
    by (auto simp: db_core_def assertion_ids_def assertion_refs_def mark_dispatched_def split: option.splits)
qed

lemma sound_complete:
  assumes "sound db"
  shows "sound (relay_complete ts e db)"
proof -
  let ?d = "reveal_assertion (pe_tenant e) (pe_assertion e) db"
  have "db_core ?d" using assms reveal_step by (simp add: sound_def)
  moreover have "sourced ?d"
  proof -
    have "assert_provenance_exists ?d r" if r: "r \<in> set (db_assertions ?d)" for r
    proof -
      have "row_id r \<in> assertion_ids ?d" using r by (auto simp: assertion_ids_def)
      then have "row_id r \<in> assertion_ids db" using reveal_step [of "pe_tenant e" db "pe_assertion e"] by blast
      then obtain q where "q \<in> set (db_assertions db)" "row_id q = row_id r" by (auto simp: assertion_ids_def)
      with assms show ?thesis unfolding sound_def sourced_def assert_provenance_exists_def by (metis reveal_provenance)
    qed
    then show ?thesis by (simp add: sourced_def)
  qed
  ultimately show ?thesis
    by (simp add: relay_complete_def sound_def mark_core sourced_def assert_provenance_exists_def)
qed

lemma claim_addressed: "addressed db \<Longrightarrow> addressed (snd (claim_outbox m b db))"
  by (auto simp: claim_outbox_def Let_def addressed_def)

lemma complete_addressed:
  assumes "addressed db"
  shows "addressed (relay_complete ts e db)"
proof -
  let ?d = "reveal_assertion (pe_tenant e) (pe_assertion e) db"
  have "outlives db ?d" using reveal_step outlives_step by blast
  moreover have "db_outbox ?d = db_outbox db" by (simp add: reveal_assertion_def)
  ultimately have "addressed ?d" using addressed_same_outbox [OF assms] by blast
  then show ?thesis by (auto simp: relay_complete_def mark_dispatched_def addressed_def)
qed

lemma visible_complete:
  "visible_ids (relay_complete ts e db) \<subseteq> insert (pe_assertion e) (visible_ids db)"
  by (auto simp: relay_complete_def visible_ids_def reveal_assertion_def split: if_splits)

lemma sound_body:
  assumes "sound db" and "\<And>x db'. body db = Inr (x, db') \<Longrightarrow> tenant_step t db db' \<and> (db_core db \<longrightarrow> db_core db')"
  shows "sound (snd (transaction free body db))"
  using transaction_step [where body = body and db = db and t = t] assms by blast

lemma sound_upsert: "sound db \<Longrightarrow> sound (snd (upsert st free now as db))"
  unfolding upsert_def
  by (auto split: sum.split option.split intro!: sound_body [where t = "st_tenant st"] elim!: bindE_InrE
      dest: write_in_step)

lemma sound_router: "sound db \<Longrightarrow> sound (snd (router_write t st free now as db))"
  by (simp add: router_write_def sound_upsert)

lemma sound_supersede: "sound db \<Longrightarrow> sound (snd (supersede st free old_id new_id ts db))"
  unfolding supersede_def
  by (rule sound_body [where t = "st_tenant st"]) (auto elim!: bindE_InrE dest: supersede_in_step)

lemma sound_resolve: "sound db \<Longrightarrow> sound (snd (resolve free subject t ns typ db))"
proof -
  assume s: "sound db"
  have "sound (snd (transaction free (\<lambda>db. bindE (insert_entity t db
        \<lparr>en_id = derive_entity_id t ns, en_tenant = t, en_type = typ,
          en_name = (if subject = [] then derive_entity_id t ns else subject)\<rparr>) (\<lambda>db'. Inr ((), db'))) db))"
    by (rule sound_body [OF s, where t = t]) (auto elim!: bindE_InrE dest: insert_entity_step)
  with s resolve_snd show ?thesis by (metis insertE singletonD)
qed

section \<open>The system\<close>

text \<open>
  A state holds the tables, the graph, the events some relay has claimed, the assertions it has
  loaded for them, and the events whose upsert the graph has acknowledged.
\<close>

record 'g world =
  wd_db :: db
  wd_graph :: 'g
  wd_claimed :: "pending_event set"
  wd_loaded :: "(pending_event \<times> stored_assertion) set"
  wd_landed :: "pending_event set"

definition world_start :: "string list \<Rightarrow> 'g \<Rightarrow> 'g world" where
  "world_start tenants g =
     \<lparr>wd_db = \<lparr>db_tenants = tenants, db_entities = [], db_assertions = [], db_provenance = [], db_outbox = [],
        db_audit = \<lparr>at_rows = [], at_next = 1\<rparr>\<rparr>,
      wd_graph = g, wd_claimed = {}, wd_loaded = {}, wd_landed = {}\<rparr>"

inductive world_step ::
    "('r \<Rightarrow> 'g \<Rightarrow> stored_assertion \<Rightarrow> (exn + unit) \<times> 'g) \<Rightarrow> (object_value \<Rightarrow> object_value)
     \<Rightarrow> 'g world \<Rightarrow> 'g world \<Rightarrow> bool"
  for store :: "'r \<Rightarrow> 'g \<Rightarrow> stored_assertion \<Rightarrow> (exn + unit) \<times> 'g" and jsonb :: "object_value \<Rightarrow> object_value" where
  step_apply: "st_tenant st = t \<Longrightarrow> world_step store jsonb w (w\<lparr>wd_db := snd (apply_governed st t trace g env (wd_db w))\<rparr>)"
| step_write: "\<forall>a \<in> set as. assertion_ok a \<Longrightarrow> world_step store jsonb w (w\<lparr>wd_db := snd (router_write t st free now as (wd_db w))\<rparr>)"
| step_supersede: "world_step store jsonb w (w\<lparr>wd_db := snd (supersede st free old_id new_id ts (wd_db w))\<rparr>)"
| step_resolve: "world_step store jsonb w (w\<lparr>wd_db := snd (resolve free subject t ns typ (wd_db w))\<rparr>)"
| step_claim: "relay_claim free m b (wd_db w) = (Inr events, db')
    \<Longrightarrow> world_step store jsonb w (w\<lparr>wd_db := db', wd_claimed := wd_claimed w \<union> set events\<rparr>)"
| step_claim_raises: "relay_claim free m b (wd_db w) = (Inl x, db') \<Longrightarrow> world_step store jsonb w (w\<lparr>wd_db := db'\<rparr>)"
| step_load: "e \<in> wd_claimed w \<Longrightarrow> relay_load jsonb e (wd_db w) = Inr (Some a)
    \<Longrightarrow> world_step store jsonb w (w\<lparr>wd_loaded := insert (e, a) (wd_loaded w)\<rparr>)"
| step_land: "(e, a) \<in> wd_loaded w \<Longrightarrow> store r (wd_graph w) a = (Inr (), g')
    \<Longrightarrow> world_step store jsonb w (w\<lparr>wd_graph := g', wd_landed := insert e (wd_landed w)\<rparr>)"
| step_miss: "(e, a) \<in> wd_loaded w \<Longrightarrow> store r (wd_graph w) a = (Inl x, g')
    \<Longrightarrow> world_step store jsonb w (w\<lparr>wd_graph := g'\<rparr>)"
| step_complete: "e \<in> wd_landed w \<Longrightarrow> world_step store jsonb w (w\<lparr>wd_db := relay_complete ts e (wd_db w)\<rparr>)"

inductive_cases world_stepE: "world_step store jsonb w w'"

inductive world_reach ::
    "('r \<Rightarrow> 'g \<Rightarrow> stored_assertion \<Rightarrow> (exn + unit) \<times> 'g) \<Rightarrow> (object_value \<Rightarrow> object_value)
     \<Rightarrow> string list \<Rightarrow> 'g \<Rightarrow> 'g world \<Rightarrow> bool"
  for store :: "'r \<Rightarrow> 'g \<Rightarrow> stored_assertion \<Rightarrow> (exn + unit) \<times> 'g" and jsonb :: "object_value \<Rightarrow> object_value"
    and tenants :: "string list" and g0 :: 'g where
  reach_start: "world_reach store jsonb tenants g0 (world_start tenants g0)"
| reach_step: "world_reach store jsonb tenants g0 w \<Longrightarrow> world_step store jsonb w w'
    \<Longrightarrow> world_reach store jsonb tenants g0 w'"

lemma relay_load_id:
  "relay_load jsonb e db = Inr (Some a) \<Longrightarrow> a_id a = pe_assertion e"
  by (auto simp: relay_load_def read_row_def assertion_from_row_def mk_assertion_def
      dest!: first_Some_D elim!: bindE_InrE split: option.splits if_splits)

lemma relay_claim_snd:
  "snd (relay_claim free m b db) \<in> {db, snd (claim_outbox m b db)}"
  by (auto simp: relay_claim_def transaction_def split: sum.split prod.split if_splits)

lemma quiet_claim: "quiet db (snd (relay_claim free m b db))"
  using relay_claim_snd [of free m b db] quiet_same_rows [of "snd (claim_outbox m b db)" db] by auto

lemma sound_relay_claim: "sound db \<Longrightarrow> sound (snd (relay_claim free m b db))"
  using relay_claim_snd [of free m b db] sound_claim by auto

lemma relay_claim_addressed: "addressed db \<Longrightarrow> addressed (snd (relay_claim free m b db))"
  using relay_claim_snd [of free m b db] claim_addressed by auto

context graph_store
begin

definition in_graph :: "'g \<Rightarrow> string \<Rightarrow> bool" where
  "in_graph g i \<longleftrightarrow> (\<exists>e. e_assertion e = i \<and> shows_edge g e)"

definition world_inv :: "'g world \<Rightarrow> bool" where
  "world_inv w \<longleftrightarrow>
     sound (wd_db w) \<and> addressed (wd_db w) \<and> (\<forall>i \<in> visible_ids (wd_db w). in_graph (wd_graph w) i) \<and>
     (\<forall>e \<in> wd_landed w. in_graph (wd_graph w) (pe_assertion e)) \<and>
     (\<forall>(e, a) \<in> wd_loaded w. a_id a = pe_assertion e)"

lemma in_graph_store: "in_graph g i \<Longrightarrow> in_graph (snd (store r g a)) i"
  unfolding in_graph_def using kept_or_replaced by blast

lemma in_graph_stored: "store r g a = (Inr (), g') \<Longrightarrow> in_graph g' (a_id a)"
  using stored [of r g a g'] unfolding in_graph_def
  by (intro exI [of _ "edge_of a"]) (simp add: edge_of_def)

lemma world_inv_db:
  "world_inv w \<Longrightarrow> sound db' \<Longrightarrow> addressed db' \<Longrightarrow> quiet (wd_db w) db' \<Longrightarrow> world_inv (w\<lparr>wd_db := db'\<rparr>)"
  by (auto simp: world_inv_def quiet_def)

lemma world_inv_step:
  assumes "world_step store jsonb w w'" and inv: "world_inv w"
  shows "world_inv w'"
proof -
  have sound: "sound (wd_db w)" and addr: "addressed (wd_db w)" using inv by (simp_all add: world_inv_def)
  from assms(1) show ?thesis
proof cases
  case (step_apply st t trace g env)
  have "sound (snd (apply_governed st t trace g env (wd_db w)))" using apply_governed_step sound by blast
  then show ?thesis unfolding step_apply(1)
    by (intro world_inv_db [OF inv] quiet_apply apply_addressed addr step_apply)
next
  case (step_write st t free now as)
  show ?thesis unfolding step_write(1)
    by (intro world_inv_db [OF inv] sound_router sound quiet_router router_addressed addr step_write)
next
  case (step_supersede st free old_id new_id ts)
  show ?thesis unfolding step_supersede
    by (intro world_inv_db [OF inv] sound_supersede sound quiet_supersede_op supersede_op_addressed addr)
next
  case (step_resolve free subject t ns ty)
  show ?thesis unfolding step_resolve
    by (intro world_inv_db [OF inv] sound_resolve sound quiet_resolve resolve_addressed addr)
next
  case (step_claim free m b events db')
  have "world_inv (w\<lparr>wd_db := snd (relay_claim free m b (wd_db w))\<rparr>)"
    by (intro world_inv_db [OF inv] sound_relay_claim sound quiet_claim relay_claim_addressed addr)
  with step_claim show ?thesis by (simp add: world_inv_def)
next
  case (step_claim_raises free m b x db')
  have "world_inv (w\<lparr>wd_db := snd (relay_claim free m b (wd_db w))\<rparr>)"
    by (intro world_inv_db [OF inv] sound_relay_claim sound quiet_claim relay_claim_addressed addr)
  with step_claim_raises show ?thesis by (simp add: world_inv_def)
next
  case (step_load e a)
  with inv relay_load_id show ?thesis by (auto simp: world_inv_def)
next
  case (step_land e a r g')
  then have "g' = snd (store r (wd_graph w) a)" by simp
  then have "in_graph (wd_graph w) i \<Longrightarrow> in_graph g' i" for i using in_graph_store by simp
  with step_land inv in_graph_stored [of r "wd_graph w" a g'] show ?thesis by (auto simp: world_inv_def)
next
  case (step_miss e a r x g')
  then have "g' = snd (store r (wd_graph w) a)" by simp
  then have "in_graph (wd_graph w) i \<Longrightarrow> in_graph g' i" for i using in_graph_store by simp
  with step_miss inv show ?thesis by (auto simp: world_inv_def)
next
  case (step_complete e ts)
  have "in_graph (wd_graph w) i" if "i \<in> visible_ids (relay_complete ts e (wd_db w))" for i
    using visible_complete that step_complete(2) inv unfolding world_inv_def by blast
  with step_complete inv sound_complete [OF sound] complete_addressed [OF addr] show ?thesis by (simp add: world_inv_def)
qed
qed

lemma world_reach_inv: "world_reach store jsonb tenants g0 w \<Longrightarrow> world_inv w"
proof (induction rule: world_reach.induct)
  case reach_start
  then show ?case
    by (simp add: world_inv_def world_start_def sound_def db_core_def sourced_def visible_ids_def
        addressed_def)
next
  case (reach_step w w')
  then show ?case using world_inv_step by blast
qed

end

text \<open>C18. Whatever the tenants' writers, the resolvers and any number of relays do, in any
  interleaving and with any behaviour of the driver (statements that fail, or that run and lose
  their answer): in every reachable state the tables are sound, every event of the outbox names
  the tenant of its assertion, and every visible assertion has its edge in the graph. A fact is
  never retrievable before both sides of the dual write have landed.\<close>

theorem visible_assertions_are_in_the_graph:
  assumes "world_reach (\<lambda>(r, w). neo_upsert r w) jsonb tenants \<lparr>ng_nodes = [], ng_rels = []\<rparr> wd"
  shows "sound (wd_db wd) \<and> addressed (wd_db wd) \<and>
    (\<forall>i \<in> visible_ids (wd_db wd). \<exists>e. e_assertion e = i \<and> neo_shows (wd_graph wd) e)"
  using neo.world_reach_inv [OF assms] by (simp add: neo.world_inv_def neo.in_graph_def)

end
