(* ===== verification/Release.thy ===== *)
theory Release
  imports RelayLaws
begin

text \<open>
  Draining the outbox: the loop \<open>while (run := await relay.run_once()).claimed\<close> of
  \<open>scripts/seed_demo_tenant.py\<close> over the relay. It ends whatever the graph and the pool do, and when
  they answer it leaves nothing behind.
\<close>

section \<open>The loop\<close>

partial_function (option) release ::
    "(nat \<Rightarrow> nat \<Rightarrow> 'g \<Rightarrow> stored_assertion \<Rightarrow> (exn + unit) \<times> 'g) \<Rightarrow> (object_value \<Rightarrow> object_value)
     \<Rightarrow> (nat \<Rightarrow> nat \<Rightarrow> relay_env) \<Rightarrow> (nat \<Rightarrow> bool) \<Rightarrow> int \<Rightarrow> nat \<Rightarrow> nat \<Rightarrow> nat \<Rightarrow> db \<times> 'g
     \<Rightarrow> ((exn + nat) \<times> db \<times> 'g) option" where
  \<comment> \<open>the \<open>k\<close>-th run meets the \<open>k\<close>-th environment\<close>
  "release store jsonb env free m b k released st =
     (case run_once (store k) jsonb (env k) (free k) m b st of
        (Inl x, st') \<Rightarrow> Some (Inl x, st')
      | (Inr run, st') \<Rightarrow>
          if rr_claimed run = 0 then Some (Inr released, st')
          else release store jsonb env free m b (Suc k) (released + rr_dispatched run) st')"

section \<open>It ends\<close>

definition tries_left :: "int \<Rightarrow> outbox_row \<Rightarrow> nat" where
  "tries_left m q = (if ob_dispatched q = None then nat (m - ob_attempts q) else 0)"

definition backlog :: "int \<Rightarrow> db \<Rightarrow> nat" where
  "backlog m db = sum_list (map (tries_left m) (db_outbox db))"

lemma claimable_tries: "claimable m q \<longleftrightarrow> 0 < tries_left m q"
  by (auto simp: claimable_def tries_left_def)

lemma sum_list_less:
  fixes f g :: "'a \<Rightarrow> nat"
  shows "(\<And>x. x \<in> set xs \<Longrightarrow> f x \<le> g x) \<Longrightarrow> y \<in> set xs \<Longrightarrow> f y < g y \<Longrightarrow> sum_list (map f xs) < sum_list (map g xs)"
proof (induction xs)
  case (Cons x xs)
  have le: "sum_list (map f xs) \<le> sum_list (map g xs)" using Cons.prems(1) by (intro sum_list_mono) simp
  from Cons.prems(2) consider "y = x" | "y \<in> set xs" by auto
  then show ?case
  proof cases
    case 1
    with Cons.prems(3) le show ?thesis by simp
  next
    case 2
    with Cons.IH Cons.prems have "sum_list (map f xs) < sum_list (map g xs)" by simp
    moreover have "f x \<le> g x" using Cons.prems(1) by simp
    ultimately show ?thesis by simp
  qed
qed simp

lemma claimed_rowsD: "q \<in> set (claimed_rows m b db) \<Longrightarrow> q \<in> set (db_outbox db) \<and> claimable m q"
  by (auto simp: claimed_rows_def dest!: in_set_takeD)

lemma claim_backlog:
  assumes "claimed_rows m b db \<noteq> []"
  shows "backlog m (snd (claim_outbox m b db)) < backlog m db"
proof -
  let ?f = "\<lambda>r :: outbox_row. if ob_id r \<in> ob_id ` set (claimed_rows m b db) then r\<lparr>ob_attempts := ob_attempts r + 1\<rparr> else r"
  obtain q where q: "q \<in> set (claimed_rows m b db)" using assms by (meson last_in_set)
  have "q \<in> set (db_outbox db)" "claimable m q" using claimed_rowsD [OF q] by auto
  moreover have "tries_left m (?f q) < tries_left m q" using q calculation(2) by (simp add: tries_left_def claimable_def)
  ultimately have "sum_list (map (\<lambda>r. tries_left m (?f r)) (db_outbox db)) < sum_list (map (tries_left m) (db_outbox db))"
    by (intro sum_list_less) (auto simp: tries_left_def)
  then show ?thesis by (simp add: backlog_def claim_outbox_def Let_def comp_def)
qed

lemma complete_backlog: "backlog m (relay_complete ts e db) \<le> backlog m db"
  unfolding backlog_def relay_complete_def mark_dispatched_def reveal_assertion_def
  by (simp add: comp_def) (intro sum_list_mono, simp add: tries_left_def)

lemma dispatch_db:
  "fst (snd (relay_dispatch store jsonb env e (db, g))) \<in> {db, relay_complete (re_clock env) e db}"
  by (auto simp: relay_dispatch_def transaction_def bindE_def split: sum.split option.split prod.split)

lemma dispatch_backlog: "backlog m (fst (snd (relay_dispatch store jsonb env e st))) \<le> backlog m (fst st)"
  using dispatch_db [of store jsonb env e "fst st" "snd st"] complete_backlog by auto

lemma loop_backlog: "backlog m (fst (snd (relay_loop store jsonb env n es d st))) \<le> backlog m (fst st)"
proof (induction es arbitrary: n d st)
  case (Cons e es)
  obtain o1 st1 where d: "relay_dispatch (store n) jsonb (env n) e st = (o1, st1)" by (cases "relay_dispatch (store n) jsonb (env n) e st")
  have "backlog m (fst st1) \<le> backlog m (fst st)" using dispatch_backlog [of m "store n" jsonb "env n" e st] d by simp
  with Cons.IH [of "Suc n" _ st1] show ?case by (auto simp: d split: sum.split intro: order_trans)
qed simp

lemma run_backlog:
  assumes "run_once store jsonb env free m b st = (Inr run, st')" and "rr_claimed run \<noteq> 0"
  shows "backlog m (fst st') < backlog m (fst st)"
proof -
  obtain events db1 where cl: "relay_claim free m b (fst st) = (Inr events, db1)"
    using assms(1) by (auto simp: run_once_def split: sum.splits prod.splits)
  obtain n where l: "relay_loop store jsonb env 0 events 0 (db1, snd st) = (Inr n, st')" "rr_claimed run = length events"
    using assms(1) by (auto simp: run_once_def cl split: sum.splits prod.splits)
  have "mapE pending_from_row (claimed_rows m b (fst st)) = Inr events" "db1 = snd (claim_outbox m b (fst st))"
    using cl by (auto simp: relay_claim_def transaction_def claim_outbox_def Let_def split: if_splits)
  moreover from this have "claimed_rows m b (fst st) \<noteq> []" using assms(2) l(2) by auto
  ultimately have "backlog m db1 < backlog m (fst st)" using claim_backlog by simp
  with loop_backlog [of m store jsonb env 0 events 0 "(db1, snd st)"] l(1) show ?thesis by simp
qed

lemma release_ends:
  "\<exists>y. release store jsonb env free m b k released st = Some y"
proof (induction "backlog m (fst st)" arbitrary: k released st rule: less_induct)
  case less
  obtain o1 st1 where r: "run_once (store k) jsonb (env k) (free k) m b st = (o1, st1)"
    by (cases "run_once (store k) jsonb (env k) (free k) m b st")
  show ?case
  proof (cases o1)
    case (Inl x)
    with r show ?thesis by (subst release.simps) simp
  next
    case (Inr run)
    show ?thesis
    proof (cases "rr_claimed run = 0")
      case True
      with r Inr show ?thesis by (subst release.simps) simp
    next
      case False
      have "backlog m (fst st1) < backlog m (fst st)"
        using run_backlog [of "store k" jsonb "env k" "free k" m b st run st1] r Inr False by simp
      from less [OF this] r Inr False show ?thesis by (subst release.simps) simp
    qed
  qed
qed

section \<open>A healthy run delivers\<close>

definition event_for :: "db \<Rightarrow> pending_event \<Rightarrow> bool" where
  \<comment> \<open>the event's tenant owns its assertion\<close>
  "event_for db e \<longleftrightarrow> owned (pe_tenant e) db (pe_assertion e)"

lemma pending_event_for:
  assumes "addressed db" and "q \<in> set (db_outbox db)"
  shows "\<exists>e. pending_from_row q = Inr e \<and> event_for db e \<and> pe_outbox e = ob_id q \<and> pe_assertion e = ob_assertion q"
proof -
  obtain t ns trace where "owned t db (ob_assertion q)" "map_of (ob_event q) ''tenant_id'' = Some (JStr t)"
    "map_of (ob_event q) ''namespace'' = Some (JStr ns)" "map_of (ob_event q) ''trace_id'' = Some (JStr trace)"
    using assms unfolding addressed_iff by blast
  then show ?thesis by (simp add: pending_from_row_def payload_text_def event_for_def)
qed

definition row_keys :: "db \<Rightarrow> (string \<times> string \<times> string) list" where
  "row_keys db = map (\<lambda>r. (row_id r, row_tenant r, row_subject r)) (db_assertions db)"

lemma complete_keys: "row_keys (relay_complete ts e db) = row_keys db"
  by (simp add: row_keys_def relay_complete_def reveal_assertion_def)

lemma owned_keys: "owned t db i \<longleftrightarrow> (\<exists>s. (i, t, s) \<in> set (row_keys db))"
  by (auto simp: owned_def row_keys_def)

lemma complete_ids: "row_id ` set (db_assertions (relay_complete ts e db)) = row_id ` set (db_assertions db)"
proof -
  have "map fst (row_keys d) = map row_id (db_assertions d)" for d by (simp add: row_keys_def)
  then show ?thesis using complete_keys [of ts e db] by (metis set_map)
qed

lemma commit_check_refl [simp]: "commit_check db db"
  by (auto simp: commit_check_def)

lemma complete_commits: "commit_check db (relay_complete ts e db)"
  unfolding commit_check_def complete_ids [symmetric, of db ts e] by blast

lemma load_owned:
  assumes "sound db" and "event_for db e"
  shows "\<exists>a. relay_load jsonb e db = Inr (Some a) \<and> (a_id a, a_tenant a, a_subject a) \<in> set (row_keys db)"
proof -
  let ?p = "\<lambda>r. row_id r = pe_assertion e \<and> row_tenant r = pe_tenant e"
  obtain r where "r \<in> set (db_assertions db)" "?p r" using assms(2) by (auto simp: event_for_def owned_def)
  then obtain r' where r': "first ?p (db_assertions db) = Some r'" using first_exists [of r "db_assertions db" ?p] by blast
  have "r' \<in> set (db_assertions db)" "row_tenant r' = pe_tenant e" using first_Some_D [OF r'] by auto
  with sound_row_reads [OF assms(1), of r' jsonb] r' show ?thesis by (auto simp: relay_load_def row_keys_def)
qed

definition settles :: "string set \<Rightarrow> db \<Rightarrow> db \<Rightarrow> bool" where
  \<comment> \<open>exactly the events with these ids are closed, and nothing that was visible is hidden\<close>
  "settles ids db db' \<longleftrightarrow>
     sound db' \<and> addressed db' \<and> visible_ids db \<subseteq> visible_ids db' \<and> row_keys db' = row_keys db \<and>
     (\<exists>f. db_outbox db' = map f (db_outbox db) \<and>
        (\<forall>q. ob_id (f q) = ob_id q \<and> (ob_id q \<in> ids \<longrightarrow> ob_dispatched (f q) \<noteq> None) \<and>
             (ob_dispatched q \<noteq> None \<longrightarrow> ob_dispatched (f q) \<noteq> None) \<and> (ob_id q \<notin> ids \<longrightarrow> f q = q)))"

lemma settles_none: "sound db \<Longrightarrow> addressed db \<Longrightarrow> settles {} db db"
  by (auto simp: settles_def intro!: exI [of _ "\<lambda>q. q"])

lemma settles_trans:
  assumes "settles A db1 db2" and "settles B db2 db3"
  shows "settles (A \<union> B) db1 db3"
proof -
  obtain f where f: "db_outbox db2 = map f (db_outbox db1)"
    "\<And>q. ob_id (f q) = ob_id q \<and> (ob_id q \<in> A \<longrightarrow> ob_dispatched (f q) \<noteq> None) \<and>
       (ob_dispatched q \<noteq> None \<longrightarrow> ob_dispatched (f q) \<noteq> None) \<and> (ob_id q \<notin> A \<longrightarrow> f q = q)"
    using assms(1) unfolding settles_def by blast
  obtain h where h: "db_outbox db3 = map h (db_outbox db2)"
    "\<And>q. ob_id (h q) = ob_id q \<and> (ob_id q \<in> B \<longrightarrow> ob_dispatched (h q) \<noteq> None) \<and>
       (ob_dispatched q \<noteq> None \<longrightarrow> ob_dispatched (h q) \<noteq> None) \<and> (ob_id q \<notin> B \<longrightarrow> h q = q)"
    using assms(2) unfolding settles_def by blast
  have "db_outbox db3 = map (h \<circ> f) (db_outbox db1)" using f(1) h(1) by simp
  moreover have "ob_id ((h \<circ> f) q) = ob_id q \<and> (ob_id q \<in> A \<union> B \<longrightarrow> ob_dispatched ((h \<circ> f) q) \<noteq> None) \<and>
       (ob_dispatched q \<noteq> None \<longrightarrow> ob_dispatched ((h \<circ> f) q) \<noteq> None) \<and> (ob_id q \<notin> A \<union> B \<longrightarrow> (h \<circ> f) q = q)" for q
    using f(2) [of q] h(2) [of "f q"] by auto
  moreover have "visible_ids db1 \<subseteq> visible_ids db3 \<and> row_keys db3 = row_keys db1 \<and> sound db3 \<and> addressed db3"
    using assms by (auto simp: settles_def)
  ultimately show ?thesis unfolding settles_def by blast
qed

lemma complete_visible:
  "visible_ids db \<subseteq> visible_ids (relay_complete ts e db)"
  "event_for db e \<Longrightarrow> pe_assertion e \<in> visible_ids (relay_complete ts e db)"
proof -
  let ?f = "\<lambda>r :: assertion_row. if row_id r = pe_assertion e \<and> row_tenant r = pe_tenant e
      then r\<lparr>row_visible := True\<rparr> else r"
  have rows: "set (db_assertions (relay_complete ts e db)) = ?f ` set (db_assertions db)"
    by (simp add: relay_complete_def reveal_assertion_def)
  have vis: "row_id r \<in> visible_ids (relay_complete ts e db)" if "r \<in> set (db_assertions db)" "row_visible (?f r)" for r
  proof -
    have "?f r \<in> set (db_assertions (relay_complete ts e db))" unfolding rows using that(1) by (rule imageI)
    then have "row_id (?f r) \<in> visible_ids (relay_complete ts e db)"
      unfolding visible_ids_def using that(2) by (intro imageI) simp
    moreover have "row_id (?f r) = row_id r" by simp
    ultimately show ?thesis by (simp only:)
  qed
  show "visible_ids db \<subseteq> visible_ids (relay_complete ts e db)"
    using vis by (auto simp: visible_ids_def [of db])
  show "pe_assertion e \<in> visible_ids (relay_complete ts e db)" if e: "event_for db e"
  proof -
    obtain r where "r \<in> set (db_assertions db)" "row_id r = pe_assertion e" "row_tenant r = pe_tenant e"
      using e by (auto simp: event_for_def owned_def)
    with vis [of r] show ?thesis by simp
  qed
qed

lemma complete_settles:
  assumes "sound db" and "addressed db"
  shows "settles {pe_outbox e} db (relay_complete ts e db)"
proof -
  let ?f = "\<lambda>r :: outbox_row. if ob_id r = pe_outbox e \<and> ob_dispatched r = None then r\<lparr>ob_dispatched := Some ts\<rparr> else r"
  have "db_outbox (relay_complete ts e db) = map ?f (db_outbox db)"
    by (simp add: relay_complete_def mark_dispatched_def reveal_assertion_def)
  moreover have "ob_id (?f q) = ob_id q \<and> (ob_id q \<in> {pe_outbox e} \<longrightarrow> ob_dispatched (?f q) \<noteq> None) \<and>
       (ob_dispatched q \<noteq> None \<longrightarrow> ob_dispatched (?f q) \<noteq> None) \<and> (ob_id q \<notin> {pe_outbox e} \<longrightarrow> ?f q = q)" for q
    by simp
  ultimately show ?thesis
    using sound_complete [OF assms(1)] complete_addressed [OF assms(2)] complete_visible(1) complete_keys
    unfolding settles_def by blast
qed

lemma settles_event_for: "settles A db db' \<Longrightarrow> event_for db' e \<longleftrightarrow> event_for db e"
  by (simp add: settles_def event_for_def owned_keys)

locale accepting_graph =
  fixes store :: "'g \<Rightarrow> stored_assertion \<Rightarrow> (exn + unit) \<times> 'g"
    and fits :: "'g \<Rightarrow> bool" and owner :: "string \<Rightarrow> string"
  assumes accepts: "fits g \<Longrightarrow> owner (a_subject a) = a_tenant a \<Longrightarrow> fst (store g a) = Inr () \<and> fits (snd (store g a))"

definition single_owner :: "(string \<Rightarrow> string) \<Rightarrow> db \<Rightarrow> bool" where
  \<comment> \<open>no two tenants write about one entity\<close>
  "single_owner owner db \<longleftrightarrow> (\<forall>(i, t, s) \<in> set (row_keys db). owner s = t)"

lemma mapE_Inr_ex: "(\<And>x. x \<in> set xs \<Longrightarrow> \<exists>y. f x = Inr y \<and> P x y) \<Longrightarrow> \<exists>ys. mapE f xs = Inr ys \<and> list_all2 P xs ys"
proof (induction xs)
  case (Cons x xs)
  obtain y where "f x = Inr y" "P x y" using Cons.prems [of x] by auto
  moreover obtain ys where "mapE f xs = Inr ys" "list_all2 P xs ys" using Cons by auto
  ultimately show ?case by simp
qed simp

definition waiting :: "int \<Rightarrow> db \<Rightarrow> nat" where
  "waiting m db = length (filter (claimable m) (db_outbox db))"

lemma sound_outbox: "sound db \<Longrightarrow> distinct (map ob_id (db_outbox db))"
  by (simp add: sound_def db_core_def)

lemma distinct_outbox: "sound db \<Longrightarrow> distinct (db_outbox db)"
  using sound_outbox distinct_map by blast

lemma distinct_claimed: "sound db \<Longrightarrow> distinct (claimed_rows m b db)"
  by (simp add: claimed_rows_def distinct_outbox)

lemma same_event: "sound db \<Longrightarrow> q \<in> set (db_outbox db) \<Longrightarrow> r \<in> set (db_outbox db) \<Longrightarrow> ob_id q = ob_id r \<Longrightarrow> q = r"
  using sound_outbox by (meson distinct_map inj_onD)

lemma settles_claimable:
  assumes "sound db" and "settles (ob_id ` set (claimed_rows m b db)) db db'"
  shows "{q \<in> set (db_outbox db'). claimable m q} =
    {q \<in> set (db_outbox db). claimable m q} - set (claimed_rows m b db)"
proof -
  let ?ids = "ob_id ` set (claimed_rows m b db)"
  obtain f where f: "db_outbox db' = map f (db_outbox db)"
    "\<And>q. ob_id (f q) = ob_id q \<and> (ob_id q \<in> ?ids \<longrightarrow> ob_dispatched (f q) \<noteq> None) \<and>
       (ob_dispatched q \<noteq> None \<longrightarrow> ob_dispatched (f q) \<noteq> None) \<and> (ob_id q \<notin> ?ids \<longrightarrow> f q = q)"
    using assms(2) unfolding settles_def by blast
  have mem: "ob_id q \<in> ?ids \<longleftrightarrow> q \<in> set (claimed_rows m b db)" if "q \<in> set (db_outbox db)" for q
  proof
    assume "ob_id q \<in> ?ids"
    then obtain r where r: "r \<in> set (claimed_rows m b db)" "ob_id q = ob_id r" by blast
    have "r \<in> set (db_outbox db)" using claimed_rowsD [OF r(1)] by simp
    with same_event [OF assms(1) that] r show "q \<in> set (claimed_rows m b db)" by metis
  qed simp
  have cl: "claimable m (f q) \<longleftrightarrow> claimable m q \<and> q \<notin> set (claimed_rows m b db)" if "q \<in> set (db_outbox db)" for q
    using f(2) [of q] mem [OF that] by (cases "ob_id q \<in> ?ids") (simp_all add: claimable_def)
  have id: "f q = q" if "q \<in> set (db_outbox db)" "q \<notin> set (claimed_rows m b db)" for q
    using f(2) [of q] mem [OF that(1)] that(2) by simp
  show ?thesis unfolding f(1) set_map
  proof (intro equalityI subsetI)
    fix x assume "x \<in> {q \<in> f ` set (db_outbox db). claimable m q}"
    then obtain q where q: "q \<in> set (db_outbox db)" "x = f q" "claimable m (f q)" by blast
    with cl id show "x \<in> {q \<in> set (db_outbox db). claimable m q} - set (claimed_rows m b db)" by simp
  next
    fix q assume q: "q \<in> {q \<in> set (db_outbox db). claimable m q} - set (claimed_rows m b db)"
    then have "f q = q" using id by simp
    with q show "q \<in> {q \<in> f ` set (db_outbox db). claimable m q}" by (metis (mono_tags, lifting) DiffD1 image_eqI mem_Collect_eq)
  qed
qed

lemma waiting_card: "sound db \<Longrightarrow> waiting m db = card {q \<in> set (db_outbox db). claimable m q}"
  unfolding waiting_def using distinct_outbox
  by (metis distinct_card distinct_filter set_filter)

lemma waiting_settles:
  assumes "sound db" and "settles (ob_id ` set (claimed_rows m b db)) db db'"
  shows "waiting m db = length (claimed_rows m b db) + waiting m db'"
proof -
  let ?W = "{q \<in> set (db_outbox db). claimable m q}" and ?C = "set (claimed_rows m b db)"
  have "?C \<subseteq> ?W" using claimed_rowsD by blast
  moreover have "finite ?W" by simp
  ultimately have "card ?W = card ?C + card (?W - ?C)" by (metis card_Diff_subset card_mono finite_subset le_add_diff_inverse)
  moreover have "sound db'" using assms(2) by (simp add: settles_def)
  ultimately show ?thesis
    using assms(1) by (simp add: waiting_card settles_claimable [OF assms] distinct_card distinct_claimed)
qed

lemma claimed_none: "0 < b \<Longrightarrow> claimed_rows m b db = [] \<longleftrightarrow> waiting m db = 0"
proof -
  assume "0 < b"
  have "claimed_rows m b db = [] \<longleftrightarrow> sort_key ob_created (filter (claimable m) (db_outbox db)) = []"
    using \<open>0 < b\<close> by (auto simp: claimed_rows_def)
  also have "\<dots> \<longleftrightarrow> waiting m db = 0" by (metis length_0_conv length_sort waiting_def)
  finally show ?thesis .
qed

context accepting_graph
begin

lemma dispatch_delivers:
  assumes "sound db" and "event_for db e" and "re_free_load env" "re_free_complete env" and "fits g" "single_owner owner db"
  shows "\<exists>g'. relay_dispatch store jsonb env e (db, g) = (Inr True, relay_complete (re_clock env) e db, g') \<and> fits g'"
proof -
  obtain a where a: "relay_load jsonb e db = Inr (Some a)" "(a_id a, a_tenant a, a_subject a) \<in> set (row_keys db)"
    using load_owned [OF assms(1,2)] by blast
  obtain g' where "store g a = (Inr (), g')" "fits g'"
    using accepts [OF assms(5), of a] a(2) assms(6) by (cases "store g a") (auto simp: single_owner_def)
  then show ?thesis using assms(3,4) complete_commits
    by (simp add: relay_dispatch_def transaction_def a)
qed

lemma loop_delivers:
  assumes "sound db" and "addressed db" and "\<forall>e \<in> set es. event_for db e"
    and env: "\<And>n. re_free_load (env n) \<and> re_free_complete (env n)" and fits: "fits g" "single_owner owner db"
  shows "\<exists>db' g'. relay_loop (\<lambda>_. store) jsonb env n es d (db, g) = (Inr (d + length es), db', g')
    \<and> fits g' \<and> settles (pe_outbox ` set es) db db' \<and> pe_assertion ` set es \<subseteq> visible_ids db'"
  using assms(1-3) fits
proof (induction es arbitrary: n d db g)
  case Nil
  then show ?case using settles_none by simp
next
  case (Cons e es)
  let ?db = "relay_complete (re_clock (env n)) e db"
  obtain g1 where d: "relay_dispatch store jsonb (env n) e (db, g) = (Inr True, ?db, g1)" "fits g1"
    using dispatch_delivers [OF Cons.prems(1), of e "env n" g jsonb] Cons.prems(3-5) env by auto
  have one: "settles {pe_outbox e} db ?db" by (rule complete_settles [OF Cons.prems(1,2)])
  have "\<exists>db' g'. relay_loop (\<lambda>_. store) jsonb env (Suc n) es (d + 1) (?db, g1) = (Inr (d + 1 + length es), db', g')
    \<and> fits g' \<and> settles (pe_outbox ` set es) ?db db' \<and> pe_assertion ` set es \<subseteq> visible_ids db'"
    using Cons.prems(3,5) settles_event_for [OF one] one d(2)
    by (intro Cons.IH) (auto simp: settles_def single_owner_def)
  then obtain db' g' where rest: "relay_loop (\<lambda>_. store) jsonb env (Suc n) es (d + 1) (?db, g1) = (Inr (d + 1 + length es), db', g')"
    "fits g'" "settles (pe_outbox ` set es) ?db db'" "pe_assertion ` set es \<subseteq> visible_ids db'" by blast
  have "pe_assertion e \<in> visible_ids db'"
    using complete_visible(2) [of db e] Cons.prems(3) rest(3) by (auto simp: settles_def)
  moreover have "settles (pe_outbox ` set (e # es)) db db'" using settles_trans [OF one rest(3)] by simp
  ultimately show ?case using rest(1,2,4) by (simp add: d)
qed

lemma run_delivers:
  assumes "sound db" and "addressed db"
    and "\<And>n. re_free_load (env n) \<and> re_free_complete (env n)" and fits: "fits g" "single_owner owner db"
  shows "\<exists>db' g'. run_once (\<lambda>_. store) jsonb env True m b (db, g) =
      (Inr \<lparr>rr_claimed = length (claimed_rows m b db), rr_dispatched = length (claimed_rows m b db)\<rparr>, db', g')
    \<and> fits g' \<and> settles (ob_id ` set (claimed_rows m b db)) db db'
    \<and> ob_assertion ` set (claimed_rows m b db) \<subseteq> visible_ids db'"
proof -
  let ?rows = "claimed_rows m b db" and ?db = "snd (claim_outbox m b db)"
  have "\<exists>es. mapE pending_from_row ?rows = Inr es \<and>
      list_all2 (\<lambda>q e. event_for db e \<and> pe_outbox e = ob_id q \<and> pe_assertion e = ob_assertion q) ?rows es"
    using pending_event_for [OF assms(2)] claimed_rowsD by (intro mapE_Inr_ex) blast
  then obtain es where es: "mapE pending_from_row ?rows = Inr es"
    and rel: "list_all2 (\<lambda>q e. event_for db e \<and> pe_outbox e = ob_id q \<and> pe_assertion e = ob_assertion q) ?rows es"
    by blast
  have len: "length es = length ?rows" and ids: "map pe_outbox es = map ob_id ?rows"
    and as: "map pe_assertion es = map ob_assertion ?rows" and ev: "\<forall>e \<in> set es. event_for db e"
    using rel by (auto simp: list_all2_conv_all_nth in_set_conv_nth intro: nth_equalityI)
  have sets: "pe_outbox ` set es = ob_id ` set ?rows" "pe_assertion ` set es = ob_assertion ` set ?rows"
    using arg_cong [OF ids, of set] arg_cong [OF as, of set] by simp_all
  have "commit_check db ?db" by (simp add: commit_check_def)
  then have cl: "relay_claim True m b db = (Inr es, ?db)"
    using es by (simp add: relay_claim_def transaction_def claim_outbox_def Let_def)
  have keys: "single_owner owner ?db" using fits(2) by (simp add: single_owner_def row_keys_def)
  have keep: "event_for ?db e \<longleftrightarrow> event_for db e" for e by (simp add: event_for_def owned_def)
  obtain db' g' where loop: "relay_loop (\<lambda>_. store) jsonb env 0 es 0 (?db, g) = (Inr (0 + length es), db', g')"
    "fits g'" "settles (pe_outbox ` set es) ?db db'" "pe_assertion ` set es \<subseteq> visible_ids db'"
    using loop_delivers [OF sound_claim [OF assms(1)] claim_addressed [OF assms(2)], of es m b env g jsonb 0 0]
      ev keep keys assms(3) fits by blast
  let ?f = "\<lambda>r :: outbox_row. if ob_id r \<in> ob_id ` set ?rows then r\<lparr>ob_attempts := ob_attempts r + 1\<rparr> else r"
  obtain h where h: "db_outbox db' = map h (db_outbox ?db)"
    "\<And>q. ob_id (h q) = ob_id q \<and> (ob_id q \<in> ob_id ` set ?rows \<longrightarrow> ob_dispatched (h q) \<noteq> None) \<and>
       (ob_dispatched q \<noteq> None \<longrightarrow> ob_dispatched (h q) \<noteq> None) \<and> (ob_id q \<notin> ob_id ` set ?rows \<longrightarrow> h q = q)"
    using loop(3) unfolding settles_def sets by blast
  have "db_outbox db' = map (h \<circ> ?f) (db_outbox db)" using h(1) by (simp add: claim_outbox_def Let_def)
  moreover have "ob_id ((h \<circ> ?f) q) = ob_id q \<and> (ob_id q \<in> ob_id ` set ?rows \<longrightarrow> ob_dispatched ((h \<circ> ?f) q) \<noteq> None) \<and>
       (ob_dispatched q \<noteq> None \<longrightarrow> ob_dispatched ((h \<circ> ?f) q) \<noteq> None) \<and>
       (ob_id q \<notin> ob_id ` set ?rows \<longrightarrow> (h \<circ> ?f) q = q)" for q
    using h(2) [of q] h(2) [of "q\<lparr>ob_attempts := ob_attempts q + 1\<rparr>"] by auto
  moreover have "visible_ids db \<subseteq> visible_ids db'" and "row_keys db' = row_keys db"
    and "sound db'" "addressed db'"
    using loop(3) by (simp_all add: settles_def visible_ids_def row_keys_def)
  ultimately have "settles (ob_id ` set ?rows) db db'" unfolding settles_def by blast
  with loop(1,2,4) show ?thesis by (simp add: run_once_def cl len sets)
qed

lemma release_settles:
  assumes "0 < b" and "\<And>k n. re_free_load (env k n) \<and> re_free_complete (env k n)" and "\<And>k. free k"
  shows "sound db \<Longrightarrow> addressed db \<Longrightarrow> fits g \<Longrightarrow> single_owner owner db \<Longrightarrow>
    \<exists>db' g'. release (\<lambda>_ _. store) jsonb env free m b k released (db, g) = Some (Inr (released + waiting m db), db', g')
    \<and> sound db' \<and> waiting m db' = 0 \<and> visible_ids db \<subseteq> visible_ids db'
    \<and> (\<forall>q \<in> set (db_outbox db). claimable m q \<longrightarrow> ob_assertion q \<in> visible_ids db')"
proof (induction "waiting m db" arbitrary: k released db g rule: less_induct)
  case less
  let ?rows = "claimed_rows m b db"
  obtain db1 g1 where run: "run_once (\<lambda>_. store) jsonb (env k) True m b (db, g) =
      (Inr \<lparr>rr_claimed = length ?rows, rr_dispatched = length ?rows\<rparr>, db1, g1)"
    and set1: "settles (ob_id ` set ?rows) db db1" and vis1: "ob_assertion ` set ?rows \<subseteq> visible_ids db1"
    and fits1: "fits g1"
    using run_delivers [OF less.prems(1,2), of "env k" g jsonb m b] assms(2) less.prems(3,4) by blast
  have run': "run_once (\<lambda>_. store) jsonb (env k) (free k) m b (db, g) =
      (Inr \<lparr>rr_claimed = length ?rows, rr_dispatched = length ?rows\<rparr>, db1, g1)"
    using run assms(3) by simp
  have s1: "sound db1" "addressed db1" "visible_ids db \<subseteq> visible_ids db1" using set1 by (simp_all add: settles_def)
  have own1: "single_owner owner db1" using less.prems(4) set1 by (simp add: single_owner_def settles_def)
  note w = waiting_settles [OF less.prems(1) set1]
  show ?case
  proof (cases "?rows = []")
    case True
    then have "waiting m db = 0" using claimed_none [OF assms(1)] by blast
    moreover from this have "\<not> claimable m q" if "q \<in> set (db_outbox db)" for q
      using that by (simp add: waiting_def filter_empty_conv)
    ultimately show ?thesis
      using run' True w s1 by (subst release.simps) simp
  next
    case False
    then have lt: "waiting m db1 < waiting m db" using w by simp
    obtain db2 g2 where rest: "release (\<lambda>_ _. store) jsonb env free m b (Suc k) (released + length ?rows) (db1, g1) =
        Some (Inr (released + length ?rows + waiting m db1), db2, g2)" "sound db2" "waiting m db2 = 0"
      "visible_ids db1 \<subseteq> visible_ids db2" "\<forall>q \<in> set (db_outbox db1). claimable m q \<longrightarrow> ob_assertion q \<in> visible_ids db2"
      using less.hyps [OF lt s1(1,2) fits1 own1, of "Suc k" "released + length ?rows"] by blast
    have "ob_assertion q \<in> visible_ids db2" if "q \<in> set (db_outbox db)" "claimable m q" for q
    proof (cases "q \<in> set ?rows")
      case True
      then show ?thesis using vis1 rest(4) by blast
    next
      case False
      then have "q \<in> {q \<in> set (db_outbox db1). claimable m q}"
        unfolding settles_claimable [OF less.prems(1) set1] using that by blast
      then show ?thesis using rest(5) by blast
    qed
    with rest s1(3) False run' w show ?thesis by (subst release.simps) (auto simp: add.assoc)
  qed
qed

end

section \<open>A run of the relay is a run of the system\<close>

lemma dispatch_steps:
  assumes "e \<in> wd_claimed w" and "relay_dispatch (store r) jsonb env e (wd_db w, wd_graph w) = (res, db', g')"
  shows "\<exists>w'. (world_step store jsonb)\<^sup>*\<^sup>* w w' \<and> wd_db w' = db' \<and> wd_graph w' = g' \<and> wd_claimed w' = wd_claimed w"
proof (cases "fst (transaction (re_free_load env) (\<lambda>db. bindE (relay_load jsonb e db) (\<lambda>a. Inr (a, db))) (wd_db w))")
  case (Inl x)
  with assms(2) show ?thesis by (auto simp: relay_dispatch_def)
next
  case load: (Inr ao)
  show ?thesis
  proof (cases ao)
    case None
    with assms(2) load show ?thesis by (auto simp: relay_dispatch_def)
  next
    case (Some a)
    have ld: "relay_load jsonb e (wd_db w) = Inr (Some a)"
      using load Some by (auto simp: transaction_def bindE_def split: if_splits sum.splits)
    let ?w1 = "w\<lparr>wd_loaded := insert (e, a) (wd_loaded w)\<rparr>"
    have one: "world_step store jsonb w ?w1" using assms(1) ld by (rule step_load)
    obtain o1 g1 where st: "store r (wd_graph w) a = (o1, g1)" by (cases "store r (wd_graph w) a")
    show ?thesis
    proof (cases o1)
      case (Inl x)
      let ?w2 = "?w1\<lparr>wd_graph := g1\<rparr>"
      have "world_step store jsonb ?w1 ?w2" using st Inl by (intro step_miss [where e = e and a = a]) simp_all
      with one have "(world_step store jsonb)\<^sup>*\<^sup>* w ?w2" by (meson r_into_rtranclp rtranclp_trans)
      moreover have "db' = wd_db w" "g' = g1"
        using assms(2) load Some st Inl by (auto simp: relay_dispatch_def split: if_splits)
      ultimately show ?thesis by (intro exI [of _ ?w2]) simp
    next
      case (Inr u)
      let ?w2 = "?w1\<lparr>wd_graph := g1, wd_landed := insert e (wd_landed ?w1)\<rparr>"
      let ?w3 = "?w2\<lparr>wd_db := relay_complete (re_clock env) e (wd_db ?w2)\<rparr>"
      have "world_step store jsonb ?w1 ?w2" using st Inr by (intro step_land [where a = a]) simp_all
      with one have two: "(world_step store jsonb)\<^sup>*\<^sup>* w ?w2" by (meson r_into_rtranclp rtranclp_trans)
      have "world_step store jsonb ?w2 ?w3" by (rule step_complete) simp
      with two have three: "(world_step store jsonb)\<^sup>*\<^sup>* w ?w3" by (meson r_into_rtranclp rtranclp_trans)
      have "db' \<in> {wd_db w, relay_complete (re_clock env) e (wd_db w)}" "g' = g1"
        using assms(2) load Some st Inr
          dispatch_db [of "store r" jsonb env e "wd_db w" "wd_graph w"]
        by (auto simp: relay_dispatch_def split: sum.splits prod.splits)
      then consider "db' = wd_db w" "g' = g1" | "db' = relay_complete (re_clock env) e (wd_db w)" "g' = g1" by blast
      then show ?thesis
      proof cases
        case 1
        with two show ?thesis by (intro exI [of _ ?w2]) simp
      next
        case 2
        with three show ?thesis by (intro exI [of _ ?w3]) simp
      qed
    qed
  qed
qed

lemma loop_steps:
  "set es \<subseteq> wd_claimed w \<Longrightarrow>
     relay_loop (\<lambda>n. store (r n)) jsonb env n es d (wd_db w, wd_graph w) = (res, db', g') \<Longrightarrow>
     \<exists>w'. (world_step store jsonb)\<^sup>*\<^sup>* w w' \<and> wd_db w' = db' \<and> wd_graph w' = g'"
proof (induction es arbitrary: n d w)
  case (Cons e es)
  obtain o1 db1 g1 where d: "relay_dispatch (store (r n)) jsonb (env n) e (wd_db w, wd_graph w) = (o1, db1, g1)"
    by (cases "relay_dispatch (store (r n)) jsonb (env n) e (wd_db w, wd_graph w)")
  obtain w1 where w1: "(world_step store jsonb)\<^sup>*\<^sup>* w w1" "wd_db w1 = db1" "wd_graph w1 = g1" "wd_claimed w1 = wd_claimed w"
    using dispatch_steps [where store = store and r = "r n" and e = e and w = w, OF _ d] Cons.prems(1) by auto
  show ?case
  proof (cases o1)
    case (Inl x)
    with d w1 Cons.prems(2) show ?thesis by auto
  next
    case (Inr ok)
    have "\<exists>w'. (world_step store jsonb)\<^sup>*\<^sup>* w1 w' \<and> wd_db w' = db' \<and> wd_graph w' = g'"
      using Cons.prems d Inr w1 by (intro Cons.IH [where w = w1 and n = "Suc n"]) auto
    then show ?thesis using rtranclp_trans [OF w1(1)] by blast
  qed
qed auto

lemma run_once_steps:
  assumes "run_once (\<lambda>n. store (r n)) jsonb env free m b (wd_db w, wd_graph w) = (res, db', g')"
  shows "\<exists>w'. (world_step store jsonb)\<^sup>*\<^sup>* w w' \<and> wd_db w' = db' \<and> wd_graph w' = g'"
proof -
  obtain o1 db1 where cl: "relay_claim free m b (wd_db w) = (o1, db1)" by (cases "relay_claim free m b (wd_db w)")
  show ?thesis
  proof (cases o1)
    case (Inl x)
    let ?w1 = "w\<lparr>wd_db := db1\<rparr>"
    have "world_step store jsonb w ?w1" using cl Inl by (intro step_claim_raises) simp
    moreover have "db' = db1" "g' = wd_graph w" using assms cl Inl by (auto simp: run_once_def)
    ultimately show ?thesis by (intro exI [of _ ?w1]) auto
  next
    case (Inr es)
    let ?w1 = "w\<lparr>wd_db := db1, wd_claimed := wd_claimed w \<union> set es\<rparr>"
    have one: "world_step store jsonb w ?w1" using cl Inr by (intro step_claim) simp
    obtain o2 where o2: "relay_loop (\<lambda>n. store (r n)) jsonb env 0 es 0 (wd_db ?w1, wd_graph ?w1) = (o2, db', g')"
      using assms cl Inr by (auto simp: run_once_def split: sum.splits prod.splits)
    have "\<exists>w'. (world_step store jsonb)\<^sup>*\<^sup>* ?w1 w' \<and> wd_db w' = db' \<and> wd_graph w' = g'"
      by (rule loop_steps [where store = store and r = r, OF _ o2]) simp
    then show ?thesis using converse_rtranclp_into_rtranclp [where r = "world_step store jsonb", OF one] by blast
  qed
qed

lemma reach_steps:
  "(world_step store jsonb)\<^sup>*\<^sup>* w w' \<Longrightarrow> world_reach store jsonb tenants g0 w \<Longrightarrow> world_reach store jsonb tenants g0 w'"
  by (induction rule: rtranclp_induct) (auto intro: reach_step)

section \<open>The loop over the backends\<close>

definition owned_nodes :: "(string \<Rightarrow> string) \<Rightarrow> neo_graph \<Rightarrow> bool" where
  "owned_nodes owner g \<longleftrightarrow>
     (\<forall>n \<in> set (ng_nodes g). nn_entity n \<longrightarrow> nn_tenant n \<in> {None, Some (owner (nn_key n))})"

lemma merge_node_owned:
  "owned_nodes owner g \<Longrightarrow> (nn_entity n \<longrightarrow> nn_tenant n \<in> {None, Some (owner (nn_key n))}) \<Longrightarrow>
     owned_nodes owner (merge_node n g)"
  by (auto simp: owned_nodes_def merge_node_def)

lemma merge_rel_owned: "owned_nodes owner (merge_rel r g) = owned_nodes owner g"
  by (simp add: owned_nodes_def merge_rel_def)

interpretation neo_healthy: accepting_graph "neo_upsert Answered Answered" "owned_nodes owner" owner for owner
proof (unfold_locales, goal_cases)
  case (1 g a)
  have "\<not> (case start_tenant g (a_subject a) of Some (Some held) \<Rightarrow> held \<noteq> a_tenant a | _ \<Rightarrow> False)"
    using 1 by (auto simp: start_tenant_def owned_nodes_def split: option.splits dest!: first_Some_D)
  moreover have "owned_nodes owner (upsert_statement a g)"
    unfolding upsert_statement_def Let_def merge_rel_owned using 1 by (intro merge_node_owned) auto
  ultimately show ?case by (simp add: neo_upsert_def)
qed

sublocale multigraph \<subseteq> nx_healthy:
  accepting_graph "nx_upsert G" "\<lambda>g. \<forall>n t. mg_tenant G g n = Some t \<longrightarrow> owner n = t" owner for owner
  by unfold_locales (auto simp: nx_upsert_def tenant_edge tenant_node split: option.splits)

text \<open>C20. Draining the outbox ends: whatever the graph answers, whatever the pool and the database do,
  and however many events are waiting, the loop returns, either with the number of events it
  released or with the exception that ended it. Each pass that claims anything uses up an attempt
  of every event it claims, and an event whose attempts are used up is no longer claimed.\<close>

theorem release_terminates:
  "\<exists>outcome st'. release store jsonb env free max_attempts batch 0 0 st = Some (outcome, st')"
  using release_ends [of store jsonb env free max_attempts batch 0 0 st] by auto

text \<open>C19. Draining the outbox delivers: when the pool has connections and Neo4j answers, and no
  entity is written by two tenants, the loop over a sound database returns the number of events
  that were waiting; afterwards none is waiting, and every assertion whose event was waiting is
  visible.\<close>

theorem release_delivers:
  assumes "sound db" and "addressed db" and "0 < batch"
    and "\<forall>k. free k" and "\<forall>k n. re_free_load (env k n) \<and> re_free_complete (env k n)"
    and "single_owner owner db" and "owned_nodes owner g"
  shows "\<exists>db' g'. release (\<lambda>_ _. neo_upsert Answered Answered) jsonb env free max_attempts batch 0 0 (db, g) =
      Some (Inr (waiting max_attempts db), db', g')
    \<and> sound db' \<and> waiting max_attempts db' = 0 \<and> visible_ids db \<subseteq> visible_ids db'
    \<and> (\<forall>q \<in> set (db_outbox db). claimable max_attempts q \<longrightarrow> ob_assertion q \<in> visible_ids db')"
  using neo_healthy.release_settles [where b = batch and env = env and free = free and db = db and g = g
      and owner = owner and jsonb = jsonb and m = max_attempts and k = 0 and released = 0] assms by simp

definition waiting_db :: db where
  "waiting_db = shelf_db\<lparr>db_assertions := [shelf_row\<lparr>row_visible := False\<rparr>],
     db_outbox := [\<lparr>ob_id = ''o'', ob_assertion = ''a'',
       ob_event = [(''kind'', JStr EVENT_KIND), (''tenant_id'', JStr ''t''), (''namespace'', JStr ''n''),
         (''trace_id'', JStr ''tr'')],
       ob_attempts = 0, ob_created = 5, ob_dispatched = None\<rparr>]\<rparr>"

theorem release_delivers_witness:
  "\<exists>db' g'. release (\<lambda>_ _. neo_upsert Answered Answered) id (\<lambda>_ _. \<lparr>re_free_load = True, re_free_complete = True, re_clock = 9\<rparr>)
      (\<lambda>_. True) 5 50 0 0 (waiting_db, \<lparr>ng_nodes = [], ng_rels = []\<rparr>) = Some (Inr 1, db', g') \<and> ''a'' \<in> visible_ids db'"
proof -
  have "sound waiting_db"
    by (simp add: sound_def db_core_def sourced_def waiting_db_def shelf_db_def shelf_row_def shelf_citation_def
        assertion_check_def assertion_refs_def citation_check_def assertion_ids_def assert_provenance_exists_def
        in_unit_def span_ok_def pg_text_def)
  moreover have "addressed waiting_db"
    by (simp add: addressed_def waiting_db_def shelf_row_def)
  moreover have "single_owner (\<lambda>_. ''t'') waiting_db" "owned_nodes (\<lambda>_. ''t'') \<lparr>ng_nodes = [], ng_rels = []\<rparr>"
    by (simp_all add: single_owner_def row_keys_def waiting_db_def shelf_row_def owned_nodes_def)
  moreover have "waiting 5 waiting_db = 1" "claimable 5 (hd (db_outbox waiting_db))"
    and "hd (db_outbox waiting_db) \<in> set (db_outbox waiting_db)" "ob_assertion (hd (db_outbox waiting_db)) = ''a''"
    by (simp_all add: waiting_def waiting_db_def claimable_def)
  ultimately show ?thesis
    using release_delivers [where db = waiting_db and batch = 50 and free = "\<lambda>_. True" and jsonb = id
        and env = "\<lambda>_ _. \<lparr>re_free_load = True, re_free_complete = True, re_clock = 9\<rparr>"
        and owner = "\<lambda>_. ''t''" and g = "\<lparr>ng_nodes = [], ng_rels = []\<rparr>" and max_attempts = 5]
    by simp metis
qed

section \<open>A poisoned event\<close>

text \<open>
  Only \<open>StoreUnavailable\<close> leaves an event for the next run. Any other error of the graph, such as the
  tenant collision of one event, ends the run where it stands: the events after it are not
  dispatched, and yet an attempt of each was spent when the batch was claimed.
\<close>

lemma poisoned_event_ends_the_run:
  assumes "sound db" and "addressed db" and "claimed_rows m b db = q # rows" and "re_free_load (env 0)"
    and poison: "\<And>a. a_id a = ob_assertion q \<Longrightarrow> store 0 g a = (Inl x, g)" "x \<noteq> GM StoreUnavailable"
  shows "run_once store jsonb env True m b (db, g) = (Inl x, snd (claim_outbox m b db), g)
    \<and> (\<forall>q' \<in> set (q # rows). q'\<lparr>ob_attempts := ob_attempts q' + 1\<rparr> \<in> set (db_outbox (snd (claim_outbox m b db))))"
proof -
  let ?db = "snd (claim_outbox m b db)"
  have "\<exists>es. mapE pending_from_row (q # rows) = Inr es \<and>
      list_all2 (\<lambda>q e. event_for db e \<and> pe_outbox e = ob_id q \<and> pe_assertion e = ob_assertion q) (q # rows) es"
    using pending_event_for [OF assms(2)] claimed_rowsD assms(3) by (intro mapE_Inr_ex) metis
  then obtain e es where es: "mapE pending_from_row (q # rows) = Inr (e # es)"
    and e: "event_for db e" "pe_assertion e = ob_assertion q"
    by (auto simp: list_all2_Cons1)
  have "commit_check db ?db" by (simp add: commit_check_def)
  then have cl: "relay_claim True m b db = (Inr (e # es), ?db)"
    using es assms(3) by (simp add: relay_claim_def transaction_def claim_outbox_def Let_def)
  have "event_for ?db e" using e(1) by (simp add: event_for_def owned_def)
  then obtain a where a: "relay_load jsonb e ?db = Inr (Some a)"
    using load_owned [OF sound_claim [OF assms(1)]] by blast
  have "a_id a = ob_assertion q" using relay_load_id [OF a] e(2) by simp
  then have "relay_dispatch (store 0) jsonb (env 0) e (?db, g) = (Inl x, ?db, g)"
    using a poison assms(4) by (simp add: relay_dispatch_def transaction_def)
  then have "run_once store jsonb env True m b (db, g) = (Inl x, ?db, g)"
    by (simp add: run_once_def cl)
  moreover have "q'\<lparr>ob_attempts := ob_attempts q' + 1\<rparr> \<in> set (db_outbox ?db)" if "q' \<in> set (q # rows)" for q'
  proof -
    let ?f = "\<lambda>r :: outbox_row. if ob_id r \<in> ob_id ` set (claimed_rows m b db)
        then r\<lparr>ob_attempts := ob_attempts r + 1\<rparr> else r"
    have c: "q' \<in> set (claimed_rows m b db)" using that assms(3) by simp
    then have "q' \<in> set (db_outbox db)" using claimed_rowsD by blast
    then have "?f q' \<in> ?f ` set (db_outbox db)" by (rule imageI)
    with c show ?thesis by (simp add: claim_outbox_def Let_def)
  qed
  ultimately show ?thesis by blast
qed

section \<open>A run to visibility\<close>

definition tea_note :: stored_assertion where
  "tea_note = \<lparr>a_id = ''a'', a_tenant = ''t'', a_namespace = ''user:u'', a_subject = derive_entity_id ''t'' ''user:u'',
     a_predicate = ''likes'', a_object = OStr ''tea'', a_confidence = 1, a_risk = 0, a_valid_from = 1,
     a_valid_to = None, a_recorded_at = 2, a_retracted_at = None, a_superseded_by = None,
     a_provenance = [shelf_citation], a_corroboration = 1, a_trace = ''tr'', a_visible = False\<rparr>"

definition tea_world :: "neo_graph world" where
  "tea_world =
     (let w0 = world_start [''t''] \<lparr>ng_nodes = [], ng_rels = []\<rparr>;
          w1 = w0\<lparr>wd_db := snd (resolve True ''ann'' ''t'' ''user:u'' ''user'' (wd_db w0))\<rparr>
      in w1\<lparr>wd_db := snd (router_write ''t'' tea_store True 8 [tea_note] (wd_db w1))\<rparr>)"

lemma tea_world_reach:
  "world_reach (\<lambda>(r, w). neo_upsert r w) id [''t''] \<lparr>ng_nodes = [], ng_rels = []\<rparr> tea_world"
proof -
  let ?w0 = "world_start [''t''] \<lparr>ng_nodes = [], ng_rels = []\<rparr>"
  let ?w1 = "?w0\<lparr>wd_db := snd (resolve True ''ann'' ''t'' ''user:u'' ''user'' (wd_db ?w0))\<rparr>"
  have "world_reach (\<lambda>(r, w). neo_upsert r w) id [''t''] \<lparr>ng_nodes = [], ng_rels = []\<rparr> ?w1"
    by (rule reach_step [OF reach_start step_resolve])
  moreover have "\<forall>a \<in> set [tea_note]. assertion_ok a"
    by (simp add: tea_note_def assertion_ok_def in_unit_def provenance_ok_def shelf_citation_def span_ok_def)
  ultimately show ?thesis unfolding tea_world_def Let_def by (rule reach_step [OF _ step_write])
qed

lemma tea_world_db:
  "claimed_rows 5 50 (wd_db tea_world) \<noteq> [] \<and> (\<forall>q \<in> set (claimed_rows 5 50 (wd_db tea_world)). ob_assertion q = ''a'')
   \<and> single_owner (\<lambda>_. ''t'') (wd_db tea_world) \<and> wd_graph tea_world = \<lparr>ng_nodes = [], ng_rels = []\<rparr>"
proof -
  let ?db0 = "wd_db (world_start [''t''] \<lparr>ng_nodes = [], ng_rels = []\<rparr>)"
  let ?en = "\<lparr>en_id = derive_entity_id ''t'' ''user:u'', en_tenant = ''t'', en_type = ''user'', en_name = ''ann''\<rparr>"
  have 1: "snd (resolve True ''ann'' ''t'' ''user:u'' ''user'' ?db0) = ?db0\<lparr>db_entities := [?en]\<rparr>"
    by (simp add: resolve_def subject_type_of_def ensure_entity_def transaction_def insert_entity_def
        world_start_def commit_check_def Let_def casefold_def pg_text_def)
  have 2: "prepare tea_store [tea_note] = Inr (Some \<lparr>pw_assertions = [assertion_params tea_note ''t'' (replicate EMBEDDING_DIM 0)],
      pw_citations = provenance_params tea_note, pw_events = [outbox_params tea_note ''t'']\<rparr>)"
    by (simp add: prepare_def embed_batch_def tea_store_def)
  let ?db1 = "?db0\<lparr>db_entities := [?en]\<rparr>"
  let ?row = "(assertion_params tea_note ''t'' (replicate EMBEDDING_DIM 0))"
  let ?p = "\<lparr>pr_id = citation_id ''a'' shelf_citation, pr_assertion = ''a'', pr_citation = shelf_citation\<rparr>"
  let ?o = "\<lparr>ob_id = outbox_id ''a'', ob_assertion = ''a'', ob_event = snd (snd (outbox_params tea_note ''t'')),
      ob_attempts = 0, ob_created = 8, ob_dispatched = None\<rparr>"
  let ?db2 = "?db1\<lparr>db_assertions := [?row]\<rparr>" and ?db3 = "?db1\<lparr>db_assertions := [?row], db_provenance := [?p]\<rparr>"
  let ?db4 = "?db1\<lparr>db_assertions := [?row], db_provenance := [?p], db_outbox := [?o]\<rparr>"
  have 3: "insert_assertion ''t'' ?db1 ?row = Inr ?db2"
    by (simp add: insert_assertion_def Let_def world_start_def assertion_params_def tea_note_def assertion_check_def
        assertion_refs_def in_unit_def fl32.rnd_zero fl32.rnd_one pg_text_def)
  have 4: "provenance_params tea_note = [?p]" by (simp add: provenance_params_def tea_note_def)
  have 5: "insert_provenance ''t'' ?db2 ?p = Inr ?db3"
    by (simp add: insert_provenance_def Let_def world_start_def owned_def assertion_params_def tea_note_def
        citation_check_def shelf_citation_def in_unit_def span_ok_def fl32.rnd_zero fl32.rnd_one pg_text_def)
  have 6: "insert_outbox 8 ?db3 (outbox_params tea_note ''t'') = Inr ?db4"
    by (simp add: insert_outbox_def outbox_params_def world_start_def assertion_params_def tea_note_def pg_text_def EVENT_KIND_def)
  have 7: "write_in ''t'' 8 ?db1 \<lparr>pw_assertions = [?row], pw_citations = [?p], pw_events = [outbox_params tea_note ''t'']\<rparr> = Inr ?db4"
    by (simp add: write_in_def 3 5 6)
  have t: "a_tenant tea_note = ''t''" "\<not> a_visible tea_note" "st_tenant tea_store = ''t''"
    by (simp_all add: tea_note_def tea_store_def)
  have 8: "commit_check ?db1 ?db4"
    by (simp add: commit_check_def assert_provenance_exists_def assertion_params_def tea_note_def)
  have 9: "wd_db tea_world = ?db4"
    unfolding tea_world_def Let_def by (simp add: 1 router_write_def t upsert_def 2 4 transaction_def 7 8)
  show ?thesis
    unfolding 9 by (simp add: claimed_rows_def claimable_def single_owner_def row_keys_def assertion_params_def)
      (simp add: tea_world_def Let_def world_start_def)
qed

theorem visible_assertions_are_in_the_graph_witness:
  "\<exists>wd. world_reach (\<lambda>(r, w). neo_upsert r w) id [''t''] \<lparr>ng_nodes = [], ng_rels = []\<rparr> wd
     \<and> ''a'' \<in> visible_ids (wd_db wd) \<and> (\<exists>e. e_assertion e = ''a'' \<and> neo_shows (wd_graph wd) e)"
proof -
  let ?store = "\<lambda>(r, w). neo_upsert r w" and ?g0 = "\<lparr>ng_nodes = [], ng_rels = []\<rparr>"
  let ?env = "\<lambda>_ :: nat. \<lparr>re_free_load = True, re_free_complete = True, re_clock = 9\<rparr>"
  have inv: "sound (wd_db tea_world)" "addressed (wd_db tea_world)"
    using neo.world_reach_inv [OF tea_world_reach] by (simp_all add: neo.world_inv_def)
  have own: "owned_nodes (\<lambda>_. ''t'') (wd_graph tea_world)" using tea_world_db by (simp add: owned_nodes_def)
  have single: "single_owner (\<lambda>_. ''t'') (wd_db tea_world)" using tea_world_db by blast
  have good: "\<And>n. re_free_load (?env n) \<and> re_free_complete (?env n)" by simp
  obtain db' g' where run: "run_once (\<lambda>_. neo_upsert Answered Answered) id ?env True 5 50 (wd_db tea_world, wd_graph tea_world) =
      (Inr \<lparr>rr_claimed = length (claimed_rows 5 50 (wd_db tea_world)), rr_dispatched = length (claimed_rows 5 50 (wd_db tea_world))\<rparr>, db', g')"
    and vis: "ob_assertion ` set (claimed_rows 5 50 (wd_db tea_world)) \<subseteq> visible_ids db'"
    using neo_healthy.run_delivers [OF inv good own single, where jsonb = id and m = 5 and b = 50] by blast
  have "''a'' \<in> ob_assertion ` set (claimed_rows 5 50 (wd_db tea_world))"
    using tea_world_db by (metis image_eqI last_in_set)
  then have a: "''a'' \<in> visible_ids db'" using vis by blast
  have run': "run_once (\<lambda>n. ?store ((\<lambda>_. (Answered, Answered)) n)) id ?env True 5 50 (wd_db tea_world, wd_graph tea_world) =
      (Inr \<lparr>rr_claimed = length (claimed_rows 5 50 (wd_db tea_world)), rr_dispatched = length (claimed_rows 5 50 (wd_db tea_world))\<rparr>, db', g')"
    using run by simp
  from run_once_steps [where store = ?store and r = "\<lambda>_. (Answered, Answered)", OF run']
  obtain w' where w': "(world_step ?store id)\<^sup>*\<^sup>* tea_world w'" "wd_db w' = db'" by blast
  have reach: "world_reach ?store id [''t''] ?g0 w'" by (rule reach_steps [OF w'(1) tea_world_reach])
  from visible_assertions_are_in_the_graph [OF reach] a w'(2) have "\<exists>e. e_assertion e = ''a'' \<and> neo_shows (wd_graph w') e"
    by blast
  with reach a w'(2) show ?thesis by blast
qed

end
