(* ===== verification/Pipeline.thy ===== *)
theory Pipeline
  imports Decision Conflict SchemaGate Extract Noise Release
begin

text \<open>
  The pipeline that composes the layers: \<open>pipeline/inputs.py\<close> (what one stage's output becomes for
  the next), \<open>pipeline/l2_validate/incumbents.py\<close>, \<open>pipeline/per_candidate.py\<close>,
  \<open>pipeline/orchestrator.py\<close>, \<open>pipeline/deps.py\<close> and \<open>governance.py\<close>. The stores, the resolver, the
  judge and the entailment lookup are the fields of \<open>deps\<close>, as they are in the code; \<open>store_deps\<close>
  is the bundle \<open>build_deps\<close> makes, over the model's own stores. \<open>asyncio.gather\<close> scores the
  candidates concurrently; here they are scored in order, and \<open>PipelineLaws\<close> shows that the order
  does not matter.
\<close>

section \<open>Inputs of the layers\<close>

definition render_content :: "turn list \<Rightarrow> string" where
  "render_content turns = join newline (map t_text turns)"

definition render_object :: "object_value \<Rightarrow> string" where
  \<comment> \<open>\<open>_render\<close>\<close>
  "render_object v = (case v of OStr s \<Rightarrow> s | _ \<Rightarrow> json_default (obj_json v))"

definition first_object :: "fact list \<Rightarrow> candidate \<Rightarrow> string option" where
  "first_object facts c =
     map_option (\<lambda>f. render_object (f_object f))
       (first (\<lambda>f. f_subject f = c_subject c \<and> f_predicate f = c_predicate c) facts)"

definition draws_for :: "fact list list \<Rightarrow> candidate \<Rightarrow> string option list" where
  "draws_for samples c = map (\<lambda>facts. first_object facts c) samples"

definition claim_text :: "candidate \<Rightarrow> string" where
  "claim_text c =
     c_subject c @ '' '' @ map (\<lambda>x. if x = CHR ''_'' then CHR '' '' else x) (c_predicate c) @ '' ''
       @ render_object (c_object c)"

fun both_ways :: "string list \<Rightarrow> entail_pair list" where
  \<comment> \<open>\<open>combinations(answered, 2)\<close>, each pair in both directions\<close>
  "both_ways [] = []"
| "both_ways (x # xs) = concat (map (\<lambda>y. [(x, y), (y, x)]) xs) @ both_ways xs"

definition entail_pairs :: "string option list \<Rightarrow> string \<Rightarrow> string \<Rightarrow> entail_pair list" where
  "entail_pairs draws verbatim claim =
     (verbatim, claim) # both_ways (map the (filter (\<lambda>d. d \<noteq> None) draws))"

definition scope_of_namespace :: "string \<Rightarrow> scope" where
  "scope_of_namespace ns =
     (if startswith ns ''org:'' then ORG else if startswith ns ''session:'' then SESSION else USER)"

definition risk_features_for ::
    "candidate \<Rightarrow> predicate_spec \<Rightarrow> string \<Rightarrow> conflict_kind \<Rightarrow> int \<Rightarrow> incumbent_set \<Rightarrow> exn + risk_features" where
  \<comment> \<open>\<open>risk_features\<close>\<close>
  "risk_features_for c spec ns kind degree incumbents =
     bindE (graph_fanout degree) (\<lambda>fanout.
       mk_risk_features \<lparr>rf_impact = impact_feature (ps_impact spec),
         rf_mutation = mutation_feature (from_conflict kind),
         rf_scope = scope_feature (scope_of_namespace ns), rf_fanout = fanout,
         rf_pii = pii_feature (ps_pii spec), rf_irreversibility = irreversibility_feature (ps_irreversibility spec),
         rf_tier = source_tier_risk (pv_tier (c_provenance c)),
         rf_novelty = novelty (case is_nearest incumbents of [] \<Rightarrow> None | h # _ \<Rightarrow> Some (s_cosine h))\<rparr>)"

definition signals_for :: "candidate \<Rightarrow> predicate_spec \<Rightarrow> string \<Rightarrow> conflict_kind \<Rightarrow> override_signals" where
  \<comment> \<open>\<open>override_signals\<close>\<close>
  "signals_for c spec policy_version kind =
     \<lparr>os_injection = False, os_tier = pv_tier (c_provenance c), os_mutation = from_conflict kind,
      os_requires_corroboration = ps_requires_corroboration spec, os_budget_exhausted = False,
      os_circuit_open = False, os_policy_version = policy_version\<rparr>"

section \<open>Dependencies\<close>

record 'w deps =
  dp_search :: "'w \<Rightarrow> string \<Rightarrow> real list \<Rightarrow> nat \<Rightarrow> (string \<times> string) list \<Rightarrow> exn + scored_assertion list"
  dp_neighbors :: "'w \<Rightarrow> string \<Rightarrow> nat \<Rightarrow> exn + edge list"
  dp_degree :: "'w \<Rightarrow> string \<Rightarrow> exn + nat"
  dp_resolve :: "'w \<Rightarrow> string \<Rightarrow> string \<Rightarrow> string \<Rightarrow> string \<Rightarrow> (exn + string) \<times> 'w"
  dp_embed :: embedder
  dp_nli :: "string \<Rightarrow> nli_judge" \<comment> \<open>each call draws its own canary; the argument names the candidate\<close>
  dp_entail :: "string \<Rightarrow> entail_pair list \<Rightarrow> exn + entail_fn"
  dp_log :: "real \<Rightarrow> real"
  dp_sum :: "real list \<Rightarrow> real"
  dp_ontology :: ontology
  dp_thresholds :: thresholds
  dp_weights :: confidence_weights
  dp_betas :: risk_betas
  dp_policy_version :: string

record proposal =
  pp_trace :: string
  pp_tenant :: string
  pp_namespace :: string
  pp_turns :: "turn list"
  pp_tier :: source_tier
  pp_k :: int
  pp_model_tier :: tier
  pp_subject_hint :: "string option"

section \<open>One candidate\<close>

definition retrieve_incumbents :: "'w deps \<Rightarrow> 'w \<Rightarrow> candidate \<Rightarrow> string \<Rightarrow> exn + incumbent_set" where
  "retrieve_incumbents D w c subject =
     bindE (dp_embed D [embed_text (c_predicate c) (c_object c)]) (\<lambda>vectors.
     bindE (case vectors of [] \<Rightarrow> Inl IndexError | v # _ \<Rightarrow> Inr v) (\<lambda>vector.
     bindE (dp_search D w (c_namespace c) vector INCUMBENT_K
              [(''subject_id'', subject), (''predicate'', c_predicate c)]) (\<lambda>nearest.
     bindE (dp_neighbors D w subject HOPS) (\<lambda>edges.
       Inr \<lparr>is_candidate = c_id c, is_nearest = nearest, is_neighbours = widening edges nearest\<rparr>))))"

definition confidence_for ::
    "'w deps \<Rightarrow> gated_candidate \<Rightarrow> fact list list \<Rightarrow> conflict_report \<Rightarrow> exn + confidence_report" where
  "confidence_for D v samples conflict =
     (let c = g_candidate v; draws = draws_for samples c; claim = claim_text c;
          verbatim = pv_verbatim (c_provenance c)
      in bindE (dp_entail D (c_id c) (entail_pairs draws verbatim claim)) (\<lambda>entail.
         bindE (cluster_meanings (dp_log D) (dp_sum D) draws entail) (\<lambda>meanings.
         bindE (entail verbatim claim) (\<lambda>span.
           score_confidence (mc_entropy meanings) span (pv_tier (c_provenance c))
             (pv_alignment (c_provenance c)) (g_fit v) 1 conflict (dp_weights D)))))"

definition score_and_decide ::
    "'w deps \<Rightarrow> 'w \<Rightarrow> gated_candidate \<Rightarrow> fact list list \<Rightarrow> predicate_spec \<Rightarrow> string \<Rightarrow> string
     \<Rightarrow> incumbent_set \<Rightarrow> conflict_report \<Rightarrow> exn + decision_record" where
  "score_and_decide D w v samples spec ns subject incumbents conflict =
     bindE (confidence_for D v samples conflict) (\<lambda>confidence.
     bindE (dp_degree D w subject) (\<lambda>degree.
     bindE (risk_features_for (g_candidate v) spec ns (cr_kind conflict) (int degree) incumbents) (\<lambda>features.
     bindE (score_impact features (ps_impact spec) [] (dp_betas D)) (\<lambda>risk.
       Inr (decide confidence risk conflict (dp_thresholds D) False
              (signals_for (g_candidate v) spec (dp_policy_version D) (cr_kind conflict)))))))"

definition incumbent_of :: "conflict_report \<Rightarrow> incumbent_set \<Rightarrow> stored_assertion option" where
  "incumbent_of conflict incumbents =
     (case cr_incumbent conflict of
        None \<Rightarrow> None
      | Some i \<Rightarrow> map_option s_assertion (first (\<lambda>h. a_id (s_assertion h) = i) (is_nearest incumbents)))"

definition subject_named :: "proposal \<Rightarrow> candidate \<Rightarrow> string" where
  \<comment> \<open>\<open>proposal.subject_hint or candidate.subject\<close>\<close>
  "subject_named p c =
     (case pp_subject_hint p of None \<Rightarrow> c_subject c | Some s \<Rightarrow> if s = [] then c_subject c else s)"

definition decide_resolved ::
    "'w deps \<Rightarrow> 'w \<Rightarrow> gated_candidate \<Rightarrow> fact list list \<Rightarrow> proposal \<Rightarrow> predicate_spec \<Rightarrow> string
     \<Rightarrow> exn + decision_record \<times> string \<times> stored_assertion option" where
  \<comment> \<open>\<open>_decide_one\<close> after the subject is resolved\<close>
  "decide_resolved D w v samples p spec subject =
     bindE (retrieve_incumbents D w (g_candidate v) subject) (\<lambda>incumbents.
     bindE (detect (g_candidate v) incumbents spec (dp_nli D (c_id (g_candidate v)))) (\<lambda>conflict.
     bindE (score_and_decide D w v samples spec (pp_namespace p) subject incumbents conflict) (\<lambda>rec.
       Inr (rec, subject, incumbent_of conflict incumbents))))"

definition decide_one ::
    "'w deps \<Rightarrow> 'w \<Rightarrow> gated_candidate \<Rightarrow> fact list list \<Rightarrow> proposal
     \<Rightarrow> (exn + decision_record \<times> string \<times> stored_assertion option) \<times> 'w" where
  "decide_one D w v samples p =
     (case predicate (dp_ontology D) (c_predicate (g_candidate v)) of
        None \<Rightarrow> (Inl ValueError, w)
      | Some spec \<Rightarrow>
          (case dp_resolve D w (subject_named p (g_candidate v)) (pp_tenant p) (pp_namespace p) (ps_subject spec) of
             (Inl e, w') \<Rightarrow> (Inl e, w')
           | (Inr subject, w') \<Rightarrow> (decide_resolved D w' v samples p spec subject, w')))"

datatype outcome =
    Governed governed
  | Failed string exn \<comment> \<open>\<open>CandidateFailure\<close>\<close>

definition score_candidate ::
    "'w deps \<Rightarrow> 'w \<Rightarrow> gated_candidate \<Rightarrow> fact list list \<Rightarrow> proposal \<Rightarrow> outcome \<times> 'w" where
  "score_candidate D w v samples p =
     (case decide_one D w v samples p of
        (Inl e, w') \<Rightarrow> (Failed (c_id (g_candidate v)) e, w')
      | (Inr (rec, subject, incumbent), w') \<Rightarrow>
          (Governed \<lparr>gv_candidate = g_candidate v, gv_subject = subject, gv_record = rec,
             gv_incumbent = incumbent\<rparr>, w'))"

section \<open>One proposal\<close>

record text_env =
  te_files :: prompt_files
  te_loads :: json_parser
  te_llm :: llm_client
  te_ratio :: "string \<Rightarrow> string \<Rightarrow> real"
  te_extractor :: extractor_env
  te_noise_canary :: string
  te_extract_canary :: string
  te_yaml :: "ontology \<Rightarrow> string"

record pipeline_result =
  pr_trace :: string
  pr_governed :: "governed list"
  pr_quarantined :: "string list"
  pr_rejected :: "string list"
  pr_dropped_noise :: int
  pr_dropped_unsourced :: int

definition context_of :: "proposal \<Rightarrow> turn list \<Rightarrow> exn + extraction_context" where
  "context_of p kept =
     (let stamps = map the (filter (\<lambda>s. s \<noteq> None) (map t_captured_at kept))
      in if stamps = [] then Inl ValueError
         else Inr \<lparr>ec_tenant = pp_tenant p, ec_namespace = pp_namespace p, ec_trace = pp_trace p,
                   ec_tier = pp_tier p, ec_captured_at = Min (set stamps)\<rparr>)"

fun score_all ::
    "'w deps \<Rightarrow> fact list list \<Rightarrow> proposal \<Rightarrow> 'w \<Rightarrow> gated_candidate list \<Rightarrow> outcome list \<times> 'w" where
  "score_all D samples p w [] = ([], w)"
| "score_all D samples p w (v # vs) =
     (case score_candidate D w v samples p of
        (out, w1) \<Rightarrow> (case score_all D samples p w1 vs of (os, w2) \<Rightarrow> (out # os, w2)))"

fun governed_of :: "outcome list \<Rightarrow> governed list" where
  "governed_of [] = []"
| "governed_of (Governed g # os) = g # governed_of os"
| "governed_of (Failed i e # os) = governed_of os"

fun failures_of :: "outcome list \<Rightarrow> (string \<times> exn) list" where
  "failures_of [] = []"
| "failures_of (Governed g # os) = failures_of os"
| "failures_of (Failed i e # os) = (i, e) # failures_of os"

definition extract_proposal :: "text_env \<Rightarrow> 'w deps \<Rightarrow> proposal \<Rightarrow> exn + nat \<times> turn list \<times> extraction_result" where
  \<comment> \<open>the first two stages: how many turns were noise, the turns kept and what was extracted from them\<close>
  "extract_proposal T D p =
     bindE (filter_noise (te_ratio T) (te_files T) (te_loads T) (te_llm T) (te_noise_canary T) (pp_turns p)
              (pp_namespace p)) (\<lambda>denoised.
     bindE (context_of p (nr_kept denoised)) (\<lambda>context.
     bindE (extract_candidates (te_extractor T) (te_files T) (te_loads T) (te_llm T) (te_extract_canary T)
              (render_content (nr_kept denoised)) context (te_yaml T (dp_ontology D)) (pp_k p) (pp_model_tier p)
              (int (length (nr_dropped denoised)))) (\<lambda>extracted.
       Inr (length (nr_dropped denoised), nr_kept denoised, extracted))))"

definition run ::
    "text_env \<Rightarrow> 'w deps \<Rightarrow> proposal \<Rightarrow> 'w \<Rightarrow> (exn + pipeline_result \<times> (string \<times> exn) list) \<times> 'w" where
  "run T D p w =
     (case extract_proposal T D p of
        Inl e \<Rightarrow> (Inl e, w)
      | Inr (noise, kept, extracted) \<Rightarrow>
          (let admitted = gate (x_candidates extracted) (dp_ontology D) in
           case score_all D (x_samples extracted) p w (gr_admitted admitted) of
             (scored, w') \<Rightarrow>
               (Inr (\<lparr>pr_trace = pp_trace p, pr_governed = governed_of scored,
                      pr_quarantined = map (\<lambda>v. c_id (g_candidate v)) (gr_quarantined admitted),
                      pr_rejected = map (\<lambda>v. c_id (g_candidate v)) (gr_rejected admitted),
                      pr_dropped_noise = int noise, pr_dropped_unsourced = x_dropped_unsourced extracted\<rparr>,
                     failures_of scored), w')))"

section \<open>Governance\<close>

record boundary_env =
  be_search :: search_env
  be_loads :: "string \<Rightarrow> object_value" \<comment> \<open>\<open>json.loads\<close> of a stored object\<close>
  be_embed :: embedder
  be_free :: bool
  be_graph_up :: bool
  be_files :: prompt_files
  be_json :: json_parser
  be_llm :: llm_client
  be_nli_canary :: "string \<Rightarrow> string"
  be_entail_canary :: "string \<Rightarrow> string"
  be_log :: "real \<Rightarrow> real"
  be_sum :: "real list \<Rightarrow> real"

definition build_deps ::
    "boundary_env \<Rightarrow> string \<Rightarrow> ontology \<Rightarrow> thresholds \<Rightarrow> string \<Rightarrow> (db \<times> neo_graph) deps" where
  "build_deps B tenant onto thr policy_version =
     \<lparr>dp_search = (\<lambda>(db, g) ns v k filters. search (be_search B) db tenant ns v k filters None),
      dp_neighbors = (\<lambda>(db, g) entity hops.
        guardE (be_graph_up B) (GM StoreUnavailable) (Inr (neo_neighbors (be_loads B) g entity (int hops)))),
      dp_degree = (\<lambda>(db, g) entity. guardE (be_graph_up B) (GM StoreUnavailable) (Inr (neo_degree g entity))),
      dp_resolve = (\<lambda>(db, g) subject t ns typ.
        case resolve (be_free B) subject t ns typ db of (r, db') \<Rightarrow> (r, (db', g))),
      dp_embed = be_embed B,
      dp_nli = (\<lambda>i. llm_judge (be_files B) (be_json B) (be_llm B) (be_nli_canary B i)),
      dp_entail = (\<lambda>i. lookup (be_files B) (be_json B) (be_llm B) (be_entail_canary B i)),
      dp_log = be_log B, dp_sum = be_sum B,
      dp_ontology = onto, dp_thresholds = thr, dp_weights = V1_WEIGHTS, dp_betas = V1_BETAS,
      dp_policy_version = policy_version\<rparr>"

record governed_proposal =
  gp_result :: pipeline_result
  gp_applied :: "(string \<times> applied) list"
  gp_failures :: "(string \<times> exn) list"

definition written :: "governed_proposal \<Rightarrow> nat" where
  "written g = length (filter (\<lambda>(_, a). ap_assertion a \<noteq> None) (gp_applied g))"

definition govern ::
    "text_env \<Rightarrow> (db \<times> neo_graph) deps \<Rightarrow> (governed \<Rightarrow> call_env) \<Rightarrow> proposal \<Rightarrow> db \<times> neo_graph
     \<Rightarrow> (exn + governed_proposal) \<times> db \<times> neo_graph" where
  "govern T D env p w =
     (case run T D p w of
        (Inl e, w') \<Rightarrow> (Inl e, w')
      | (Inr (result, failures), (db, g)) \<Rightarrow>
          (case apply_all \<lparr>st_embed = dp_embed D, st_tenant = pp_tenant p\<rparr> (pp_tenant p) (pr_trace result)
                  (map (\<lambda>gv. (gv, env gv)) (pr_governed result)) db of
             (ap, db') \<Rightarrow>
               (Inr \<lparr>gp_result = result, gp_applied = ares_applied ap,
                     gp_failures = failures @ ares_failures ap\<rparr>, (db', g))))"

end
