(* ===== verification/Throttle.thy ===== *)
theory Throttle
  imports Prelude Float64 PyText Sha256
begin

text \<open>
  The gateway's Redis state, \<open>services/gateway/src/gateway/limits.py\<close>: the token bucket, whose one
  Lua script is \<open>bucket_script\<close>, and the idempotency cache. Redis is a map from keys to a value and
  the instant it expires; a key read at or after that instant is absent. Lua's numbers are the
  doubles of \<open>Float64\<close>. A number a script hands to \<open>HSET\<close> is written with 17 digits and reads back as
  itself; one passed to \<open>tostring\<close> is written with 14 (\<open>lua_tostring\<close>).
\<close>

section \<open>Redis\<close>

datatype redis_value =
    Bucket real real \<comment> \<open>the hash with the fields \<open>tokens\<close> and \<open>updated\<close>\<close>
  | Stored string

type_synonym redis = "string \<Rightarrow> (redis_value \<times> real) option"

definition redis_read :: "redis \<Rightarrow> real \<Rightarrow> string \<Rightarrow> redis_value option" where
  "redis_read rs now key =
     (case rs key of None \<Rightarrow> None | Some (v, expires) \<Rightarrow> if expires \<le> now then None else Some v)"

definition lua_tostring :: "real \<Rightarrow> real" where
  \<comment> \<open>\<open>float(tostring(x))\<close>: Lua writes a number with \<open>%.14g\<close>\<close>
  "lua_tostring x =
     (if x = 0 then 0
      else let e = expo10 \<bar>x\<bar> - 13 in fl (of_int (rne (x / 10 powi e)) * 10 powi e))"

section \<open>The token bucket\<close>

record principal =
  pn_tenant :: string
  pn_key_id :: string
  pn_scopes :: "string list"

definition permits :: "principal \<Rightarrow> string \<Rightarrow> bool" where
  "permits p s \<longleftrightarrow> s \<in> set (pn_scopes p)"

definition bucket_key :: "principal \<Rightarrow> string" where
  "bucket_key p = ''rl:'' @ pn_tenant p @ '':'' @ pn_key_id p"

record token_bucket =
  tb_capacity :: real
  tb_refill :: real
  tb_idle_ttl :: int

definition token_bucket_for :: "int \<Rightarrow> int \<Rightarrow> token_bucket" where
  \<comment> \<open>\<open>TokenBucket.__init__\<close>: requests per minute and burst depth\<close>
  "token_bucket_for per_minute burst =
     (let refill = fl (of_int per_minute / 60)
      in \<lparr>tb_capacity = fl (of_int burst), tb_refill = refill,
          tb_idle_ttl = max 1 (\<lfloor>fl (of_int burst / max refill (fl (1 / 10 ^ 9)))\<rfloor> + 1)\<rparr>)"

record bucket_step =
  bs_allowed :: bool
  bs_tokens :: real
  bs_updated :: real
  bs_retry :: real

definition bucket_script :: "token_bucket \<Rightarrow> real \<Rightarrow> (real \<times> real) option \<Rightarrow> bucket_step" where
  \<comment> \<open>the body of \<open>_BUCKET_SCRIPT\<close>, between the read of the hash and its write\<close>
  "bucket_script L now state =
     (let (tokens0, updated0) = (case state of None \<Rightarrow> (tb_capacity L, now) | Some s \<Rightarrow> s);
          elapsed = fl (now - updated0);
          (tokens, updated) =
            (if 0 < elapsed then (min (tb_capacity L) (fl (tokens0 + fl (elapsed * tb_refill L))), now)
             else (tokens0, updated0))
      in if 1 \<le> tokens
         then \<lparr>bs_allowed = True, bs_tokens = fl (tokens - 1), bs_updated = updated, bs_retry = 0\<rparr>
         else \<lparr>bs_allowed = False, bs_tokens = tokens, bs_updated = updated,
               bs_retry = fl (fl (1 - tokens) / tb_refill L)\<rparr>)"

record limit_decision =
  ld_allowed :: bool
  ld_remaining :: int
  ld_retry_after :: real

definition trunc_int :: "real \<Rightarrow> int" where
  \<comment> \<open>Python's \<open>int\<close> of a float\<close>
  "trunc_int x = (if 0 \<le> x then \<lfloor>x\<rfloor> else \<lceil>x\<rceil>)"

definition check_limit :: "token_bucket \<Rightarrow> bool \<Rightarrow> real \<Rightarrow> redis \<Rightarrow> principal \<Rightarrow> (exn + limit_decision) \<times> redis" where
  \<comment> \<open>\<open>TokenBucket.check\<close>; the second argument says whether Redis answers\<close>
  "check_limit L up now rs p =
     (if \<not> up then (Inl RedisError, rs)
      else (case redis_read rs now (bucket_key p) of
          Some (Stored s) \<Rightarrow> (Inl RedisError, rs)
        | held \<Rightarrow>
            (let b = bucket_script L now (case held of Some (Bucket t u) \<Rightarrow> Some (t, u) | _ \<Rightarrow> None)
             in (Inr \<lparr>ld_allowed = bs_allowed b, ld_remaining = trunc_int (lua_tostring (bs_tokens b)),
                      ld_retry_after = lua_tostring (bs_retry b)\<rparr>,
                 rs(bucket_key p \<mapsto> (Bucket (bs_tokens b) (bs_updated b), now + of_int (tb_idle_ttl L)))))))"

section \<open>The idempotency cache\<close>

definition idem_key :: "principal \<Rightarrow> string \<Rightarrow> string \<Rightarrow> string" where
  \<comment> \<open>\<open>IdempotencyStore._key\<close>\<close>
  "idem_key p key body_hash = ''idem:'' @ pn_tenant p @ '':'' @ key @ '':'' @ body_hash"

definition idem_get ::
    "(string \<Rightarrow> json option) \<Rightarrow> bool \<Rightarrow> real \<Rightarrow> redis \<Rightarrow> principal \<Rightarrow> string \<Rightarrow> string \<Rightarrow> exn + json option" where
  \<comment> \<open>\<open>IdempotencyStore.get\<close>\<close>
  "idem_get loads up now rs p key body_hash =
     (if \<not> up then Inl RedisError
      else (case redis_read rs now (idem_key p key body_hash) of
          None \<Rightarrow> Inr None
        | Some (Bucket t u) \<Rightarrow> Inl RedisError
        | Some (Stored s) \<Rightarrow> (case loads s of None \<Rightarrow> Inl ValueError | Some j \<Rightarrow> Inr (Some j))))"

definition idem_put ::
    "int \<Rightarrow> bool \<Rightarrow> real \<Rightarrow> redis \<Rightarrow> principal \<Rightarrow> string \<Rightarrow> string \<Rightarrow> json \<Rightarrow> exn + redis" where
  \<comment> \<open>\<open>IdempotencyStore.put\<close>\<close>
  "idem_put ttl up now rs p key body_hash response =
     (if \<not> up then Inl RedisError
      else Inr (rs(idem_key p key body_hash \<mapsto>
             (Stored (json_dumps False '', '' '': '' response), now + of_int ttl))))"

end
