(* ===== verification/Gateway.thy ===== *)
theory Gateway
  imports Pipeline Throttle
begin

text \<open>
  The REST gateway, \<open>services/gateway/src/gateway\<close>: credentials (\<open>auth.py\<close>), the request budget
  (\<open>deadline.py\<close>), the six middlewares (\<open>middleware/\<close>) as functions from handlers to handlers, the
  routes that carry handlers (\<open>routers/memory.py\<close>, \<open>routers/health.py\<close>), the wire models and the queue
  (\<open>propose.py\<close>). A request runs over the state \<open>gw\<close>: Redis, the job queue and the database (with the
  Neo4j graph the gateway does not use).

  What the web framework does is a parameter of \<open>gateway\<close>: \<open>gt_decode\<close> and \<open>gt_query\<close> turn a request into
  the fields of the wire model (the field constraints are the code's own, \<open>propose_ok\<close> and
  \<open>query_ok\<close>), \<open>gt_framework\<close> is the body of an answer the framework writes itself. What a request
  reads from outside (clocks, fresh ids, whether a service answers) is its \<open>moment\<close>. Response headers
  the framework adds are not modelled.
\<close>

section \<open>Credentials\<close>

definition grant_principal :: "string \<Rightarrow> json \<Rightarrow> exn + principal" where
  \<comment> \<open>the body of the loop of \<open>_parse\<close>\<close>
  "grant_principal credential grant =
     (case grant of
        JObj kvs \<Rightarrow>
          (case map_of kvs ''tenant'' of
             None \<Rightarrow> Inl ValueError
           | Some tenant \<Rightarrow>
               (case (case map_of kvs ''scopes'' of None \<Rightarrow> JList [] | Some s \<Rightarrow> s) of
                  JList scopes \<Rightarrow>
                    Inr \<lparr>pn_tenant = py_str tenant, pn_key_id = take 8 credential,
                         pn_scopes = map py_str scopes\<rparr>
                | _ \<Rightarrow> Inl ValueError))
      | _ \<Rightarrow> Inl ValueError)"

definition parse_keys :: "json_parser \<Rightarrow> string \<Rightarrow> exn + (string \<times> principal) list" where
  \<comment> \<open>\<open>_parse\<close>\<close>
  "parse_keys loads raw =
     (case loads raw of
        Some (JObj grants) \<Rightarrow>
          foldE (\<lambda>keys (credential, grant).
              bindE (grant_principal credential grant) (\<lambda>p. Inr (dict_put credential p keys))) [] grants
      | _ \<Rightarrow> Inl ValueError)"

definition auth_backend :: "json_parser \<Rightarrow> string \<Rightarrow> exn + (string \<times> principal) list" where
  \<comment> \<open>\<open>SettingsAuthBackend.__init__\<close>\<close>
  "auth_backend loads configured =
     (let raw = strip configured in if raw = [] then Inr [] else parse_keys loads raw)"

definition principal_for :: "(string \<times> principal) list \<Rightarrow> string \<Rightarrow> exn + principal" where
  "principal_for keys credential =
     (case map_of keys credential of None \<Rightarrow> Inl InvalidCredential | Some p \<Rightarrow> Inr p)"

definition credential_from :: "string option \<Rightarrow> exn + string" where
  "credential_from header =
     (case header of
        None \<Rightarrow> Inl InvalidCredential
      | Some h \<Rightarrow>
          if h = [] then Inl InvalidCredential
          else let scheme = takeWhile (\<lambda>c. c \<noteq> CHR '' '') h;
                   token = drop (Suc (length scheme)) h
               in if lower scheme \<noteq> ''bearer'' \<or> strip token = [] then Inl InvalidCredential
                  else Inr (strip token))"

section \<open>The request budget\<close>

definition FLOOR_S :: real where
  "FLOOR_S = fl (5 / 1000)"

definition deadline_after :: "real \<Rightarrow> real \<Rightarrow> real" where
  "deadline_after budget now = fl (now + budget)"

definition remaining_s :: "real \<Rightarrow> real \<Rightarrow> real" where
  "remaining_s expires now = max 0 (fl (expires - now))"

definition expired :: "real \<Rightarrow> real \<Rightarrow> bool" where
  "expired expires now \<longleftrightarrow> remaining_s expires now < FLOOR_S"

definition for_call :: "real \<Rightarrow> real \<Rightarrow> real \<Rightarrow> real \<Rightarrow> exn + real" where
  \<comment> \<open>the clock is read twice\<close>
  "for_call expires limit now now' =
     (if expired expires now then Inl (GM DeadlineExceeded) else Inr (min limit (remaining_s expires now')))"

section \<open>Requests and responses\<close>

record http_request =
  rq_type :: string
  rq_method :: string
  rq_path :: string
  rq_headers :: "(string \<times> string) list"
  rq_body :: "byte list"

record http_response =
  ht_status :: int
  ht_headers :: "(string \<times> string) list"
  ht_body :: json

text \<open>The \<open>state\<close> of the ASGI scope, as the middlewares fill it.\<close>

record asgi_state =
  as_request_id :: "string option"
  as_principal :: "principal option"
  as_tenant :: "string option"
  as_deadline :: "real option"
  as_collects :: bool

definition fresh_state :: asgi_state where
  "fresh_state = \<lparr>as_request_id = None, as_principal = None, as_tenant = None, as_deadline = None,
     as_collects = False\<rparr>"

record turn_in =
  ti_id :: string
  ti_role :: turn_role
  ti_text :: string
  ti_captured_at :: int

datatype propose_mode = ASYNC | STRICT

record propose_request =
  pq_namespace :: string
  pq_turns :: "turn_in list"
  pq_mode :: propose_mode
  pq_tier :: source_tier

record search_query =
  sq_text :: string
  sq_namespace :: string
  sq_k :: int

record job =
  jb_id :: string
  jb_tenant :: string
  jb_trace :: string
  jb_namespace :: string
  jb_turns :: "json list"
  jb_tier :: string
  jb_k :: int
  jb_model_tier :: string
  jb_body_hash :: "string option"

record gw =
  gw_redis :: redis
  gw_queue :: "job list"
  gw_store :: "db \<times> neo_graph"

record 'g gateway =
  gt_keys :: "(string \<times> principal) list"
  gt_per_minute :: int
  gt_burst :: int
  gt_idem_ttl :: int
  gt_default_k :: int
  gt_deadline_s :: real
  gt_store_timeout_s :: real
  gt_model :: bool \<comment> \<open>a model provider is bound\<close>
  gt_text :: text_env
  gt_boundary :: boundary_env
  gt_graph_ops :: "'g multigraph_ops"
  gt_ontology :: ontology
  gt_thresholds :: thresholds
  gt_loads :: json_parser
  gt_iso :: "int \<Rightarrow> string" \<comment> \<open>how a time is written to JSON\<close>
  gt_decode :: "http_request \<Rightarrow> propose_request option"
  gt_query :: "http_request \<Rightarrow> search_query option"
  gt_framework :: "int \<Rightarrow> http_request \<Rightarrow> json"

record moment =
  mo_request_uuid :: string
  mo_trace_uuid :: string
  mo_now :: real
  mo_arrival :: real
  mo_headed :: real
  mo_checked :: real
  mo_granted :: real
  mo_limiter_up :: bool
  mo_idem_get_up :: bool
  mo_idem_put_up :: bool
  mo_queue_up :: bool
  mo_postgres_ok :: bool
  mo_ping_ok :: bool
  mo_calls :: "governed \<Rightarrow> call_env"

type_synonym handler = "http_request \<Rightarrow> asgi_state \<Rightarrow> gw \<Rightarrow> (exn + http_response) \<times> gw"

definition header_of :: "string \<Rightarrow> http_request \<Rightarrow> string option" where
  "header_of name req = map_option snd (first (\<lambda>(k, v). k = name) (rq_headers req))"

definition add_header :: "string \<Rightarrow> string \<Rightarrow> (exn + http_response) \<times> gw \<Rightarrow> (exn + http_response) \<times> gw" where
  \<comment> \<open>a \<open>send\<close> that adds one header to the response that starts\<close>
  "add_header name v out =
     (case out of (Inr r, w) \<Rightarrow> (Inr (r\<lparr>ht_headers := ht_headers r @ [(name, v)]\<rparr>), w) | (Inl e, w) \<Rightarrow> (Inl e, w))"

definition send_json :: "int \<Rightarrow> json \<Rightarrow> (string \<times> string) list \<Rightarrow> http_response" where
  "send_json status body headers =
     \<lparr>ht_status = status,
      ht_headers = [(''content-type'', ''application/json''),
                    (''content-length'', str_nat (length (json_dumps False '','' '':'' body)))] @ headers,
      ht_body = body\<rparr>"

definition framework :: "'g gateway \<Rightarrow> int \<Rightarrow> http_request \<Rightarrow> http_response" where
  "framework G status req = \<lparr>ht_status = status, ht_headers = [], ht_body = gt_framework G status req\<rparr>"

definition http_error :: "int \<Rightarrow> string \<Rightarrow> http_response" where
  \<comment> \<open>an \<open>HTTPException\<close>, as the framework answers it\<close>
  "http_error status detail =
     \<lparr>ht_status = status, ht_headers = [], ht_body = JObj [(''detail'', JStr detail)]\<rparr>"

section \<open>The middlewares\<close>

definition UNAUTHENTICATED :: "string list" where
  "UNAUTHENTICATED = [''/healthz'', ''/readyz'', ''/openapi.json'', ''/docs'']"

definition UNBUDGETED :: "string list" where
  "UNBUDGETED = UNAUTHENTICATED"

definition is_http :: "http_request \<Rightarrow> bool" where
  "is_http req \<longleftrightarrow> rq_type req = ''http''"

definition request_deadline :: "'g gateway \<Rightarrow> moment \<Rightarrow> handler \<Rightarrow> handler" where
  \<comment> \<open>\<open>RequestDeadline\<close>\<close>
  "request_deadline G m app req st w =
     (if \<not> is_http req \<or> rq_path req \<in> set UNBUDGETED then app req st w
      else let d = deadline_after (gt_deadline_s G) (mo_arrival m)
           in add_header ''X-Budget-Remaining-Ms'' (str_int (rne (fl (remaining_s d (mo_headed m) * 1000))))
                (app req (st\<lparr>as_deadline := Some d\<rparr>) w))"

definition MAX_ID :: nat where
  "MAX_ID = 64"

definition request_id :: "moment \<Rightarrow> handler \<Rightarrow> handler" where
  \<comment> \<open>\<open>RequestId\<close>\<close>
  "request_id m app req st w =
     (if \<not> is_http req then app req st w
      else let supplied = (case header_of ''x-request-id'' req of None \<Rightarrow> [] | Some v \<Rightarrow> strip v);
               rid = (if supplied \<noteq> [] then take MAX_ID supplied else mo_request_uuid m)
           in add_header ''X-Request-Id'' rid (app req (st\<lparr>as_request_id := Some rid\<rparr>) w))"

definition UNAUTHORIZED :: json where
  "UNAUTHORIZED = JObj [(''detail'', JStr ''invalid or missing credential'')]"

definition authorized :: "'g gateway \<Rightarrow> http_request \<Rightarrow> exn + principal" where
  \<comment> \<open>the \<open>try\<close> of \<open>Authenticate\<close>\<close>
  "authorized G req = bindE (credential_from (header_of ''authorization'' req)) (principal_for (gt_keys G))"

definition authenticate :: "'g gateway \<Rightarrow> handler \<Rightarrow> handler" where
  \<comment> \<open>\<open>Authenticate\<close>\<close>
  "authenticate G app req st w =
     (if \<not> is_http req \<or> rq_path req \<in> set UNAUTHENTICATED then app req st w
      else (case authorized G req of
          Inl InvalidCredential \<Rightarrow> (Inr (send_json 401 UNAUTHORIZED [(''WWW-Authenticate'', ''Bearer'')]), w)
        | Inl e \<Rightarrow> (Inl e, w)
        | Inr p \<Rightarrow> app req (st\<lparr>as_principal := Some p\<rparr>) w))"

definition tenancy :: "handler \<Rightarrow> handler" where
  \<comment> \<open>\<open>Tenancy\<close>\<close>
  "tenancy app req st w =
     (if \<not> is_http req then app req st w
      else app req (st\<lparr>as_tenant := map_option pn_tenant (as_principal st)\<rparr>) w)"

definition budget_headers :: "int \<Rightarrow> limit_decision \<Rightarrow> (string \<times> string) list" where
  \<comment> \<open>\<open>_budget\<close>\<close>
  "budget_headers limit d =
     [(''X-RateLimit-Limit'', str_int limit),
      (''X-RateLimit-Remaining'', str_int (max 0 (ld_remaining d))),
      (''X-RateLimit-Reset'', str_int (max 0 \<lceil>ld_retry_after d\<rceil>))]"

definition rate_limit :: "'g gateway \<Rightarrow> moment \<Rightarrow> handler \<Rightarrow> handler" where
  \<comment> \<open>\<open>RateLimit\<close>\<close>
  "rate_limit G m app req st w =
     (if \<not> is_http req then app req st w
      else (case as_principal st of
          None \<Rightarrow> app req st w
        | Some p \<Rightarrow>
            (case check_limit (token_bucket_for (gt_per_minute G) (gt_burst G)) (mo_limiter_up m) (mo_now m) (gw_redis w) p of
               (Inl e, rs) \<Rightarrow> app req st (w\<lparr>gw_redis := rs\<rparr>)
             | (Inr d, rs) \<Rightarrow>
                 if \<not> ld_allowed d
                 then (Inr (send_json 429 (JObj [(''detail'', JStr ''rate limit exceeded'')])
                        ((''Retry-After'', str_int (max 1 \<lceil>ld_retry_after d\<rceil>)) # budget_headers (gt_per_minute G) d)),
                       w\<lparr>gw_redis := rs\<rparr>)
                 else foldr (\<lambda>(name, v) out. add_header name v out) (budget_headers (gt_per_minute G) d)
                        (app req st (w\<lparr>gw_redis := rs\<rparr>)))))"

definition BODYLESS :: "string list" where
  "BODYLESS = [''GET'', ''HEAD'', ''OPTIONS'', ''DELETE'']"

definition body_hash :: "handler \<Rightarrow> handler" where
  \<comment> \<open>\<open>BodyHash\<close>\<close>
  "body_hash app req st w =
     (if \<not> is_http req then app req st w
      else app req (st\<lparr>as_collects := rq_method req \<notin> set BODYLESS\<rparr>) w)"

definition body_hash_of :: "http_request \<Rightarrow> asgi_state \<Rightarrow> string option" where
  "body_hash_of req st =
     (if \<not> as_collects st then None
      else if rq_body req = [] then None else Some (hexdigest (sha256 (rq_body req))))"

definition chain :: "'g gateway \<Rightarrow> moment \<Rightarrow> handler \<Rightarrow> handler" where
  \<comment> \<open>\<open>apply\<close>: the layer added last is the outermost\<close>
  "chain G m app =
     request_deadline G m (request_id m (authenticate G (tenancy (rate_limit G m (body_hash app)))))"

section \<open>Health\<close>

definition readyz :: "moment \<Rightarrow> http_response" where
  "readyz m =
     (let ok = mo_postgres_ok m \<and> mo_ping_ok m
      in \<lparr>ht_status = (if ok then 200 else 503), ht_headers = [],
          ht_body = JObj [(''status'', JStr (if ok then ''ready'' else ''degraded'')),
            (''postgres'', JBool (mo_postgres_ok m)), (''redis'', JBool (mo_ping_ok m))]\<rparr>)"

definition healthz :: http_response where
  "healthz = \<lparr>ht_status = 200, ht_headers = [],
     ht_body = JObj [(''status'', JStr ''ok''), (''service'', JStr ''guardmem-gateway'')]\<rparr>"

section \<open>Searching\<close>

definition READ_SCOPE :: string where
  "READ_SCOPE = ''memory:read''"

definition MAX_RESULTS :: int where
  "MAX_RESULTS = 50"

definition query_ok :: "search_query \<Rightarrow> bool" where
  "query_ok q \<longleftrightarrow> 1 \<le> length (sq_text q) \<and> length (sq_text q) \<le> 2000 \<and>
     1 \<le> length (sq_namespace q) \<and> length (sq_namespace q) \<le> 200 \<and> 1 \<le> sq_k q \<and> sq_k q \<le> MAX_RESULTS"

definition hit_json :: "scored_assertion \<Rightarrow> json" where
  \<comment> \<open>\<open>_hit\<close>\<close>
  "hit_json s =
     JObj [(''assertion_id'', JStr (a_id (s_assertion s))), (''subject_id'', JStr (a_subject (s_assertion s))),
       (''predicate'', JStr (a_predicate (s_assertion s))), (''object'', obj_json (a_object (s_assertion s))),
       (''confidence'', JFloat (Fin (a_confidence (s_assertion s)))), (''cosine'', JFloat (Fin (s_cosine s)))]"

definition search_route :: "'g gateway \<Rightarrow> moment \<Rightarrow> handler" where
  \<comment> \<open>\<open>search\<close>, after its dependencies \<open>principal\<close>, \<open>deadline\<close> and \<open>vector_store\<close>\<close>
  "search_route G m req st w =
     (case (as_principal st, as_deadline st) of
        (Some p, Some d) \<Rightarrow>
          (case for_call d (gt_store_timeout_s G) (mo_checked m) (mo_granted m) of
             Inl e \<Rightarrow> (Inl e, w)
           | Inr timeout \<Rightarrow>
               (case gt_query G req of
                  None \<Rightarrow> (Inr (framework G 422 req), w)
                | Some q \<Rightarrow>
                    if \<not> query_ok q then (Inr (framework G 422 req), w)
                    else if \<not> permits p READ_SCOPE
                    then (Inr (http_error 403 (''this credential lacks the '' @ READ_SCOPE @ '' scope'')), w)
                    else (bindE (be_embed (gt_boundary G) [sq_text q]) (\<lambda>vectors.
                          bindE (case vectors of [] \<Rightarrow> Inl IndexError | v # _ \<Rightarrow> Inr v) (\<lambda>vector.
                          bindE (search (be_search (gt_boundary G)) (fst (gw_store w)) (pn_tenant p)
                                   (sq_namespace q) vector (nat (sq_k q)) [] None) (\<lambda>found.
                            Inr \<lparr>ht_status = 200, ht_headers = [],
                                 ht_body = JObj [(''namespace'', JStr (sq_namespace q)),
                                   (''hits'', JList (map hit_json found))]\<rparr>))), w)))
      | _ \<Rightarrow> (Inl RuntimeError, w))"

section \<open>Proposing\<close>

definition WRITE_SCOPE :: string where
  "WRITE_SCOPE = ''memory:write''"

definition MAX_TURNS :: nat where
  "MAX_TURNS = 200"

definition turn_in_ok :: "turn_in \<Rightarrow> bool" where
  "turn_in_ok t \<longleftrightarrow> 1 \<le> length (ti_id t) \<and> length (ti_id t) \<le> 64 \<and> 1 \<le> length (ti_text t) \<and> length (ti_text t) \<le> 20000"

definition propose_ok :: "propose_request \<Rightarrow> bool" where
  "propose_ok b \<longleftrightarrow> 1 \<le> length (pq_namespace b) \<and> length (pq_namespace b) \<le> 200 \<and>
     1 \<le> length (pq_turns b) \<and> length (pq_turns b) \<le> MAX_TURNS \<and> (\<forall>t \<in> set (pq_turns b). turn_in_ok t)"

definition idempotency_ok :: "string option \<Rightarrow> bool" where
  \<comment> \<open>\<open>IdempotencyKey\<close>\<close>
  "idempotency_ok key \<longleftrightarrow> (case key of None \<Rightarrow> True | Some k \<Rightarrow> length k \<le> 200)"

definition to_turn :: "turn_in \<Rightarrow> turn" where
  "to_turn t = \<lparr>t_id = ti_id t, t_role = ti_role t, t_text = ti_text t, t_captured_at = Some (ti_captured_at t)\<rparr>"

datatype answer =
    Accepted string "string option"
  | Decided string int int int int int \<comment> \<open>trace, scored, written, rejected, quarantined, failed\<close>

definition opt_json :: "string option \<Rightarrow> json" where
  "opt_json s = (case s of None \<Rightarrow> JNull | Some x \<Rightarrow> JStr x)"

fun answer_json :: "answer \<Rightarrow> json" where
  \<comment> \<open>\<open>model_dump\<close>\<close>
  "answer_json (Accepted trace h) =
     JObj [(''trace_id'', JStr trace), (''status'', JStr ''accepted''), (''body_hash'', opt_json h)]"
| "answer_json (Decided trace s w r q f) =
     JObj [(''trace_id'', JStr trace), (''status'', JStr ''decided''), (''scored'', JInt s),
       (''written'', JInt w), (''rejected'', JInt r), (''quarantined'', JInt q),
       (''failed'', JInt f)]"

fun status_of :: "answer \<Rightarrow> int" where
  "status_of (Accepted trace h) = 202"
| "status_of (Decided trace a b c d e) = 200"

definition int_field :: "(string \<times> json) list \<Rightarrow> string \<Rightarrow> exn + int" where
  \<comment> \<open>an \<open>int\<close> field with default 0\<close>
  "int_field kvs k = (case map_of kvs k of None \<Rightarrow> Inr 0 | Some (JInt i) \<Rightarrow> Inr i | _ \<Rightarrow> Inl ValueError)"

definition replayed :: "json \<Rightarrow> exn + answer" where
  \<comment> \<open>\<open>_replayed\<close>; a field of another type than \<open>model_dump\<close> writes is an error here\<close>
  "replayed stored =
     (case stored of
        JObj kvs \<Rightarrow>
          (case map_of kvs ''trace_id'' of
             Some (JStr trace) \<Rightarrow>
               if map_of kvs ''status'' = Some (JStr ''decided'')
               then bindE (int_field kvs ''scored'') (\<lambda>a. bindE (int_field kvs ''written'') (\<lambda>b.
                    bindE (int_field kvs ''rejected'') (\<lambda>c. bindE (int_field kvs ''quarantined'') (\<lambda>d.
                    bindE (int_field kvs ''failed'') (\<lambda>e. Inr (Decided trace a b c d e))))))
               else if map_of kvs ''status'' \<in> {None, Some (JStr ''accepted'')}
               then (case map_of kvs ''body_hash'' of
                       None \<Rightarrow> Inr (Accepted trace None)
                     | Some JNull \<Rightarrow> Inr (Accepted trace None)
                     | Some (JStr h) \<Rightarrow> Inr (Accepted trace (Some h))
                     | _ \<Rightarrow> Inl ValueError)
               else Inl ValueError
           | _ \<Rightarrow> Inl ValueError)
      | _ \<Rightarrow> Inl ValueError)"

definition trace_for :: "moment \<Rightarrow> string" where
  "trace_for m = ''tr_'' @ take 12 (mo_trace_uuid m)"

fun source_tier_value :: "source_tier \<Rightarrow> string" where
  "source_tier_value TRUSTED_SYSTEM = ''trusted_system''"
| "source_tier_value VERIFIED_USER = ''verified_user''"
| "source_tier_value UNVERIFIED_USER = ''unverified_user''"
| "source_tier_value TOOL_OUTPUT = ''tool_output''"
| "source_tier_value RETRIEVED_WEB = ''retrieved_web''"

definition turn_json :: "(int \<Rightarrow> string) \<Rightarrow> turn_in \<Rightarrow> json" where
  \<comment> \<open>\<open>turn.model_dump(mode="json")\<close>\<close>
  "turn_json fmt t =
     JObj [(''turn_id'', JStr (ti_id t)), (''role'', JStr (role_value (ti_role t))), (''text'', JStr (ti_text t)),
       (''captured_at'', JStr (fmt (ti_captured_at t)))]"

definition enqueue_job :: "bool \<Rightarrow> job \<Rightarrow> job list \<Rightarrow> exn + job list" where
  \<comment> \<open>the queue takes a job once per id\<close>
  "enqueue_job up j q =
     (if \<not> up then Inl RedisError else Inr (if jb_id j \<in> jb_id ` set q then q else q @ [j]))"

definition enqueue ::
    "'g gateway \<Rightarrow> moment \<Rightarrow> string \<Rightarrow> string \<Rightarrow> propose_request \<Rightarrow> string option \<Rightarrow> gw \<Rightarrow> exn + gw" where
  "enqueue G m tenant trace b h w =
     bindE (enqueue_job (mo_queue_up m)
       \<lparr>jb_id = trace, jb_tenant = tenant, jb_trace = trace, jb_namespace = pq_namespace b,
        jb_turns = map (turn_json (gt_iso G)) (pq_turns b), jb_tier = source_tier_value (pq_tier b),
        jb_k = gt_default_k G, jb_model_tier = ''balanced'', jb_body_hash = h\<rparr> (gw_queue w))
       (\<lambda>q. Inr (w\<lparr>gw_queue := q\<rparr>))"

definition on_empty_graph :: "'g multigraph_ops \<Rightarrow> 'w deps \<Rightarrow> 'w deps" where
  \<comment> \<open>the in-process graph of a service that never writes it\<close>
  "on_empty_graph ops D =
     D\<lparr>dp_neighbors := (\<lambda>w entity hops. Inr (nx_neighbors ops (mg_empty ops) entity (int hops))),
       dp_degree := (\<lambda>w entity. Inr (nx_degree ops (mg_empty ops) entity))\<rparr>"

definition POLICY_VERSION :: string where
  "POLICY_VERSION = ''gateway-strict-v1''"

definition gateway_deps :: "'g gateway \<Rightarrow> string \<Rightarrow> (db \<times> neo_graph) deps" where
  \<comment> \<open>\<open>composition.build_deps\<close>\<close>
  "gateway_deps G tenant =
     on_empty_graph (gt_graph_ops G)
       (build_deps (gt_boundary G) tenant (gt_ontology G) (gt_thresholds G) POLICY_VERSION)"

definition strict ::
    "'g gateway \<Rightarrow> moment \<Rightarrow> principal \<Rightarrow> string \<Rightarrow> propose_request \<Rightarrow> gw \<Rightarrow> (exn + (http_response + answer)) \<times> gw" where
  \<comment> \<open>\<open>_strict\<close>: it raises, it refuses with an \<open>HTTPException\<close>, or it decides\<close>
  "strict G m p trace b w =
     (if \<not> gt_model G
      then (Inr (Inl (http_error 503 ''mode=strict needs a model provider; none is configured'')), w)
      else (case govern (gt_text G) (gateway_deps G (pn_tenant p)) (mo_calls m)
               \<lparr>pp_trace = trace, pp_tenant = pn_tenant p, pp_namespace = pq_namespace b,
                pp_turns = map to_turn (pq_turns b), pp_tier = pq_tier b, pp_k = 1, pp_model_tier = FAST,
                pp_subject_hint = None\<rparr> (gw_store w) of
          (Inl e, s) \<Rightarrow> (Inl e, w\<lparr>gw_store := s\<rparr>)
        | (Inr g, s) \<Rightarrow>
            (Inr (Inr (Decided trace (int (length (pr_governed (gp_result g)))) (int (written g))
               (int (length (pr_rejected (gp_result g)))) (int (length (pr_quarantined (gp_result g))))
               (int (length (gp_failures g))))), w\<lparr>gw_store := s\<rparr>)))"

definition answered :: "answer \<Rightarrow> http_response" where
  "answered a = \<lparr>ht_status = status_of a, ht_headers = [], ht_body = answer_json a\<rparr>"

definition keep_answer ::
    "'g gateway \<Rightarrow> moment \<Rightarrow> principal \<Rightarrow> (string \<times> string) option \<Rightarrow> answer \<Rightarrow> gw \<Rightarrow> (exn + http_response) \<times> gw" where
  \<comment> \<open>the end of \<open>propose\<close>: the answer is stored under the key, then returned\<close>
  "keep_answer G m p idem a w =
     (case idem of
        None \<Rightarrow> (Inr (answered a), w)
      | Some (key, h) \<Rightarrow>
          (case idem_put (gt_idem_ttl G) (mo_idem_put_up m) (mo_now m) (gw_redis w) p key h (answer_json a) of
             Inl e \<Rightarrow> (Inl e, w)
           | Inr rs \<Rightarrow> (Inr (answered a), w\<lparr>gw_redis := rs\<rparr>)))"

definition perform ::
    "'g gateway \<Rightarrow> moment \<Rightarrow> principal \<Rightarrow> (string \<times> string) option \<Rightarrow> propose_request \<Rightarrow> string option \<Rightarrow> gw
     \<Rightarrow> (exn + http_response) \<times> gw" where
  \<comment> \<open>\<open>propose\<close> after the idempotency check\<close>
  "perform G m p idem b h w =
     (if pq_mode b = STRICT
      then (case strict G m p (trace_for m) b w of
              (Inl e, w') \<Rightarrow> (Inl e, w')
            | (Inr (Inl refused), w') \<Rightarrow> (Inr refused, w')
            | (Inr (Inr a), w') \<Rightarrow> keep_answer G m p idem a w')
      else (case enqueue G m (pn_tenant p) (trace_for m) b h w of
              Inl e \<Rightarrow> (Inl e, w)
            | Inr w' \<Rightarrow> keep_answer G m p idem (Accepted (trace_for m) h) w'))"

definition propose_route :: "'g gateway \<Rightarrow> moment \<Rightarrow> handler" where
  \<comment> \<open>\<open>propose\<close>\<close>
  "propose_route G m req st w =
     (case as_principal st of
        None \<Rightarrow> (Inl RuntimeError, w)
      | Some p \<Rightarrow>
          (case gt_decode G req of
             None \<Rightarrow> (Inr (framework G 422 req), w)
           | Some b \<Rightarrow>
               let key = header_of ''idempotency-key'' req; h = body_hash_of req st in
               if \<not> propose_ok b \<or> \<not> idempotency_ok key then (Inr (framework G 422 req), w)
               else if \<not> permits p WRITE_SCOPE
               then (Inr (http_error 403 (''this credential lacks the '' @ WRITE_SCOPE @ '' scope'')), w)
               else (case (key, h) of
                   (Some k, Some bh) \<Rightarrow>
                     (case idem_get (gt_loads G) (mo_idem_get_up m) (mo_now m) (gw_redis w) p k bh of
                        Inl e \<Rightarrow> (Inl e, w)
                      | Inr (Some stored) \<Rightarrow> (bindE (replayed stored) (\<lambda>a. Inr (answered a)), w)
                      | Inr None \<Rightarrow> perform G m p (Some (k, bh)) b h w)
                 | _ \<Rightarrow> perform G m p None b h w)))"

section \<open>The application\<close>

definition route_app :: "'g gateway \<Rightarrow> moment \<Rightarrow> handler" where
  \<comment> \<open>the routes of \<open>ROUTERS\<close> that have a handler\<close>
  "route_app G m req st w =
     (let target = (rq_method req, rq_path req) in
      if target = (''GET'', ''/healthz'') then (Inr healthz, w)
      else if target = (''GET'', ''/readyz'') then (Inr (readyz m), w)
      else if target = (''GET'', ''/memory/search'') then search_route G m req st w
      else if target = (''POST'', ''/memory/propose'') then propose_route G m req st w
      else (Inr (framework G 404 req), w))"

definition serve :: "'g gateway \<Rightarrow> moment \<Rightarrow> http_request \<Rightarrow> gw \<Rightarrow> http_response \<times> gw" where
  \<comment> \<open>no exception handler is registered, so what a handler raises is the framework's 500\<close>
  "serve G m req w =
     (case chain G m (route_app G m) req fresh_state w of
        (Inr r, w') \<Rightarrow> (r, w')
      | (Inl e, w') \<Rightarrow> (framework G 500 req, w'))"

end
