(* ===== verification/PipelineLaws.thy ===== *)
theory PipelineLaws
  imports Pipeline
begin

text \<open>
  What the composition gives: the candidates of a proposal are scored independently of each
  other and of their order, none is lost, a candidate fails only where a boundary failed, and
  what is written without review has earned it.
\<close>

section \<open>Candidates do not disturb each other\<close>

text \<open>
  The contract of the stores and the resolver the pipeline relies on: resolving a subject shows
  in no search and in no graph read, and does not change what resolving under the same tenant and
  namespace answers.
\<close>

locale undisturbed =
  fixes D :: "'w deps"
  assumes search_blind: "dp_search D (snd (dp_resolve D w s t ns ty)) = dp_search D w"
    and neighbors_blind: "dp_neighbors D (snd (dp_resolve D w s t ns ty)) = dp_neighbors D w"
    and degree_blind: "dp_degree D (snd (dp_resolve D w s t ns ty)) = dp_degree D w"
    and resolve_stable: "fst (dp_resolve D (snd (dp_resolve D w s t ns ty)) s' t ns ty') = fst (dp_resolve D w s' t ns ty')"
begin

definition alike :: "string \<Rightarrow> string \<Rightarrow> 'w \<Rightarrow> 'w \<Rightarrow> bool" where
  "alike t ns w w' \<longleftrightarrow>
     dp_search D w' = dp_search D w \<and> dp_neighbors D w' = dp_neighbors D w \<and> dp_degree D w' = dp_degree D w \<and>
     (\<forall>s ty. fst (dp_resolve D w' s t ns ty) = fst (dp_resolve D w s t ns ty))"

lemma alike_refl: "alike t ns w w"
  by (simp add: alike_def)

lemma alike_resolve: "alike t ns w w' \<Longrightarrow> alike t ns w (snd (dp_resolve D w' s t ns ty))"
  by (simp add: alike_def search_blind neighbors_blind degree_blind resolve_stable)

lemma retrieve_alike: "alike t ns w w' \<Longrightarrow> retrieve_incumbents D w' c i = retrieve_incumbents D w c i"
  by (simp add: alike_def retrieve_incumbents_def)

lemma decide_alike:
  "alike t ns w w' \<Longrightarrow> decide_resolved D w' v samples p spec i = decide_resolved D w v samples p spec i"
  using retrieve_alike [of t ns w w'] by (simp add: decide_resolved_def score_and_decide_def alike_def)

lemma decide_after_resolve:
  "decide_resolved D (snd (dp_resolve D w s t ns ty)) v samples p spec i = decide_resolved D w v samples p spec i"
  by (rule decide_alike [OF alike_resolve [OF alike_refl]])

lemma candidate_alike:
  assumes "alike (pp_tenant p) (pp_namespace p) w w'"
  shows "fst (score_candidate D w' v samples p) = fst (score_candidate D w v samples p)
    \<and> alike (pp_tenant p) (pp_namespace p) w (snd (score_candidate D w' v samples p))"
proof (cases "predicate (dp_ontology D) (c_predicate (g_candidate v))")
  case None
  then show ?thesis using assms by (simp add: score_candidate_def decide_one_def)
next
  case (Some spec)
  let ?R = "\<lambda>w. dp_resolve D w (subject_named p (g_candidate v)) (pp_tenant p) (pp_namespace p) (ps_subject spec)"
  obtain r w1 where r: "?R w = (r, w1)" by (cases "?R w")
  obtain r' w1' where r': "?R w' = (r', w1')" by (cases "?R w'")
  have rr: "r' = r" using assms r r' unfolding alike_def by (metis fst_conv)
  have a: "alike (pp_tenant p) (pp_namespace p) w w1'" using alike_resolve [OF assms] r' by (metis snd_conv)
  have a1: "alike (pp_tenant p) (pp_namespace p) w w1" using alike_resolve [OF alike_refl] r by (metis snd_conv)
  show ?thesis
  proof (cases r)
    case (Inl e)
    then show ?thesis using r r' rr Some a by (simp add: score_candidate_def decide_one_def)
  next
    case (Inr i)
    have "decide_resolved D w1' v samples p spec i = decide_resolved D w1 v samples p spec i"
      using decide_alike [OF a] decide_alike [OF a1] by simp
    then show ?thesis using r r' rr Some Inr a
      by (simp add: score_candidate_def decide_one_def split: sum.split prod.split)
  qed
qed

lemma score_all_alike:
  "alike (pp_tenant p) (pp_namespace p) w w' \<Longrightarrow>
     fst (score_all D samples p w' vs) = map (\<lambda>v. fst (score_candidate D w v samples p)) vs"
proof (induction vs arbitrary: w')
  case (Cons v vs)
  from candidate_alike [OF Cons.prems] Cons.IH show ?case by (simp add: split_beta)
qed simp

lemma score_all_independent:
  "fst (score_all D samples p w vs) = map (\<lambda>v. fst (score_candidate D w v samples p)) vs"
  by (rule score_all_alike [OF alike_refl])

end

lemma resolve_cases:
  "resolve free s t ns ty db =
     (case subject_type_of ns of
        None \<Rightarrow> (Inl (GM ValidationRejected), db)
      | Some d \<Rightarrow>
          if casefold d \<noteq> casefold ty then (Inl (GM ValidationRejected), db)
          else if \<not> free then (Inl (GM StoreUnavailable), db)
          else if \<not> (pg_text ty \<and> pg_text (if s = [] then derive_entity_id t ns else s)) then (Inl (GM StoreUnavailable), db)
          else if derive_entity_id t ns \<in> en_id ` set (db_entities db) then (Inr (derive_entity_id t ns), db)
          else if t \<in> set (db_tenants db) then
            (Inr (derive_entity_id t ns), db\<lparr>db_entities := db_entities db @
               [\<lparr>en_id = derive_entity_id t ns, en_tenant = t, en_type = ty,
                 en_name = (if s = [] then derive_entity_id t ns else s)\<rparr>]\<rparr>)
          else (Inl (GM StoreUnavailable), db))"
proof -
  have c: "commit_check db (db\<lparr>db_entities := es\<rparr>)" for es by (simp add: commit_check_def)
  show ?thesis
    by (auto simp: resolve_def ensure_entity_def insert_entity_def transaction_def Let_def guardE_def c
        split: option.split)
qed

lemma resolve_tables:
  "db_assertions (snd (resolve free s t ns ty db)) = db_assertions db"
  "db_provenance (snd (resolve free s t ns ty db)) = db_provenance db"
  "db_outbox (snd (resolve free s t ns ty db)) = db_outbox db"
  by (simp_all add: resolve_cases split: option.split)

lemma resolve_known:
  assumes "t \<in> set (db_tenants db)" and "en_id e = derive_entity_id t ns"
  shows "fst (resolve free s t ns ty (db\<lparr>db_entities := db_entities db @ [e]\<rparr>)) = fst (resolve free s t ns ty db)"
  using assms by (cases "subject_type_of ns") (simp_all add: resolve_cases)

lemma resolve_again: "fst (resolve free s' t ns ty' (snd (resolve free s t ns ty db))) = fst (resolve free s' t ns ty' db)"
proof -
  let ?db' = "snd (resolve free s t ns ty db)" and ?i = "derive_entity_id t ns"
  have "?db' = db \<or> t \<in> set (db_tenants db) \<and> (\<exists>e. en_id e = ?i \<and> ?db' = db\<lparr>db_entities := db_entities db @ [e]\<rparr>)"
    unfolding resolve_cases by (simp split: option.split) (intro allI impI disjI2 exI conjI refl; simp)
  then consider "?db' = db" | e where "t \<in> set (db_tenants db)" "en_id e = ?i"
    "?db' = db\<lparr>db_entities := db_entities db @ [e]\<rparr>" by blast
  then show ?thesis
  proof cases
    case 2
    from resolve_known [OF 2(1,2)] show ?thesis unfolding 2(3) .
  qed simp
qed

lemma search_tables:
  assumes "db_assertions db' = db_assertions db" and "db_provenance db' = db_provenance db"
  shows "search env db' t ns v k fs as_of = search env db t ns v k fs as_of"
proof -
  have "fetch_citations db' t i = fetch_citations db t i" for i
    using assms by (simp add: fetch_citations_def owned_def)
  then have "scored_row env db' t v = scored_row env db t v"
    by (intro ext) (simp add: scored_row_def read_row_def)
  then show ?thesis
    using assms by (simp add: search_def nearest_statement_def tenant_rows_def reaches_def index_rows_def)
qed

interpretation pipeline: undisturbed "build_deps B tenant onto thr pv" for B tenant onto thr pv
proof (unfold_locales, goal_cases)
  case (1 w s t ns ty)
  show ?case
    using search_tables [OF resolve_tables(1,2)]
    by (cases w) (auto simp: build_deps_def split_beta intro!: ext)
next
  case (4 w s t ns ty s' ty')
  show ?case using resolve_again by (cases w) (simp add: build_deps_def split_beta)
qed (auto simp: build_deps_def split: prod.split)

section \<open>Nothing is lost\<close>

lemma governed_length: "length (governed_of os) + length (failures_of os) = length os"
  by (induction os rule: governed_of.induct) simp_all

lemma governed_of_iff: "g \<in> set (governed_of os) \<longleftrightarrow> Governed g \<in> set os"
  by (induction os rule: governed_of.induct) auto

lemma failures_of_iff: "(i, e) \<in> set (failures_of os) \<longleftrightarrow> Failed i e \<in> set os"
  by (induction os rule: failures_of.induct) auto

lemma score_candidate_id:
  "(case fst (score_candidate D w v samples p) of Governed g \<Rightarrow> gv_candidate g = g_candidate v
     | Failed i e \<Rightarrow> i = c_id (g_candidate v))"
  by (auto simp: score_candidate_def split: sum.split prod.split)

lemma gate_length:
  "length (gr_admitted (gate cs o')) + length (gr_quarantined (gate cs o')) + length (gr_rejected (gate cs o')) = length cs"
  unfolding gate_filter
proof (induction cs)
  case (Cons c cs)
  then show ?case by (cases "g_outcome (gate_judge o' c)") simp_all
qed simp

lemma run_steps:
  assumes "run T D p w = (Inr (res, fails), w')"
  obtains noise kept x where "extract_proposal T D p = Inr (noise, kept, x)"
    and "score_all D (x_samples x) p w (gr_admitted (gate (x_candidates x) (dp_ontology D))) =
      (fst (score_all D (x_samples x) p w (gr_admitted (gate (x_candidates x) (dp_ontology D)))), w')"
    and "pr_governed res = governed_of (fst (score_all D (x_samples x) p w (gr_admitted (gate (x_candidates x) (dp_ontology D)))))"
    and "fails = failures_of (fst (score_all D (x_samples x) p w (gr_admitted (gate (x_candidates x) (dp_ontology D)))))"
    and "pr_quarantined res = map (\<lambda>v. c_id (g_candidate v)) (gr_quarantined (gate (x_candidates x) (dp_ontology D)))"
    and "pr_rejected res = map (\<lambda>v. c_id (g_candidate v)) (gr_rejected (gate (x_candidates x) (dp_ontology D)))"
    and "pr_dropped_noise res = int noise" and "pr_dropped_unsourced res = x_dropped_unsourced x"
    and "pr_trace res = pp_trace p"
  using assms by (auto simp: run_def Let_def split: sum.splits prod.splits)

section \<open>A candidate fails only at a boundary\<close>

lemma both_ways_covers: "a \<in> set xs \<Longrightarrow> b \<in> set xs \<Longrightarrow> a \<noteq> b \<Longrightarrow> (a, b) \<in> set (both_ways xs)"
  by (induction xs) auto

lemma entail_pairs_cover:
  assumes "Some a \<in> set draws" and "Some b \<in> set draws" and "a \<noteq> b"
  shows "(a, b) \<in> set (entail_pairs draws verbatim claim)"
proof -
  have "x \<in> set (map the (filter (\<lambda>d. d \<noteq> None) draws))" if "Some x \<in> set draws" for x
    using that by (force simp: image_iff)
  with assms show ?thesis by (simp add: entail_pairs_def both_ways_covers)
qed

lemma admitted_facts:
  assumes "v \<in> set (gr_admitted (gate cs o'))"
  shows "\<exists>c \<in> set cs. \<exists>spec. predicate o' (c_predicate c) = Some spec \<and> in_unit (g_fit v)
    \<and> g_candidate v = c\<lparr>c_object := c_object (g_candidate v)\<rparr> \<and> has_type (c_object (g_candidate v)) (ps_object spec)"
proof -
  obtain c where c: "c \<in> set cs" "v = gate_judge o' c" "g_outcome v \<in> {PASS, COERCED}"
    using assms by (auto simp: gate_filter)
  show ?thesis
  proof (cases o' c rule: gate_judge_cases)
    case (exact spec)
    with c show ?thesis by (intro bexI [of _ c] exI [of _ spec]) (simp_all add: FIT_EXACT_def in_unit_def)
  next
    case (coerced spec v')
    have "in_unit (7 / 10)" by (simp add: in_unit_def)
    then have "in_unit FIT_COERCED" unfolding FIT_COERCED_def by (rule fl.rnd_unit)
    with c coerced show ?thesis by (intro bexI [of _ c] exI [of _ spec]) simp_all
  qed (use c in simp_all)
qed

context entail_source
begin

lemma confidence_answered:
  assumes "dp_entail D (c_id (g_candidate v)) = ask"
    and "ask (entail_pairs (draws_for samples (g_candidate v)) (pv_verbatim (c_provenance (g_candidate v)))
           (claim_text (g_candidate v))) = Inr entail"
    and "samples \<noteq> []" and "in_unit (pv_alignment (c_provenance (g_candidate v)))" and "in_unit (g_fit v)"
    and "in_unit (cr_contradiction conflict)"
  shows "\<exists>r. confidence_for D v samples conflict = Inr r \<and> confidence_report_ok r"
proof -
  let ?c = "g_candidate v"
  let ?draws = "draws_for samples ?c" and ?verb = "pv_verbatim (c_provenance ?c)"
  have ne: "?draws \<noteq> []" using assms(3) by (simp add: draws_for_def)
  obtain mc where mc: "cluster_meanings (dp_log D) (dp_sum D) ?draws entail = Inr mc" "in_unit (mc_entropy mc)"
    using clusters_answered [OF assms(2) ne entail_pairs_cover] by blast
  have "?verb = claim_text ?c \<or> (?verb, claim_text ?c) \<in> set (entail_pairs ?draws ?verb (claim_text ?c))"
    by (simp add: entail_pairs_def)
  then obtain x where x: "entail ?verb (claim_text ?c) = Inr x" "in_unit x"
    using answers_forD [OF ask_answers [OF assms(2)]] by blast
  obtain r where "score_confidence (mc_entropy mc) x (pv_tier (c_provenance ?c)) (pv_alignment (c_provenance ?c))
      (g_fit v) 1 conflict (dp_weights D) = Inr r" "confidence_report_ok r"
    using score_confidence_returns [OF mc(2) x(2) assms(4-6), where n = 1] by auto
  with mc(1) x(1) assms(1,2) show ?thesis by (simp add: confidence_for_def Let_def)
qed

end

lemma features_answer:
  "\<exists>f. risk_features_for c spec ns kind (int degree) incs = Inr f"
proof -
  have "in_unit (impact_feature l)" for l by (cases l; simp; (rule fl.rnd_unit)?; simp add: in_unit_def)
  moreover have "in_unit (pii_feature l)" for l by (cases l; simp; (rule fl.rnd_unit)?; simp add: in_unit_def)
  moreover have "in_unit (irreversibility_feature l)" for l by (cases l; simp; (rule fl.rnd_unit)?; simp add: in_unit_def)
  ultimately show ?thesis
    by (simp add: risk_features_for_def graph_fanout_def mk_risk_features_def risk_features_ok_def fanout_value_unit)
qed

lemma build_deps_fields [simp]:
  "dp_resolve (build_deps B t onto thr pv) (db, g) s tn ns ty =
     (fst (resolve (be_free B) s tn ns ty db), (snd (resolve (be_free B) s tn ns ty db), g))"
  "dp_search (build_deps B t onto thr pv) (db, g) ns vec k fs = search (be_search B) db t ns vec k fs None"
  "dp_neighbors (build_deps B t onto thr pv) (db, g) i h =
     guardE (be_graph_up B) (GM StoreUnavailable) (Inr (neo_neighbors (be_loads B) g i (int h)))"
  "dp_degree (build_deps B t onto thr pv) (db, g) i = guardE (be_graph_up B) (GM StoreUnavailable) (Inr (neo_degree g i))"
  "dp_embed (build_deps B t onto thr pv) = be_embed B"
  "dp_ontology (build_deps B t onto thr pv) = onto"
  "dp_thresholds (build_deps B t onto thr pv) = thr"
  "dp_betas (build_deps B t onto thr pv) = V1_BETAS"
  "dp_weights (build_deps B t onto thr pv) = V1_WEIGHTS"
  "dp_policy_version (build_deps B t onto thr pv) = pv"
  "dp_log (build_deps B t onto thr pv) = be_log B"
  "dp_sum (build_deps B t onto thr pv) = be_sum B"
  "dp_nli (build_deps B t onto thr pv) i = llm_judge (be_files B) (be_json B) (be_llm B) (be_nli_canary B i)"
  "dp_entail (build_deps B t onto thr pv) i = lookup (be_files B) (be_json B) (be_llm B) (be_entail_canary B i)"
  by (simp_all add: build_deps_def split_beta)

lemma search_never_fails:
  assumes "sound db" and "se_free env" and "\<forall>u v. in_cosine (fl (1 - se_dist env u v))"
  shows "search env db t ns vec k [(''subject_id'', i), (''predicate'', q)] None \<noteq> Inl e"
proof -
  have "\<forall>(x, y) \<in> set [(''subject_id'', i), (''predicate'', q)]. x \<in> {''subject_id'', ''predicate''}" by simp
  from search_nearest [OF assms(1,2) this assms(3), of t ns vec k None] show ?thesis by auto
qed

lemma retrieved:
  assumes "sound db" and "se_free (be_search B)" and "\<forall>u v. in_cosine (fl (1 - se_dist (be_search B) u v))"
    and "be_embed B [embed_text (c_predicate c) (c_object c)] = Inr (vector # vs)" and "be_graph_up B"
  shows "\<exists>incs. retrieve_incumbents (build_deps B t onto thr pv) (db, g) c i = Inr incs \<and> cosines_ok incs
    \<and> (\<forall>h \<in> set (is_nearest incs). a_tenant (s_assertion h) = t \<and> a_subject (s_assertion h) = i
          \<and> assertion_ok (s_assertion h))"
proof -
  have f: "\<forall>(x, y) \<in> set [(''subject_id'', i), (''predicate'', c_predicate c)]. x \<in> {''subject_id'', ''predicate''}" by simp
  obtain rows where s: "search (be_search B) db t (c_namespace c) vector INCUMBENT_K
        [(''subject_id'', i), (''predicate'', c_predicate c)] None =
      Inr (map (\<lambda>r. \<lparr>s_assertion = fetched (se_jsonb (be_search B)) db t r,
                     s_cosine = fl (1 - se_dist (be_search B) (row_embedding r) vector)\<rparr>) rows)"
    and r: "\<forall>r \<in> set rows. r \<in> set (db_assertions db)
        \<and> may_show t (c_namespace c) [(''subject_id'', i), (''predicate'', c_predicate c)] None r
        \<and> assertion_ok (fetched (se_jsonb (be_search B)) db t r)"
    using search_nearest [OF assms(1,2) f assms(3), of t "c_namespace c" vector INCUMBENT_K None] by blast
  with assms(3-5) show ?thesis
    by (simp add: retrieve_incumbents_def cosines_ok_def may_show_def)
qed

definition boundary_failed ::
    "boundary_env \<Rightarrow> db \<Rightarrow> proposal \<Rightarrow> predicate_spec \<Rightarrow> candidate \<Rightarrow> fact list list \<Rightarrow> exn \<Rightarrow> bool" where
  \<comment> \<open>one of the calls the pipeline makes for the candidate raised this error\<close>
  "boundary_failed B db p spec c samples e \<longleftrightarrow>
     fst (resolve (be_free B) (subject_named p c) (pp_tenant p) (pp_namespace p) (ps_subject spec) db) = Inl e \<or>
     be_embed B [embed_text (c_predicate c) (c_object c)] = Inl e \<or>
     be_embed B [embed_text (c_predicate c) (c_object c)] = Inr [] \<and> e = IndexError \<or>
     \<not> be_graph_up B \<and> e = GM StoreUnavailable \<or>
     (\<exists>quotes. llm_judge (be_files B) (be_json B) (be_llm B) (be_nli_canary B (c_id c))
        (pv_verbatim (c_provenance c)) quotes = Inl e) \<or>
     lookup (be_files B) (be_json B) (be_llm B) (be_entail_canary B (c_id c))
       (entail_pairs (draws_for samples c) (pv_verbatim (c_provenance c)) (claim_text c)) = Inl e"

lemma detect_without_judge:
  assumes "cosines_ok incs" and "is_nearest incs = [] \<or> settled c incs spec"
  shows "\<exists>r. conflict_report_ok r \<and> (\<forall>nli. detect c incs spec nli = Inr r)"
proof (cases "is_nearest incs = []")
  case True
  then show ?thesis
    by (simp add: detect_def no_conflict_def mk_conflict_report_def conflict_report_ok_def in_unit_def in_cosine_def)
next
  case False
  with assms obtain h res where "h \<in> set (is_nearest incs)"
    and "\<forall>nli. detect c incs spec nli = Inr
    \<lparr>cr_kind = fst res, cr_incumbent = Some (a_id (s_assertion h)), cr_entailment = 0,
     cr_contradiction = 0, cr_cosine = s_cosine h, cr_hint = snd res\<rparr>"
    using detect_settled by blast
  with assms(1) show ?thesis by (auto simp: conflict_report_ok_def cosines_ok_def in_unit_def)
qed

lemma detect_fails:
  assumes "cosines_ok incs" and "detect c incs spec (llm_judge files loads llm canary) = Inl e"
  shows "judge (llm_judge files loads llm canary) c incs = Inl e"
proof (cases "is_nearest incs = [] \<or> settled c incs spec")
  case True
  then show ?thesis using detect_without_judge [OF assms(1) True] assms(2) by auto
next
  case False
  then have d: "detect c incs spec (llm_judge files loads llm canary) =
      bindE (judge (llm_judge files loads llm canary) c incs) (\<lambda>js. adjudicate c incs js)"
    by (intro detect_unsettled) simp_all
  show ?thesis
  proof (cases "judge (llm_judge files loads llm canary) c incs")
    case (Inr js)
    with detect_answers [OF assms(1) Inr, of spec] assms(2) show ?thesis by auto
  qed (use d assms(2) in simp)
qed

lemma detect_report_ok:
  assumes "cosines_ok incs" and "detect c incs spec (llm_judge files loads llm canary) = Inr r"
  shows "conflict_report_ok r"
proof (cases "is_nearest incs = [] \<or> settled c incs spec")
  case True
  then show ?thesis using detect_without_judge [OF assms(1) True] assms(2) by auto
next
  case False
  then obtain js where "judge (llm_judge files loads llm canary) c incs = Inr js"
    using assms(2) by (auto simp: detect_unsettled elim: bindE_InrE)
  from detect_answers [OF assms(1) this, of spec] assms(2) show ?thesis by auto
qed

lemma score_fails:
  assumes "boundary_failed B db p spec (g_candidate v) samples e \<longrightarrow> P"
    and "score_and_decide (build_deps B t onto thr pv) (db, g) v samples spec ns i incs conflict = Inl e"
    and "samples \<noteq> []" and "candidate_ok (g_candidate v)" and "in_unit (g_fit v)" and "conflict_report_ok conflict"
  shows P
proof -
  let ?D = "build_deps B t onto thr pv" and ?c = "g_candidate v"
  let ?pairs = "entail_pairs (draws_for samples ?c) (pv_verbatim (c_provenance ?c)) (claim_text ?c)"
  have units: "in_unit (pv_alignment (c_provenance ?c))" "in_unit (cr_contradiction conflict)"
    using assms(4,6) by (simp_all add: candidate_ok_def provenance_ok_def conflict_report_ok_def)
  show P
  proof (cases "dp_entail ?D (c_id ?c) ?pairs")
    case (Inl e')
    then have "e' = e" using assms(2) by (simp add: score_and_decide_def confidence_for_def Let_def)
    with Inl assms(1) show P by (simp add: boundary_failed_def)
  next
    case (Inr entail)
    have "dp_entail ?D (c_id ?c) = lookup (be_files B) (be_json B) (be_llm B) (be_entail_canary B (c_id ?c))" by simp
    from llm_entailer.confidence_answered [OF this _ assms(3) units(1) assms(5) units(2)]
    obtain r where "confidence_for ?D v samples conflict = Inr r" using Inr by auto
    moreover obtain f where "risk_features_for ?c spec ns (cr_kind conflict) (int (neo_degree g i)) incs = Inr f"
      using features_answer by blast
    ultimately have "\<not> be_graph_up B \<and> e = GM StoreUnavailable"
      using assms(2) by (auto simp: score_and_decide_def score_impact_def mk_risk_verdict_def risk_verdict_ok_def
          risk_in_unit guardE_def split: if_splits)
    with assms(1) show P by (simp add: boundary_failed_def)
  qed
qed

lemma candidate_fails:
  assumes "sound db" and "se_free (be_search B)" and "\<forall>u v. in_cosine (fl (1 - se_dist (be_search B) u v))"
    and "\<forall>c \<in> set cs. candidate_ok c" and v: "v \<in> set (gr_admitted (gate cs onto))" and "samples \<noteq> []"
    and failed: "fst (score_candidate (build_deps B t onto thr pv) (db, g) v samples p) = Failed j e"
  shows "j = c_id (g_candidate v) \<and> (\<exists>spec. predicate onto (c_predicate (g_candidate v)) = Some spec
    \<and> boundary_failed B db p spec (g_candidate v) samples e)"
proof -
  let ?D = "build_deps B t onto thr pv" and ?c = "g_candidate v"
  obtain c spec where c: "c \<in> set cs" "predicate onto (c_predicate c) = Some spec" "in_unit (g_fit v)"
    "?c = c\<lparr>c_object := c_object ?c\<rparr>"
    using admitted_facts [OF v] by blast
  have pred: "c_predicate ?c = c_predicate c" by (subst c(4)) simp
  have prov: "c_provenance ?c = c_provenance c" "c_valid_from ?c = c_valid_from c" "c_valid_to ?c = c_valid_to c"
    by (subst c(4), simp)+
  have cok: "candidate_ok ?c" using assms(4) c(1) by (simp add: candidate_ok_def prov)
  have j: "j = c_id ?c" using score_candidate_id [where D = ?D and w = "(db, g)" and v = v and samples = samples and p = p] failed by simp
  have d: "fst (decide_one ?D (db, g) v samples p) = Inl e"
    using failed by (auto simp: score_candidate_def split: sum.splits prod.splits)
  obtain r db1 where r: "resolve (be_free B) (subject_named p ?c) (pp_tenant p) (pp_namespace p) (ps_subject spec) db = (r, db1)"
    by (cases "resolve (be_free B) (subject_named p ?c) (pp_tenant p) (pp_namespace p) (ps_subject spec) db")
  have "boundary_failed B db p spec ?c samples e"
  proof (cases r)
    case (Inl x)
    then show ?thesis using d r c(2) pred by (simp add: decide_one_def boundary_failed_def)
  next
    case (Inr i)
    have same: "decide_resolved ?D (db1, g) v samples p spec i = decide_resolved ?D (db, g) v samples p spec i"
      using pipeline.decide_after_resolve [where B = B and tenant = t and onto = onto and thr = thr and pv = pv
          and w = "(db, g)" and s = "subject_named p ?c" and ty = "ps_subject spec" and t = "pp_tenant p"
          and ns = "pp_namespace p"] r by simp
    have dr: "decide_resolved ?D (db, g) v samples p spec i = Inl e"
      using d r Inr c(2) pred same by (simp add: decide_one_def)
    show ?thesis
    proof (cases "be_embed B [embed_text (c_predicate ?c) (c_object ?c)]")
      case (Inl x)
      then show ?thesis using dr by (simp add: decide_resolved_def retrieve_incumbents_def boundary_failed_def)
    next
      case emb: (Inr vecs)
      show ?thesis
      proof (cases "vecs = [] \<or> \<not> be_graph_up B")
        case True
        then show ?thesis using dr emb
          by (cases vecs) (auto simp: decide_resolved_def retrieve_incumbents_def boundary_failed_def guardE_def
              bindE_def search_never_fails [OF assms(1-3)] split: sum.splits)
      next
        case False
        then obtain vector vs where "vecs = vector # vs" by (cases vecs) auto
        with emb False obtain incs where incs: "retrieve_incumbents ?D (db, g) ?c i = Inr incs" "cosines_ok incs"
          using retrieved [OF assms(1-3), of ?c vector vs t onto thr pv g i] by auto
        show ?thesis
        proof (cases "detect ?c incs spec (dp_nli ?D (c_id ?c))")
          case (Inl x)
          then have "x = e" using dr incs by (simp add: decide_resolved_def)
          with Inl have "judge (llm_judge (be_files B) (be_json B) (be_llm B) (be_nli_canary B (c_id ?c))) ?c incs = Inl e"
            by (intro detect_fails [OF incs(2)]) simp
          then show ?thesis unfolding boundary_failed_def judge_def by blast
        next
          case (Inr conflict)
          then have "score_and_decide ?D (db, g) v samples spec (pp_namespace p) i incs conflict = Inl e"
            using dr incs by (auto simp: decide_resolved_def bindE_Inl_iff)
          moreover have "conflict_report_ok conflict" using Inr detect_report_ok [OF incs(2)] by simp
          ultimately show ?thesis using score_fails assms(6) cok c(3) by blast
        qed
      qed
    qed
  qed
  with j c(2) pred show ?thesis by simp
qed

section \<open>What a written candidate has behind it\<close>

lemma one_source_uncorroborated: "\<not> CORROBORATED \<le> corroboration_score 1"
  using corroboration_score_1 corroboration_score_2 by (simp add: CORROBORATED_def)

definition earned :: "thresholds \<Rightarrow> predicate_spec \<Rightarrow> governed \<Rightarrow> bool" where
  \<comment> \<open>what an automatic write of the pipeline rests on\<close>
  "earned thr spec g \<longleftrightarrow>
     tau_mid thr \<le> cf_confidence (dr_confidence (gv_record g)) \<and> rv_risk (dr_risk (gv_record g)) < rho_lo thr \<and>
     \<not> ps_requires_corroboration spec \<and> cr_hint (dr_conflict (gv_record g)) \<noteq> Escalate \<and>
     \<not> (pv_tier (c_provenance (gv_candidate g)) = RETRIEVED_WEB \<and> ps_impact spec \<in> {HIGH, CRITICAL}) \<and>
     \<not> (ps_impact spec = CRITICAL \<and> from_conflict (cr_kind (dr_conflict (gv_record g))) = MUT_RETRACT)"

lemma decided_record:
  assumes "score_and_decide D w v samples spec ns i incs conflict = Inr rec"
  shows "dr_conflict rec = conflict \<and> cf_corroboration (dr_confidence rec) = corroboration_score 1
    \<and> rv_level (dr_risk rec) = ps_impact spec \<and> rv_obligations (dr_risk rec) = []
    \<and> dr_decision rec = overridden (dr_confidence rec) (dr_risk rec) conflict (dp_thresholds D) False
         (signals_for (g_candidate v) spec (dp_policy_version D) (cr_kind conflict))"
proof -
  obtain conf degree f risk where c: "confidence_for D v samples conflict = Inr conf"
    and r: "score_impact f (ps_impact spec) [] (dp_betas D) = Inr risk"
    and rec: "rec = decide conf risk conflict (dp_thresholds D) False
        (signals_for (g_candidate v) spec (dp_policy_version D) (cr_kind conflict))"
    using assms by (auto simp: score_and_decide_def elim!: bindE_InrE)
  have fields: "dr_confidence rec = conf" "dr_risk rec = risk" "dr_conflict rec = conflict"
    by (simp_all add: rec decide_def Let_def split: prod.split)
  have "cf_corroboration conf = corroboration_score 1"
    using c by (auto simp: confidence_for_def Let_def score_confidence_Inr elim!: bindE_InrE)
  moreover have "rv_level risk = ps_impact spec" "rv_obligations risk = []" using r by (auto simp: score_impact_Inr)
  moreover have "dr_decision rec = overridden conf risk conflict (dp_thresholds D) False
         (signals_for (g_candidate v) spec (dp_policy_version D) (cr_kind conflict))"
    unfolding rec decide_decision by (simp add: Let_def)
  ultimately show ?thesis using fields by simp
qed

lemma governed_candidate:
  assumes "fst (score_candidate D w v samples p) = Governed g"
  shows "gv_candidate g = g_candidate v \<and> (\<exists>spec w' incs conflict.
    predicate (dp_ontology D) (c_predicate (g_candidate v)) = Some spec
    \<and> score_and_decide D w' v samples spec (pp_namespace p) (gv_subject g) incs conflict = Inr (gv_record g))"
  using assms
  by (auto simp: score_candidate_def decide_one_def decide_resolved_def split: sum.splits prod.splits option.splits
      elim!: bindE_InrE) blast

lemma governed_auto_write:
  assumes "fst (score_candidate D w v samples p) = Governed g" and "thresholds_ok (dp_thresholds D)"
    and "dr_decision (gv_record g) = AUTO_WRITE"
  shows "\<exists>spec. predicate (dp_ontology D) (c_predicate (g_candidate v)) = Some spec \<and> earned (dp_thresholds D) spec g"
proof -
  obtain spec w' incs conflict where cand: "gv_candidate g = g_candidate v"
    and spec: "predicate (dp_ontology D) (c_predicate (g_candidate v)) = Some spec"
    and run: "score_and_decide D w' v samples spec (pp_namespace p) (gv_subject g) incs conflict = Inr (gv_record g)"
    using governed_candidate [OF assms(1)] by blast
  let ?rec = "gv_record g"
  note d = decided_record [OF run]
  have "overridden (dr_confidence ?rec) (dr_risk ?rec) conflict (dp_thresholds D) False
       (signals_for (g_candidate v) spec (dp_policy_version D) (cr_kind conflict)) = AUTO_WRITE" using d assms(3) by metis
  then have aw: "matrix_decision (dr_confidence ?rec) (dr_risk ?rec) (dp_thresholds D) = AUTO_WRITE"
    "no_override (dr_confidence ?rec) (dr_risk ?rec) conflict
       (signals_for (g_candidate v) spec (dp_policy_version D) (cr_kind conflict))"
    by (simp_all add: overridden_auto_write)
  have unc: "\<not> CORROBORATED \<le> cf_corroboration (dr_confidence ?rec)" using d one_source_uncorroborated by simp
  have "earned (dp_thresholds D) spec g"
    using aw unc d cand unfolding matrix_auto_write [OF assms(2)]
    by (auto simp: earned_def matrix_allows_def no_override_def signals_for_def)
  with spec show ?thesis by blast
qed

lemma ids_kept: "v \<in> set (gr_admitted (gate cs o')) \<Longrightarrow> \<exists>c \<in> set cs. c_id (g_candidate v) = c_id c \<and> c_provenance (g_candidate v) = c_provenance c
    \<and> c_tenant (g_candidate v) = c_tenant c"
proof -
  assume "v \<in> set (gr_admitted (gate cs o'))"
  then obtain c where "c \<in> set cs" "g_candidate v = c\<lparr>c_object := c_object (g_candidate v)\<rparr>"
    using admitted_facts by blast
  moreover from this(2) have "c_id (g_candidate v) = c_id c" "c_provenance (g_candidate v) = c_provenance c"
    "c_tenant (g_candidate v) = c_tenant c" by (metis candidate.simps(1,9,2) candidate.surjective candidate.update_convs(6))+
  ultimately show ?thesis by blast
qed

lemma sorted_ids:
  "mset (map (\<lambda>v. c_id (g_candidate v)) (gr_admitted (gate cs o'))) + mset (map (\<lambda>v. c_id (g_candidate v)) (gr_quarantined (gate cs o')))
     + mset (map (\<lambda>v. c_id (g_candidate v)) (gr_rejected (gate cs o'))) = mset (map c_id cs)"
  unfolding gate_filter
proof (induction cs)
  case (Cons c cs)
  have "c_id (g_candidate (gate_judge o' c)) = c_id c"
    by (cases o' c rule: gate_judge_cases) (simp_all add: quarantined_def)
  with Cons show ?case by (cases "g_outcome (gate_judge o' c)") simp_all
qed simp

lemma outcome_ids:
  "mset (map (c_id \<circ> gv_candidate) (governed_of (map (\<lambda>v. fst (score_candidate D w v samples p)) vs)))
     + mset (map fst (failures_of (map (\<lambda>v. fst (score_candidate D w v samples p)) vs)))
   = mset (map (\<lambda>v. c_id (g_candidate v)) vs)"
proof (induction vs)
  case (Cons v vs)
  then show ?case
    using score_candidate_id [where D = D and w = w and v = v and samples = samples and p = p]
    by (cases "fst (score_candidate D w v samples p)") simp_all
qed simp

section \<open>Properties\<close>

text \<open>C10. The candidates of a proposal are scored independently: with the stores, the resolver and
  the calls \<open>build_deps\<close> puts together, the outcomes are those each candidate would have alone on
  the state before the proposal. A failure touches no other candidate, and no order of the
  concurrent scorings shows in their outcomes.\<close>

theorem candidates_score_independently:
  "fst (score_all (build_deps B t onto thr pv) samples p w vs) =
     map (\<lambda>v. fst (score_candidate (build_deps B t onto thr pv) w v samples p)) vs"
  by (rule pipeline.score_all_independent)

text \<open>C9. A run loses nothing: each candidate that was extracted ends up exactly once, by its id,
  among the governed, the failed, the quarantined and the rejected, and the noise and the
  unsourced facts are counted as the earlier stages counted them.\<close>

theorem run_accounts_for_every_candidate:
  assumes "run T (build_deps B t onto thr pv) p w = (Inr (res, fails), w')"
  shows "\<exists>noise kept x. extract_proposal T (build_deps B t onto thr pv) p = Inr (noise, kept, x)
    \<and> mset (map (c_id \<circ> gv_candidate) (pr_governed res)) + mset (map fst fails)
        + mset (pr_quarantined res) + mset (pr_rejected res) = mset (map c_id (x_candidates x))
    \<and> pr_dropped_noise res = int noise \<and> pr_dropped_unsourced res = x_dropped_unsourced x"
proof -
  obtain noise kept x where x: "extract_proposal T (build_deps B t onto thr pv) p = Inr (noise, kept, x)"
    and g: "pr_governed res = governed_of (map (\<lambda>v. fst (score_candidate (build_deps B t onto thr pv) w v (x_samples x) p))
        (gr_admitted (gate (x_candidates x) onto)))"
      "fails = failures_of (map (\<lambda>v. fst (score_candidate (build_deps B t onto thr pv) w v (x_samples x) p))
        (gr_admitted (gate (x_candidates x) onto)))"
    and r: "pr_quarantined res = map (\<lambda>v. c_id (g_candidate v)) (gr_quarantined (gate (x_candidates x) onto))"
      "pr_rejected res = map (\<lambda>v. c_id (g_candidate v)) (gr_rejected (gate (x_candidates x) onto))"
      "pr_dropped_noise res = int noise" "pr_dropped_unsourced res = x_dropped_unsourced x"
    using run_steps [OF assms] by (simp add: pipeline.score_all_independent) metis
  then show ?thesis
    using outcome_ids [of "build_deps B t onto thr pv" w "x_samples x" p "gr_admitted (gate (x_candidates x) onto)"]
      sorted_ids [of "x_candidates x" onto]
    by (intro exI [of _ noise] exI [of _ kept] exI [of _ x]) (simp only: g r simp_thms)
qed


text \<open>C7. What the pipeline writes without review has earned it, from the turn to the decision: the
  candidate quotes the kept turns of the proposal verbatim, with the proposal's tenant and trust
  tier; its predicate is declared and its value has the declared type; its confidence reaches the
  middle band and its risk stays below the lower cut (with one source, corroboration never lifts
  the upper band); its predicate needs no corroboration, no conflict was escalated, no web page
  speaks on a high-impact predicate and nothing critical is retracted. Nothing is assumed of the
  fuzzy aligner, of the model's replies or of the stores.\<close>

theorem auto_writes_are_earned:
  assumes "run T (build_deps B t onto thr pv) p w = (Inr (res, fails), w')" and "thresholds_ok thr"
    and "g \<in> set (pr_governed res)" and "dr_decision (gv_record g) = AUTO_WRITE"
  shows "\<exists>noise kept x spec a b. extract_proposal T (build_deps B t onto thr pv) p = Inr (noise, kept, x)
    \<and> a < b \<and> b \<le> length (render_content kept)
    \<and> pv_verbatim (c_provenance (gv_candidate g)) = slice a b (render_content kept)
    \<and> pv_tier (c_provenance (gv_candidate g)) = pp_tier p \<and> c_tenant (gv_candidate g) = pp_tenant p
    \<and> predicate onto (c_predicate (gv_candidate g)) = Some spec
    \<and> has_type (c_object (gv_candidate g)) (ps_object spec) \<and> earned thr spec g"
proof -
  let ?D = "build_deps B t onto thr pv"
  obtain noise kept x where x: "extract_proposal T ?D p = Inr (noise, kept, x)"
    and g: "pr_governed res = governed_of (map (\<lambda>v. fst (score_candidate ?D w v (x_samples x) p))
        (gr_admitted (gate (x_candidates x) onto)))"
    using run_steps [OF assms(1)] by (simp add: pipeline.score_all_independent) metis
  obtain v where v: "v \<in> set (gr_admitted (gate (x_candidates x) onto))" "fst (score_candidate ?D w v (x_samples x) p) = Governed g"
    using assms(3) unfolding g governed_of_iff by auto
  obtain ctx canary y k t' d where "extract_candidates (te_extractor T) (te_files T) (te_loads T) (te_llm T) canary
      (render_content kept) ctx y k t' d = Inr x" "ec_tier ctx = pp_tier p" "ec_tenant ctx = pp_tenant p"
    using x by (auto simp: extract_proposal_def context_of_def Let_def elim!: bindE_InrE split: if_splits)
  with extraction_sourced [OF this(1)]
  have src: "\<forall>c \<in> set (x_candidates x). Extract.sourced (render_content kept) ctx c" by blast
  obtain c where c: "c \<in> set (x_candidates x)" "c_provenance (g_candidate v) = c_provenance c" "c_tenant (g_candidate v) = c_tenant c"
    using ids_kept [OF v(1)] by blast
  obtain spec' where ty: "has_type (c_object (g_candidate v)) (ps_object spec')"
    "predicate onto (c_predicate (g_candidate v)) = Some spec'"
    using admitted_facts [OF v(1)] by (metis candidate.simps(5) candidate.surjective candidate.update_convs(6))
  have cand: "gv_candidate g = g_candidate v" using governed_candidate [OF v(2)] by blast
  have "dp_thresholds ?D = thr" by simp
  then obtain spec where spec: "predicate onto (c_predicate (g_candidate v)) = Some spec" "earned thr spec g"
    using governed_auto_write [OF v(2) _ assms(4)] assms(2) by auto
  have "Extract.sourced (render_content kept) ctx c" using src c(1) by blast
  with x spec ty c(2,3) cand \<open>ec_tier ctx = pp_tier p\<close> \<open>ec_tenant ctx = pp_tenant p\<close>
  show ?thesis unfolding Extract.sourced_def by (metis option.inject)
qed

end
