(* ===== verification/PipelineDemo.thy ===== *)
theory PipelineDemo
  imports PipelineLaws
begin

text \<open>
  One proposal run from end to end, for the witnesses: a turn that says what its speaker likes, one
  draw, an ontology that declares the predicate, an empty database of the tenant, and thresholds
  the candidate reaches.
\<close>

section \<open>The proposal\<close>

definition milk_turn :: turn where
  "milk_turn = \<lparr>t_id = ''1'', t_role = USER_TURN, t_text = ''I like tea with warm milk every day'', t_captured_at = Some 3\<rparr>"

definition milk_proposal :: proposal where
  "milk_proposal = \<lparr>pp_trace = ''tr'', pp_tenant = ''t'', pp_namespace = ''user:u'', pp_turns = [milk_turn],
     pp_tier = TRUSTED_SYSTEM, pp_k = 1, pp_model_tier = FAST, pp_subject_hint = None\<rparr>"

definition likes_spec :: predicate_spec where
  "likes_spec = \<lparr>ps_subject = ''user'', ps_object = ScalarObject TEXT, ps_cardinality = MANY, ps_impact = LOW,
     ps_pii = PII_NONE, ps_irreversibility = REVERSIBLE, ps_min_tier = RETRIEVED_WEB, ps_requires_corroboration = False\<rparr>"

definition likes_ontology :: ontology where
  "likes_ontology = \<lparr>on_name = ''o'', on_version = 1, on_entities = [''user''], on_predicates = [(''likes'', likes_spec)]\<rparr>"

definition mild_thresholds :: thresholds where
  "mild_thresholds = \<lparr>tau_lo = 0, tau_mid = 1 / 4, tau_hi = 1 / 2, rho_lo = 3 / 4, rho_hi = 1, th_version = ''v''\<rparr>"

definition milk_text :: text_env where
  "milk_text = \<lparr>te_files = (\<lambda>_ _. Some tea_prompt), te_loads = (\<lambda>_. Some tea_reply), te_llm = demo_llm [''x''],
     te_ratio = (\<lambda>_ _. 0), te_extractor = tea_env, te_noise_canary = ''q'', te_extract_canary = ''k'',
     te_yaml = (\<lambda>_. [])\<rparr>"

definition milk_boundary :: boundary_env where
  "milk_boundary = \<lparr>be_search = \<lparr>se_dist = (\<lambda>_ _. 0), se_reach = (\<lambda>_ _ _. True), se_jsonb = id, se_free = True\<rparr>, be_loads = OStr,
     be_embed = (\<lambda>ts. Inr [replicate EMBEDDING_DIM 0]), be_free = True, be_graph_up = True,
     be_files = (\<lambda>_ _. Some demo_pairs_prompt),
     be_json = (\<lambda>_. Some (JObj [(''scores'', JList [JInt 1])])), be_llm = demo_llm [''x''],
     be_nli_canary = (\<lambda>_. ''k''), be_entail_canary = (\<lambda>_. ''k''), be_log = id, be_sum = sum_list\<rparr>"

definition milk_db :: db where
  "milk_db = \<lparr>db_tenants = [''t''], db_entities = [], db_assertions = [], db_provenance = [], db_outbox = [],
     db_audit = \<lparr>at_rows = [], at_next = 1\<rparr>\<rparr>"

abbreviation milk_deps :: "(db \<times> neo_graph) deps" where
  "milk_deps \<equiv> build_deps milk_boundary ''t'' likes_ontology mild_thresholds ''pv''"

abbreviation milk_world :: "db \<times> neo_graph" where
  "milk_world \<equiv> (milk_db, \<lparr>ng_nodes = [], ng_rels = []\<rparr>)"

lemma milk_noise:
  "filter_noise (\<lambda>_ _. 0) (\<lambda>_ _. Some tea_prompt) (\<lambda>_. Some tea_reply) (demo_llm [''x'']) ''q'' [milk_turn] ''user:u''
   = Inr \<lparr>nr_kept = [milk_turn], nr_dropped = []\<rparr>"
proof -
  have "rule_verdict milk_turn empty_history = None" "\<not> is_ambiguous (\<lambda>_ _. 0) milk_turn empty_history"
    by (code_simp, code_simp)
  then show ?thesis by (simp add: filter_noise_def)
qed

definition milk_fact :: fact where
  "milk_fact = \<lparr>f_subject = ''u'', f_predicate = ''likes'', f_object = OStr ''tea'', f_verbatim = ''like tea''\<rparr>"

lemma milk_extracted:
  "\<exists>x c. extract_proposal milk_text milk_deps milk_proposal = Inr (0, [milk_turn], x)
    \<and> x_candidates x = [c] \<and> x_samples x = [[milk_fact, milk_fact\<lparr>f_object := OStr ''gin'', f_verbatim := ''like gin''\<rparr>]]
    \<and> c_id c = ''c_1'' \<and> c_tenant c = ''t'' \<and> c_namespace c = ''user:u'' \<and> c_subject c = ''u'' \<and> c_predicate c = ''likes''
    \<and> c_object c = OStr ''tea'' \<and> pv_verbatim (c_provenance c) = ''like tea'' \<and> pv_alignment (c_provenance c) = 1
    \<and> pv_tier (c_provenance c) = TRUSTED_SYSTEM"
proof -
  have "returns (render (\<lambda>_ _. Some tea_prompt) ''extract_memories'' 2
      [(''content'', ''I like tea with warm milk every day''), (''ontology'', []), (''canary'', ''k'')])"
    by code_simp
  then obtain pr where pr: "render (\<lambda>_ _. Some tea_prompt) ''extract_memories'' 2
      [(''content'', ''I like tea with warm milk every day''), (''ontology'', []), (''canary'', ''k'')] = Inr pr"
    by (auto simp: returns_iff)
  have batch: "extraction_batch tea_reply =
      Some [milk_fact, milk_fact\<lparr>f_object := OStr ''gin'', f_verbatim := ''like gin''\<rparr>]"
    by code_simp
  have sub: "find_sub ''like tea'' ''I like tea with warm milk every day'' = Some 2"
    "find_sub ''like gin'' ''I like tea with warm milk every day'' = None"
    "strip ''like tea'' = ''like tea''" "strip ''like gin'' = ''like gin''"
    by code_simp+
  have link: "link_span (ee_align tea_env) (ee_ratio tea_env) ''like tea'' ''I like tea with warm milk every day'' =
      Some \<lparr>sm_span = (2, 10), sm_text = ''like tea'', sm_alignment = 1\<rparr>"
    "link_span (ee_align tea_env) (ee_ratio tea_env) ''like gin'' ''I like tea with warm milk every day'' = None"
    by (simp_all add: link_span_def sub tea_env_def FUZZY_THRESHOLD_def del: find_sub.simps)
  have content: "render_content [milk_turn] = ''I like tea with warm milk every day''"
    by (simp add: render_content_def milk_turn_def)
  have ctx: "context_of milk_proposal [milk_turn] =
      Inr \<lparr>ec_tenant = ''t'', ec_namespace = ''user:u'', ec_trace = ''tr'', ec_tier = TRUSTED_SYSTEM, ec_captured_at = 3\<rparr>"
    by (simp add: context_of_def milk_proposal_def milk_turn_def)
  have fields: "pp_turns milk_proposal = [milk_turn]" "pp_namespace milk_proposal = ''user:u''"
    "pp_k milk_proposal = 1" "pp_model_tier milk_proposal = FAST"
    by (simp_all add: milk_proposal_def)
  have one: "str_nat (Suc 0) = ''1''" by code_simp
  show ?thesis
    by (simp add: extract_proposal_def milk_text_def milk_noise ctx content fields)
      (simp add: one extract_candidates_def MIN_K_def pr draw_def demo_llm_def reject_echo_def
      startswith_def parse_samples_def parse_sample_def batch assemble_def to_candidates_def milk_fact_def link
      candidate_from_def mk_provenance_def provenance_ok_def span_ok_def in_unit_def
      mk_candidate_def candidate_ok_def mk_extraction_result_def)
qed

section \<open>The candidate is written\<close>

lemma milk_lookup:
  "\<exists>entail. lookup (\<lambda>_ _. Some demo_pairs_prompt) (\<lambda>_. Some (JObj [(''scores'', JList [JInt 1])])) (demo_llm [''x'']) ''k''
      [(''like tea'', ''u likes tea'')] = Inr entail \<and> entail ''like tea'' ''u likes tea'' = Inr 1"
proof -
  have "returns (render (\<lambda>_ _. Some demo_pairs_prompt) ''entail_pairs'' 1
      [(''pairs'', entail_numbered [(''like tea'', ''u likes tea'')]), (''canary'', ''k'')])"
    by code_simp
  then obtain pr where pr: "render (\<lambda>_ _. Some demo_pairs_prompt) ''entail_pairs'' 1
      [(''pairs'', entail_numbered [(''like tea'', ''u likes tea'')]), (''canary'', ''k'')] = Inr pr"
    by (auto simp: returns_iff)
  have one: "fl 1 = 1" using fl_of_int [of 1] by simp
  have "entail_score (\<lambda>_ _. Some demo_pairs_prompt) (\<lambda>_. Some (JObj [(''scores'', JList [JInt 1])])) (demo_llm [''x'']) ''k''
      [(''like tea'', ''u likes tea'')] = Inr [1]"
    by (simp add: entail_score_def pr demo_llm_def reject_echo_def startswith_def entail_parse_def
      entailment_batch_def exact_keys_def as_list_def as_unit_def as_float_def one in_unit_def)
  then show ?thesis
    by (simp add: lookup_def wanted_pairs_def dict_fromkeys_def zip_strict_def reader_def)
qed

lemma fl_quarter: "fl (1 / 4) = 1 / 4"
  using round_bin_representable [of 53 1 "-1074" "-2"] by (simp add: fl_def power_int_minus_divide)

lemma mild_confidence:
  assumes "in_unit h"
  shows "1 / 4 \<le> clamp01 (composite V1_WEIGHTS h (grounding 1 TRUSTED_SYSTEM 1) FIT_EXACT (corroboration_score 1) x) \<or> x < 0"
proof -
  have g: "grounding 1 TRUSTED_SYSTEM 1 = 1" by (simp add: grounding_def)
  have w: "0 \<le> w_uncertainty V1_WEIGHTS" "w_grounding V1_WEIGHTS = 1 / 4" "0 \<le> w_schema_fit V1_WEIGHTS"
    "0 \<le> w_consistency V1_WEIGHTS"
    by (simp_all add: V1_WEIGHTS_def fl_quarter fl.rnd_nonneg)
  have A: "0 \<le> fl (w_uncertainty V1_WEIGHTS * fl (1 - h))"
    using assms w(1) by (intro fl.rnd_nonneg mult_nonneg_nonneg) (auto simp: in_unit_def)
  show ?thesis
  proof (cases "x < 0")
    case False
    have 1: "1 / 4 \<le> fl (fl (w_uncertainty V1_WEIGHTS * fl (1 - h)) + fl (w_grounding V1_WEIGHTS * 1))"
      by (rule fl.rnd_ge_rep [OF fl_quarter]) (use A in \<open>simp add: w(2) fl_quarter\<close>)
    have C: "0 \<le> fl (w_schema_fit V1_WEIGHTS * FIT_EXACT)" using w(3) by (simp add: FIT_EXACT_def fl.rnd_nonneg)
    have E: "0 \<le> fl (w_consistency V1_WEIGHTS * x)" using w(4) False by (simp add: fl.rnd_nonneg)
    have 2: "1 / 4 \<le> fl (fl (fl (w_uncertainty V1_WEIGHTS * fl (1 - h)) + fl (w_grounding V1_WEIGHTS * 1))
        + fl (w_schema_fit V1_WEIGHTS * FIT_EXACT))"
      by (rule fl.rnd_ge_rep [OF fl_quarter]) (use 1 C in linarith)
    then have 3: "1 / 4 \<le> fl (fl (fl (fl (w_uncertainty V1_WEIGHTS * fl (1 - h)) + fl (w_grounding V1_WEIGHTS * 1))
        + fl (w_schema_fit V1_WEIGHTS * FIT_EXACT)) + fl (w_corroboration V1_WEIGHTS * corroboration_score 1))"
      by (intro fl.rnd_ge_rep [OF fl_quarter]) (simp add: corroboration_score_1)
    have "1 / 4 \<le> composite V1_WEIGHTS h 1 FIT_EXACT (corroboration_score 1) x"
      unfolding composite_def by (rule fl.rnd_ge_rep [OF fl_quarter]) (use 3 E in linarith)
    then show ?thesis by (simp add: g clamp01_def)
  qed simp
qed

lemma mild_risk:
  assumes "f = \<lparr>rf_impact = 0, rf_mutation = 0, rf_scope = 1 / 2, rf_fanout = 0, rf_pii = 0, rf_irreversibility = 0,
      rf_tier = 0, rf_novelty = 1\<rparr>"
  shows "max (sigmoid (risk_weighted V1_BETAS f)) (risk_floor LOW) < 3 / 4"
proof -
  have two: "fl 2 = 2" "fl 3 = 3" using fl_of_int [of 2] fl_of_int [of 3] by simp_all
  have b: "fl (13 / 10) \<le> 2" "3 \<le> fl (34 / 10)"
    by (rule fl.rnd_le_rep [OF two(1)], simp) (rule fl.rnd_ge_rep [OF two(2)], simp)
  have s: "fl (fl (13 / 10) * (1 / 2)) \<le> 1"
    by (rule fl.rnd_le_rep) (use b(1) in simp_all)
  have n: "fl (fl (fl (13 / 10) * (1 / 2)) + 1 / 2) \<le> 2"
    by (rule fl.rnd_le_rep [OF two(1)]) (use s in simp)
  have "risk_weighted V1_BETAS f = fl (fl (fl (fl (13 / 10) * (1 / 2)) + 1 / 2) - fl (34 / 10))"
    by (simp add: risk_weighted_def assms V1_BETAS_def fl_half)
  moreover have "\<dots> \<le> - 1" by (rule fl.rnd_le_rep) (use n b(2) in simp_all)
  ultimately have "risk_weighted V1_BETAS f < 0" by simp
  then have "sigmoid (risk_weighted V1_BETAS f) \<le> 1 / 2" by (rule sigmoid_neg_arg)
  moreover have "fl (15 / 100) \<le> 1 / 2" by (rule fl.rnd_le_rep [OF fl_half]) simp
  then have "risk_floor LOW \<le> 1 / 2" by (simp only: risk_floor.simps)
  ultimately show ?thesis by simp
qed

lemma milk_written:
  assumes c: "c_id c = ''c_1''" "c_namespace c = ''user:u''" "c_subject c = ''u''" "c_predicate c = ''likes''"
    "c_object c = OStr ''tea''" "pv_verbatim (c_provenance c) = ''like tea''" "pv_alignment (c_provenance c) = 1"
    "pv_tier (c_provenance c) = TRUSTED_SYSTEM"
    and samples: "draws_for samples c = [Some ''tea'']" and v: "g_candidate v = c" "g_fit v = FIT_EXACT"
  shows "\<exists>g. fst (score_candidate milk_deps milk_world v samples milk_proposal) = Governed g
    \<and> dr_decision (gv_record g) = AUTO_WRITE \<and> gv_candidate g = c"
proof -
  let ?i = "derive_entity_id ''t'' ''user:u''"
  let ?incs = "\<lparr>is_candidate = ''c_1'', is_nearest = [], is_neighbours = []\<rparr>"
  let ?conflict = "\<lparr>cr_kind = KIND_NONE, cr_incumbent = None, cr_entailment = 0, cr_contradiction = 0,
      cr_cosine = 0, cr_hint = Coexist\<rparr>"
  let ?f = "\<lparr>rf_impact = 0, rf_mutation = 0, rf_scope = 1 / 2, rf_fanout = 0, rf_pii = 0, rf_irreversibility = 0,
      rf_tier = 0, rf_novelty = 1\<rparr>"
  have spec: "predicate likes_ontology ''likes'' = Some likes_spec" by (simp add: predicate_def likes_ontology_def)
  have res: "fst (resolve True ''u'' ''t'' ''user:u'' ''user'' milk_db) = Inr ?i"
    by (simp add: resolve_cases subject_type_of_def milk_db_def Let_def pg_text_def)
  have found: "retrieve_incumbents milk_deps milk_world c ?i = Inr ?incs"
    by (simp add: retrieve_incumbents_def c milk_boundary_def search_def predicates_def filter_clause_def
        nearest_statement_def tenant_rows_def milk_db_def neo_neighbors_def HOPS_def hop_def Let_def widening_def
        walk_start_def)
  have det: "detect c ?incs likes_spec nli = Inr ?conflict" for nli
    by (simp add: detect_def no_conflict_def mk_conflict_report_def conflict_report_ok_def in_unit_def in_cosine_def
        RES_COEXIST_def)
  have claim: "claim_text c = ''u likes tea''" by (simp add: claim_text_def c render_object_def)
  have pairs: "entail_pairs [Some ''tea''] ''like tea'' ''u likes tea'' = [(''like tea'', ''u likes tea'')]"
    by (simp add: entail_pairs_def)
  obtain entail where look: "lookup (\<lambda>_ _. Some demo_pairs_prompt) (\<lambda>_. Some (JObj [(''scores'', JList [JInt 1])])) (demo_llm [''x'']) ''k''
      [(''like tea'', ''u likes tea'')] = Inr entail" and ent: "entail ''like tea'' ''u likes tea'' = Inr 1"
    using milk_lookup by blast
  obtain mc where mc: "cluster_meanings id sum_list [Some ''tea''] entail = Inr mc" "in_unit (mc_entropy mc)"
    using llm_entailer.clusters_answered [OF look, of "[Some ''tea'']" id sum_list] by auto
  have con: "consistency ?conflict = fl 1" by (simp add: consistency_def UNMEASURED_def)
  obtain conf where conf: "confidence_for milk_deps v samples ?conflict = Inr conf"
      "cf_confidence conf = clamp01 (composite V1_WEIGHTS (mc_entropy mc) (grounding 1 TRUSTED_SYSTEM 1) FIT_EXACT (corroboration_score 1)
         (consistency ?conflict))"
  proof -
    obtain r where r: "score_confidence (mc_entropy mc) 1 TRUSTED_SYSTEM 1 FIT_EXACT 1 ?conflict V1_WEIGHTS = Inr r"
      using score_confidence_returns [OF mc(2), of 1 1 FIT_EXACT ?conflict 1 TRUSTED_SYSTEM V1_WEIGHTS]
      by (auto simp: in_unit_def FIT_EXACT_def)
    then have "cf_confidence r = clamp01 (composite V1_WEIGHTS (mc_entropy mc) (grounding 1 TRUSTED_SYSTEM 1) FIT_EXACT (corroboration_score 1)
         (consistency ?conflict))" by (auto simp: score_confidence_Inr)
    moreover have "confidence_for milk_deps v samples ?conflict = Inr r"
      using r mc(1) ent by (simp add: confidence_for_def Let_def v c samples claim pairs milk_boundary_def look)
    ultimately show ?thesis using that by blast
  qed
  have high: "1 / 4 \<le> cf_confidence conf"
    using mild_confidence [OF mc(2), of "consistency ?conflict"] conf(2) con by simp
  have feats: "risk_features_for c likes_spec ''user:u'' KIND_NONE (int (neo_degree \<lparr>ng_nodes = [], ng_rels = []\<rparr> ?i)) ?incs = Inr ?f"
    by (simp add: risk_features_for_def c likes_spec_def neo_degree_def start_tenant_def graph_fanout_def fanout_value_0
        from_conflict_def CONFLICT_MUTATIONS_def scope_of_namespace_def startswith_def novelty_def source_tier_risk_def
        mk_risk_features_def risk_features_ok_def in_unit_def)
  obtain risk where risk: "score_impact ?f LOW [] V1_BETAS = Inr risk" "rv_risk risk = max (sigmoid (risk_weighted V1_BETAS ?f)) (risk_floor LOW)"
      "rv_level risk = LOW" "rv_obligations risk = []"
    by (simp add: score_impact_Inr)
  let ?signals = "signals_for c likes_spec ''pv'' KIND_NONE"
  let ?rec = "decide conf risk ?conflict mild_thresholds False ?signals"
  have up: "be_graph_up milk_boundary" by (simp add: milk_boundary_def)
  have low: "ps_impact likes_spec = LOW" by (simp add: likes_spec_def)
  have scored: "score_and_decide milk_deps milk_world v samples likes_spec ''user:u'' ?i ?incs ?conflict = Inr ?rec"
    using conf(1) feats risk(1) up low by (simp add: score_and_decide_def v)
  have ok: "thresholds_ok mild_thresholds" by (simp add: thresholds_ok_def mild_thresholds_def in_unit_def)
  have "matrix_decision conf risk mild_thresholds = AUTO_WRITE"
    unfolding matrix_auto_write [OF ok] using high mild_risk [OF refl] risk(2)
    by (simp add: matrix_allows_def mild_thresholds_def)
  moreover have "no_override conf risk ?conflict ?signals"
    using risk(3,4) by (simp add: no_override_def signals_for_def likes_spec_def c)
  ultimately have aw: "dr_decision ?rec = AUTO_WRITE"
    by (simp add: decide_decision overridden_auto_write Let_def)
  have "decide_resolved milk_deps milk_world v samples milk_proposal likes_spec ?i = Inr (?rec, ?i, None)"
    using scored by (simp add: decide_resolved_def v found det milk_proposal_def incumbent_of_def)
  then have "fst (decide_one milk_deps milk_world v samples milk_proposal) = Inr (?rec, ?i, None)"
    using res pipeline.decide_after_resolve [where B = milk_boundary and tenant = "''t''" and onto = likes_ontology
        and thr = mild_thresholds and pv = "''pv''" and w = milk_world and s = "''u''" and t = "''t''" and ns = "''user:u''"
        and ty = "''user''"]
    by (simp add: decide_one_def v c spec milk_proposal_def subject_named_def likes_spec_def milk_boundary_def)
  then show ?thesis using aw
    by (auto simp: score_candidate_def v split: sum.splits prod.splits)
qed

lemma milk_run:
  "\<exists>res w'. run milk_text milk_deps milk_proposal milk_world = (Inr (res, []), w')
    \<and> (\<exists>g \<in> set (pr_governed res). dr_decision (gv_record g) = AUTO_WRITE \<and> pv_verbatim (c_provenance (gv_candidate g)) = ''like tea'')"
proof -
  obtain x c where x: "extract_proposal milk_text milk_deps milk_proposal = Inr (0, [milk_turn], x)" "x_candidates x = [c]"
      "x_samples x = [[milk_fact, milk_fact\<lparr>f_object := OStr ''gin'', f_verbatim := ''like gin''\<rparr>]]"
    and c: "c_id c = ''c_1''" "c_namespace c = ''user:u''" "c_subject c = ''u''" "c_predicate c = ''likes''"
      "c_object c = OStr ''tea''" "pv_verbatim (c_provenance c) = ''like tea''" "pv_alignment (c_provenance c) = 1"
      "pv_tier (c_provenance c) = TRUSTED_SYSTEM"
    using milk_extracted by (elim exE conjE) (rule that)
  let ?v = "\<lparr>g_candidate = c, g_outcome = PASS, g_fit = FIT_EXACT, g_reason = ''SCHEMA_OK''\<rparr>"
  have "gate_judge likes_ontology c = ?v"
    by (simp add: gate_judge_def c predicate_def likes_ontology_def likes_spec_def fit_def as_text_def)
  then have adm: "gr_admitted (gate [c] likes_ontology) = [?v]" by (simp add: gate_filter)
  have draws: "draws_for (x_samples x) c = [Some ''tea'']"
    by (simp add: draws_for_def x(3) first_object_def c milk_fact_def render_object_def)
  obtain g where g: "fst (score_candidate milk_deps milk_world ?v (x_samples x) milk_proposal) = Governed g"
      "dr_decision (gv_record g) = AUTO_WRITE" "gv_candidate g = c"
    using milk_written [OF c draws, of ?v] by auto
  obtain w' where "score_all milk_deps (x_samples x) milk_proposal milk_world [?v] = ([Governed g], w')"
    using g(1) by (cases "score_candidate milk_deps milk_world ?v (x_samples x) milk_proposal") simp
  then show ?thesis using g c(6) by (simp add: run_def x(1,2) adm Let_def)
qed

theorem run_accounts_for_every_candidate_witness:
  "\<exists>res w' noise kept x. run milk_text milk_deps milk_proposal milk_world = (Inr (res, []), w') \<and> pr_governed res \<noteq> []
    \<and> extract_proposal milk_text milk_deps milk_proposal = Inr (noise, kept, x)
    \<and> mset (map (c_id \<circ> gv_candidate) (pr_governed res)) + mset (pr_quarantined res) + mset (pr_rejected res)
        = mset (map c_id (x_candidates x))"
proof -
  obtain res w' where r: "run milk_text milk_deps milk_proposal milk_world = (Inr (res, []), w')" "pr_governed res \<noteq> []"
    using milk_run by fastforce
  from run_accounts_for_every_candidate [OF r(1)] r show ?thesis by force
qed

theorem auto_writes_are_earned_witness:
  "\<exists>res w' g spec. run milk_text milk_deps milk_proposal milk_world = (Inr (res, []), w') \<and> g \<in> set (pr_governed res)
    \<and> dr_decision (gv_record g) = AUTO_WRITE \<and> earned mild_thresholds spec g
    \<and> pv_tier (c_provenance (gv_candidate g)) = TRUSTED_SYSTEM"
proof -
  obtain res w' g where r: "run milk_text milk_deps milk_proposal milk_world = (Inr (res, []), w')"
    and g: "g \<in> set (pr_governed res)" "dr_decision (gv_record g) = AUTO_WRITE"
    using milk_run by blast
  have ok: "thresholds_ok mild_thresholds" by (simp add: thresholds_ok_def mild_thresholds_def in_unit_def)
  have tier: "pp_tier milk_proposal = TRUSTED_SYSTEM" by (simp add: milk_proposal_def)
  from auto_writes_are_earned [OF r ok g] r g tier show ?thesis by auto
qed


end
