(* ===== verification/ThrottleLaws.thy ===== *)
theory ThrottleLaws
  imports Throttle
begin

text \<open>
  What the token bucket guarantees. Every rounding of the script is bounded, so the count of granted
  requests is bounded by the burst, the refill of the window and a slack of the last bits; and a
  bucket Redis has forgotten answers as the bucket it held would have.
\<close>

section \<open>Rounding errors\<close>

lemma rne_error: "\<bar>of_int (rne y) - y\<bar> \<le> 1 / 2"
  unfolding rne_def Let_def by (simp split: if_split)

lemma fl_le_add:
  assumes "0 \<le> x" and "x < 2 powi k" and "0 \<le> k"
  shows "fl x \<le> x + 2 powi (k - 54)"
proof (cases "x = 0")
  case True
  then show ?thesis by simp
next
  case False
  let ?u = "ulp_exp 53 (-1074) x"
  have "2 powi expo x \<le> x" using expo_bounds(1) [OF False] assms(1) by simp
  then have "(2::real) powi expo x < 2 powi k" using assms(2) by linarith
  then have "expo x < k" by (rule powi2_less_D)
  then have u: "?u \<le> k - 53" using assms(3) by (simp add: ulp_exp_def)
  have "of_int (rne (x / 2 powi ?u)) \<le> x / 2 powi ?u + 1 / 2"
    using rne_error [of "x / 2 powi ?u"] unfolding abs_le_iff by linarith
  then have "of_int (rne (x / 2 powi ?u)) * 2 powi ?u \<le> (x / 2 powi ?u + 1 / 2) * 2 powi ?u"
    by (intro mult_right_mono) simp_all
  also have "\<dots> = x + 2 powi ?u / 2" by (simp add: field_simps)
  also have "(2::real) powi ?u \<le> 2 powi (k - 53)" using u by (rule powi2_mono)
  then have "x + 2 powi ?u / 2 \<le> x + 2 powi (k - 53) / 2" by simp
  also have "(2::real) powi (k - 53) = 2 * 2 powi (k - 54)"
    using power_int_add_1 [of "2::real" "k - 54"] by (simp add: algebra_simps)
  finally show ?thesis using False by (simp add: fl_def round_bin_def)
qed

text \<open>A clock reading is a double between \<open>2 ^ 30\<close> and \<open>2 ^ 31\<close> (the years 2004 to 2038); the
  difference of two of them is exact.\<close>

definition clock :: "real \<Rightarrow> bool" where
  "clock t \<longleftrightarrow> is_double t \<and> 2 ^ 30 \<le> t \<and> t < 2 ^ 31"

lemma clock_grid:
  assumes "clock t"
  obtains m where "t = of_int m * 2 powi (-22)" and "0 \<le> m" and "m \<le> 2 ^ 53"
proof -
  have b: "2 ^ 30 \<le> t" "t < 2 ^ 31" and d: "fl t = t" using assms by (simp_all add: clock_def)
  have "expo t = 30" using b by (intro expo_eqI) (simp_all add: power_int_def)
  then have "ulp_exp 53 (-1074) t = -22" by (simp add: ulp_exp_def)
  then have t: "t = of_int (rne (t / 2 powi (-22))) * 2 powi (-22)"
    using d b unfolding fl_def round_bin_def by auto
  let ?m = "rne (t / 2 powi (-22))"
  have "of_int ?m = t * 2 ^ 22" using t by (simp add: power_int_minus field_simps)
  then have "0 \<le> real_of_int ?m" "real_of_int ?m \<le> 2 ^ 53" using b by simp_all
  then have "0 \<le> ?m" "?m \<le> 2 ^ 53" by simp_all
  with that t show thesis by blast
qed

lemma clock_diff:
  assumes "clock t" and "clock u"
  shows "fl (t - u) = t - u"
proof -
  obtain m n where t: "t = of_int m * 2 powi (-22)" "0 \<le> m" "m \<le> 2 ^ 53"
    and u: "u = of_int n * 2 powi (-22)" "0 \<le> n" "n \<le> 2 ^ 53"
    using clock_grid assms by metis
  have "t - u = of_int (m - n) * 2 powi (-22)" using t(1) u(1) by (simp add: left_diff_distrib)
  moreover have "\<bar>m - n\<bar> \<le> 2 ^ 53" using t u by linarith
  ultimately show ?thesis by (simp only: fl_def) (rule round_bin_representable, simp_all)
qed

section \<open>One step\<close>

definition limits_ok :: "int \<Rightarrow> int \<Rightarrow> int \<Rightarrow> bool" where
  \<comment> \<open>the settings of a limiter: at least one request per minute, and a burst below \<open>2 ^ k\<close>\<close>
  "limits_ok per_minute burst k \<longleftrightarrow> 1 \<le> per_minute \<and> 1 \<le> burst \<and> real_of_int burst \<le> 2 powi k \<and> 0 \<le> k \<and> k \<le> 40"

lemma refill_pos: "1 \<le> per_minute \<Longrightarrow> fl (1 / 60) \<le> fl (real_of_int per_minute / 60)"
  by (intro fl.rnd_mono) simp

lemma fl_sixtieth: "fl (1 / 60) = 4803839602528529 / 288230376151711744"
  by code_simp

lemma fl_nano: "fl (1 / 10 ^ 9) = 4835703278458517 / 4835703278458516698824704"
  by code_simp

lemma bucket_fields:
  assumes "limits_ok per_minute burst k"
  shows "tb_capacity (token_bucket_for per_minute burst) = of_int burst"
    and "0 < tb_refill (token_bucket_for per_minute burst)"
    and "tb_refill (token_bucket_for per_minute burst) = fl (of_int per_minute / 60)"
    and "of_int burst \<le> of_int (tb_idle_ttl (token_bucket_for per_minute burst)) * tb_refill (token_bucket_for per_minute burst)"
    and "1 \<le> tb_idle_ttl (token_bucket_for per_minute burst)"
proof -
  have k: "1 \<le> per_minute" "1 \<le> burst" "real_of_int burst \<le> 2 powi k" "0 \<le> k" "k \<le> 40"
    using assms by (simp_all add: limits_ok_def)
  have "(2::real) powi k \<le> 2 powi 40" using k by (intro powi2_mono) simp
  then have b40: "real_of_int burst \<le> 2 ^ 40" using k(3) by simp
  then have "real_of_int burst \<le> 2 ^ 53" by simp
  then have bd: "burst \<le> 2 ^ 53" by simp
  then have cap: "fl (of_int burst) = of_int burst" using k by (intro fl_of_int) simp
  let ?r = "fl (real_of_int per_minute / 60)"
  have r: "fl (1 / 60) \<le> ?r" using refill_pos k(1) by blast
  then have r0: "0 < ?r" "fl (1 / 10 ^ 9) \<le> ?r" using fl_sixtieth fl_nano by simp_all
  let ?q = "fl (real_of_int burst / ?r)" and ?n = "\<lfloor>fl (real_of_int burst / ?r)\<rfloor> + 1"
  have mx: "max ?r (fl (1 / 10 ^ 9)) = ?r" using r0 by simp
  have q0: "0 \<le> ?q" using k r0 by (intro fl.rnd_nonneg) simp
  have "real_of_int burst / ?r \<le> of_int ?n"
  proof (rule ccontr)
    assume "\<not> ?thesis"
    then have lt: "of_int ?n \<le> real_of_int burst / ?r" by simp
    also have "real_of_int burst / ?r \<le> 2 ^ 40 / fl (1 / 60)"
      using b40 k r fl_sixtieth by (intro frac_le) simp_all
    also have "\<dots> \<le> 2 ^ 53" by (simp add: fl_sixtieth)
    finally have "real_of_int ?n \<le> real_of_int (2 ^ 53)" using lt by simp
    then have "?n \<le> 2 ^ 53" by (simp only: of_int_le_iff)
    then have "of_int ?n = fl (of_int ?n)" using fl_of_int [of ?n] q0 by simp
    also have "\<dots> \<le> ?q" using lt by (rule fl.rnd_mono)
    also have "?q < of_int ?n" by linarith
    finally show False by simp
  qed
  then have "of_int burst \<le> of_int ?n * ?r" using r0 by (simp add: field_simps)
  moreover have "max 1 ?n = ?n" using q0 by simp
  moreover have "1 \<le> ?n" using q0 by simp
  ultimately show "tb_capacity (token_bucket_for per_minute burst) = of_int burst"
    "0 < tb_refill (token_bucket_for per_minute burst)"
    "tb_refill (token_bucket_for per_minute burst) = ?r"
    "of_int burst \<le> of_int (tb_idle_ttl (token_bucket_for per_minute burst)) * tb_refill (token_bucket_for per_minute burst)"
    "1 \<le> tb_idle_ttl (token_bucket_for per_minute burst)"
    using cap r0(1) mx unfolding token_bucket_for_def Let_def by simp_all
qed


text \<open>Refilling overstates the tokens by at most the last bits.\<close>

lemma refill_le:
  assumes cap: "tb_capacity L \<le> 2 powi k" "0 \<le> k" and r: "0 \<le> tb_refill L"
    and "0 \<le> x" and "0 \<le> d"
  shows "min (tb_capacity L) (fl (x + fl (d * tb_refill L))) \<le> x + d * tb_refill L + 2 powi (k - 53)"
proof (cases "x + d * tb_refill L < tb_capacity L")
  case True
  have pos: "0 \<le> d * tb_refill L" using r assms(5) by simp
  have lt: "d * tb_refill L < 2 powi k" "x + d * tb_refill L < 2 powi k" using True cap assms(4) by linarith+
  have p: "fl (d * tb_refill L) \<le> d * tb_refill L + 2 powi (k - 54)" using fl_le_add [OF pos lt(1) cap(2)] .
  have e: "(2::real) powi (k - 53) = 2 * 2 powi (k - 54)"
    using power_int_add_1 [of "2::real" "k - 54"] by (simp add: algebra_simps)
  show ?thesis
  proof (cases "x + fl (d * tb_refill L) < 2 powi k")
    case True
    have "0 \<le> x + fl (d * tb_refill L)" using fl.rnd_nonneg [OF pos] assms(4) by simp
    from fl_le_add [OF this True cap(2)] p e show ?thesis by linarith
  next
    case False
    then show ?thesis using cap p e by (smt (verit) powi2_pos)
  qed
next
  case False
  then show ?thesis using powi2_pos [of "k - 53"] by linarith
qed

definition sane :: "token_bucket \<Rightarrow> real \<times> real \<Rightarrow> bool" where
  "sane L s \<longleftrightarrow> 0 \<le> fst s \<and> fst s \<le> tb_capacity L \<and> clock (snd s)"

lemma step_granted:
  assumes lim: "limits_ok per_minute burst k" and L: "L = token_bucket_for per_minute burst"
    and s: "sane L (x, u)" and now: "clock now" "u \<le> now"
  shows "of_bool (bs_allowed (bucket_script L now (Some (x, u)))) + bs_tokens (bucket_script L now (Some (x, u)))
      \<le> x + tb_refill L * (now - u) + 2 powi (k - 52)"
    and "sane L (bs_tokens (bucket_script L now (Some (x, u))), bs_updated (bucket_script L now (Some (x, u))))"
    and "bs_updated (bucket_script L now (Some (x, u))) = now"
    and "of_bool (bs_allowed (bucket_script L now (Some (x, u)))) + bs_tokens (bucket_script L now (Some (x, u)))
      \<le> tb_capacity L + 2 powi (k - 52)"
proof -
  note f = bucket_fields [OF lim, folded L]
  have cap: "tb_capacity L \<le> 2 powi k" "0 \<le> k" using lim f(1) by (simp_all add: limits_ok_def)
  have el: "fl (now - u) = now - u" using s now by (simp add: sane_def clock_diff)
  have cd: "fl (tb_capacity L) = tb_capacity L"
    using L by (simp add: token_bucket_for_def Let_def)
  define y where "y = (if 0 < now - u then min (tb_capacity L) (fl (x + fl ((now - u) * tb_refill L))) else x)"
  have x: "0 \<le> x" "x \<le> tb_capacity L" using s by (simp_all add: sane_def)
  have y: "0 \<le> y" "y \<le> tb_capacity L"
    using x f(2) cap f(1) lim by (auto simp: y_def limits_ok_def intro!: fl.rnd_nonneg add_nonneg_nonneg)
  have yle: "y \<le> x + tb_refill L * (now - u) + 2 powi (k - 53)"
    using refill_le [OF cap _ x(1), of "now - u"] f(2) now powi2_pos [of "k - 53"] by (auto simp: y_def mult.commute)
  define w where "w = (2::real) powi (k - 54)"
  have w: "0 < w" "2 powi (k - 54) = w" "2 powi (k - 53) = 2 * w" "2 powi (k - 52) = 4 * w"
    using power_int_add_1 [of "2::real" "k - 53"] power_int_add_1 [of "2::real" "k - 54"]
    by (simp_all add: w_def algebra_simps)
  have b: "bucket_script L now (Some (x, u)) = (if 1 \<le> y
      then \<lparr>bs_allowed = True, bs_tokens = fl (y - 1), bs_updated = now, bs_retry = 0\<rparr>
      else \<lparr>bs_allowed = False, bs_tokens = y, bs_updated = now, bs_retry = fl (fl (1 - y) / tb_refill L)\<rparr>)"
    using now el by (auto simp: bucket_script_def Let_def y_def)
  have d: "fl (y - 1) \<le> y - 1 + 2 powi (k - 54)" if "1 \<le> y"
    using that y cap by (intro fl_le_add) linarith+
  show "of_bool (bs_allowed (bucket_script L now (Some (x, u)))) + bs_tokens (bucket_script L now (Some (x, u)))
      \<le> x + tb_refill L * (now - u) + 2 powi (k - 52)"
    unfolding b using d yle w(1) by (cases "1 \<le> y") (simp_all add: w(2-4))
  show "of_bool (bs_allowed (bucket_script L now (Some (x, u)))) + bs_tokens (bucket_script L now (Some (x, u)))
      \<le> tb_capacity L + 2 powi (k - 52)"
    unfolding b using d y(2) w(1) by (cases "1 \<le> y") (simp_all add: w(2-4))
  have "fl (y - 1) \<le> fl (tb_capacity L)" if "1 \<le> y" using y by (intro fl.rnd_mono) linarith
  then show "sane L (bs_tokens (bucket_script L now (Some (x, u))), bs_updated (bucket_script L now (Some (x, u))))"
    unfolding b using y now cd by (auto simp: sane_def intro: fl.rnd_nonneg)
  show "bs_updated (bucket_script L now (Some (x, u))) = now" unfolding b by simp
qed

text \<open>A bucket Redis has expired answers as the one it held: its idle time had filled it.\<close>

lemma expired_is_full:
  assumes lim: "limits_ok per_minute burst k" and L: "L = token_bucket_for per_minute burst"
    and s: "sane L (x, u)" and now: "clock now" "u + of_int (tb_idle_ttl L) \<le> now"
  shows "bucket_script L now (Some (x, u)) = bucket_script L now None"
proof -
  note f = bucket_fields [OF lim, folded L]
  have el: "fl (now - u) = now - u" using s now by (simp add: sane_def clock_diff)
  have d: "of_int (tb_idle_ttl L) \<le> now - u" "0 < now - u" using now f(5) by linarith+
  have "tb_capacity L \<le> (now - u) * tb_refill L"
    using f(1,4) mult_right_mono [OF d(1), of "tb_refill L"] f(2) by linarith
  then have "fl (tb_capacity L) \<le> fl ((now - u) * tb_refill L)" by (rule fl.rnd_mono)
  then have "tb_capacity L \<le> fl ((now - u) * tb_refill L)" using L by (simp add: token_bucket_for_def Let_def)
  then have "tb_capacity L \<le> x + fl ((now - u) * tb_refill L)" using s by (simp add: sane_def)
  then have "fl (tb_capacity L) \<le> fl (x + fl ((now - u) * tb_refill L))" by (rule fl.rnd_mono)
  then have m: "min (tb_capacity L) (fl (x + fl ((now - u) * tb_refill L))) = tb_capacity L"
    using L by (simp add: token_bucket_for_def Let_def)
  show ?thesis using el d m by (simp add: bucket_script_def Let_def)
qed


section \<open>A run of requests\<close>

fun checks :: "token_bucket \<Rightarrow> redis \<Rightarrow> (principal \<times> real) list \<Rightarrow> (exn + limit_decision) list \<times> redis" where
  \<comment> \<open>requests served in order by any number of gateways over one Redis that answers\<close>
  "checks L rs [] = ([], rs)"
| "checks L rs ((p, t) # reqs) =
     (case check_limit L True t rs p of (d, rs1) \<Rightarrow> (case checks L rs1 reqs of (ds, rs2) \<Rightarrow> (d # ds, rs2)))"

definition grants :: "exn + limit_decision \<Rightarrow> bool" where
  "grants d \<longleftrightarrow> (case d of Inl _ \<Rightarrow> False | Inr x \<Rightarrow> ld_allowed x)"

definition granted :: "string \<Rightarrow> (principal \<times> real) list \<Rightarrow> (exn + limit_decision) list \<Rightarrow> nat" where
  "granted K reqs ds = length (filter (\<lambda>((p, t), d). bucket_key p = K \<and> grants d) (zip reqs ds))"

definition calls :: "string \<Rightarrow> (principal \<times> real) list \<Rightarrow> nat" where
  "calls K reqs = length (filter (\<lambda>(p, t). bucket_key p = K) reqs)"

text \<open>What an entry of the limiter looks like: written at its last update, to be kept for the
  idle time from there.\<close>

definition entry_ok :: "token_bucket \<Rightarrow> real \<Rightarrow> (redis_value \<times> real) option \<Rightarrow> bool" where
  "entry_ok L now e \<longleftrightarrow>
     (case e of None \<Rightarrow> True
      | Some (Bucket x u, expires) \<Rightarrow> sane L (x, u) \<and> u \<le> now \<and> expires = u + of_int (tb_idle_ttl L)
      | Some (Stored _, _) \<Rightarrow> False)"

definition held :: "token_bucket \<Rightarrow> real \<Rightarrow> (redis_value \<times> real) option \<Rightarrow> real \<times> real" where
  \<comment> \<open>the bucket an entry stands for\<close>
  "held L now e = (case e of Some (Bucket x u, _) \<Rightarrow> (x, u) | _ \<Rightarrow> (tb_capacity L, now))"

lemma script_full: "0 \<le> tb_capacity L \<Longrightarrow> bucket_script L now (Some (tb_capacity L, now)) = bucket_script L now None"
  by (simp add: bucket_script_def)

lemma check_step:
  assumes lim: "limits_ok per_minute burst k" and L: "L = token_bucket_for per_minute burst"
    and e: "entry_ok L now (rs (bucket_key p))" and now: "clock now"
  shows "sane L (held L now (rs (bucket_key p)))" and "snd (held L now (rs (bucket_key p))) \<le> now"
    and "\<exists>b. b = bucket_script L now (Some (held L now (rs (bucket_key p))))
      \<and> grants (fst (check_limit L True now rs p)) = bs_allowed b
      \<and> snd (check_limit L True now rs p) = rs(bucket_key p \<mapsto> (Bucket (bs_tokens b) (bs_updated b), now + of_int (tb_idle_ttl L)))"
proof -
  note f = bucket_fields [OF lim, folded L]
  have cap: "0 \<le> tb_capacity L" using f(1) lim by (simp add: limits_ok_def)
  show "sane L (held L now (rs (bucket_key p)))" "snd (held L now (rs (bucket_key p))) \<le> now"
    using e now cap
    by (auto simp: entry_ok_def held_def sane_def split: option.splits redis_value.splits prod.splits)
  show "\<exists>b. b = bucket_script L now (Some (held L now (rs (bucket_key p))))
      \<and> grants (fst (check_limit L True now rs p)) = bs_allowed b
      \<and> snd (check_limit L True now rs p) = rs(bucket_key p \<mapsto> (Bucket (bs_tokens b) (bs_updated b), now + of_int (tb_idle_ttl L)))"
    using e script_full [OF cap] expired_is_full [OF lim L _ now]
    by (auto simp: entry_ok_def held_def check_limit_def redis_read_def grants_def Let_def
        split: option.splits redis_value.splits prod.splits)
qed

lemma check_other: "bucket_key p \<noteq> K \<Longrightarrow> snd (check_limit L up now rs p) K = rs K"
  by (auto simp: check_limit_def Let_def split: option.split redis_value.split)

lemma granted_Cons:
  "granted K ((p, t) # reqs) (d # ds) = (if bucket_key p = K \<and> grants d then 1 else 0) + granted K reqs ds"
  by (simp add: granted_def)

lemma calls_Cons: "calls K ((p, t) # reqs) = (if bucket_key p = K then 1 else 0) + calls K reqs"
  by (simp add: calls_def)

lemma checks_Cons:
  "fst (checks L rs ((p, t) # reqs)) =
     fst (check_limit L True t rs p) # fst (checks L (snd (check_limit L True t rs p)) reqs)"
  "snd (checks L rs ((p, t) # reqs)) = snd (checks L (snd (check_limit L True t rs p)) reqs)"
  by (simp_all split: prod.split)

declare checks.simps(2) [simp del]

lemma entry_later: "entry_ok L t e \<Longrightarrow> t \<le> t' \<Longrightarrow> entry_ok L t' e"
  by (auto simp: entry_ok_def split: option.splits redis_value.splits)

lemma held_later:
  assumes "entry_ok L t e" and "t \<le> t'" and "0 \<le> r"
  shows "fst (held L t' e) - r * snd (held L t' e) \<le> fst (held L t e) - r * snd (held L t e)"
  using assms by (auto simp: held_def entry_ok_def mult_left_mono split: option.splits redis_value.splits prod.splits)

text \<open>One check by the bucket's own caller, as the run sees it.\<close>

lemma check_own:
  assumes lim: "limits_ok per_minute burst k" and L: "L = token_bucket_for per_minute burst"
    and e: "entry_ok L t (rs (bucket_key p))" and now: "clock t"
  shows "entry_ok L t (snd (check_limit L True t rs p) (bucket_key p))"
    and "\<exists>y. held L t (snd (check_limit L True t rs p) (bucket_key p)) = (y, t)
      \<and> of_bool (grants (fst (check_limit L True t rs p))) + y
        \<le> fst (held L t (rs (bucket_key p))) + tb_refill L * (t - snd (held L t (rs (bucket_key p)))) + 2 powi (k - 52)
      \<and> of_bool (grants (fst (check_limit L True t rs p))) + y \<le> tb_capacity L + 2 powi (k - 52)"
proof -
  obtain x u where h: "held L t (rs (bucket_key p)) = (x, u)" by fastforce
  note c = check_step [where rs = rs and p = p, OF lim L e now]
  let ?b = "bucket_script L t (Some (x, u))"
  from c h have s: "sane L (x, u)" "u \<le> t" by simp_all
  note g = step_granted [OF lim L s(1) now s(2)]
  have st: "grants (fst (check_limit L True t rs p)) = bs_allowed ?b"
    "snd (check_limit L True t rs p) (bucket_key p) = Some (Bucket (bs_tokens ?b) (bs_updated ?b), t + of_int (tb_idle_ttl L))"
    using c(3) h by auto
  show "entry_ok L t (snd (check_limit L True t rs p) (bucket_key p))"
    using g(2,3) st(2) by (simp add: entry_ok_def)
  show "\<exists>y. held L t (snd (check_limit L True t rs p) (bucket_key p)) = (y, t)
      \<and> of_bool (grants (fst (check_limit L True t rs p))) + y
        \<le> fst (held L t (rs (bucket_key p))) + tb_refill L * (t - snd (held L t (rs (bucket_key p)))) + 2 powi (k - 52)
      \<and> of_bool (grants (fst (check_limit L True t rs p))) + y \<le> tb_capacity L + 2 powi (k - 52)"
    unfolding st h using g(1,3,4) by (simp add: held_def)
qed

lemma checks_bound:
  assumes lim: "limits_ok per_minute burst k" and L: "L = token_bucket_for per_minute burst"
  shows "entry_ok L t (rs K) \<Longrightarrow> \<forall>q \<in> set reqs. clock (snd q) \<and> snd q \<le> T \<Longrightarrow> sorted (t # map snd reqs) \<Longrightarrow> t \<le> T
    \<Longrightarrow> real (granted K reqs (fst (checks L rs reqs)))
      \<le> fst (held L t (rs K)) + tb_refill L * (T - snd (held L t (rs K))) + real (calls K reqs) * 2 powi (k - 52)"
proof (induction reqs arbitrary: rs t)
  case Nil
  have "0 \<le> tb_capacity L" "0 \<le> tb_refill L"
    using bucket_fields [OF lim, folded L] lim by (auto simp: limits_ok_def)
  then have "0 \<le> fst (held L t (rs K))" "0 \<le> tb_refill L * (T - snd (held L t (rs K)))"
    using Nil by (auto simp: entry_ok_def held_def sane_def split: option.splits redis_value.splits prod.splits)
  then show ?case by (simp add: granted_def calls_def)
next
  case (Cons a reqs)
  obtain p t' where a: "a = (p, t')" by fastforce
  have t': "t \<le> t'" "t' \<le> T" "clock t'" and srt: "sorted (t' # map snd reqs)"
    using Cons.prems by (auto simp: a)
  have r: "0 \<le> tb_refill L" using bucket_fields(2) [OF lim, folded L] by simp
  let ?rs = "snd (check_limit L True t' rs p)"
  note e = entry_later [OF Cons.prems(1) t'(1)]
  have later: "fst (held L t' (rs K)) + tb_refill L * (T - snd (held L t' (rs K)))
      \<le> fst (held L t (rs K)) + tb_refill L * (T - snd (held L t (rs K)))"
    using held_later [OF Cons.prems(1) t'(1) r] by (simp add: right_diff_distrib)
  have IH: "real (granted K reqs (fst (checks L ?rs reqs)))
      \<le> fst (held L t' (?rs K)) + tb_refill L * (T - snd (held L t' (?rs K))) + real (calls K reqs) * 2 powi (k - 52)"
    if "entry_ok L t' (?rs K)"
    using Cons.IH [where rs = ?rs and t = t', OF that _ srt t'(2)] Cons.prems(2) by simp
  show ?case
  proof (cases "bucket_key p = K")
    case True
    obtain y where y: "held L t' (?rs K) = (y, t')" "entry_ok L t' (?rs K)"
      "of_bool (grants (fst (check_limit L True t' rs p))) + y
        \<le> fst (held L t' (rs K)) + tb_refill L * (t' - snd (held L t' (rs K))) + 2 powi (k - 52)"
      using check_own [where rs = rs and p = p and t = t', OF lim L _ t'(3)] e True by blast
    have "tb_refill L * (t' - snd (held L t' (rs K))) + tb_refill L * (T - t') = tb_refill L * (T - snd (held L t' (rs K)))"
      by (simp add: algebra_simps)
    with y IH later show ?thesis
      by (simp add: a checks_Cons granted_Cons calls_Cons True distrib_right of_bool_def split: if_splits)
  next
    case False
    then have "?rs K = rs K" by (rule check_other)
    with IH e later False show ?thesis by (simp add: a checks_Cons granted_Cons calls_Cons)
  qed
qed

lemma window_bound:
  assumes lim: "limits_ok per_minute burst k" and L: "L = token_bucket_for per_minute burst"
  shows "entry_ok L t (rs K) \<Longrightarrow> \<forall>q \<in> set reqs. clock (snd q) \<and> snd q \<le> T \<Longrightarrow> sorted (t # map snd reqs) \<Longrightarrow> t \<le> T
    \<Longrightarrow> real (granted K reqs (fst (checks L rs reqs)))
      \<le> tb_capacity L + tb_refill L * (T - t) + real (calls K reqs) * 2 powi (k - 52)"
proof (induction reqs arbitrary: rs t)
  case Nil
  have "0 \<le> tb_capacity L" "0 \<le> tb_refill L"
    using bucket_fields [OF lim, folded L] lim by (auto simp: limits_ok_def)
  with Nil show ?case by (simp add: granted_def calls_def)
next
  case (Cons a reqs)
  obtain p t' where a: "a = (p, t')" by fastforce
  have t': "t \<le> t'" "t' \<le> T" "clock t'" and srt: "sorted (t' # map snd reqs)"
    using Cons.prems by (auto simp: a)
  have r: "0 \<le> tb_refill L" using bucket_fields(2) [OF lim, folded L] by simp
  have le: "tb_refill L * (T - t') \<le> tb_refill L * (T - t)" using r t'(1) by (intro mult_left_mono) simp_all
  let ?rs = "snd (check_limit L True t' rs p)"
  note e = entry_later [OF Cons.prems(1) t'(1)]
  show ?case
  proof (cases "bucket_key p = K")
    case True
    obtain y where y: "held L t' (?rs K) = (y, t')" "entry_ok L t' (?rs K)"
      "of_bool (grants (fst (check_limit L True t' rs p))) + y \<le> tb_capacity L + 2 powi (k - 52)"
      using check_own [where rs = rs and p = p and t = t', OF lim L _ t'(3)] e True by blast
    have "real (granted K reqs (fst (checks L ?rs reqs)))
        \<le> y + tb_refill L * (T - t') + real (calls K reqs) * 2 powi (k - 52)"
      using checks_bound [where rs = ?rs and t = t' and K = K, OF lim L y(2) _ srt t'(2)] Cons.prems(2) y(1) by simp
    with y(3) le show ?thesis
      by (simp add: a checks_Cons granted_Cons calls_Cons True distrib_right of_bool_def split: if_splits)
  next
    case False
    then have "?rs K = rs K" by (rule check_other)
    with Cons.IH [of t' ?rs] e srt t'(2) Cons.prems(2) le False show ?thesis
      by (simp add: a checks_Cons granted_Cons calls_Cons)
  qed
qed

lemma checks_entries:
  assumes lim: "limits_ok per_minute burst k" and L: "L = token_bucket_for per_minute burst"
  shows "entry_ok L t (rs K) \<Longrightarrow> \<forall>q \<in> set reqs. clock (snd q) \<and> snd q \<le> T \<Longrightarrow> sorted (t # map snd reqs) \<Longrightarrow> t \<le> T
    \<Longrightarrow> entry_ok L T (snd (checks L rs reqs) K)"
proof (induction reqs arbitrary: rs t)
  case (Cons a reqs)
  obtain p t' where a: "a = (p, t')" by fastforce
  have t': "t \<le> t'" "t' \<le> T" "clock t'" and srt: "sorted (t' # map snd reqs)"
    using Cons.prems by (auto simp: a)
  note e = entry_later [OF Cons.prems(1) t'(1)]
  have "entry_ok L t' (snd (check_limit L True t' rs p) K)"
    using check_own(1) [where rs = rs and p = p and t = t', OF lim L _ t'(3)] e check_other [of p K] by metis
  with Cons.IH srt t' Cons.prems(2) show ?case by (simp add: a checks_Cons)
qed (auto intro: entry_later)

section \<open>Properties\<close>

text \<open>C15. The limiter limits: in any window of time, whatever was served before it and whoever else
  is served in between, one bucket grants at most the burst, the refill of the window and a slack of
  the last bits of each call. Redis may expire the bucket when its idle time is over; that grants
  nothing extra.\<close>

theorem bucket_never_overspends:
  assumes "limits_ok per_minute burst k"
    and "checks (token_bucket_for per_minute burst) (\<lambda>_. None) past = (ds, rs)"
    and "sorted (map snd (past @ window))" and "\<forall>q \<in> set (past @ window). clock (snd q)"
    and "\<forall>q \<in> set past. snd q \<le> t0" and "\<forall>q \<in> set window. t0 \<le> snd q \<and> snd q \<le> T" and "t0 \<le> T"
  shows "real (granted K window (fst (checks (token_bucket_for per_minute burst) rs window)))
    \<le> of_int burst + fl (of_int per_minute / 60) * (T - t0) + real (calls K window) * 2 powi (k - 52)"
proof -
  let ?L = "token_bucket_for per_minute burst"
  let ?s = "if past = [] then t0 else snd (hd past)"
  have srt: "sorted (?s # map snd past)" "sorted (t0 # map snd window)"
    using assms(3,6) by (cases past; auto simp: sorted_append)+
  have s: "?s \<le> t0" using assms(5) by (auto intro: hd_in_set)
  have "entry_ok ?L t0 (snd (checks ?L (\<lambda>_. None) past) K)"
    by (rule checks_entries [OF assms(1) refl _ _ srt(1) s]) (use assms(4,5) in \<open>auto simp: entry_ok_def\<close>)
  then have "entry_ok ?L t0 (rs K)" using assms(2) by simp
  from window_bound [where K = K and rs = rs, OF assms(1) refl this _ srt(2) assms(7)] assms(4,6) show ?thesis
    by (simp add: bucket_fields(1,3) [OF assms(1)])
qed

definition caller :: "nat \<Rightarrow> principal" where
  "caller n = \<lparr>pn_tenant = ''acme'', pn_key_id = str_nat n, pn_scopes = []\<rparr>"

theorem bucket_never_overspends_witness:
  "granted (bucket_key (caller 1)) [(caller 1, 2 ^ 30), (caller 2, 2 ^ 30), (caller 1, 2 ^ 30), (caller 1, 2 ^ 30)]
     (fst (checks (token_bucket_for 1 2) (\<lambda>_. None)
       [(caller 1, 2 ^ 30), (caller 2, 2 ^ 30), (caller 1, 2 ^ 30), (caller 1, 2 ^ 30)])) = 2
   \<and> (2::real) \<le> of_int 2 + fl (of_int 1 / 60) * (2 ^ 30 - 2 ^ 30)
     + real (calls (bucket_key (caller 1)) [(caller 1, 2 ^ 30), (caller 2, 2 ^ 30), (caller 1, 2 ^ 30), (caller 1, 2 ^ 30)])
       * 2 powi (1 - 52)"
proof -
  have c: "clock (2 ^ 30)" unfolding clock_def using fl_of_int [of "2 ^ 30"] by simp
  have l: "limits_ok 1 2 1" by (simp add: limits_ok_def)
  have g: "granted (bucket_key (caller 1)) [(caller 1, 2 ^ 30), (caller 2, 2 ^ 30), (caller 1, 2 ^ 30), (caller 1, 2 ^ 30)]
     (fst (checks (token_bucket_for 1 2) (\<lambda>_. None)
       [(caller 1, 2 ^ 30), (caller 2, 2 ^ 30), (caller 1, 2 ^ 30), (caller 1, 2 ^ 30)])) = 2"
    by code_simp
  from bucket_never_overspends [where K = "bucket_key (caller 1)" and ?t0.0 = "2 ^ 30" and T = "2 ^ 30"
      and window = "[(caller 1, 2 ^ 30), (caller 2, 2 ^ 30), (caller 1, 2 ^ 30), (caller 1, 2 ^ 30)]", OF l checks.simps(1)] g c
  show ?thesis by simp
qed

end
