(* ===== verification/GatewayLaws.thy ===== *)
theory GatewayLaws
  imports Gateway PipelineDemo ThrottleLaws
begin

text \<open>
  What the gateway promises whatever a request holds: without a valid credential nothing happens,
  with one only that tenant's rows, jobs and keys change, and a write repeated under its idempotency
  key is answered as before and done once.
\<close>

section \<open>Governing stays inside the tenant\<close>

definition stays_in :: "string \<Rightarrow> db \<times> neo_graph \<Rightarrow> db \<times> neo_graph \<Rightarrow> bool" where
  \<comment> \<open>the graph is untouched, the tables change as one tenant may change them, and stay sound\<close>
  "stays_in t s s' \<longleftrightarrow> snd s' = snd s \<and> tenant_step t (fst s) (fst s') \<and> (sound (fst s) \<longrightarrow> sound (fst s'))"

lemma stays_in_refl [simp]: "stays_in t s s"
  by (simp add: stays_in_def)

lemma stays_in_trans: "stays_in t s s' \<Longrightarrow> stays_in t s' s'' \<Longrightarrow> stays_in t s s''"
  unfolding stays_in_def using tenant_step_trans by auto

lemma resolve_stays:
  "tenant_step t db (snd (resolve free s t ns ty db)) \<and> (sound db \<longrightarrow> sound (snd (resolve free s t ns ty db)))"
proof -
  let ?body = "\<lambda>d i. bindE (insert_entity t d \<lparr>en_id = i, en_tenant = t, en_type = ty,
      en_name = (if s = [] then i else s)\<rparr>) (\<lambda>db'. Inr ((), db'))"
  have e: "snd (ensure_entity free i t ty s db) = snd (transaction free (\<lambda>d. ?body d i) db)" for i
    by (simp add: ensure_entity_def split: prod.split sum.split exn.split)
  have tr: "tenant_step t db (snd (transaction free (\<lambda>d. ?body d i) db))
      \<and> (sound db \<longrightarrow> sound (snd (transaction free (\<lambda>d. ?body d i) db)))" for i
    by (rule transaction_step) (auto elim!: bindE_InrE dest: insert_entity_step)
  have "tenant_step t db (snd (ensure_entity free i t ty s db)) \<and> (sound db \<longrightarrow> sound (snd (ensure_entity free i t ty s db)))" for i
    unfolding e by (rule tr)
  moreover have "snd (resolve free s t ns ty db) \<in> {db, snd (ensure_entity free (derive_entity_id t ns) t ty s db)}"
    by (auto simp: resolve_def Let_def split: option.split prod.split sum.split)
  ultimately show ?thesis by auto
qed

locale tenant_bound =
  fixes D :: "(db \<times> neo_graph) deps"
  assumes resolve_stays_in: "stays_in t s (snd (dp_resolve D s name t ns ty))"
begin

lemma score_stays_in: "stays_in (pp_tenant p) s (snd (score_candidate D s v samples p))"
  using resolve_stays_in [of "pp_tenant p" s]
  by (auto simp: score_candidate_def decide_one_def split: option.split sum.split prod.split)
    (metis snd_conv)+

lemma score_all_stays_in: "stays_in (pp_tenant p) s (snd (score_all D samples p s vs))"
proof (induction vs arbitrary: s)
  case (Cons v vs)
  show ?case using stays_in_trans [OF score_stays_in Cons.IH] by (simp add: split_beta)
qed simp

lemma run_stays_in: "stays_in (pp_tenant p) s (snd (run T D p s))"
proof (cases "extract_proposal T D p")
  case (Inr y)
  obtain noise kept x where y: "y = (noise, kept, x)" by (cases y) auto
  from score_all_stays_in [where s = s and p = p and samples = "x_samples x"
      and vs = "gr_admitted (gate (x_candidates x) (dp_ontology D))"]
  show ?thesis by (simp add: run_def Inr y Let_def split_beta)
qed (simp add: run_def)

lemma run_raises: "run T D p s = (Inl e, s') \<Longrightarrow> s' = s"
  by (auto simp: run_def Let_def split: sum.splits prod.splits)

lemma govern_stays_in: "stays_in (pp_tenant p) s (snd (govern T D env p s))"
proof -
  obtain r db g where r: "run T D p s = (r, (db, g))" by (cases "run T D p s") auto
  have run: "stays_in (pp_tenant p) s (db, g)" using run_stays_in [of p s T] r by simp
  show ?thesis
  proof (cases r)
    case (Inr y)
    obtain res fails where y: "y = (res, fails)" by (cases y)
    let ?a = "apply_all \<lparr>st_embed = dp_embed D, st_tenant = pp_tenant p\<rparr> (pp_tenant p) (pr_trace res)
        (map (\<lambda>gv. (gv, env gv)) (pr_governed res)) db"
    have "stays_in (pp_tenant p) (db, g) (snd ?a, g)"
      unfolding stays_in_def apply_all_def using apply_loop_step by simp
    with run r Inr y show ?thesis by (auto simp: govern_def split: prod.split elim: stays_in_trans)
  qed (use run r in \<open>simp add: govern_def\<close>)
qed

end

interpretation built: tenant_bound "build_deps B t' onto thr pv" for B t' onto thr pv
proof (unfold_locales, goal_cases)
  case (1 t s name ns ty)
  show ?case using resolve_stays by (cases s) (simp add: stays_in_def)
qed

lemma on_empty_graph_fields [simp]:
  "dp_resolve (on_empty_graph ops D) = dp_resolve D"
  by (simp add: on_empty_graph_def)

interpretation gateway: tenant_bound "gateway_deps G t'" for G t'
  by unfold_locales (simp add: gateway_deps_def built.resolve_stays_in)

section \<open>Through the middlewares\<close>

definition finish :: "'g gateway \<Rightarrow> http_request \<Rightarrow> (exn + http_response) \<times> gw \<Rightarrow> (int \<times> json) \<times> gw" where
  \<comment> \<open>status and body, the headers aside\<close>
  "finish G req out =
     (case out of (Inr r, w) \<Rightarrow> ((ht_status r, ht_body r), w) | (Inl e, w) \<Rightarrow> ((500, gt_framework G 500 req), w))"

lemma finish_add_header [simp]: "finish G req (add_header name v out) = finish G req out"
  by (auto simp: finish_def add_header_def split: prod.split sum.split)

lemma finish_add_headers [simp]: "finish G req (foldr (\<lambda>(name, v) out. add_header name v out) hs out) = finish G req out"
  by (induction hs) auto

lemma serve_finish:
  "((ht_status (fst (serve G m req w)), ht_body (fst (serve G m req w))), snd (serve G m req w)) =
     finish G req (chain G m (route_app G m) req fresh_state w)"
  by (auto simp: serve_def finish_def framework_def split: prod.split sum.split)

lemma authorized_cases: "authorized G req = Inl e \<Longrightarrow> e = InvalidCredential"
  by (auto simp: authorized_def credential_from_def principal_for_def Let_def bindE_Inl_iff split: option.splits if_splits)

definition checked :: "'g gateway \<Rightarrow> moment \<Rightarrow> principal \<Rightarrow> gw \<Rightarrow> (exn + limit_decision) \<times> gw" where
  \<comment> \<open>the limiter's part of a request\<close>
  "checked G m p w =
     (case check_limit (token_bucket_for (gt_per_minute G) (gt_burst G)) (mo_limiter_up m) (mo_now m) (gw_redis w) p of
        (d, rs) \<Rightarrow> (d, w\<lparr>gw_redis := rs\<rparr>))"

definition turned_away :: "exn + limit_decision \<Rightarrow> bool" where
  "turned_away d \<longleftrightarrow> (case d of Inl _ \<Rightarrow> False | Inr x \<Rightarrow> \<not> ld_allowed x)"

lemma serve_authorized:
  assumes "is_http req" and "rq_path req \<notin> set UNAUTHENTICATED" and "authorized G req = Inr p"
  obtains st where "as_principal st = Some p" and "as_deadline st \<noteq> None"
    and "as_collects st = (rq_method req \<notin> set BODYLESS)"
    and "((ht_status (fst (serve G m req w)), ht_body (fst (serve G m req w))), snd (serve G m req w)) =
      (if turned_away (fst (checked G m p w))
       then ((429, JObj [(''detail'', JStr ''rate limit exceeded'')]), snd (checked G m p w))
       else finish G req (route_app G m req st (snd (checked G m p w))))"
proof -
  let ?d = "deadline_after (gt_deadline_s G) (mo_arrival m)"
  let ?rid = "(let supplied = (case header_of ''x-request-id'' req of None \<Rightarrow> [] | Some v \<Rightarrow> strip v)
    in if supplied \<noteq> [] then take MAX_ID supplied else mo_request_uuid m)"
  let ?st = "\<lparr>as_request_id = Some ?rid, as_principal = Some p, as_tenant = Some (pn_tenant p), as_deadline = Some ?d,
    as_collects = (rq_method req \<notin> set BODYLESS)\<rparr>"
  show thesis
  proof (rule that [of ?st])
    show "((ht_status (fst (serve G m req w)), ht_body (fst (serve G m req w))), snd (serve G m req w)) =
      (if turned_away (fst (checked G m p w))
       then ((429, JObj [(''detail'', JStr ''rate limit exceeded'')]), snd (checked G m p w))
       else finish G req (route_app G m req ?st (snd (checked G m p w))))"
      unfolding serve_finish using assms
      by (simp add: chain_def request_deadline_def request_id_def authenticate_def tenancy_def rate_limit_def
          body_hash_def UNBUDGETED_def fresh_state_def Let_def checked_def turned_away_def
          split: prod.split sum.split)
        (simp add: finish_def send_json_def)
  qed simp_all
qed

lemma serve_unauthorized:
  assumes "is_http req" and "rq_path req \<notin> set UNAUTHENTICATED" and "authorized G req = Inl e"
  shows "((ht_status (fst (serve G m req w)), ht_body (fst (serve G m req w))), snd (serve G m req w)) =
    ((401, UNAUTHORIZED), w)"
  unfolding serve_finish using assms authorized_cases [OF assms(3)]
  by (simp add: chain_def request_deadline_def request_id_def authenticate_def UNBUDGETED_def Let_def)
    (simp add: finish_def send_json_def)

section \<open>What a request may touch\<close>

definition touches :: "principal \<Rightarrow> gw \<Rightarrow> gw \<Rightarrow> bool" where
  \<comment> \<open>the tenant's own rows, at most one job of the tenant, and the caller's own keys\<close>
  "touches p w w' \<longleftrightarrow>
     stays_in (pn_tenant p) (gw_store w) (gw_store w') \<and>
     (\<exists>js. gw_queue w' = gw_queue w @ js \<and> length js \<le> 1 \<and> (\<forall>j \<in> set js. jb_tenant j = pn_tenant p)) \<and>
     (\<forall>key. gw_redis w' key \<noteq> gw_redis w key \<longrightarrow> key = bucket_key p \<or> (\<exists>k h. key = idem_key p k h))"

lemma touches_refl [simp]: "touches p w w"
  by (simp add: touches_def)

lemma keep_answer_effect:
  "gw_store (snd (keep_answer G m p idem a w)) = gw_store w"
  "gw_queue (snd (keep_answer G m p idem a w)) = gw_queue w"
  "gw_redis (snd (keep_answer G m p idem a w)) key \<noteq> gw_redis w key \<Longrightarrow> \<exists>k h. idem = Some (k, h) \<and> key = idem_key p k h"
  by (auto simp: keep_answer_def idem_put_def split: option.splits sum.splits if_splits)

lemma strict_effect:
  "gw_queue (snd (strict G m p trace b w)) = gw_queue w"
  "gw_redis (snd (strict G m p trace b w)) = gw_redis w"
  "stays_in (pn_tenant p) (gw_store w) (gw_store (snd (strict G m p trace b w)))"
proof -
  let ?p = "\<lparr>pp_trace = trace, pp_tenant = pn_tenant p, pp_namespace = pq_namespace b,
    pp_turns = map to_turn (pq_turns b), pp_tier = pq_tier b, pp_k = 1, pp_model_tier = FAST, pp_subject_hint = None\<rparr>"
  show "gw_queue (snd (strict G m p trace b w)) = gw_queue w"
    "gw_redis (snd (strict G m p trace b w)) = gw_redis w"
    by (auto simp: strict_def split: prod.split sum.split)
  from gateway.govern_stays_in [where p = ?p and s = "gw_store w" and G = G and t' = "pn_tenant p" and T = "gt_text G" and env = "mo_calls m"]
  show "stays_in (pn_tenant p) (gw_store w) (gw_store (snd (strict G m p trace b w)))"
    by (cases "govern (gt_text G) (gateway_deps G (pn_tenant p)) (mo_calls m) ?p (gw_store w)")
      (auto simp: strict_def split: sum.split)
qed

lemma perform_touches: "touches p w (snd (perform G m p idem b h w))"
proof (cases "pq_mode b = STRICT")
  case True
  obtain r w1 where s: "strict G m p (trace_for m) b w = (r, w1)" by fastforce
  have w1: "gw_queue w1 = gw_queue w" "gw_redis w1 = gw_redis w" "stays_in (pn_tenant p) (gw_store w) (gw_store w1)"
    using strict_effect [where G = G and m = m and p = p and trace = "trace_for m" and b = b and w = w] s by simp_all
  then have t1: "touches p w w1" by (simp add: touches_def)
  show ?thesis
  proof (cases r)
    case (Inr x)
    show ?thesis
    proof (cases x)
      case (Inr a)
      have e: "snd (perform G m p idem b h w) = snd (keep_answer G m p idem a w1)"
        by (simp add: perform_def True s \<open>r = Inr x\<close> Inr)
      note k = keep_answer_effect [where G = G and m = m and p = p and idem = idem and a = a and w = w1]
      have "\<exists>k h. key = idem_key p k h" if "gw_redis (snd (keep_answer G m p idem a w1)) key \<noteq> gw_redis w key" for key
        using k(3) [of key] that w1(2) by auto
      then show ?thesis unfolding e touches_def k(1,2) w1(1) using w1(3) by auto
    qed (use s t1 True \<open>r = Inr x\<close> in \<open>simp add: perform_def\<close>)
  qed (use s t1 True in \<open>simp add: perform_def\<close>)
next
  case False
  show ?thesis
  proof (cases "enqueue G m (pn_tenant p) (trace_for m) b h w")
    case (Inr w1)
    obtain js where w1: "w1 = w\<lparr>gw_queue := gw_queue w @ js\<rparr>" "length js \<le> 1" "\<forall>j \<in> set js. jb_tenant j = pn_tenant p"
      using Inr by (auto simp: enqueue_def enqueue_job_def bindE_Inr_iff split: if_splits
          intro: that [of "[]"])
    let ?a = "Accepted (trace_for m) h"
    have e: "snd (perform G m p idem b h w) = snd (keep_answer G m p idem ?a w1)"
      using False by (simp add: perform_def Inr)
    have "gw_queue (snd (keep_answer G m p idem ?a w1)) = gw_queue w @ js"
      "gw_store (snd (keep_answer G m p idem ?a w1)) = gw_store w"
      using keep_answer_effect [where G = G and m = m and p = p and idem = idem and a = "?a" and w = w1] w1 by simp_all
    moreover have "\<exists>k h. key = idem_key p k h" if "gw_redis (snd (keep_answer G m p idem ?a w1)) key \<noteq> gw_redis w key" for key
      using keep_answer_effect(3) [where G = G and m = m and p = p and idem = idem and a = "?a" and w = w1 and key = key] that w1 by auto
    ultimately show ?thesis unfolding e touches_def using w1 by auto
  qed (use False in \<open>simp add: perform_def\<close>)
qed

lemma search_route_state [simp]: "snd (search_route G m req st w) = w"
  by (auto simp: search_route_def Let_def split: option.split sum.split prod.split)

lemma propose_route_cases:
  assumes "as_principal st = Some p"
  shows "snd (propose_route G m req st w) = w
    \<or> (permits p WRITE_SCOPE \<and> (\<exists>idem b h. propose_route G m req st w = perform G m p idem b h w))"
proof (cases "gt_decode G req")
  case (Some b)
  let ?k = "header_of ''idempotency-key'' req" and ?h = "body_hash_of req st"
  show ?thesis
  proof (cases "propose_ok b \<and> idempotency_ok ?k \<and> permits p WRITE_SCOPE")
    case True
    show ?thesis
    proof (cases "?k = None \<or> ?h = None")
      case True
      then have "propose_route G m req st w = perform G m p None b ?h w"
        using assms Some \<open>propose_ok b \<and> _\<close> by (auto simp: propose_route_def Let_def split: option.split)
      with \<open>propose_ok b \<and> _\<close> show ?thesis by blast
    next
      case False
      then obtain k bh where kb: "?k = Some k" "?h = Some bh" by auto
      show ?thesis
        using assms Some True kb
        by (cases "idem_get (gt_loads G) (mo_idem_get_up m) (mo_now m) (gw_redis w) p k bh")
          (auto simp: propose_route_def split: option.split)
    qed
  qed (use assms Some in \<open>auto simp: propose_route_def Let_def\<close>)
qed (use assms in \<open>simp add: propose_route_def\<close>)

lemma route_touches:
  assumes "as_principal st = Some p"
  shows "touches p w (snd (route_app G m req st w))"
    and "\<not> permits p WRITE_SCOPE \<Longrightarrow> snd (route_app G m req st w) = w"
proof -
  have r: "snd (route_app G m req st w) = w \<or> snd (route_app G m req st w) = snd (propose_route G m req st w)"
    by (simp add: route_app_def Let_def)
  from r propose_route_cases [OF assms, of G m req w] show "touches p w (snd (route_app G m req st w))"
    by (auto intro: perform_touches)
  from r propose_route_cases [OF assms, of G m req w]
  show "\<not> permits p WRITE_SCOPE \<Longrightarrow> snd (route_app G m req st w) = w" by auto
qed

lemma checked_effect:
  "gw_store (snd (checked G m p w)) = gw_store w" "gw_queue (snd (checked G m p w)) = gw_queue w"
  "key \<noteq> bucket_key p \<Longrightarrow> gw_redis (snd (checked G m p w)) key = gw_redis w key"
  using check_other [of p key "token_bucket_for (gt_per_minute G) (gt_burst G)" "mo_limiter_up m" "mo_now m" "gw_redis w"]
  by (auto simp: checked_def split: prod.split)

lemma finish_state [simp]: "snd (finish G req out) = snd out"
  by (auto simp: finish_def split: prod.split sum.split)

lemma serve_touches:
  assumes "is_http req" and "rq_path req \<notin> set UNAUTHENTICATED" and "authorized G req = Inr p"
  shows "touches p w (snd (serve G m req w))"
    and "\<not> permits p WRITE_SCOPE \<Longrightarrow> gw_store (snd (serve G m req w)) = gw_store w \<and>
      gw_queue (snd (serve G m req w)) = gw_queue w \<and>
      (\<forall>key. key \<noteq> bucket_key p \<longrightarrow> gw_redis (snd (serve G m req w)) key = gw_redis w key)"
proof -
  obtain st where st: "as_principal st = Some p" and
    s: "((ht_status (fst (serve G m req w)), ht_body (fst (serve G m req w))), snd (serve G m req w)) =
      (if turned_away (fst (checked G m p w))
       then ((429, JObj [(''detail'', JStr ''rate limit exceeded'')]), snd (checked G m p w))
       else finish G req (route_app G m req st (snd (checked G m p w))))"
    by (rule serve_authorized [OF assms])
  let ?c = "snd (checked G m p w)"
  have w': "snd (serve G m req w) \<in> {?c, snd (route_app G m req st ?c)}"
    using arg_cong [OF s, of snd] by (simp split: if_splits)
  note c = checked_effect [where G = G and m = m and p = p and w = w]
  have c1: "touches p w ?c" unfolding touches_def using c by auto
  have "touches p w (snd (route_app G m req st ?c))"
    using route_touches(1) [OF st, where w = ?c and G = G and m = m and req = req] c(3) unfolding touches_def c(1,2) by metis
  with c1 w' show "touches p w (snd (serve G m req w))" by auto
  assume "\<not> permits p WRITE_SCOPE"
  then have "snd (route_app G m req st ?c) = ?c" by (rule route_touches(2) [OF st])
  with w' c show "gw_store (snd (serve G m req w)) = gw_store w \<and> gw_queue (snd (serve G m req w)) = gw_queue w \<and>
      (\<forall>key. key \<noteq> bucket_key p \<longrightarrow> gw_redis (snd (serve G m req w)) key = gw_redis w key)" by auto
qed

section \<open>Repeating a write\<close>

lemma replayed_answer: "replayed (answer_json a) = Inr a"
  by (cases a) (auto simp: replayed_def int_field_def opt_json_def split: option.split)

lemma keys_differ: "bucket_key p \<noteq> idem_key q k h"
  by (simp add: bucket_key_def idem_key_def)

definition proposing :: "'g gateway \<Rightarrow> http_request \<Rightarrow> principal \<Rightarrow> string \<Rightarrow> bool" where
  \<comment> \<open>a proposal of the principal with an idempotency key\<close>
  "proposing G req p k \<longleftrightarrow> is_http req \<and> rq_method req = ''POST'' \<and> rq_path req = ''/memory/propose'' \<and>
     authorized G req = Inr p \<and> header_of ''idempotency-key'' req = Some k \<and> rq_body req \<noteq> []"

definition write_key :: "http_request \<Rightarrow> principal \<Rightarrow> string \<Rightarrow> string" where
  "write_key req p k = idem_key p k (hexdigest (sha256 (rq_body req)))"

lemma perform_kept:
  assumes "finish G req (perform G m p (Some (k, h)) b h' w) = ((s, body), w1)" and "s \<in> {200, 202}"
  obtains a e where "gw_redis w1 (idem_key p k h) = Some (Stored (json_dumps False '', '' '': '' (answer_json a)), e)"
    and "s = status_of a" and "body = answer_json a"
proof -
  have keep: "\<exists>a e. gw_redis w1 (idem_key p k h) = Some (Stored (json_dumps False '', '' '': '' (answer_json a)), e)
      \<and> s = status_of a \<and> body = answer_json a"
    if "finish G req (keep_answer G m p (Some (k, h)) a w') = ((s, body), w1)" for a w'
    using that assms(2) by (auto simp: finish_def keep_answer_def idem_put_def answered_def split: if_splits)
  have "\<exists>a w'. finish G req (keep_answer G m p (Some (k, h)) a w') = ((s, body), w1)"
  proof (cases "pq_mode b = STRICT")
    case True
    obtain r w' where st: "strict G m p (trace_for m) b w = (r, w')" by fastforce
    have "ht_status refused = 503" if "r = Inr (Inl refused)" for refused
      using st that by (auto simp: strict_def http_error_def split: if_splits prod.splits sum.splits)
    with assms True st show ?thesis
      by (cases r) (auto simp: perform_def finish_def split: sum.splits)
  next
    case False
    with assms show ?thesis
      by (cases "enqueue G m (pn_tenant p) (trace_for m) b h' w") (auto simp: perform_def finish_def)
  qed
  with keep that show thesis by blast
qed

lemma propose_kept:
  assumes st: "as_principal st = Some p" "body_hash_of req st = Some h" and k: "header_of ''idempotency-key'' req = Some k"
    and out: "finish G req (propose_route G m req st w) = ((s, body), w1)" "s \<in> {200, 202}"
    and law: "gt_loads G (json_dumps False '', '' '': '' body) = Some body"
  obtains b j t e a where "gt_decode G req = Some b" and "propose_ok b" and "idempotency_ok (Some k)" and "permits p WRITE_SCOPE"
    and "gw_redis w1 (idem_key p k h) = Some (Stored t, e)" and "gt_loads G t = Some j" and "replayed j = Inr a"
    and "s = status_of a" and "body = answer_json a"
proof -
  obtain b where b: "gt_decode G req = Some b"
    using out st by (cases "gt_decode G req") (auto simp: propose_route_def finish_def framework_def)
  have ok: "propose_ok b \<and> idempotency_ok (Some k) \<and> permits p WRITE_SCOPE"
  proof (rule ccontr)
    assume "\<not> ?thesis"
    then have "fst (fst (finish G req (propose_route G m req st w))) \<in> {422, 403}"
      using st k b by (auto simp: propose_route_def finish_def framework_def http_error_def Let_def)
    with out show False by auto
  qed
  have r: "propose_route G m req st w =
      (case idem_get (gt_loads G) (mo_idem_get_up m) (mo_now m) (gw_redis w) p k h of
         Inl e \<Rightarrow> (Inl e, w)
       | Inr (Some stored) \<Rightarrow> (bindE (replayed stored) (\<lambda>a. Inr (answered a)), w)
       | Inr None \<Rightarrow> perform G m p (Some (k, h)) b (Some h) w)"
    using b ok st k by (simp add: propose_route_def)
  note b = b ok
  show thesis
  proof (cases "idem_get (gt_loads G) (mo_idem_get_up m) (mo_now m) (gw_redis w) p k h")
    case (Inl e)
    with out r show thesis by (auto simp: finish_def)
  next
    case (Inr held)
    show thesis
    proof (cases held)
      case None
      obtain a e where "gw_redis w1 (idem_key p k h) = Some (Stored (json_dumps False '', '' '': '' (answer_json a)), e)"
        and "s = status_of a" and "body = answer_json a"
        by (rule perform_kept [of G req m p k h b "Some h" w s body w1]) (use out r Inr None in simp_all)
      with that b law replayed_answer show thesis by metis
    next
      case (Some stored)
      then obtain t e where t: "gw_redis w (idem_key p k h) = Some (Stored t, e)" "gt_loads G t = Some stored"
        using Inr by (auto simp: idem_get_def redis_read_def split: if_splits option.splits redis_value.splits)
      obtain a where a: "replayed stored = Inr a" "s = status_of a" "body = answer_json a" "w1 = w"
        using out r Inr Some by (cases "replayed stored") (auto simp: finish_def answered_def)
      with that b t show thesis by metis
    qed
  qed
qed

lemma proposing_serve:
  assumes "proposing G req p k"
  obtains st where "as_principal st = Some p" and "body_hash_of req st = Some (hexdigest (sha256 (rq_body req)))"
    and "((ht_status (fst (serve G m req w)), ht_body (fst (serve G m req w))), snd (serve G m req w)) =
      (if turned_away (fst (checked G m p w))
       then ((429, JObj [(''detail'', JStr ''rate limit exceeded'')]), snd (checked G m p w))
       else finish G req (propose_route G m req st (snd (checked G m p w))))"
proof -
  have a: "is_http req" "rq_path req \<notin> set UNAUTHENTICATED" "authorized G req = Inr p"
    using assms by (auto simp: proposing_def UNAUTHENTICATED_def)
  obtain st where st: "as_principal st = Some p" "as_collects st = (rq_method req \<notin> set BODYLESS)"
    "((ht_status (fst (serve G m req w)), ht_body (fst (serve G m req w))), snd (serve G m req w)) =
      (if turned_away (fst (checked G m p w))
       then ((429, JObj [(''detail'', JStr ''rate limit exceeded'')]), snd (checked G m p w))
       else finish G req (route_app G m req st (snd (checked G m p w))))"
    by (rule serve_authorized [OF a])
  have "route_app G m req st w' = propose_route G m req st w'" for w'
    using assms by (simp add: route_app_def proposing_def)
  with st assms show thesis
    by (intro that [of st]) (simp_all add: body_hash_of_def proposing_def BODYLESS_def)
qed

section \<open>Properties\<close>

text \<open>C11. A request acts for the tenant of its credential and for nobody else. Without a valid
  credential, on any path but the four open ones, the answer is the one 401 whatever was wrong and
  nothing changes: no limiter bucket, no job, no row. With one, only rows and audit events of its
  tenant are added, the tables stay sound, at most one job is queued and it carries that tenant, and
  only the caller's own keys change in Redis; without the write scope nothing but the bucket does.\<close>

theorem requests_stay_in_their_tenant:
  assumes "is_http req" and "rq_path req \<notin> set UNAUTHENTICATED"
  shows "case authorized G req of
      Inl e \<Rightarrow> ht_status (fst (serve G m req w)) = 401 \<and> ht_body (fst (serve G m req w)) = UNAUTHORIZED
        \<and> snd (serve G m req w) = w
    | Inr p \<Rightarrow> touches p w (snd (serve G m req w))
        \<and> (permits p WRITE_SCOPE \<or> (gw_store (snd (serve G m req w)) = gw_store w
             \<and> gw_queue (snd (serve G m req w)) = gw_queue w
             \<and> (\<forall>key. key \<noteq> bucket_key p \<longrightarrow> gw_redis (snd (serve G m req w)) key = gw_redis w key)))"
  using serve_unauthorized [OF assms, where G = G and m = m and w = w]
    serve_touches [OF assms, where G = G and m = m and w = w]
  by (cases "authorized G req") auto

text \<open>C12. A write is done once. When a proposal with an idempotency key was answered, the same request
  later, while Redis still holds that answer, whatever else happened in between, gets the same status
  and body (or is rate limited) and has no effect on the queue, the tables or the graph.\<close>

theorem repeated_write_is_done_once:
  assumes req: "proposing G req p k"
    and first: "serve G m req w = (r, w1)" "ht_status r \<in> {200, 202}"
    and law: "gt_loads G (json_dumps False '', '' '': '' (ht_body r)) = Some (ht_body r)"
    and kept: "gw_redis w2 (write_key req p k) = gw_redis w1 (write_key req p k)"
    and live: "redis_read (gw_redis w2) (mo_now m2) (write_key req p k) \<noteq> None" and up: "mo_idem_get_up m2"
  shows "gw_queue (snd (serve G m2 req w2)) = gw_queue w2 \<and> gw_store (snd (serve G m2 req w2)) = gw_store w2
    \<and> (ht_status (fst (serve G m2 req w2)) = 429
       \<or> (ht_status (fst (serve G m2 req w2)) = ht_status r \<and> ht_body (fst (serve G m2 req w2)) = ht_body r))"
proof -
  let ?h = "hexdigest (sha256 (rq_body req))"
  have key: "header_of ''idempotency-key'' req = Some k" using req by (simp add: proposing_def)
  obtain st where st: "as_principal st = Some p" "body_hash_of req st = Some ?h"
    and s: "((ht_status (fst (serve G m req w)), ht_body (fst (serve G m req w))), snd (serve G m req w)) =
      (if turned_away (fst (checked G m p w))
       then ((429, JObj [(''detail'', JStr ''rate limit exceeded'')]), snd (checked G m p w))
       else finish G req (propose_route G m req st (snd (checked G m p w))))"
    by (rule proposing_serve [OF req])
  have s: "finish G req (propose_route G m req st (snd (checked G m p w))) = ((ht_status r, ht_body r), w1)"
    using s first by (cases "turned_away (fst (checked G m p w))") auto
  obtain b j t e a where b: "gt_decode G req = Some b" "propose_ok b" "idempotency_ok (Some k)" "permits p WRITE_SCOPE"
    and t: "gw_redis w1 (idem_key p k ?h) = Some (Stored t, e)" "gt_loads G t = Some j" "replayed j = Inr a"
    and a: "ht_status r = status_of a" "ht_body r = answer_json a"
    by (rule propose_kept [OF st key s first(2) law])
  obtain st2 where st2: "as_principal st2 = Some p" "body_hash_of req st2 = Some ?h"
    and s2: "((ht_status (fst (serve G m2 req w2)), ht_body (fst (serve G m2 req w2))), snd (serve G m2 req w2)) =
      (if turned_away (fst (checked G m2 p w2))
       then ((429, JObj [(''detail'', JStr ''rate limit exceeded'')]), snd (checked G m2 p w2))
       else finish G req (propose_route G m2 req st2 (snd (checked G m2 p w2))))"
    by (rule proposing_serve [OF req])
  note c = checked_effect [where G = G and m = m2 and p = p and w = w2]
  have r2: "gw_redis (snd (checked G m2 p w2)) (idem_key p k ?h) = Some (Stored t, e)"
    using c(3) [OF keys_differ [symmetric]] kept t(1) by (simp add: write_key_def)
  have "mo_now m2 < e" using live kept t(1) by (auto simp: redis_read_def write_key_def split: if_splits)
  then have "idem_get (gt_loads G) (mo_idem_get_up m2) (mo_now m2) (gw_redis (snd (checked G m2 p w2))) p k ?h = Inr (Some j)"
    using r2 t(2) up by (simp add: idem_get_def redis_read_def)
  then have "propose_route G m2 req st2 (snd (checked G m2 p w2)) = (Inr (answered a), snd (checked G m2 p w2))"
    using b key st2 t(3) by (simp add: propose_route_def)
  with s2 a c show ?thesis by (auto simp: finish_def answered_def split: if_splits)
qed

end
