(* ===== verification/GatewayDemo.thy ===== *)
theory GatewayDemo
  imports GatewayLaws GraphLaws
begin

text \<open>One gateway with one key and one proposal, for the witnesses.\<close>

definition door_caller :: principal where
  "door_caller = \<lparr>pn_tenant = ''t'', pn_key_id = ''sesame'', pn_scopes = [''memory:write'']\<rparr>"

definition door_moment :: moment where
  "door_moment = \<lparr>mo_request_uuid = ''r'', mo_trace_uuid = ''0123456789abcdef'', mo_now = 2 ^ 30, mo_arrival = 0,
     mo_headed = 0, mo_checked = 0, mo_granted = 0, mo_limiter_up = True, mo_idem_get_up = True,
     mo_idem_put_up = True, mo_queue_up = True, mo_postgres_ok = True, mo_ping_ok = True,
     mo_calls = (\<lambda>_. \<lparr>ce_free = True, ce_recorded_at = 4, ce_at = 5, ce_now = 6\<rparr>)\<rparr>"

definition door_body :: propose_request where
  "door_body = \<lparr>pq_namespace = ''user:u'', pq_turns = [\<lparr>ti_id = ''1'', ti_role = USER_TURN,
     ti_text = ''I like tea'', ti_captured_at = 3\<rparr>], pq_mode = ASYNC, pq_tier = TRUSTED_SYSTEM\<rparr>"

definition door_request :: http_request where
  "door_request = \<lparr>rq_type = ''http'', rq_method = ''POST'', rq_path = ''/memory/propose'',
     rq_headers = [(''authorization'', ''Bearer sesame''), (''idempotency-key'', ''k1'')], rq_body = [1]\<rparr>"

definition door_answer :: answer where
  "door_answer = Accepted ''tr_0123456789ab'' (Some (hexdigest (sha256 [1])))"

definition door_gateway :: "list_graph gateway" where
  "door_gateway = \<lparr>gt_keys = [(''sesame'', door_caller)], gt_per_minute = 60, gt_burst = 60, gt_idem_ttl = 86400,
     gt_default_k = 3, gt_deadline_s = 30, gt_store_timeout_s = 5, gt_model = True, gt_text = milk_text,
     gt_boundary = milk_boundary, gt_graph_ops = list_multigraph, gt_ontology = likes_ontology,
     gt_thresholds = mild_thresholds, gt_loads = (\<lambda>_. Some (answer_json door_answer)), gt_iso = str_int,
     gt_decode = (\<lambda>_. Some door_body), gt_query = (\<lambda>_. None), gt_framework = (\<lambda>_ _. JNull)\<rparr>"

definition door_state :: gw where
  "door_state = \<lparr>gw_redis = (\<lambda>_. None), gw_queue = [], gw_store = (milk_db, \<lparr>ng_nodes = [], ng_rels = []\<rparr>)\<rparr>"

lemma door_authorized: "authorized door_gateway door_request = Inr door_caller"
proof -
  have "header_of ''authorization'' door_request = Some ''Bearer sesame''"
    by (simp add: header_of_def door_request_def)
  moreover have "credential_from (Some ''Bearer sesame'') = Inr ''sesame''" by code_simp
  ultimately show ?thesis by (simp add: authorized_def door_gateway_def principal_for_def)
qed

lemma door_proposing: "proposing door_gateway door_request door_caller ''k1''"
  using door_authorized by (simp add: proposing_def is_http_def door_request_def header_of_def)

lemma door_granted: "\<not> turned_away (fst (checked door_gateway door_moment door_caller door_state))"
proof -
  have "grants (fst (check_limit (token_bucket_for 60 60) True (2 ^ 30) (\<lambda>_. None) door_caller))"
    by code_simp
  then show ?thesis
    by (auto simp: checked_def turned_away_def grants_def door_gateway_def door_moment_def door_state_def
        split: prod.split sum.splits)
qed

lemma door_served:
  "ht_status (fst (serve door_gateway door_moment door_request door_state)) = 202
    \<and> ht_body (fst (serve door_gateway door_moment door_request door_state)) = answer_json door_answer
    \<and> length (gw_queue (snd (serve door_gateway door_moment door_request door_state))) = 1
    \<and> gw_redis (snd (serve door_gateway door_moment door_request door_state)) (write_key door_request door_caller ''k1'') =
        Some (Stored (json_dumps False '', '' '': '' (answer_json door_answer)), 2 ^ 30 + 86400)"
proof -
  obtain st where st: "as_principal st = Some door_caller"
      "body_hash_of door_request st = Some (hexdigest (sha256 (rq_body door_request)))"
    and s: "((ht_status (fst (serve door_gateway door_moment door_request door_state)),
        ht_body (fst (serve door_gateway door_moment door_request door_state))),
        snd (serve door_gateway door_moment door_request door_state)) =
      finish door_gateway door_request (propose_route door_gateway door_moment door_request st
        (snd (checked door_gateway door_moment door_caller door_state)))"
    using proposing_serve [OF door_proposing, where m = door_moment and w = door_state] door_granted by metis
  let ?w = "snd (checked door_gateway door_moment door_caller door_state)"
  note c = checked_effect [where G = door_gateway and m = door_moment and p = door_caller and w = door_state]
  have K: "gw_redis ?w (idem_key door_caller ''k1'' h) = None" for h
    using c(3) [OF keys_differ [symmetric]] by (simp add: door_state_def)
  have q: "gw_queue ?w = []" using c(2) by (simp add: door_state_def)
  have key: "header_of ''idempotency-key'' door_request = Some ''k1''"
    by (simp add: header_of_def door_request_def)
  have "propose_route door_gateway door_moment door_request st ?w =
      perform door_gateway door_moment door_caller (Some (''k1'', hexdigest (sha256 [1]))) door_body
        (Some (hexdigest (sha256 [1]))) ?w"
    using st K key
    by (simp add: propose_route_def door_gateway_def propose_ok_def idempotency_ok_def permits_def idem_get_def
        redis_read_def door_body_def turn_in_ok_def MAX_TURNS_def WRITE_SCOPE_def door_moment_def door_request_def
        door_caller_def)
  also have "\<dots> = (Inr (answered door_answer), ?w\<lparr>gw_queue := [\<lparr>jb_id = ''tr_0123456789ab'', jb_tenant = ''t'',
        jb_trace = ''tr_0123456789ab'', jb_namespace = ''user:u'', jb_turns = map (turn_json str_int) (pq_turns door_body),
        jb_tier = ''trusted_system'', jb_k = 3, jb_model_tier = ''balanced'', jb_body_hash = Some (hexdigest (sha256 [1]))\<rparr>],
      gw_redis := (gw_redis ?w)(idem_key door_caller ''k1'' (hexdigest (sha256 [1])) \<mapsto>
        (Stored (json_dumps False '', '' '': '' (answer_json door_answer)), 2 ^ 30 + 86400))\<rparr>)"
    using q by (simp add: perform_def door_body_def enqueue_def enqueue_job_def keep_answer_def idem_put_def
        door_moment_def door_gateway_def door_answer_def trace_for_def door_caller_def)
  finally show ?thesis using s
    by (simp add: finish_def answered_def door_answer_def write_key_def door_request_def)
qed

theorem requests_stay_in_their_tenant_witness:
  "ht_status (fst (serve door_gateway door_moment (door_request\<lparr>rq_headers := []\<rparr>) door_state)) = 401
   \<and> touches door_caller door_state (snd (serve door_gateway door_moment door_request door_state))"
proof -
  have open_path: "rq_path door_request \<notin> set UNAUTHENTICATED" "is_http door_request"
    by (simp_all add: door_request_def UNAUTHENTICATED_def is_http_def)
  have "authorized door_gateway (door_request\<lparr>rq_headers := []\<rparr>) = Inl InvalidCredential"
    by (simp add: authorized_def header_of_def credential_from_def)
  with requests_stay_in_their_tenant [of "door_request\<lparr>rq_headers := []\<rparr>" door_gateway door_moment door_state]
    requests_stay_in_their_tenant [of door_request door_gateway door_moment door_state] open_path door_authorized
  show ?thesis by (simp add: is_http_def)
qed

theorem repeated_write_is_done_once_witness:
  "length (gw_queue (snd (serve door_gateway door_moment door_request door_state))) = 1
   \<and> gw_queue (snd (serve door_gateway door_moment door_request (snd (serve door_gateway door_moment door_request door_state))))
     = gw_queue (snd (serve door_gateway door_moment door_request door_state))"
proof -
  let ?r = "fst (serve door_gateway door_moment door_request door_state)"
  let ?w = "snd (serve door_gateway door_moment door_request door_state)"
  from door_served have s: "ht_status ?r = 202" "ht_body ?r = answer_json door_answer" "length (gw_queue ?w) = 1"
    "gw_redis ?w (write_key door_request door_caller ''k1'') =
        Some (Stored (json_dumps False '', '' '': '' (answer_json door_answer)), 2 ^ 30 + 86400)" by simp_all
  have "mo_now door_moment = 2 ^ 30" "mo_idem_get_up door_moment" by (simp_all add: door_moment_def)
  moreover have "gt_loads door_gateway x = Some (answer_json door_answer)" for x by (simp add: door_gateway_def)
  ultimately show ?thesis
    using repeated_write_is_done_once [OF door_proposing, where m = door_moment and w = door_state and r = ?r and ?w1.0 = ?w
        and ?w2.0 = ?w and ?m2.0 = door_moment] s
    by (simp add: redis_read_def)
qed

end
