(* ===== verification/Worker.thy ===== *)
theory Worker
  imports GatewayDemo
begin

text \<open>
  The worker, \<open>services/worker/src/worker\<close>: \<open>tasks/evaluate.py\<close> governs one job the gateway queued,
  with the dependencies of \<open>composition.py\<close>. A job's turns cross the queue as JSON; \<open>turn_of_json\<close> is
  what the strict \<open>Turn\<close> accepts of it, and how a time is read from text is a parameter. The process
  set-up of \<open>main.py\<close> is I/O and not modelled, and so is the queue itself: which jobs it runs again and
  when it cuts one off. \<open>unfinished_job_changed_nothing\<close> says why running an unfinished job again is safe.
\<close>

section \<open>The job\<close>

record 'g worker =
  wo_text :: text_env
  wo_boundary :: boundary_env
  wo_graph_ops :: "'g multigraph_ops"
  wo_ontology :: ontology
  wo_thresholds :: thresholds
  wo_read_time :: "string \<Rightarrow> int option"

definition WORKER_POLICY_VERSION :: string where
  "WORKER_POLICY_VERSION = ''worker-v1''"

definition worker_deps :: "'g worker \<Rightarrow> string \<Rightarrow> (db \<times> neo_graph) deps" where
  \<comment> \<open>\<open>composition.build_deps\<close>\<close>
  "worker_deps W tenant =
     on_empty_graph (wo_graph_ops W)
       (build_deps (wo_boundary W) tenant (wo_ontology W) (wo_thresholds W) WORKER_POLICY_VERSION)"

definition role_of :: "string \<Rightarrow> turn_role option" where
  "role_of s = first (\<lambda>r. role_value r = s) [USER_TURN, ASSISTANT_TURN, TOOL_TURN]"

definition source_tier_of :: "string \<Rightarrow> source_tier option" where
  "source_tier_of s = first (\<lambda>t. source_tier_value t = s) source_tiers"

definition turn_of_json :: "(string \<Rightarrow> int option) \<Rightarrow> json \<Rightarrow> exn + turn" where
  \<comment> \<open>\<open>Turn.model_validate_json\<close>: no unknown field, no missing one, every type exact\<close>
  "turn_of_json read_time j =
     (case j of
        JObj kvs \<Rightarrow>
          if set (map fst kvs) \<subseteq> {''turn_id'', ''role'', ''text'', ''captured_at''}
          then (case (map_of kvs ''turn_id'', map_of kvs ''role'', map_of kvs ''text'') of
              (Some (JStr i), Some (JStr r), Some (JStr t)) \<Rightarrow>
                (case role_of r of
                   None \<Rightarrow> Inl ValueError
                 | Some role \<Rightarrow>
                     (case map_of kvs ''captured_at'' of
                        None \<Rightarrow> Inr \<lparr>t_id = i, t_role = role, t_text = t, t_captured_at = None\<rparr>
                      | Some JNull \<Rightarrow> Inr \<lparr>t_id = i, t_role = role, t_text = t, t_captured_at = None\<rparr>
                      | Some (JStr s) \<Rightarrow>
                          (case read_time s of
                             None \<Rightarrow> Inl ValueError
                           | Some at_time \<Rightarrow> Inr \<lparr>t_id = i, t_role = role, t_text = t, t_captured_at = Some at_time\<rparr>)
                      | _ \<Rightarrow> Inl ValueError))
            | _ \<Rightarrow> Inl ValueError)
          else Inl ValueError
      | _ \<Rightarrow> Inl ValueError)"

datatype summary =
    Evaluated string nat nat nat nat nat \<comment> \<open>trace, scored, written, rejected, quarantined, failed\<close>
  | Refused string string \<comment> \<open>trace and error code\<close>

definition refused :: "gm_error \<Rightarrow> string \<Rightarrow> exn + summary" where
  \<comment> \<open>\<open>_refused\<close>\<close>
  "refused e trace = (if retryable e then Inl (GM e) else Inr (Refused trace (err_code e)))"

definition proposal_of :: "'g worker \<Rightarrow> job \<Rightarrow> exn + proposal" where
  "proposal_of W j =
     bindE (mapE (turn_of_json (wo_read_time W)) (jb_turns j)) (\<lambda>turns.
     bindE (case source_tier_of (jb_tier j) of None \<Rightarrow> Inl ValueError | Some t \<Rightarrow> Inr t) (\<lambda>source.
     bindE (case tier_of (jb_model_tier j) of None \<Rightarrow> Inl ValueError | Some t \<Rightarrow> Inr t) (\<lambda>tier.
       Inr \<lparr>pp_trace = jb_trace j, pp_tenant = jb_tenant j, pp_namespace = jb_namespace j, pp_turns = turns,
            pp_tier = source, pp_k = jb_k j, pp_model_tier = tier, pp_subject_hint = None\<rparr>)))"

definition summarise :: "string \<Rightarrow> governed_proposal \<Rightarrow> summary" where
  "summarise trace g =
     Evaluated trace (length (pr_governed (gp_result g))) (written g) (length (pr_rejected (gp_result g)))
       (length (pr_quarantined (gp_result g))) (length (gp_failures g))"

definition settle :: "string \<Rightarrow> (exn + governed_proposal) \<times> 's \<Rightarrow> (exn + summary) \<times> 's" where
  \<comment> \<open>the end of \<open>evaluate\<close>: what \<open>govern\<close> raised or decided\<close>
  "settle trace out =
     (case fst out of
        Inl e \<Rightarrow> ((case e of GM g \<Rightarrow> refused g trace | _ \<Rightarrow> Inl e), snd out)
      | Inr g \<Rightarrow> (Inr (summarise trace g), snd out))"

definition evaluate ::
    "'g worker \<Rightarrow> (governed \<Rightarrow> call_env) \<Rightarrow> job \<Rightarrow> db \<times> neo_graph \<Rightarrow> (exn + summary) \<times> (db \<times> neo_graph)" where
  "evaluate W env j s =
     (case proposal_of W j of
        Inl e \<Rightarrow> (Inl e, s)
      | Inr p \<Rightarrow> settle (jb_trace j) (govern (wo_text W) (worker_deps W (jb_tenant j)) env p s))"

section \<open>Across the queue\<close>

lemma role_of_value [simp]: "role_of (role_value r) = Some r"
  by (cases r) (simp_all add: role_of_def)

lemma source_tier_of_value [simp]: "source_tier_of (source_tier_value t) = Some t"
  by (cases t) (simp_all add: source_tier_of_def source_tiers_def)

lemma turn_of_turn_json:
  "read_time (fmt (ti_captured_at t)) = Some (ti_captured_at t) \<Longrightarrow> turn_of_json read_time (turn_json fmt t) = Inr (to_turn t)"
  by (simp add: turn_of_json_def turn_json_def to_turn_def)

definition submitted :: "'g gateway \<Rightarrow> string \<Rightarrow> string \<Rightarrow> propose_request \<Rightarrow> proposal" where
  \<comment> \<open>what the caller asked to have governed\<close>
  "submitted G tenant trace b =
     \<lparr>pp_trace = trace, pp_tenant = tenant, pp_namespace = pq_namespace b, pp_turns = map to_turn (pq_turns b),
      pp_tier = pq_tier b, pp_k = gt_default_k G, pp_model_tier = BALANCED, pp_subject_hint = None\<rparr>"

lemma enqueued_proposal:
  assumes "enqueue G m tenant trace b h w = Inr w'" and "trace \<notin> jb_id ` set (gw_queue w)"
    and "\<forall>t \<in> set (pq_turns b). wo_read_time W (gt_iso G (ti_captured_at t)) = Some (ti_captured_at t)"
  shows "\<exists>j. gw_queue w' = gw_queue w @ [j] \<and> jb_tenant j = tenant \<and> jb_trace j = trace
    \<and> proposal_of W j = Inr (submitted G tenant trace b)"
proof -
  let ?j = "\<lparr>jb_id = trace, jb_tenant = tenant, jb_trace = trace, jb_namespace = pq_namespace b,
        jb_turns = map (turn_json (gt_iso G)) (pq_turns b), jb_tier = source_tier_value (pq_tier b),
        jb_k = gt_default_k G, jb_model_tier = ''balanced'', jb_body_hash = h\<rparr>"
  have q: "gw_queue w' = gw_queue w @ [?j]"
    using assms(1,2) by (auto simp: enqueue_def enqueue_job_def bindE_Inr_iff split: if_splits)
  have "map (turn_of_json (wo_read_time W)) (jb_turns ?j) = map Inr (map to_turn (pq_turns b))"
    using assms(3) by (simp add: turn_of_turn_json)
  then have "mapE (turn_of_json (wo_read_time W)) (jb_turns ?j) = Inr (map to_turn (pq_turns b))"
    by (simp only: mapE_Inr_conv)
  then have "proposal_of W ?j = Inr (submitted G tenant trace b)"
    by (simp add: proposal_of_def submitted_def)
  with q show ?thesis by (intro exI [of _ ?j]) simp
qed

interpretation worker: tenant_bound "worker_deps W t'" for W t'
  by unfold_locales (simp add: worker_deps_def built.resolve_stays_in)

lemma govern_raises: "govern T D env p s = (Inl e, s') \<Longrightarrow> s' = s"
  using worker.run_raises by (auto simp: govern_def run_def Let_def split: sum.splits prod.splits)

lemma proposal_tenant: "proposal_of W j = Inr p \<Longrightarrow> pp_tenant p = jb_tenant j"
  by (auto simp: proposal_of_def bindE_Inr_iff)

section \<open>Properties\<close>

text \<open>C13. What was accepted is what is governed. A proposal the gateway queued becomes one job, and the
  worker that takes it governs the caller's own proposal: the same turns with their roles and times,
  namespace, trust tier and trace, under the tenant of the credential. The queue's JSON loses
  nothing, as long as a written time reads back as itself.\<close>

theorem queued_proposal_is_governed_as_submitted:
  assumes "enqueue G m tenant trace b h w = Inr w'" and "trace \<notin> jb_id ` set (gw_queue w)"
    and "\<forall>t \<in> set (pq_turns b). wo_read_time W (gt_iso G (ti_captured_at t)) = Some (ti_captured_at t)"
  shows "\<exists>j. gw_queue w' = gw_queue w @ [j] \<and>
    evaluate W env j s = settle trace (govern (wo_text W) (worker_deps W tenant) env (submitted G tenant trace b) s)"
proof -
  obtain j where j: "gw_queue w' = gw_queue w @ [j]" "jb_tenant j = tenant" "jb_trace j = trace"
    "proposal_of W j = Inr (submitted G tenant trace b)"
    using enqueued_proposal [OF assms] by blast
  then show ?thesis by (intro exI [of _ j]) (simp add: evaluate_def)
qed

text \<open>C14. A job that does not finish left nothing behind. When it raises, or when it is refused for
  good, no table and no graph changed, and what it raises is retryable if it is an error of the
  domain, so running the same job again starts from the same state; when it finishes, only its own
  tenant's tables changed and they are sound. (Which jobs the queue runs again, and a job it cuts off
  by its timeout, are not modelled.)\<close>

theorem unfinished_job_changed_nothing:
  "case evaluate W env j s of
     (Inl e, s') \<Rightarrow> s' = s \<and> (case e of GM g \<Rightarrow> retryable g | _ \<Rightarrow> True)
   | (Inr (Refused trace c), s') \<Rightarrow> s' = s \<and> trace = jb_trace j
   | (Inr (Evaluated trace n1 n2 n3 n4 n5), s') \<Rightarrow> stays_in (jb_tenant j) s s' \<and> trace = jb_trace j"
proof (cases "proposal_of W j")
  case (Inl e)
  then have "e = ValueError"
    by (auto simp: proposal_of_def bindE_Inl_iff turn_of_json_def dest!: mapE_Inl
        split: option.splits json.splits if_splits)
  with Inl show ?thesis by (simp add: evaluate_def)
next
  case (Inr p)
  obtain r s1 where g: "govern (wo_text W) (worker_deps W (jb_tenant j)) env p s = (r, s1)" by (rule prod.exhaust)
  show ?thesis
  proof (cases r)
    case (Inl e)
    then have "s1 = s" using govern_raises g by blast
    then show ?thesis using Inr g Inl by (cases e) (simp_all add: evaluate_def settle_def refused_def)
  next
    case (Inr x)
    have "stays_in (jb_tenant j) s s1"
      using worker.govern_stays_in [where p = p and s = s and W = W and t' = "jb_tenant j" and T = "wo_text W" and env = env]
        g proposal_tenant [OF \<open>proposal_of W j = Inr p\<close>] by simp
    then show ?thesis using \<open>proposal_of W j = Inr p\<close> g Inr by (simp add: evaluate_def settle_def summarise_def)
  qed
qed

definition door_worker :: "list_graph worker" where
  "door_worker = \<lparr>wo_text = milk_text, wo_boundary = milk_boundary, wo_graph_ops = list_multigraph,
     wo_ontology = likes_ontology, wo_thresholds = mild_thresholds, wo_read_time = (\<lambda>_. Some 3)\<rparr>"

theorem queued_proposal_is_governed_as_submitted_witness:
  "\<exists>w' j. enqueue door_gateway door_moment ''t'' ''tr'' door_body None door_state = Inr w' \<and> gw_queue w' = [j] \<and>
    evaluate door_worker (mo_calls door_moment) j milk_world =
      settle ''tr'' (govern milk_text (worker_deps door_worker ''t'') (mo_calls door_moment)
        (submitted door_gateway ''t'' ''tr'' door_body) milk_world)"
proof -
  have e: "\<exists>w'. enqueue door_gateway door_moment ''t'' ''tr'' door_body None door_state = Inr w'"
    by (simp add: enqueue_def enqueue_job_def door_moment_def door_state_def)
  then obtain w' where w: "enqueue door_gateway door_moment ''t'' ''tr'' door_body None door_state = Inr w'" by blast
  have "gw_queue door_state = []" "wo_text door_worker = milk_text"
    by (simp_all add: door_state_def door_worker_def)
  with queued_proposal_is_governed_as_submitted [OF w, where W = door_worker and env = "mo_calls door_moment" and s = milk_world] w
  show ?thesis by (simp add: door_body_def door_worker_def)
qed

end
