(* ===== verification/Mcp.thy ===== *)
theory Mcp
  imports Worker
begin

text \<open>
  The tools of the MCP server, \<open>services/mcp_server/src/mcp_server/tools\<close>: the arguments a model wrote
  (\<open>arguments.py\<close>, \<open>pipeline.py\<close>), the tenant and namespace of a call (\<open>context.py\<close>), searching (\<open>search.py\<close>),
  the view of one entity (\<open>get_entity.py\<close>), governing (\<open>pipeline.py\<close>, \<open>governing.py\<close>) and the dispatch with
  its error boundary (\<open>__init__.py\<close>). A tool call is a function from the database and the graph to its
  result and the state after it. Reading and writing a timestamp as text are parameters of \<open>server\<close>;
  the wording of a refusal is not modelled, its kind is.
\<close>

section \<open>Reading arguments\<close>

type_synonym arguments = "(string \<times> json) list"

definition require_text :: "string \<Rightarrow> arguments \<Rightarrow> exn + string" where
  \<comment> \<open>\<open>require_query\<close> and \<open>_require_content\<close>\<close>
  "require_text k args =
     (case get_or args k JNull of
        JStr s \<Rightarrow> if strip s = [] then Inl ToolRefused else Inr s
      | _ \<Rightarrow> Inl ToolRefused)"

definition MAX_LIMIT :: int where "MAX_LIMIT = 50"
definition DEFAULT_LIMIT :: int where "DEFAULT_LIMIT = 10"
definition DEFAULT_MIN_CONFIDENCE :: real where "DEFAULT_MIN_CONFIDENCE = fl (6 / 10)"
definition DEFAULT_TOKEN_BUDGET :: int where "DEFAULT_TOKEN_BUDGET = 1500"

definition bounded_limit :: "arguments \<Rightarrow> exn + int" where
  "bounded_limit args =
     (case get_or args ''limit'' (JInt DEFAULT_LIMIT) of
        JInt n \<Rightarrow> if n < 1 then Inl ToolRefused else Inr (min n MAX_LIMIT)
      | _ \<Rightarrow> Inl ToolRefused)"

definition unit_real :: "real \<Rightarrow> exn + real" where
  "unit_real x = (if 0 \<le> x \<and> x \<le> 1 then Inr x else Inl ToolRefused)"

definition min_confidence :: "arguments \<Rightarrow> exn + real" where
  \<comment> \<open>\<open>float\<close> of an integer beyond the doubles raises\<close>
  "min_confidence args =
     (case get_or args ''min_confidence'' (JFloat (Fin DEFAULT_MIN_CONFIDENCE)) of
        JInt n \<Rightarrow> if max_double < fl \<bar>of_int n\<bar> then Inl OverflowError else unit_real (fl (of_int n))
      | JFloat (Fin x) \<Rightarrow> unit_real x
      | _ \<Rightarrow> Inl ToolRefused)"

definition token_budget :: "arguments \<Rightarrow> exn + int" where
  "token_budget args =
     (case get_or args ''token_budget'' (JInt DEFAULT_TOKEN_BUDGET) of
        JInt n \<Rightarrow> if n < 1 then Inl ToolRefused else Inr n
      | _ \<Rightarrow> Inl ToolRefused)"

definition parse_as_of :: "(string \<Rightarrow> (int \<times> bool) option) \<Rightarrow> arguments \<Rightarrow> exn + int option" where
  \<comment> \<open>the parameter is \<open>datetime.fromisoformat\<close>: the time and whether it carries an offset\<close>
  "parse_as_of fromiso args =
     (case get_or args ''as_of'' JNull of
        JNull \<Rightarrow> Inr None
      | JStr s \<Rightarrow>
          (case fromiso s of
             None \<Rightarrow> Inl ToolRefused
           | Some (t, aware) \<Rightarrow> if aware then Inr (Some t) else Inl ToolRefused)
      | _ \<Rightarrow> Inl ToolRefused)"

subsection \<open>UUIDs\<close>

fun remove_all :: "string \<Rightarrow> string \<Rightarrow> string" where
  \<comment> \<open>\<open>s.replace(pat, '')\<close>\<close>
  "remove_all pat [] = []"
| "remove_all pat (c # cs) =
     (if pat \<noteq> [] \<and> startswith (c # cs) pat then remove_all pat (drop (length pat - 1) cs)
      else c # remove_all pat cs)"

definition is_hex :: "char \<Rightarrow> bool" where
  "is_hex c \<longleftrightarrow> is_digit c \<or> lower_char c \<in> {CHR ''a'', CHR ''b'', CHR ''c'', CHR ''d'', CHR ''e'', CHR ''f''}"

fun hex_groups :: "string \<Rightarrow> bool" where
  \<comment> \<open>hexadecimal digits with single underscores between them\<close>
  "hex_groups [] = False"
| "hex_groups [c] = is_hex c"
| "hex_groups (c # d # cs) = (is_hex c \<and> hex_groups (if d = CHR ''_'' then cs else d # cs))"

definition int_base16 :: "string \<Rightarrow> bool" where
  \<comment> \<open>whether \<open>int(s, 16)\<close> accepts the text; a minus sign cannot occur here\<close>
  "int_base16 s =
     (let t = strip s;
          u = (if startswith t ''+'' then tl t else t);
          v = (if startswith u ''0x'' \<or> startswith u ''0X'' then drop 2 u else u)
      in if length v < length u \<and> startswith v ''_'' then hex_groups (tl v) else hex_groups v)"

definition is_uuid :: "string \<Rightarrow> bool" where
  \<comment> \<open>whether \<open>UUID(s)\<close> returns\<close>
  "is_uuid s =
     (let braces = (\<lambda>c. c = CHR 0x7B \<or> c = CHR 0x7D);
          t = remove_all ''uuid:'' (remove_all ''urn:'' s);
          u = rev (dropWhile braces (rev (dropWhile braces t)));
          h = filter (\<lambda>c. c \<noteq> CHR ''-'') u
      in length h = 32 \<and> int_base16 h)"

subsection \<open>Filters\<close>

definition store_filters :: "arguments \<Rightarrow> exn + string option \<times> string list option" where
  \<comment> \<open>the subject and the predicates of the filter\<close>
  "store_filters args =
     bindE (case get_or args ''subject'' JNull of
        JNull \<Rightarrow> Inr None
      | JStr s \<Rightarrow> if is_uuid s then Inr (Some s) else Inl ToolRefused
      | _ \<Rightarrow> Inl ToolRefused) (\<lambda>subject.
     bindE (case get_or args ''predicates'' JNull of
        JNull \<Rightarrow> Inr None
      | JList ps \<Rightarrow>
          bindE (mapE (\<lambda>p. case p of JStr s \<Rightarrow> Inr s | _ \<Rightarrow> Inl ToolRefused) ps)
            (\<lambda>names. Inr (if names = [] then None else Some names))
      | _ \<Rightarrow> Inl ToolRefused) (\<lambda>wanted.
       Inr (subject, wanted)))"

definition per_predicate :: "string option \<times> string list option \<Rightarrow> (string \<times> string) list list" where
  "per_predicate filters =
     (let base = (case fst filters of None \<Rightarrow> [] | Some s \<Rightarrow> [(''subject_id'', s)])
      in case snd filters of None \<Rightarrow> [base] | Some names \<Rightarrow> map (\<lambda>p. base @ [(''predicate'', p)]) names)"

section \<open>The context of a call\<close>

record 'g server =
  sv_tenant :: string
  sv_default_namespace :: string
  sv_boundary :: boundary_env
  sv_text :: text_env
  sv_graph :: "'g multigraph_ops option" \<comment> \<open>\<open>None\<close>: the durable graph is bound\<close>
  sv_model :: bool
  sv_ontology :: ontology
  sv_thresholds :: thresholds
  sv_fromiso :: "string \<Rightarrow> (int \<times> bool) option"
  sv_iso :: "int \<Rightarrow> string"

record tool_context =
  tc_tenant :: string
  tc_namespace :: string

definition namespace_arg :: "'g server \<Rightarrow> arguments \<Rightarrow> exn + string" where
  \<comment> \<open>\<open>_namespace\<close>\<close>
  "namespace_arg S args =
     (case get_or args ''namespace'' JNull of
        JStr s \<Rightarrow> Inr s
      | JNull \<Rightarrow> if sv_default_namespace S = [] then Inl ToolRefused else Inr (sv_default_namespace S)
      | _ \<Rightarrow> Inl ToolRefused)"

definition context_for :: "'g server \<Rightarrow> arguments \<Rightarrow> bool \<Rightarrow> exn + tool_context" where
  "context_for S args require_namespace =
     (if sv_tenant S = [] \<or> \<not> is_uuid (sv_tenant S) then Inl ToolRefused
      else bindE (if require_namespace then namespace_arg S args else Inr (sv_default_namespace S))
             (\<lambda>ns. Inr \<lparr>tc_tenant = sv_tenant S, tc_namespace = ns\<rparr>))"

section \<open>Searching\<close>

definition EXCLUDED_LIMIT :: nat where "EXCLUDED_LIMIT = 10"
definition CHARS_PER_TOKEN :: nat where "CHARS_PER_TOKEN = 3"

definition merge_new :: "stored_assertion list \<Rightarrow> stored_assertion list \<Rightarrow> stored_assertion list" where
  \<comment> \<open>\<open>merged.setdefault(a.assertion_id, a)\<close> for each\<close>
  "merge_new merged found = fold (\<lambda>a m. if a_id a \<in> a_id ` set m then m else m @ [a]) found merged"

definition nearest_hits ::
    "'g server \<Rightarrow> tool_context \<Rightarrow> db \<Rightarrow> real list \<Rightarrow> int \<Rightarrow> (string \<times> string) list list \<Rightarrow> int option
     \<Rightarrow> exn + stored_assertion list" where
  \<comment> \<open>\<open>_nearest\<close>\<close>
  "nearest_hits S c db vector limit scopes as_of =
     foldE (\<lambda>merged scoped.
       bindE (search (be_search (sv_boundary S)) db (tc_tenant c) (tc_namespace c) vector (nat limit) scoped as_of)
         (\<lambda>hits. Inr (merge_new merged (map s_assertion hits)))) [] scopes"

definition retired_for ::
    "'g server \<Rightarrow> tool_context \<Rightarrow> db \<Rightarrow> (string \<times> string) list list \<Rightarrow> exn + stored_assertion list" where
  \<comment> \<open>\<open>_retired_for\<close>\<close>
  "retired_for S c db scopes =
     bindE (foldE (\<lambda>merged scoped.
         bindE (retired (be_search (sv_boundary S)) db (tc_tenant c) (tc_namespace c) scoped EXCLUDED_LIMIT)
           (\<lambda>found. Inr (merge_new merged found))) [] scopes)
       (\<lambda>merged. Inr (take EXCLUDED_LIMIT merged))"

definition token_cost :: "stored_assertion \<Rightarrow> nat" where
  \<comment> \<open>\<open>_tokens\<close>\<close>
  "token_cost a =
     max 1 (length (a_predicate a @ py_str (obj_json (a_object a)) @ concat (map pv_verbatim (a_provenance a)))
              div CHARS_PER_TOKEN)"

fun trim_from :: "nat \<Rightarrow> nat \<Rightarrow> stored_assertion list \<Rightarrow> stored_assertion list \<times> nat" where
  "trim_from budget used [] = ([], used)"
| "trim_from budget used (a # as) =
     (if budget < used + token_cost a then ([], used)
      else (case trim_from budget (used + token_cost a) as of (kept, u) \<Rightarrow> (a # kept, u)))"

definition trim_to_budget :: "stored_assertion list \<Rightarrow> int \<Rightarrow> stored_assertion list \<times> nat" where
  \<comment> \<open>\<open>_trim_to_budget\<close>\<close>
  "trim_to_budget as budget = trim_from (nat budget) 0 as"

record search_output =
  so_assertions :: "stored_assertion list"
  so_excluded :: "stored_assertion list"
  so_tokens :: nat
  so_trace :: string

definition run_search ::
    "'g server \<Rightarrow> string \<Rightarrow> tool_context \<Rightarrow> arguments \<Rightarrow> db \<Rightarrow> exn + search_output" where
  "run_search S uuid c args db =
     bindE (require_text ''query'' args) (\<lambda>query.
     bindE (bounded_limit args) (\<lambda>limit.
     bindE (min_confidence args) (\<lambda>least.
     bindE (parse_as_of (sv_fromiso S) args) (\<lambda>as_of.
     bindE (store_filters args) (\<lambda>filters.
     bindE (be_embed (sv_boundary S) [query]) (\<lambda>vectors.
     bindE (case vectors of [] \<Rightarrow> Inl IndexError | v # _ \<Rightarrow> Inr v) (\<lambda>vector.
     bindE (nearest_hits S c db vector limit (per_predicate filters) as_of) (\<lambda>hits.
     bindE (token_budget args) (\<lambda>budget.
     bindE (retired_for S c db (per_predicate filters)) (\<lambda>gone.
       let (kept, used) = trim_to_budget (take (nat limit) (filter (\<lambda>a. least \<le> a_confidence a) hits)) budget
       in Inr \<lparr>so_assertions = kept, so_excluded = gone, so_tokens = used,
               so_trace = ''tr_'' @ take 12 uuid\<rparr>))))))))))"

definition stamp_json :: "(int \<Rightarrow> string) \<Rightarrow> int option \<Rightarrow> json" where
  "stamp_json fmt t = (case t of None \<Rightarrow> JNull | Some x \<Rightarrow> JStr (fmt x))"

definition citation_view :: "provenance \<Rightarrow> json" where
  "citation_view p =
     JObj [(''source_hash'', JStr (pv_hash p)), (''span'', JList [JInt (fst (pv_span p)), JInt (snd (pv_span p))]),
       (''tier'', JStr (source_tier_value (pv_tier p))), (''verbatim'', JStr (pv_verbatim p))]"

definition assertion_view :: "(int \<Rightarrow> string) \<Rightarrow> stored_assertion \<Rightarrow> json" where
  "assertion_view fmt a =
     JObj [(''assertion_id'', JStr (a_id a)), (''subject'', JStr (a_subject a)), (''predicate'', JStr (a_predicate a)),
       (''object'', obj_json (a_object a)), (''confidence'', JFloat (Fin (a_confidence a))),
       (''valid_from'', JStr (fmt (a_valid_from a))), (''valid_to'', stamp_json fmt (a_valid_to a)),
       (''corroboration'', JInt (a_corroboration a)), (''provenance'', JList (map citation_view (a_provenance a)))]"

definition excluded_view :: "(int \<Rightarrow> string) \<Rightarrow> stored_assertion \<Rightarrow> json" where
  "excluded_view fmt a =
     JObj [(''assertion_id'', JStr (a_id a)), (''predicate'', JStr (a_predicate a)), (''object'', obj_json (a_object a)),
       (''reason'', JStr (case a_superseded_by a of None \<Rightarrow> ''retired''
          | Some i \<Rightarrow> if i = [] then ''retired'' else ''superseded_by '' @ i)),
       (''at'', stamp_json fmt (a_valid_to a))]"

section \<open>One entity\<close>

definition ASSERTION_LIMIT :: nat where "ASSERTION_LIMIT = 200"

definition require_entity_id :: "arguments \<Rightarrow> exn + string" where
  "require_entity_id args =
     (case get_or args ''entity_id'' JNull of
        JStr s \<Rightarrow> if s = [] \<or> \<not> is_uuid s then Inl ToolRefused else Inr s
      | _ \<Rightarrow> Inl ToolRefused)"

definition mcp_deps :: "'g server \<Rightarrow> string \<Rightarrow> (db \<times> neo_graph) deps" where
  \<comment> \<open>\<open>deps_for\<close>, once a model provider is bound\<close>
  "mcp_deps S tenant =
     (let D = build_deps (sv_boundary S) tenant (sv_ontology S) (sv_thresholds S) ''none''
      in case sv_graph S of None \<Rightarrow> D | Some ops \<Rightarrow> on_empty_graph ops D)"

definition grouped :: "stored_assertion list \<Rightarrow> (string \<times> stored_assertion list) list" where
  \<comment> \<open>\<open>_grouped\<close>\<close>
  "grouped as =
     fold (\<lambda>a m. dict_put (a_predicate a) ((case map_of m (a_predicate a) of None \<Rightarrow> [] | Some l \<Rightarrow> l) @ [a]) m) as []"

record entity_output =
  eo_entity :: string
  eo_namespace :: string
  eo_as_of :: "int option"
  eo_assertions :: "(string \<times> stored_assertion list) list"
  eo_neighbours :: "edge list"
  eo_graph_backed :: bool

definition run_get_entity ::
    "'g server \<Rightarrow> tool_context \<Rightarrow> arguments \<Rightarrow> db \<times> neo_graph \<Rightarrow> exn + entity_output" where
  "run_get_entity S c args w =
     bindE (require_entity_id args) (\<lambda>i.
     bindE (parse_as_of (sv_fromiso S) args) (\<lambda>as_of.
     bindE (be_embed (sv_boundary S) [i]) (\<lambda>vectors.
     bindE (case vectors of [] \<Rightarrow> Inl IndexError | v # _ \<Rightarrow> Inr v) (\<lambda>vector.
     bindE (search (be_search (sv_boundary S)) (fst w) (tc_tenant c) (tc_namespace c) vector ASSERTION_LIMIT
              [(''subject_id'', i)] as_of) (\<lambda>hits.
     bindE (dp_neighbors (mcp_deps S (tc_tenant c)) w i 1) (\<lambda>edges.
       Inr \<lparr>eo_entity = i, eo_namespace = tc_namespace c, eo_as_of = as_of,
            eo_assertions = grouped (map s_assertion hits), eo_neighbours = edges,
            eo_graph_backed = (sv_graph S = None)\<rparr>))))))"

section \<open>Governing\<close>

definition member_of :: "string list \<Rightarrow> json \<Rightarrow> exn + string" where
  \<comment> \<open>\<open>if v not in names\<close>: a list or a dict cannot be hashed\<close>
  "member_of names v =
     (case v of
        JStr s \<Rightarrow> if s \<in> set names then Inr s else Inl ToolRefused
      | JList _ \<Rightarrow> Inl TypeError
      | JObj _ \<Rightarrow> Inl TypeError
      | _ \<Rightarrow> Inl ToolRefused)"

definition require_source_tier :: "arguments \<Rightarrow> exn + source_tier" where
  "require_source_tier args =
     bindE (member_of (map source_tier_value source_tiers) (get_or args ''source_tier'' (JStr ''unverified_user'')))
       (\<lambda>s. case source_tier_of s of None \<Rightarrow> Inl ValueError | Some t \<Rightarrow> Inr t)"

definition K_BY_RISK_HINT :: "(string \<times> int) list" where
  "K_BY_RISK_HINT = [(''low'', 1), (''default'', 3), (''high'', 5)]"

definition require_risk_hint :: "arguments \<Rightarrow> exn + int" where
  "require_risk_hint args =
     bindE (member_of (map fst K_BY_RISK_HINT) (get_or args ''risk_hint'' (JStr ''default'')))
       (\<lambda>h. case map_of K_BY_RISK_HINT h of None \<Rightarrow> Inl KeyError | Some k \<Rightarrow> Inr k)"

definition require_mode :: "arguments \<Rightarrow> exn + string" where
  "require_mode args =
     bindE (member_of [''async'', ''strict''] (get_or args ''mode'' (JStr ''async'')))
       (\<lambda>m. if m = ''async'' then Inl ToolRefused else Inr m)"

definition is_text :: "json \<Rightarrow> bool" where
  "is_text v = (case v of JStr _ \<Rightarrow> True | _ \<Rightarrow> False)"

definition require_hints :: "arguments \<Rightarrow> exn + string option" where
  \<comment> \<open>\<open>_require_hints\<close>, of which the subject is used\<close>
  "require_hints args =
     (case get_or args ''hints'' JNull of
        JNull \<Rightarrow> Inr None
      | JObj hints \<Rightarrow>
          (let subject = get_or hints ''subject'' JNull; interesting = get_or hints ''predicates_of_interest'' JNull
           in if \<not> (subject = JNull \<or> is_text subject) then Inl ToolRefused
              else if \<not> (case interesting of JNull \<Rightarrow> True | JList ps \<Rightarrow> list_all is_text ps | _ \<Rightarrow> False)
              then Inl ToolRefused
              else Inr (case subject of JStr s \<Rightarrow> Some s | _ \<Rightarrow> None))
      | _ \<Rightarrow> Inl ToolRefused)"

definition require_idempotency_key :: "arguments \<Rightarrow> exn + string option" where
  "require_idempotency_key args =
     (case get_or args ''idempotency_key'' JNull of
        JNull \<Rightarrow> Inr None | JStr s \<Rightarrow> Inr (Some s) | _ \<Rightarrow> Inl ToolRefused)"

text \<open>What a call reads besides its arguments.\<close>

record call_moment =
  cm_uuid :: string
  cm_now :: int
  cm_calls :: "governed \<Rightarrow> call_env"

definition proposal_from :: "call_moment \<Rightarrow> tool_context \<Rightarrow> arguments \<Rightarrow> exn + proposal" where
  \<comment> \<open>the first half of \<open>run_propose\<close>\<close>
  "proposal_from m c args =
     bindE (require_text ''content'' args) (\<lambda>content.
     bindE (require_source_tier args) (\<lambda>tier.
     bindE (require_risk_hint args) (\<lambda>k.
     bindE (require_mode args) (\<lambda>_.
     bindE (require_hints args) (\<lambda>hint.
     bindE (require_idempotency_key args) (\<lambda>_.
       Inr \<lparr>pp_trace = ''tr_'' @ take 12 (cm_uuid m), pp_tenant = tc_tenant c, pp_namespace = tc_namespace c,
            pp_turns = [\<lparr>t_id = ''t1'', t_role = USER_TURN, t_text = content, t_captured_at = Some (cm_now m)\<rparr>],
            pp_tier = tier, pp_k = k, pp_model_tier = FAST, pp_subject_hint = hint\<rparr>))))))"

definition run_propose ::
    "'g server \<Rightarrow> call_moment \<Rightarrow> tool_context \<Rightarrow> arguments \<Rightarrow> db \<times> neo_graph
     \<Rightarrow> (exn + governed_proposal) \<times> (db \<times> neo_graph)" where
  "run_propose S m c args w =
     (case proposal_from m c args of
        Inl e \<Rightarrow> (Inl e, w)
      | Inr p \<Rightarrow>
          if \<not> sv_model S then (Inl ToolRefused, w)
          else govern (sv_text S) (mcp_deps S (tc_tenant c)) (cm_calls m) p w)"

definition has_verbatim :: "json \<Rightarrow> bool" where
  \<comment> \<open>\<open>isinstance(entry, dict) and entry.get("verbatim")\<close>\<close>
  "has_verbatim entry =
     (case entry of
        JObj kvs \<Rightarrow> truthy (get_or kvs ''verbatim'' JNull)
      | _ \<Rightarrow> False)"

definition commit_item_ok :: "json \<Rightarrow> bool" where
  \<comment> \<open>one element of \<open>_require_assertions\<close>, with \<open>_require_provenance\<close>\<close>
  "commit_item_ok item =
     (case item of
        JObj kvs \<Rightarrow>
          (\<forall>k \<in> {''subject'', ''predicate'', ''object'', ''provenance''}. k \<in> fst ` set kvs) \<and>
          (let entries = (case get_or kvs ''provenance'' JNull of JList l \<Rightarrow> l | v \<Rightarrow> [v])
           in entries \<noteq> [] \<and> list_all has_verbatim entries)
      | _ \<Rightarrow> False)"

definition run_commit :: "arguments \<Rightarrow> exn + unit" where
  \<comment> \<open>it validates, and then declines whatever it validated\<close>
  "run_commit args =
     bindE (case get_or args ''assertions'' JNull of
        JList items \<Rightarrow> if items \<noteq> [] \<and> list_all commit_item_ok items then Inr () else Inl ToolRefused
      | _ \<Rightarrow> Inl ToolRefused) (\<lambda>_.
     bindE (require_idempotency_key args) (\<lambda>_. Inl ToolRefused))"

section \<open>Dispatch\<close>

datatype tool_refusal =
    UnknownTool
  | RefusedCall
  | FailedWith string bool \<comment> \<open>the code of a domain error, and whether it says to retry\<close>
  | InternalFailure

datatype tool_payload =
    Searched search_output
  | ProposedAs governed_proposal
  | EntityView entity_output

datatype tool_result =
    Refusal tool_refusal
  | Payload tool_payload

section \<open>What is sent\<close>

definition edge_view :: "(int \<Rightarrow> string) \<Rightarrow> edge \<Rightarrow> json" where
  "edge_view fmt e =
     JObj [(''assertion_id'', JStr (e_assertion e)), (''subject'', JStr (e_subject e)), (''predicate'', JStr (e_predicate e)),
       (''object'', obj_json (e_object e)), (''confidence'', JFloat (Fin (e_confidence e))),
       (''valid_from'', JStr (fmt (e_valid_from e))), (''valid_to'', stamp_json fmt (e_valid_to e))]"

definition code_of :: "exn \<Rightarrow> string" where
  \<comment> \<open>\<open>_code_of\<close>\<close>
  "code_of e = (case e of GM g \<Rightarrow> err_code g | _ \<Rightarrow> ''GM_UNKNOWN'')"

definition candidate_view :: "governed \<Rightarrow> applied option \<Rightarrow> json" where
  \<comment> \<open>\<open>_candidate\<close>\<close>
  "candidate_view gv ap =
     (let c = gv_candidate gv; r = gv_record gv;
          entry = [(''candidate_id'', JStr (c_id c)), (''predicate'', JStr (c_predicate c)), (''object'', obj_json (c_object c)),
            (''decision'', JStr (decision_value (dr_decision r))), (''confidence'', JFloat (Fin (cf_confidence (dr_confidence r)))),
            (''risk'', JFloat (Fin (rv_risk (dr_risk r)))), (''reason_codes'', JList (map JStr (dr_codes r)))]
      in JObj (case ap of
           None \<Rightarrow> entry
         | Some x \<Rightarrow>
             (case ap_assertion x of
                Some i \<Rightarrow> entry @ [(''assertion_id'', JStr i)]
              | None \<Rightarrow> (case ap_reason x of Some why \<Rightarrow> entry @ [(''not_applied'', JStr why)] | None \<Rightarrow> entry))))"

definition result_of :: "governed_proposal \<Rightarrow> json" where
  "result_of g =
     (let r = gp_result g
      in JObj [(''trace_id'', JStr (pr_trace r)), (''status'', JStr ''decided''),
           (''candidates'', JList (map (\<lambda>gv. candidate_view gv (map_of (gp_applied g) (c_id (gv_candidate gv)))) (pr_governed r))),
           (''dropped_noise'', JInt (pr_dropped_noise r)), (''quarantined'', JInt (int (length (pr_quarantined r)))),
           (''applied'', JBool (\<exists>(_, o') \<in> set (gp_applied g). case ap_assertion o' of None \<Rightarrow> False | Some i \<Rightarrow> i \<noteq> [])),
           (''failed'', JList (map (\<lambda>(i, e). JObj [(''candidate_id'', JStr i), (''code'', JStr (code_of e))]) (gp_failures g)))])"

definition structured :: "(int \<Rightarrow> string) \<Rightarrow> tool_payload \<Rightarrow> json" where
  \<comment> \<open>what each handler returns, as \<open>structuredContent\<close>\<close>
  "structured fmt p =
     (case p of
        Searched out \<Rightarrow>
          JObj [(''assertions'', JList (map (assertion_view fmt) (so_assertions out))),
            (''excluded'', JList (map (excluded_view fmt) (so_excluded out))),
            (''tokens_used'', JInt (int (so_tokens out))), (''trace_id'', JStr (so_trace out))]
      | ProposedAs g \<Rightarrow> result_of g
      | EntityView v \<Rightarrow>
          JObj [(''entity_id'', JStr (eo_entity v)), (''namespace'', JStr (eo_namespace v)),
            (''as_of'', stamp_json fmt (eo_as_of v)),
            (''assertions'', JObj (map (\<lambda>(p, as). (p, JList (map (assertion_view fmt) as))) (eo_assertions v))),
            (''neighbors'', JList (map (edge_view fmt) (eo_neighbours v))), (''graph_backed'', JBool (eo_graph_backed v))])"

definition summarise_payload :: "tool_payload \<Rightarrow> string" where
  \<comment> \<open>\<open>_summarise\<close>\<close>
  "summarise_payload p =
     (case p of
        Searched out \<Rightarrow> str_nat (length (so_assertions out)) @ '' believed assertion(s)'' @
          (if so_excluded out = [] then [] else '', '' @ str_nat (length (so_excluded out)) @ '' retired and excluded'') @
          ''. Provenance is on each.''
      | EntityView v \<Rightarrow> str_nat (\<Sum>(p, as)\<leftarrow>eo_assertions v. length as) @ '' live assertion(s) across '' @
          str_nat (length (eo_assertions v)) @ '' predicate(s), '' @ str_nat (length (eo_neighbours v)) @ '' neighbour(s)'' @
          (if eo_graph_backed v then [] else '' (in-process graph; set GM_GRAPH_BACKEND=neo4j for a durable one)'') @ ''.''
      | ProposedAs g \<Rightarrow> ''memory.propose completed.'')"

definition refusal_for :: "exn \<Rightarrow> tool_refusal" where
  \<comment> \<open>the \<open>except\<close> clauses of \<open>call_tool\<close>\<close>
  "refusal_for e =
     (case e of ToolRefused \<Rightarrow> RefusedCall | GM g \<Rightarrow> FailedWith (err_code g) (retryable g) | _ \<Rightarrow> InternalFailure)"

definition TOOL_NAMES :: "string list" where
  "TOOL_NAMES = [''memory.search'', ''memory.propose'', ''memory.commit'', ''memory.get_entity'']"

definition run_tool ::
    "'g server \<Rightarrow> call_moment \<Rightarrow> string \<Rightarrow> tool_context \<Rightarrow> arguments \<Rightarrow> db \<times> neo_graph
     \<Rightarrow> (exn + tool_payload) \<times> (db \<times> neo_graph)" where
  \<comment> \<open>\<open>_HANDLERS\<close>\<close>
  "run_tool S m name c args w =
     (if name = ''memory.search'' then (bindE (run_search S (cm_uuid m) c args (fst w)) (\<lambda>o'. Inr (Searched o')), w)
      else if name = ''memory.propose''
      then (case run_propose S m c args w of (r, w') \<Rightarrow> (bindE r (\<lambda>g. Inr (ProposedAs g)), w'))
      else if name = ''memory.commit'' then (bindE (run_commit args) (\<lambda>_. Inl ToolRefused), w)
      else (bindE (run_get_entity S c args w) (\<lambda>o'. Inr (EntityView o')), w))"

definition call_tool ::
    "'g server \<Rightarrow> call_moment \<Rightarrow> string \<Rightarrow> arguments \<Rightarrow> db \<times> neo_graph \<Rightarrow> tool_result \<times> (db \<times> neo_graph)" where
  "call_tool S m name args w =
     (if name \<notin> set TOOL_NAMES then (Refusal UnknownTool, w)
      else (case context_for S args True of
          Inl e \<Rightarrow> (Refusal (refusal_for e), w)
        | Inr c \<Rightarrow>
            (case run_tool S m name c args w of
               (Inl e, w') \<Rightarrow> (Refusal (refusal_for e), w')
             | (Inr p, w') \<Rightarrow> (Payload p, w'))))"

end
