(* ===== verification/McpLaws.thy ===== *)
theory McpLaws
  imports Mcp
begin

text \<open>
  What the tools of the MCP server promise: a refused call changed nothing, a governed one changed only
  the server's own tenant, what a call reads of the tables is that tenant's and of the call's namespace,
  and a search answers with assertions it may show, inside the limits asked for. The neighbours of
  an entity are another matter: they are scoped by the entity asked for (\<open>neighbours_from\<close>).
\<close>

section \<open>Calls\<close>

interpretation mcp: tenant_bound "mcp_deps S t'" for S t'
  by unfold_locales
    (auto simp: mcp_deps_def Let_def built.resolve_stays_in split: option.split)

lemma proposal_from_tenant: "proposal_from m c args = Inr p \<Longrightarrow> pp_tenant p = tc_tenant c"
  by (auto simp: proposal_from_def elim!: bindE_InrE)

lemma run_propose_raises: "run_propose S m c args w = (Inl e, w') \<Longrightarrow> w' = w"
  by (auto simp: run_propose_def split: sum.splits if_splits dest: govern_raises)

lemma run_propose_stays_in: "stays_in (tc_tenant c) w (snd (run_propose S m c args w))"
proof (cases "proposal_from m c args")
  case (Inr p)
  have "stays_in (pp_tenant p) w (snd (govern (sv_text S) (mcp_deps S (tc_tenant c)) (cm_calls m) p w))"
    by (rule mcp.govern_stays_in)
  with Inr proposal_from_tenant [OF Inr] show ?thesis by (simp add: run_propose_def)
qed (simp add: run_propose_def)

lemma run_commit_declines: "\<exists>e. run_commit args = Inl e"
  by (cases "run_commit args") (auto simp: run_commit_def elim!: bindE_InrE)

lemma context_for_tenant:
  "context_for S args n = Inr c \<Longrightarrow> tc_tenant c = sv_tenant S \<and> is_uuid (sv_tenant S)"
  by (auto simp: context_for_def split: if_splits elim!: bindE_InrE)

section \<open>Whose rows a call reads\<close>

definition served :: "'g server \<Rightarrow> db \<Rightarrow> string \<Rightarrow> stored_assertion \<Rightarrow> bool" where
  \<comment> \<open>read from a row of the server's tenant and the namespace, which is visible there\<close>
  "served S db ns a \<longleftrightarrow>
     a_tenant a = sv_tenant S \<and> a_namespace a = ns \<and> a_visible a \<and>
     (\<exists>r \<in> set (db_assertions db). row_tenant r = sv_tenant S \<and>
        read_row (se_jsonb (be_search (sv_boundary S))) db (sv_tenant S) r = Inr a)"

lemma read_row_fields:
  "read_row jsonb db t r = Inr a \<Longrightarrow> a_tenant a = row_tenant r \<and> a_namespace a = row_namespace r \<and>
     a_subject a = row_subject r \<and> a_visible a = row_visible r"
  by (auto simp: read_row_def assertion_from_row_def mk_assertion_def elim!: bindE_InrE split: if_splits)

lemma mapE_member: "mapE f xs = Inr ys \<Longrightarrow> y \<in> set ys \<Longrightarrow> \<exists>x \<in> set xs. f x = Inr y"
  unfolding mapE_Inr_conv by (metis image_iff list.set_map)

lemma predicates_always:
  "predicates ns filters as_of = Inr clauses \<Longrightarrow> NamespaceIs ns \<in> set clauses \<and> Visible \<in> set clauses \<and>
     (\<forall>v. (''subject_id'', v) \<in> set filters \<longrightarrow> SubjectIs v \<in> set clauses)"
proof -
  assume "predicates ns filters as_of = Inr clauses"
  then obtain cs where cs: "mapE filter_clause filters = Inr cs"
    "clauses = ALWAYS ns @ [case as_of of None \<Rightarrow> LiveClause | Some t \<Rightarrow> ValidAsOf t] @ cs"
    by (auto simp: predicates_def elim!: bindE_InrE)
  have "SubjectIs v \<in> set cs" if "(''subject_id'', v) \<in> set filters" for v
  proof -
    have "Inr (SubjectIs v) \<in> filter_clause ` set filters" using that by (force simp: filter_clause_def)
    then have "Inr (SubjectIs v) \<in> set (map filter_clause filters)" by simp
    also have "\<dots> = Inr ` set cs" using cs(1) by (simp add: mapE_Inr_conv del: set_map) (simp)
    finally show ?thesis by blast
  qed
  with cs(2) show ?thesis by (simp add: ALWAYS_def)
qed

lemma search_serves:
  assumes "search (be_search (sv_boundary S)) db (sv_tenant S) ns v k filters as_of = Inr hits" and "h \<in> set hits"
  shows "served S db ns (s_assertion h) \<and> (\<forall>i. (''subject_id'', i) \<in> set filters \<longrightarrow> a_subject (s_assertion h) = i)"
proof -
  let ?env = "be_search (sv_boundary S)"
  obtain clauses where c: "predicates ns filters as_of = Inr clauses"
    and m: "mapE (scored_row ?env db (sv_tenant S) v) (nearest_statement ?env db (sv_tenant S) clauses v k) = Inr hits"
    using assms(1) by (auto simp: search_def guardE_Inr_iff elim!: bindE_InrE)
  obtain r where r: "r \<in> set (nearest_statement ?env db (sv_tenant S) clauses v k)"
    "scored_row ?env db (sv_tenant S) v r = Inr h"
    using mapE_member [OF m assms(2)] by blast
  have row: "r \<in> set (db_assertions db)" "row_tenant r = sv_tenant S" "\<forall>c \<in> set clauses. holds c r"
    using in_set_takeD [OF r(1) [unfolded nearest_statement_def]] by (simp_all add: tenant_rows_def)
  have read: "read_row (se_jsonb ?env) db (sv_tenant S) r = Inr (s_assertion h)"
    using r(2) by (auto simp: scored_row_def Let_def guardE_Inr_iff elim!: bindE_InrE)
  have h: "holds (NamespaceIs ns) r" "holds Visible r" "\<forall>i. (''subject_id'', i) \<in> set filters \<longrightarrow> holds (SubjectIs i) r"
    using predicates_always [OF c] row(3) by blast+
  with read_row_fields [OF read] row read show ?thesis by (auto simp: served_def)
qed

lemma retired_serves:
  assumes "retired (be_search (sv_boundary S)) db (sv_tenant S) ns filters k = Inr found" and "a \<in> set found"
  shows "served S db ns a"
proof -
  let ?env = "be_search (sv_boundary S)"
  obtain clauses rows where c: "predicates ns filters None = Inr clauses"
    and rows: "retired_statement db (sv_tenant S) clauses k = Inr rows"
    and m: "mapE (read_row (se_jsonb ?env) db (sv_tenant S)) rows = Inr found"
    using assms(1) by (auto simp: retired_def guardE_Inr_iff elim!: bindE_InrE)
  obtain r where r: "r \<in> set rows" "read_row (se_jsonb ?env) db (sv_tenant S) r = Inr a"
    using mapE_member [OF m assms(2)] by blast
  let ?swap = "\<lambda>c. if c = LiveClause then RetiredClause else c"
  have "r \<in> set (tenant_rows db (sv_tenant S) (map ?swap clauses))"
    using rows r(1) by (auto simp: retired_statement_def guardE_Inr_iff dest: in_set_takeD)
  then have row: "r \<in> set (db_assertions db)" "row_tenant r = sv_tenant S" "\<forall>c \<in> set clauses. holds (?swap c) r"
    by (simp_all add: tenant_rows_def)
  have "holds (?swap (NamespaceIs ns)) r" "holds (?swap Visible) r" using predicates_always [OF c] row(3) by blast+
  with read_row_fields [OF r(2)] row r(2) show ?thesis by (auto simp: served_def)
qed

lemma merge_new_subset: "set (merge_new m found) \<subseteq> set m \<union> set found"
  unfolding merge_new_def by (induction found arbitrary: m) (auto, fastforce+)

lemma trim_from_subset: "set (fst (trim_from b u as)) \<subseteq> set as"
  by (induction b u as rule: trim_from.induct) (auto split: prod.splits)

lemma search_output_served:
  assumes "run_search S uuid c args db = Inr out" and t: "tc_tenant c = sv_tenant S"
  shows "\<forall>a \<in> set (so_assertions out @ so_excluded out). served S db (tc_namespace c) a"
proof -
  obtain limit least as_of f vector hits budget gone kept used where
      hits: "nearest_hits S c db vector limit (per_predicate f) as_of = Inr hits"
    and gone: "retired_for S c db (per_predicate f) = Inr gone"
    and kept: "trim_from (nat budget) 0 (take (nat limit) (filter (\<lambda>a. least \<le> a_confidence a) hits)) = (kept, used)"
    and out: "so_assertions out = kept" "so_excluded out = gone"
    using assms(1) by (auto simp: run_search_def Let_def trim_to_budget_def split: prod.splits elim!: bindE_InrE)
  have "\<forall>a \<in> set hits. served S db (tc_namespace c) a"
  proof (rule foldE_invariant [OF hits [unfolded nearest_hits_def]])
    fix m sc m'
    assume "bindE (search (be_search (sv_boundary S)) db (tc_tenant c) (tc_namespace c) vector (nat limit) sc as_of)
        (\<lambda>hits. Inr (merge_new m (map s_assertion hits))) = Inr m'" and m: "\<forall>a \<in> set m. served S db (tc_namespace c) a"
    then obtain found where f: "m' = merge_new m (map s_assertion found)"
      "search (be_search (sv_boundary S)) db (sv_tenant S) (tc_namespace c) vector (nat limit) sc as_of = Inr found"
      using t by (auto elim!: bindE_InrE)
    show "\<forall>a \<in> set m'. served S db (tc_namespace c) a"
      using m search_serves [OF f(2)] merge_new_subset [of m "map s_assertion found"] unfolding f(1) by fastforce
  qed simp
  moreover have "\<forall>a \<in> set gone. served S db (tc_namespace c) a"
  proof -
    obtain merged where merged: "foldE (\<lambda>merged scoped.
         bindE (retired (be_search (sv_boundary S)) db (tc_tenant c) (tc_namespace c) scoped EXCLUDED_LIMIT)
           (\<lambda>found. Inr (merge_new merged found))) [] (per_predicate f) = Inr merged" and g: "gone = take EXCLUDED_LIMIT merged"
      using gone by (auto simp: retired_for_def elim!: bindE_InrE)
    have "\<forall>a \<in> set merged. served S db (tc_namespace c) a"
    proof (rule foldE_invariant [OF merged])
      fix m sc m'
      assume "bindE (retired (be_search (sv_boundary S)) db (tc_tenant c) (tc_namespace c) sc EXCLUDED_LIMIT)
        (\<lambda>found. Inr (merge_new m found)) = Inr m'" and m: "\<forall>a \<in> set m. served S db (tc_namespace c) a"
      then obtain found where f: "m' = merge_new m found"
        "retired (be_search (sv_boundary S)) db (sv_tenant S) (tc_namespace c) sc EXCLUDED_LIMIT = Inr found"
        using t by (auto elim!: bindE_InrE)
      show "\<forall>a \<in> set m'. served S db (tc_namespace c) a"
        using m retired_serves [OF f(2)] merge_new_subset [of m found] unfolding f(1) by blast
    qed simp
    then show ?thesis unfolding g by (blast dest: in_set_takeD)
  qed
  moreover have "set kept \<subseteq> set hits"
    using trim_from_subset [of "nat budget" 0 "take (nat limit) (filter (\<lambda>a. least \<le> a_confidence a) hits)"]
      set_take_subset [of "nat limit" "filter (\<lambda>a. least \<le> a_confidence a) hits"] unfolding kept by auto
  ultimately show ?thesis unfolding out by auto
qed

lemma dict_put_values:
  "set (concat (map snd (dict_put k v m))) \<subseteq> set v \<union> set (concat (map snd m))"
  by (induction k v m rule: dict_put.induct) auto

lemma grouped_subset: "set (concat (map snd (grouped as))) \<subseteq> set as"
proof -
  define put where "put = (\<lambda>(a :: stored_assertion) m.
    dict_put (a_predicate a) ((case map_of m (a_predicate a) of None \<Rightarrow> [] | Some l \<Rightarrow> l) @ [a]) m)"
  have step: "set (concat (map snd (put a m))) \<subseteq> insert a (set (concat (map snd m)))" for a m
  proof -
    let ?l = "case map_of m (a_predicate a) of None \<Rightarrow> [] | Some l \<Rightarrow> l"
    have "set ?l \<subseteq> set (concat (map snd m))"
    proof (cases "map_of m (a_predicate a)")
      case (Some l)
      from map_of_SomeD [OF this] Some show ?thesis by force
    qed simp
    with dict_put_values [of "a_predicate a" "?l @ [a]" m] show ?thesis unfolding put_def by auto
  qed
  have "set (concat (map snd (fold put as m))) \<subseteq> set as \<union> set (concat (map snd m))" for m
  proof (induction as arbitrary: m)
    case (Cons a as)
    from Cons.IH [of "put a m"] step [of a m] show ?case by auto
  qed simp
  from this [of "[]"] show ?thesis by (simp add: grouped_def put_def)
qed

section \<open>Whose edges a call reads\<close>

definition neighbours_from :: "'g server \<Rightarrow> neo_graph \<Rightarrow> entity_output \<Rightarrow> bool" where
  \<comment> \<open>live edges out of the entity asked for, of the tenant of \<open>its\<close> node, or of any if it has none; in
     process, those of a graph nothing was written to\<close>
  "neighbours_from S g out \<longleftrightarrow>
     (case sv_graph S of
        Some ops \<Rightarrow> eo_neighbours out = nx_neighbors ops (mg_empty ops) (eo_entity out) 1
      | None \<Rightarrow> (\<forall>e \<in> set (eo_neighbours out). \<exists>r \<in> set (ng_rels g).
          e = edge_from (be_loads (sv_boundary S)) r \<and> nl_source r = eo_entity out \<and> nl_valid_to r = None \<and>
          tenant_of g (eo_entity out) \<in> {None, Some (nl_tenant r)}))"

lemma visit_found: "set (wk_found (fold visit xs w)) \<subseteq> set (wk_found w) \<union> (\<lambda>x. fst (snd (snd x))) ` set xs"
proof (induction xs arbitrary: w)
  case (Cons x xs)
  have "set (wk_found (visit x w)) \<subseteq> insert (fst (snd (snd x))) (set (wk_found w))"
    by (auto simp: visit_def split: prod.splits)
  with Cons.IH [of "visit x w"] show ?case by auto
qed simp

lemma one_hop: "set (neo_neighbors loads g i 1) \<subseteq> edge_from loads ` set (hop g [i] (tenant_of g i))"
proof -
  let ?xs = "map (\<lambda>r. (snd (nl_target r), nl_assertion r, edge_from loads r, fst (nl_target r))) (hop g [i] (tenant_of g i))"
  have "neo_neighbors loads g i 1 = wk_found (fold visit ?xs walk_start)"
    by (simp add: neo_neighbors_def Let_def walk_start_def)
  then show ?thesis using visit_found [of ?xs walk_start] by (auto simp: walk_start_def)
qed

lemma entity_output_served:
  assumes "run_get_entity S c args (db, g) = Inr out" and t: "tc_tenant c = sv_tenant S"
  shows "eo_namespace out = tc_namespace c \<and> neighbours_from S g out \<and>
    (\<forall>a \<in> set (concat (map snd (eo_assertions out))). served S db (tc_namespace c) a \<and> a_subject a = eo_entity out)"
proof -
  obtain x as_of v hits edges where a: "search (be_search (sv_boundary S)) db (sv_tenant S) (tc_namespace c) v ASSERTION_LIMIT
        [(''subject_id'', x)] as_of = Inr hits" "dp_neighbors (mcp_deps S (sv_tenant S)) (db, g) x 1 = Inr edges"
      "\<lparr>eo_entity = x, eo_namespace = tc_namespace c, eo_as_of = as_of, eo_assertions = grouped (map s_assertion hits),
            eo_neighbours = edges, eo_graph_backed = (sv_graph S = None)\<rparr> = out"
    using assms(1) unfolding run_get_entity_def t fst_conv by (elim bindE_InrE) (rule that; (assumption | simp only: sum.inject))
  from a have hits: "search (be_search (sv_boundary S)) db (sv_tenant S) (tc_namespace c) v ASSERTION_LIMIT
        [(''subject_id'', eo_entity out)] as_of = Inr hits"
    and near: "dp_neighbors (mcp_deps S (sv_tenant S)) (db, g) (eo_entity out) 1 = Inr (eo_neighbours out)"
    and out: "eo_namespace out = tc_namespace c" "eo_assertions out = grouped (map s_assertion hits)"
    unfolding a(3) [symmetric] by simp_all
  have "neighbours_from S g out"
  proof (cases "sv_graph S")
    case None
    then have "eo_neighbours out = neo_neighbors (be_loads (sv_boundary S)) g (eo_entity out) 1"
      using near by (simp add: mcp_deps_def Let_def build_deps_def guardE_Inr_iff)
    with None one_hop show ?thesis by (fastforce simp: neighbours_from_def hop_def)
  next
    case (Some ops)
    with near show ?thesis by (simp add: mcp_deps_def on_empty_graph_def neighbours_from_def)
  qed
  moreover have "served S db (tc_namespace c) a \<and> a_subject a = eo_entity out"
    if "a \<in> set (concat (map snd (eo_assertions out)))" for a
  proof -
    have "a \<in> set (map s_assertion hits)" using that grouped_subset [of "map s_assertion hits"] unfolding out by blast
    then obtain h where h: "h \<in> set hits" "a = s_assertion h" by (auto simp only: set_map image_iff)
    from search_serves [OF hits h(1)] show ?thesis unfolding h(2) by (simp only: list.set simp_thms) blast
  qed
  ultimately show ?thesis using out(1) by blast
qed

section \<open>The outcome of a call\<close>

definition payload_ok ::
    "'g server \<Rightarrow> string \<Rightarrow> db \<times> neo_graph \<Rightarrow> tool_payload \<Rightarrow> db \<times> neo_graph \<Rightarrow> bool" where
  \<comment> \<open>what an answer may have read or changed\<close>
  "payload_ok S ns w p w' \<longleftrightarrow>
     (case p of
        ProposedAs g \<Rightarrow> stays_in (sv_tenant S) w w'
      | Searched out \<Rightarrow> w' = w \<and> (\<forall>a \<in> set (so_assertions out @ so_excluded out). served S (fst w) ns a)
      | EntityView out \<Rightarrow> w' = w \<and> eo_namespace out = ns \<and> neighbours_from S (snd w) out \<and>
          (\<forall>a \<in> set (concat (map snd (eo_assertions out))). served S (fst w) ns a \<and> a_subject a = eo_entity out))"

definition tool_outcome_ok ::
    "'g server \<Rightarrow> arguments \<Rightarrow> db \<times> neo_graph \<Rightarrow> tool_result \<times> (db \<times> neo_graph) \<Rightarrow> bool" where
  \<comment> \<open>what a caller may rely on, whatever it sent\<close>
  "tool_outcome_ok S args w out \<longleftrightarrow>
     (case out of
        (Refusal r, w') \<Rightarrow> w' = w
      | (Payload p, w') \<Rightarrow> is_uuid (sv_tenant S) \<and> (\<exists>ns. namespace_arg S args = Inr ns \<and> payload_ok S ns w p w'))"

lemma context_namespace: "context_for S args True = Inr c \<Longrightarrow> namespace_arg S args = Inr (tc_namespace c)"
  by (auto simp: context_for_def split: if_splits elim!: bindE_InrE)

lemma run_tool_ok:
  assumes "run_tool S m name c args w = (Inr p, w')" and t: "tc_tenant c = sv_tenant S"
  shows "payload_ok S (tc_namespace c) w p w'"
proof -
  obtain db g where w: "w = (db, g)" by (cases w)
  obtain r w1 where pr: "run_propose S m c args w = (r, w1)" by (rule prod.exhaust)
  have st: "stays_in (sv_tenant S) w w1" using run_propose_stays_in [of c w S m args] pr t by simp
  obtain e where e: "run_commit args = Inl e" using run_commit_declines by blast
  consider "name = ''memory.search''" | "name = ''memory.propose''" | "name = ''memory.commit''"
    | "name \<noteq> ''memory.search''" "name \<noteq> ''memory.propose''" "name \<noteq> ''memory.commit''" by blast
  then show ?thesis
  proof cases
    case 1
    have r: "bindE (run_search S (cm_uuid m) c args (fst w)) (\<lambda>o'. Inr (Searched o')) = Inr p \<and> w = w'"
      using assms(1) unfolding run_tool_def if_P [OF 1] prod.inject .
    obtain out where q: "run_search S (cm_uuid m) c args (fst w) = Inr out" "Searched out = p"
      using conjunct1 [OF r] by (elim bindE_InrE) (rule that; simp)
    have o': "run_search S (cm_uuid m) c args (fst w) = Inr out" "p = Searched out" "w' = w"
      using q conjunct2 [OF r] by (blast dest: sym)+
    from search_output_served [OF o'(1) t] show ?thesis
      unfolding payload_ok_def o'(2,3) tool_payload.case by blast
  next
    case 2
    with assms(1) pr have "bindE r (\<lambda>g. Inr (ProposedAs g)) = Inr p" "w' = w1" by (simp_all add: run_tool_def)
    moreover from this obtain gp where "p = ProposedAs gp" by (auto elim: bindE_InrE)
    ultimately show ?thesis using st by (simp only: payload_ok_def tool_payload.case)
  next
    case 3
    with assms(1) e show ?thesis by (simp add: run_tool_def)
  next
    case 4
    have r: "bindE (run_get_entity S c args w) (\<lambda>o'. Inr (EntityView o')) = Inr p \<and> w = w'"
      using assms(1) unfolding run_tool_def if_not_P [OF 4(1)] if_not_P [OF 4(2)] if_not_P [OF 4(3)] prod.inject .
    obtain out where q: "run_get_entity S c args w = Inr out" "EntityView out = p"
      using conjunct1 [OF r] by (elim bindE_InrE) (rule that; simp)
    have o': "run_get_entity S c args w = Inr out" "p = EntityView out" "w' = w"
      using q conjunct2 [OF r] by (blast dest: sym)+
    from entity_output_served [OF o'(1) [unfolded w] t] show ?thesis
      unfolding payload_ok_def o'(2,3) tool_payload.case w fst_conv snd_conv by blast
  qed
qed

lemma run_tool_raises: "run_tool S m name c args w = (Inl e, w') \<Longrightarrow> w' = w"
  using run_propose_raises [of S m c args w] unfolding run_tool_def
  by (auto simp: bindE_def split: if_splits sum.splits prod.splits)

text \<open>C16. A tool call that is refused, for an unknown name, a bad argument, a domain error or a bug,
  has changed nothing. One that answers was made for the tenant the server was started for, which is a
  UUID, and for the namespace the call names or the server defaults to: every assertion it lists, or
  names as excluded, is read from a visible row of that tenant and namespace, and in the view of an
  entity is about that entity; only a proposal may have changed anything, that tenant's own rows,
  soundly. The neighbours in the view of an entity are live edges out of the entity asked for, scoped to
  the tenant of that entity's node and not to the server's. In particular no call to \<open>memory.commit\<close>
  ever answers.\<close>

theorem tool_call_is_contained:
  "tool_outcome_ok S args w (call_tool S m name args w) \<and>
   (\<exists>r. call_tool S m ''memory.commit'' args w = (Refusal r, w))"
proof (cases "context_for S args True")
  case (Inl e)
  then show ?thesis by (simp add: call_tool_def tool_outcome_ok_def)
next
  case (Inr c)
  have t: "tc_tenant c = sv_tenant S" "is_uuid (sv_tenant S)" using context_for_tenant [OF Inr] by simp_all
  obtain e where e: "run_commit args = Inl e" using run_commit_declines by blast
  obtain r w' where run: "run_tool S m name c args w = (r, w')" by (rule prod.exhaust)
  have "tool_outcome_ok S args w (call_tool S m name args w)"
  proof (cases r)
    case (Inl x)
    with run run_tool_raises [of S m name c args w x w'] Inr show ?thesis
      by (simp add: call_tool_def tool_outcome_ok_def)
  next
    case (Inr p)
    with run run_tool_ok [of S m name c args w p w'] t context_namespace [OF \<open>context_for S args True = Inr c\<close>]
      \<open>context_for S args True = Inr c\<close>
    show ?thesis by (simp add: call_tool_def tool_outcome_ok_def)
  qed
  then show ?thesis using Inr e by (simp add: call_tool_def run_tool_def TOOL_NAMES_def)
qed

section \<open>Searching\<close>

lemma search_call:
  "call_tool S m ''memory.search'' args w =
     (case bindE (context_for S args True) (\<lambda>c. run_search S (cm_uuid m) c args (fst w)) of
        Inl e \<Rightarrow> (Refusal (refusal_for e), w)
      | Inr out \<Rightarrow> (Payload (Searched out), w))"
  by (auto simp: call_tool_def run_tool_def TOOL_NAMES_def bindE_def split: sum.split)

lemma merge_new_props:
  "distinct (map a_id m) \<Longrightarrow> distinct (map a_id (merge_new m found))"
  "set (merge_new m found) \<subseteq> set m \<union> set found"
  unfolding merge_new_def by (induction found arbitrary: m) (auto, fastforce+)

lemma scopes_known: "sc \<in> set (per_predicate f) \<Longrightarrow> \<forall>(c, v) \<in> set sc. c \<in> {''subject_id'', ''predicate''}"
  by (auto simp: per_predicate_def Let_def split: option.splits)

lemma search_shows:
  assumes "sound db" and "\<forall>u v. in_cosine (fl (1 - se_dist env u v))"
    and filters: "\<forall>(c, v) \<in> set sc. c \<in> {''subject_id'', ''predicate''}"
    and got: "search env db tenant ns vector k sc as_of = Inr hits"
  shows "\<forall>a \<in> set (map s_assertion hits). \<exists>r \<in> set (db_assertions db).
    may_show tenant ns sc as_of r \<and> a = fetched (se_jsonb env) db tenant r \<and> assertion_ok a"
proof -
  have "se_free env" using got by (auto simp: search_def guardE_def split: if_splits elim!: bindE_InrE)
  from search_nearest [OF assms(1) this filters assms(2), of tenant ns vector k as_of] got show ?thesis
    by (fastforce simp: image_iff)
qed

definition may_report :: "string \<Rightarrow> string \<Rightarrow> (string \<times> string) list \<Rightarrow> assertion_row \<Rightarrow> bool" where
  \<comment> \<open>a row of the namespace that has been retired\<close>
  "may_report tenant ns filters r \<longleftrightarrow>
     row_tenant r = tenant \<and> row_namespace r = ns \<and> row_visible r \<and> row_retracted_at r = None \<and> row_valid_to r \<noteq> None \<and>
     (\<forall>(c, v) \<in> set filters. (c = ''subject_id'' \<longrightarrow> row_subject r = v) \<and> (c = ''predicate'' \<longrightarrow> row_predicate r = v))"

lemma filters_hold:
  assumes "\<forall>(c, v) \<in> set filters. c \<in> {''subject_id'', ''predicate''}"
  shows "(\<forall>x \<in> set filters. holds (case x of (c, v) \<Rightarrow> if c = ''subject_id'' then SubjectIs v else PredicateIs v) r) \<longleftrightarrow>
    (\<forall>(c, v) \<in> set filters. (c = ''subject_id'' \<longrightarrow> row_subject r = v) \<and> (c = ''predicate'' \<longrightarrow> row_predicate r = v))"
proof (intro ball_cong refl)
  fix x assume "x \<in> set filters"
  with assms show "holds (case x of (c, v) \<Rightarrow> if c = ''subject_id'' then SubjectIs v else PredicateIs v) r \<longleftrightarrow>
    (case x of (c, v) \<Rightarrow> (c = ''subject_id'' \<longrightarrow> row_subject r = v) \<and> (c = ''predicate'' \<longrightarrow> row_predicate r = v))"
    by (cases x) auto
qed

lemma tenant_rows_may_report:
  assumes "\<forall>(c, v) \<in> set sc. c \<in> {''subject_id'', ''predicate''}"
  shows "tenant_rows db tenant (map (\<lambda>c. if c = LiveClause then RetiredClause else c) (ALWAYS ns @ [LiveClause] @
      map (\<lambda>(c, v). if c = ''subject_id'' then SubjectIs v else PredicateIs v) sc)) =
    filter (may_report tenant ns sc) (db_assertions db)"
proof -
  have "map (\<lambda>c. if c = LiveClause then RetiredClause else c) (map (\<lambda>(c, v). if c = ''subject_id'' then SubjectIs v else PredicateIs v) sc) =
      map (\<lambda>(c, v). if c = ''subject_id'' then SubjectIs v else PredicateIs v) sc"
    by (simp add: case_prod_beta)
  then show ?thesis
    unfolding tenant_rows_def map_append may_report_def filters_hold [OF assms, symmetric]
    by (intro filter_cong refl) (auto simp: ALWAYS_def)
qed

lemma retired_reports:
  assumes sound: "sound db" and filters: "\<forall>(c, v) \<in> set sc. c \<in> {''subject_id'', ''predicate''}"
    and got: "retired env db tenant ns sc k = Inr found"
  shows "\<forall>a \<in> set found. \<exists>r \<in> set (db_assertions db).
    may_report tenant ns sc r \<and> a = fetched (se_jsonb env) db tenant r"
proof
  fix a assume a: "a \<in> set found"
  let ?f = "map (\<lambda>(c, v). if c = ''subject_id'' then SubjectIs v else PredicateIs v) sc"
  let ?cs = "map (\<lambda>c. if c = LiveClause then RetiredClause else c) (ALWAYS ns @ [LiveClause] @ ?f)"
  let ?rows = "take k (sort_key (\<lambda>r. - the (row_valid_to r)) (tenant_rows db tenant ?cs))"
  have "mapE (read_row (se_jsonb env) db tenant) ?rows = Inr found"
    using got filter_clauses [OF filters]
    by (auto simp: retired_def predicates_def retired_statement_def guardE_def split: if_splits elim!: bindE_InrE)
  then have "set (map (read_row (se_jsonb env) db tenant) ?rows) = set (map Inr found)" by (simp only: mapE_Inr_conv)
  then have "Inr a \<in> read_row (se_jsonb env) db tenant ` set ?rows" unfolding set_map using a by blast
  then obtain r where r: "r \<in> set ?rows" "Inr a = read_row (se_jsonb env) db tenant r" by (rule imageE)
  have rt: "r \<in> set (tenant_rows db tenant ?cs)" using in_set_takeD [OF r(1)] by simp
  have "may_report tenant ns sc r" "r \<in> set (db_assertions db)"
    using rt unfolding tenant_rows_may_report [OF filters] by simp_all
  moreover from this sound_row_reads [OF sound, of r] r(2) [symmetric] have "a = fetched (se_jsonb env) db tenant r"
    by (simp add: may_report_def)
  ultimately show "\<exists>r \<in> set (db_assertions db). may_report tenant ns sc r \<and> a = fetched (se_jsonb env) db tenant r"
    by blast
qed

lemma trim_from_props:
  "trim_from b u as = (kept, used) \<Longrightarrow>
     used = u + (\<Sum>a\<leftarrow>kept. token_cost a) \<and> (u \<le> b \<longrightarrow> used \<le> b) \<and>
     (\<exists>rest. as = kept @ rest \<and> (\<forall>a more. rest = a # more \<longrightarrow> b < used + token_cost a))"
proof (induction b u as arbitrary: kept used rule: trim_from.induct)
  case (2 b u a as)
  show ?case
  proof (cases "b < u + token_cost a")
    case False
    obtain k' u' where "trim_from b (u + token_cost a) as = (k', u')" by (rule prod.exhaust)
    with False 2 show ?thesis by auto
  qed (use 2 in auto)
qed simp

text \<open>What a search was asked for, once its arguments have been read.\<close>

record asked =
  ak_namespace :: string
  ak_limit :: int
  ak_least :: real
  ak_as_of :: "int option"
  ak_scopes :: "(string \<times> string) list list"
  ak_budget :: int

definition asks :: "'g server \<Rightarrow> arguments \<Rightarrow> asked \<Rightarrow> bool" where
  "asks S args k \<longleftrightarrow>
     context_for S args True = Inr \<lparr>tc_tenant = sv_tenant S, tc_namespace = ak_namespace k\<rparr> \<and>
     bounded_limit args = Inr (ak_limit k) \<and> min_confidence args = Inr (ak_least k) \<and>
     parse_as_of (sv_fromiso S) args = Inr (ak_as_of k) \<and>
     (\<exists>f. store_filters args = Inr f \<and> ak_scopes k = per_predicate f) \<and>
     token_budget args = Inr (ak_budget k)"

lemma asks_bounds: "asks S args k \<Longrightarrow> 1 \<le> ak_limit k \<and> ak_limit k \<le> 50 \<and> 1 \<le> ak_budget k"
  by (auto simp: asks_def bounded_limit_def token_budget_def MAX_LIMIT_def split: json.splits if_splits)

definition answers :: "'g server \<Rightarrow> db \<Rightarrow> asked \<Rightarrow> stored_assertion \<Rightarrow> bool" where
  \<comment> \<open>an assertion of a row the search may show, confident enough\<close>
  "answers S db k a \<longleftrightarrow> ak_least k \<le> a_confidence a \<and>
     (\<exists>r \<in> set (db_assertions db). \<exists>sc \<in> set (ak_scopes k).
        may_show (sv_tenant S) (ak_namespace k) sc (ak_as_of k) r \<and>
        a = fetched (se_jsonb (be_search (sv_boundary S))) db (sv_tenant S) r \<and> assertion_ok a)"

definition reports :: "'g server \<Rightarrow> db \<Rightarrow> asked \<Rightarrow> stored_assertion \<Rightarrow> bool" where
  "reports S db k a \<longleftrightarrow>
     (\<exists>r \<in> set (db_assertions db). \<exists>sc \<in> set (ak_scopes k). may_report (sv_tenant S) (ak_namespace k) sc r \<and>
        a = fetched (se_jsonb (be_search (sv_boundary S))) db (sv_tenant S) r)"

lemma nearest_hits_props:
  assumes "sound db" and "\<forall>u v. in_cosine (fl (1 - se_dist (be_search (sv_boundary S)) u v))"
    and known: "\<And>sc. sc \<in> set scopes \<Longrightarrow> \<forall>(c, v) \<in> set sc. c \<in> {''subject_id'', ''predicate''}"
    and got: "nearest_hits S c db v n scopes as_of = Inr hits"
  shows "distinct (map a_id hits) \<and> (\<forall>a \<in> set hits. \<exists>r \<in> set (db_assertions db). \<exists>sc \<in> set scopes.
    may_show (tc_tenant c) (tc_namespace c) sc as_of r \<and>
    a = fetched (se_jsonb (be_search (sv_boundary S))) db (tc_tenant c) r \<and> assertion_ok a)"
  (is "distinct _ \<and> (\<forall>a \<in> _. ?shown a)")
proof (rule foldE_invariant [OF got [unfolded nearest_hits_def]])
  fix m sc m'
  assume sc: "sc \<in> set scopes" and m: "distinct (map a_id m) \<and> (\<forall>a \<in> set m. ?shown a)"
    and step: "bindE (search (be_search (sv_boundary S)) db (tc_tenant c) (tc_namespace c) v (nat n) sc as_of)
      (\<lambda>hits. Inr (merge_new m (map s_assertion hits))) = Inr m'"
  from step obtain found where f: "m' = merge_new m (map s_assertion found)"
    "search (be_search (sv_boundary S)) db (tc_tenant c) (tc_namespace c) v (nat n) sc as_of = Inr found"
    by (auto elim!: bindE_InrE)
  have "\<forall>a \<in> set (map s_assertion found). ?shown a"
    using search_shows [OF assms(1,2) known [OF sc] f(2)] sc by blast
  then show "distinct (map a_id m') \<and> (\<forall>a \<in> set m'. ?shown a)"
    using m merge_new_props [of m "map s_assertion found"] unfolding f(1) by blast
qed simp

lemma retired_for_props:
  assumes "sound db" and known: "\<And>sc. sc \<in> set scopes \<Longrightarrow> \<forall>(c, v) \<in> set sc. c \<in> {''subject_id'', ''predicate''}"
    and got: "retired_for S c db scopes = Inr gone"
  shows "length gone \<le> 10 \<and> distinct (map a_id gone) \<and> (\<forall>a \<in> set gone. \<exists>r \<in> set (db_assertions db). \<exists>sc \<in> set scopes.
    may_report (tc_tenant c) (tc_namespace c) sc r \<and> a = fetched (se_jsonb (be_search (sv_boundary S))) db (tc_tenant c) r)"
    (is "_ \<and> _ \<and> (\<forall>a \<in> _. ?gone a)")
proof -
  obtain merged where merged: "foldE (\<lambda>merged scoped.
         bindE (retired (be_search (sv_boundary S)) db (tc_tenant c) (tc_namespace c) scoped EXCLUDED_LIMIT)
           (\<lambda>found. Inr (merge_new merged found))) [] scopes = Inr merged" and g: "gone = take EXCLUDED_LIMIT merged"
    using got by (auto simp: retired_for_def elim!: bindE_InrE)
  have "distinct (map a_id merged) \<and> (\<forall>a \<in> set merged. ?gone a)"
  proof (rule foldE_invariant [OF merged])
    fix m sc m'
    assume sc: "sc \<in> set scopes" and m: "distinct (map a_id m) \<and> (\<forall>a \<in> set m. ?gone a)"
      and "bindE (retired (be_search (sv_boundary S)) db (tc_tenant c) (tc_namespace c) sc EXCLUDED_LIMIT)
        (\<lambda>found. Inr (merge_new m found)) = Inr m'"
    then obtain found where f: "m' = merge_new m found"
      "retired (be_search (sv_boundary S)) db (tc_tenant c) (tc_namespace c) sc EXCLUDED_LIMIT = Inr found"
      by (auto elim!: bindE_InrE)
    have "\<forall>a \<in> set found. ?gone a" using retired_reports [OF assms(1) known [OF sc] f(2)] sc by blast
    then show "distinct (map a_id m') \<and> (\<forall>a \<in> set m'. ?gone a)"
      using m merge_new_props [of m found] unfolding f(1) by blast
  qed simp
  then show ?thesis unfolding g by (auto simp: EXCLUDED_LIMIT_def take_map [symmetric] dest: in_set_takeD)
qed

text \<open>C17. Over a sound database, what \<open>memory.search\<close> answers was asked for: every assertion is that of a
  row of the server's tenant and the call's namespace which a search may show, matches one of the
  requested predicates, is at least as confident as asked and carries its citations; none is listed
  twice, they are at most the limit and at most 50, their token estimate is the one reported and is
  within the budget. Every excluded entry is a retired row of the same tenant, namespace and filters, and
  there are at most ten.\<close>

theorem search_tool_is_bounded:
  assumes "sound (fst w)" and "\<forall>u v. in_cosine (fl (1 - se_dist (be_search (sv_boundary S)) u v))"
    and "call_tool S m ''memory.search'' args w = (Payload (Searched out), w')"
  shows "\<exists>k. asks S args k \<and>
    list_all (answers S (fst w) k) (so_assertions out) \<and> distinct (map a_id (so_assertions out)) \<and>
    length (so_assertions out) \<le> nat (ak_limit k) \<and> ak_limit k \<le> 50 \<and>
    so_tokens out = (\<Sum>a\<leftarrow>so_assertions out. token_cost a) \<and> int (so_tokens out) \<le> ak_budget k \<and>
    list_all (reports S (fst w) k) (so_excluded out) \<and> length (so_excluded out) \<le> 10"
proof -
  obtain c where c: "context_for S args True = Inr c" and r: "run_search S (cm_uuid m) c args (fst w) = Inr out"
    using assms(3) unfolding search_call by (auto split: sum.splits elim!: bindE_InrE)
  obtain query limit least as_of f vectors vector hits budget gone kept used where
    parsed: "bounded_limit args = Inr limit" "min_confidence args = Inr least" "parse_as_of (sv_fromiso S) args = Inr as_of"
      "store_filters args = Inr f" "token_budget args = Inr budget"
    and hits: "nearest_hits S c (fst w) vector limit (per_predicate f) as_of = Inr hits"
    and gone: "retired_for S c (fst w) (per_predicate f) = Inr gone"
    and kept: "trim_from (nat budget) 0 (take (nat limit) (filter (\<lambda>a. least \<le> a_confidence a) hits)) = (kept, used)"
    and out: "so_assertions out = kept" "so_tokens out = used" "so_excluded out = gone"
    using r by (auto simp: run_search_def Let_def trim_to_budget_def split: prod.splits elim!: bindE_InrE)
  define k where "k = \<lparr>ak_namespace = tc_namespace c, ak_limit = limit, ak_least = least, ak_as_of = as_of,
    ak_scopes = per_predicate f, ak_budget = budget\<rparr>"
  have t: "tc_tenant c = sv_tenant S" using context_for_tenant [OF c] by simp
  then have "c = \<lparr>tc_tenant = sv_tenant S, tc_namespace = tc_namespace c\<rparr>" by simp
  then have asks: "asks S args k" using c parsed by (simp add: asks_def k_def)
  from nearest_hits_props [OF assms(1,2) scopes_known [where f = f] hits]
  have h: "distinct (map a_id hits)" "\<forall>a \<in> set hits. \<exists>r \<in> set (db_assertions (fst w)). \<exists>sc \<in> set (per_predicate f).
      may_show (tc_tenant c) (tc_namespace c) sc as_of r \<and>
      a = fetched (se_jsonb (be_search (sv_boundary S))) (fst w) (tc_tenant c) r \<and> assertion_ok a" by blast+
  from trim_from_props [OF kept] obtain rest where
    rest: "take (nat limit) (filter (\<lambda>a. least \<le> a_confidence a) hits) = kept @ rest"
    and used: "used = (\<Sum>a\<leftarrow>kept. token_cost a)" "used \<le> nat budget" by auto
  have "set kept \<subseteq> set (filter (\<lambda>a. least \<le> a_confidence a) hits)"
    using arg_cong [OF rest, of set] set_take_subset [of "nat limit" "filter (\<lambda>a. least \<le> a_confidence a) hits"] by auto
  then have "list_all (answers S (fst w) k) kept"
    using h(2) t by (fastforce simp: list_all_iff answers_def k_def)
  moreover have "distinct (map a_id (take (nat limit) (filter (\<lambda>a. least \<le> a_confidence a) hits)))"
    using h(1) by (metis distinct_map_filter distinct_take take_map)
  then have "distinct (map a_id kept)" unfolding rest by simp
  moreover have "length kept \<le> nat limit" using arg_cong [OF rest, of length] by simp
  moreover have "list_all (reports S (fst w) k) gone" "length gone \<le> 10"
    using retired_for_props [OF assms(1) scopes_known [where f = f] gone] t by (auto simp: list_all_iff reports_def k_def)
  moreover have "int used \<le> budget" using used(2) asks_bounds [OF asks] by (simp add: k_def le_nat_iff)
  ultimately show ?thesis
    using asks used(1) asks_bounds [OF asks] unfolding out by (intro exI [of _ k]) (simp add: k_def)
qed

end
