(* ===== verification/McpDemo.thy ===== *)
theory McpDemo
  imports McpLaws
begin

text \<open>One server over two facts, a near one nobody is sure of and a far one that is certain.\<close>

definition desk_tenant :: string where "desk_tenant = ''00000000-0000-0000-0000-000000000001''"

definition desk_row :: "string \<Rightarrow> real \<Rightarrow> real \<Rightarrow> assertion_row" where
  "desk_row i conf far = \<lparr>row_id = i, row_tenant = desk_tenant, row_namespace = ''n'', row_subject = ''e'',
     row_predicate = ''likes'', row_object = OStr ''tea'', row_confidence = conf, row_risk = 0, row_valid_from = 1,
     row_valid_to = None, row_recorded_at = 2, row_retracted_at = None, row_superseded_by = None,
     row_corroboration = 1, row_trace = ''tr'', row_visible = True, row_embedding = replicate EMBEDDING_DIM far\<rparr>"

definition desk_db :: db where
  "desk_db = \<lparr>db_tenants = [desk_tenant],
     db_entities = [\<lparr>en_id = ''e'', en_tenant = desk_tenant, en_type = ''user'', en_name = ''ann''\<rparr>],
     db_assertions = [desk_row ''a'' (1 / 4) 0, desk_row ''b'' 1 1],
     db_provenance = [\<lparr>pr_id = ''p'', pr_assertion = ''a'', pr_citation = shelf_citation\<rparr>,
       \<lparr>pr_id = ''q'', pr_assertion = ''b'', pr_citation = shelf_citation\<rparr>],
     db_outbox = [], db_audit = \<lparr>at_rows = [], at_next = 1\<rparr>\<rparr>"

lemma desk_sound: "sound desk_db"
  by (simp add: sound_def db_core_def sourced_def desk_db_def desk_row_def shelf_citation_def assertion_check_def pg_text_def
      assertion_refs_def citation_check_def assertion_ids_def assert_provenance_exists_def in_unit_def span_ok_def)

definition desk_server :: "list_graph server" where
  "desk_server = \<lparr>sv_tenant = desk_tenant, sv_default_namespace = ''n'',
     sv_boundary = milk_boundary\<lparr>be_search := \<lparr>se_dist = (\<lambda>u v. if hd u = 0 then 0 else 1), se_reach = (\<lambda>_ _ _. True), se_jsonb = id, se_free = True\<rparr>\<rparr>,
     sv_text = milk_text, sv_graph = None, sv_model = False, sv_ontology = likes_ontology,
     sv_thresholds = mild_thresholds, sv_fromiso = (\<lambda>_. None), sv_iso = str_int\<rparr>"

lemma desk_unit: "\<forall>u v. in_cosine (fl (1 - se_dist (be_search (sv_boundary desk_server)) u v))"
  by (simp add: desk_server_def in_cosine_def)

definition desk_moment :: call_moment where
  "desk_moment = \<lparr>cm_uuid = ''0123456789abcdef'', cm_now = 3,
     cm_calls = (\<lambda>_. \<lparr>ce_free = True, ce_recorded_at = 4, ce_at = 5, ce_now = 6\<rparr>)\<rparr>"

definition desk_arguments :: "arguments \<Rightarrow> arguments" where
  "desk_arguments extra = (''query'', JStr ''tea'') # extra"

definition desk_search :: "arguments \<Rightarrow> exn + search_output" where
  "desk_search extra = bindE (context_for desk_server (desk_arguments extra) True)
     (\<lambda>c. run_search desk_server (cm_uuid desk_moment) c (desk_arguments extra) desk_db)"

definition desk_ids :: "arguments \<Rightarrow> string list option" where
  "desk_ids extra = (case desk_search extra of Inl _ \<Rightarrow> None | Inr out \<Rightarrow> Some (map a_id (so_assertions out)))"

lemma desk_finds: "desk_ids [] = Some [''b'']"
  by code_simp

lemma desk_misses: "desk_ids [(''limit'', JInt 1)] = Some []"
  by code_simp

lemma desk_call:
  "\<exists>out. call_tool desk_server desk_moment ''memory.search'' (desk_arguments []) (desk_db, g) = (Payload (Searched out), (desk_db, g))
    \<and> map a_id (so_assertions out) = [''b'']"
proof -
  obtain out where "desk_search [] = Inr out" "map a_id (so_assertions out) = [''b'']"
    using desk_finds by (auto simp: desk_ids_def split: sum.splits)
  then show ?thesis unfolding search_call desk_search_def by simp
qed

theorem search_tool_is_bounded_witness:
  "\<exists>(out :: search_output) k. map a_id (so_assertions out) = [''b''] \<and> asks desk_server (desk_arguments []) k \<and>
    list_all (answers desk_server desk_db k) (so_assertions out) \<and> int (so_tokens out) \<le> ak_budget k"
proof -
  obtain out where out: "map a_id (so_assertions out) = [''b'']"
    "call_tool desk_server desk_moment ''memory.search'' (desk_arguments []) (desk_db, \<lparr>ng_nodes = [], ng_rels = []\<rparr>) =
      (Payload (Searched out), (desk_db, \<lparr>ng_nodes = [], ng_rels = []\<rparr>))"
    using desk_call [of "\<lparr>ng_nodes = [], ng_rels = []\<rparr>"] by (elim exE conjE) (rule that)
  have "sound (fst (desk_db, \<lparr>ng_nodes = [], ng_rels = []\<rparr>))" using desk_sound by simp
  from search_tool_is_bounded [OF this desk_unit out(2)] obtain k where "asks desk_server (desk_arguments []) k"
    "list_all (answers desk_server desk_db k) (so_assertions out)" "int (so_tokens out) \<le> ak_budget k"
    unfolding fst_conv by (elim exE conjE) (rule that)
  with out(1) show ?thesis by (intro exI [of _ out] exI [of _ k]) simp
qed

text \<open>The confidence floor is applied to the \<open>limit\<close> nearest rows, so with a limit of one the certain
  fact is not found behind the nearer doubtful one, although the search may show it.\<close>

lemma certain_fact_is_missed:
  "desk_ids [(''limit'', JInt 1)] = Some [] \<and>
   may_show desk_tenant ''n'' [] None (desk_row ''b'' 1 1) \<and> DEFAULT_MIN_CONFIDENCE \<le> row_confidence (desk_row ''b'' 1 1) \<and>
   desk_row ''b'' 1 1 \<in> set (db_assertions desk_db)"
proof -
  have "DEFAULT_MIN_CONFIDENCE \<le> 1" by code_simp
  then show ?thesis using desk_misses by (simp add: may_show_def desk_row_def desk_db_def)
qed

section \<open>A neighbour of another tenant\<close>

text \<open>The graph is asked for the neighbours of an entity and scopes its answer by the tenant of that
  entity's node. Whoever knows the id of another tenant's entity is shown that tenant's edges, with a
  server of its own and an empty list of assertions.\<close>

definition foreign_tenant :: string where "foreign_tenant = ''00000000-0000-0000-0000-000000000002''"
definition foreign_entity :: string where "foreign_entity = ''00000000-0000-0000-0000-0000000000ee''"

definition foreign_graph :: neo_graph where
  "foreign_graph = \<lparr>ng_nodes = [\<lparr>nn_entity = True, nn_key = foreign_entity, nn_tenant = Some foreign_tenant\<rparr>],
     ng_rels = [\<lparr>nl_source = foreign_entity, nl_target = (False, ''hiv''), nl_assertion = ''x'', nl_subject = foreign_entity,
       nl_predicate = ''has_condition'', nl_object_json = ''hiv'', nl_confidence = 1, nl_valid_from = 1, nl_valid_to = None,
       nl_trace = ''tr'', nl_tenant = foreign_tenant\<rparr>]\<rparr>"

definition desk_entity :: "string \<Rightarrow> (nat \<times> (string \<times> object_value) list) option" where
  \<comment> \<open>how many groups of assertions, and the neighbours\<close>
  "desk_entity i =
     (let args = [(''entity_id'', JStr i)] in
      case bindE (context_for desk_server args True) (\<lambda>c. run_get_entity desk_server c args (desk_db, foreign_graph)) of
        Inl _ \<Rightarrow> None
      | Inr out \<Rightarrow> Some (length (eo_assertions out), map (\<lambda>e. (e_predicate e, e_object e)) (eo_neighbours out)))"

lemma foreign_edge_is_shown:
  "desk_entity foreign_entity = Some (0, [(''has_condition'', OStr ''hiv'')]) \<and> foreign_tenant \<noteq> sv_tenant desk_server"
  by code_simp

end
