(* ===== verification/Uris.thy ===== *)
theory Uris
  imports Prelude
begin

text \<open>
  Resource URIs, \<open>services/mcp_server/src/mcp_server/resources/uris.py\<close> and \<open>_split\<close> of
  \<open>resources/__init__.py\<close>: the argument of a resource goes into one percent-encoded path segment and is
  read back from it. A text is the list of its code points, so the round trip holds for every text Python
  can encode and not only for the Latin-1 strings of the other theories. What the standard library does
  (\<open>str.encode\<close>, \<open>bytes.decode\<close>, \<open>urllib.parse.quote\<close>, \<open>unquote\<close> and \<open>urlsplit\<close>) is written out; its check
  of a network location with brackets or beyond ASCII is a parameter.
\<close>

section \<open>Texts and UTF-8\<close>

type_synonym unicode = "nat list"

definition codes :: "string \<Rightarrow> unicode" where
  "codes s = map of_char s"

definition scalar :: "nat \<Rightarrow> bool" where
  \<comment> \<open>a code point that can be encoded\<close>
  "scalar n \<longleftrightarrow> n < 55296 \<or> (57344 \<le> n \<and> n < 1114112)"

definition utf8_of :: "nat \<Rightarrow> nat list" where
  "utf8_of n =
     (if n < 128 then [n]
      else if n < 2048 then [192 + n div 64, 128 + n mod 64]
      else if n < 65536 then [224 + n div 4096, 128 + n div 64 mod 64, 128 + n mod 64]
      else [240 + n div 262144, 128 + n div 4096 mod 64, 128 + n div 64 mod 64, 128 + n mod 64])"

definition utf8_encode :: "unicode \<Rightarrow> exn + nat list" where
  \<comment> \<open>\<open>s.encode()\<close>: \<open>UnicodeEncodeError\<close> is a \<open>ValueError\<close>\<close>
  "utf8_encode s = (if list_all scalar s then Inr (concat (map utf8_of s)) else Inl ValueError)"

definition cont_byte :: "nat \<Rightarrow> bool" where
  "cont_byte b \<longleftrightarrow> 128 \<le> b \<and> b < 192"

definition second_byte :: "nat \<Rightarrow> nat \<Rightarrow> bool" where
  \<comment> \<open>what may follow a lead byte of three or four\<close>
  "second_byte b c \<longleftrightarrow> cont_byte c \<and> (b = 224 \<longrightarrow> 160 \<le> c) \<and> (b = 237 \<longrightarrow> c < 160) \<and> (b = 240 \<longrightarrow> 144 \<le> c)
     \<and> (b = 244 \<longrightarrow> c < 144)"

definition REPLACEMENT :: nat where "REPLACEMENT = 65533"

fun utf8_decode :: "nat list \<Rightarrow> unicode" where
  \<comment> \<open>\<open>bytes.decode('utf-8', errors='replace')\<close>\<close>
  "utf8_decode [] = []"
| "utf8_decode (b # bs) =
     (if b < 128 then b # utf8_decode bs
      else if 194 \<le> b \<and> b < 224 then
        (case bs of
           [] \<Rightarrow> [REPLACEMENT]
         | c # cs \<Rightarrow> if cont_byte c then ((b - 192) * 64 + (c - 128)) # utf8_decode cs
             else REPLACEMENT # utf8_decode bs)
      else if 224 \<le> b \<and> b < 240 then
        (case bs of
           [] \<Rightarrow> [REPLACEMENT]
         | c # cs \<Rightarrow>
             if second_byte b c then
               (case cs of
                  [] \<Rightarrow> [REPLACEMENT]
                | d # ds \<Rightarrow> if cont_byte d then (((b - 224) * 64 + (c - 128)) * 64 + (d - 128)) # utf8_decode ds
                    else REPLACEMENT # utf8_decode cs)
             else REPLACEMENT # utf8_decode bs)
      else if 240 \<le> b \<and> b < 245 then
        (case bs of
           [] \<Rightarrow> [REPLACEMENT]
         | c # cs \<Rightarrow>
             if second_byte b c then
               (case cs of
                  [] \<Rightarrow> [REPLACEMENT]
                | d # ds \<Rightarrow>
                    if cont_byte d then
                      (case ds of
                         [] \<Rightarrow> [REPLACEMENT]
                       | e # es \<Rightarrow>
                           if cont_byte e
                           then ((((b - 240) * 64 + (c - 128)) * 64 + (d - 128)) * 64 + (e - 128)) # utf8_decode es
                           else REPLACEMENT # utf8_decode ds)
                    else REPLACEMENT # utf8_decode cs)
             else REPLACEMENT # utf8_decode bs)
      else REPLACEMENT # utf8_decode bs)"

section \<open>Percent encoding\<close>

definition is_alnum_code :: "nat \<Rightarrow> bool" where
  "is_alnum_code n \<longleftrightarrow> (48 \<le> n \<and> n \<le> 57) \<or> (65 \<le> n \<and> n \<le> 90) \<or> (97 \<le> n \<and> n \<le> 122)"

definition quote_safe :: "nat \<Rightarrow> bool" where
  \<comment> \<open>\<open>_ALWAYS_SAFE\<close> of the library, and the colon of \<open>_SAFE\<close>\<close>
  "quote_safe n \<longleftrightarrow> is_alnum_code n \<or> n \<in> {95, 46, 45, 126, 58}"

definition quote_digit :: "nat \<Rightarrow> nat" where
  "quote_digit d = (if d < 10 then 48 + d else 55 + d)"

definition quote_byte :: "nat \<Rightarrow> unicode" where
  "quote_byte b = (if quote_safe b then [b] else [37, quote_digit (b div 16), quote_digit (b mod 16)])"

definition url_quote :: "unicode \<Rightarrow> exn + unicode" where
  \<comment> \<open>\<open>quote(s, safe=':')\<close>\<close>
  "url_quote s = bindE (utf8_encode s) (\<lambda>bs. Inr (concat (map quote_byte bs)))"

definition hex_value :: "nat \<Rightarrow> nat option" where
  "hex_value n =
     (if 48 \<le> n \<and> n \<le> 57 then Some (n - 48)
      else if 65 \<le> n \<and> n \<le> 70 then Some (n - 55)
      else if 97 \<le> n \<and> n \<le> 102 then Some (n - 87)
      else None)"

fun unquote_bytes :: "unicode \<Rightarrow> nat list" where
  \<comment> \<open>\<open>unquote_to_bytes\<close> of an ASCII text\<close>
  "unquote_bytes [] = []"
| "unquote_bytes (n # ns) =
     (if n = 37 then
        (case ns of
           a # b # rest \<Rightarrow>
             (case (hex_value a, hex_value b) of
                (Some x, Some y) \<Rightarrow> (x * 16 + y) # unquote_bytes rest
              | _ \<Rightarrow> n # unquote_bytes ns)
         | _ \<Rightarrow> n # unquote_bytes ns)
      else n # unquote_bytes ns)"

function url_unquote :: "unicode \<Rightarrow> unicode" where
  \<comment> \<open>\<open>unquote\<close>: each run of ASCII is decoded on its own, the rest is kept\<close>
  "url_unquote s =
     (case s of
        [] \<Rightarrow> []
      | n # ns \<Rightarrow>
          if n < 128
          then utf8_decode (unquote_bytes (takeWhile (\<lambda>n. n < 128) s)) @ url_unquote (dropWhile (\<lambda>n. n < 128) s)
          else n # url_unquote ns)"
  by pat_completeness auto

termination
  by (relation "measure length")
    (auto simp: le_imp_less_Suc length_dropWhile_le)

declare url_unquote.simps [simp del]

section \<open>The scheme\<close>

definition SCHEME :: string where "SCHEME = ''guardmem''"

definition uri_for :: "string \<Rightarrow> unicode \<Rightarrow> exn + unicode" where
  "uri_for kind argument =
     bindE (url_quote argument) (\<lambda>q. Inr (codes SCHEME @ codes ''://'' @ codes kind @ codes ''/'' @ q))"

definition scheme_code :: "nat \<Rightarrow> bool" where
  "scheme_code n \<longleftrightarrow> is_alnum_code n \<or> n \<in> {43, 45, 46}"

definition lower_code :: "nat \<Rightarrow> nat" where
  "lower_code n = (if 65 \<le> n \<and> n \<le> 90 then n + 32 else n)"

definition split_scheme :: "unicode \<Rightarrow> unicode \<times> unicode" where
  \<comment> \<open>the scheme and the rest\<close>
  "split_scheme url =
     (let before = takeWhile (\<lambda>n. n \<noteq> 58) url; after = dropWhile (\<lambda>n. n \<noteq> 58) url
      in case before of
           [] \<Rightarrow> ([], url)
         | c # _ \<Rightarrow>
             if after \<noteq> [] \<and> is_alnum_code c \<and> 57 < c \<and> list_all scheme_code before
             then (map lower_code before, tl after) else ([], url))"

record split_url =
  su_scheme :: unicode
  su_netloc :: unicode
  su_path :: unicode

definition urlsplit :: "(unicode \<Rightarrow> bool) \<Rightarrow> unicode \<Rightarrow> exn + split_url" where
  \<comment> \<open>the parts \<open>_split\<close> reads; \<open>netloc_ok\<close> decides for a netloc with brackets or beyond ASCII\<close>
  "urlsplit netloc_ok url =
     (let url = filter (\<lambda>n. n \<notin> {9, 10, 13}) (dropWhile (\<lambda>n. n \<le> 32) url);
          (scheme, rest) = split_scheme url;
          slashes = (take 2 rest = [47, 47]);
          body = (if slashes then drop 2 rest else rest);
          netloc = (if slashes then takeWhile (\<lambda>n. n \<notin> {47, 63, 35}) body else []);
          path = (if slashes then dropWhile (\<lambda>n. n \<notin> {47, 63, 35}) body else body)
      in if list_all (\<lambda>n. n < 128 \<and> n \<noteq> 91 \<and> n \<noteq> 93) netloc \<or> netloc_ok netloc
         then Inr \<lparr>su_scheme = scheme, su_netloc = netloc,
                   su_path = takeWhile (\<lambda>n. n \<noteq> 63) (takeWhile (\<lambda>n. n \<noteq> 35) path)\<rparr>
         else Inl ValueError)"

fun split_on :: "nat \<Rightarrow> unicode \<Rightarrow> unicode list" where
  \<comment> \<open>\<open>s.split(sep)\<close>\<close>
  "split_on sep [] = [[]]"
| "split_on sep (n # ns) =
     (if n = sep then [] # split_on sep ns
      else (case split_on sep ns of [] \<Rightarrow> [[n]] | p # ps \<Rightarrow> (n # p) # ps))"

definition split_uri :: "(unicode \<Rightarrow> bool) \<Rightarrow> unicode \<Rightarrow> exn + unicode \<times> unicode" where
  \<comment> \<open>\<open>_split\<close>\<close>
  "split_uri netloc_ok uri =
     bindE (urlsplit netloc_ok uri) (\<lambda>parsed.
       if su_scheme parsed \<noteq> codes SCHEME then Inl ToolRefused
       else (case map url_unquote (filter (\<lambda>p. p \<noteq> []) (split_on 47 (su_path parsed))) of
           [] \<Rightarrow> Inl ToolRefused
         | argument # _ \<Rightarrow> Inr (su_netloc parsed, argument)))"

section \<open>Reading back what was written\<close>

lemma utf8_digits:
  fixes n :: nat
  obtains a b c where "n = a * 4096 + b * 64 + c" "b < 64" "c < 64" "n div 4096 = a" "n div 64 mod 64 = b" "n mod 64 = c"
    "n div 64 = a * 64 + b"
proof
  have d: "n div 64 div 64 = n div 4096" by (simp add: div_mult2_eq [symmetric])
  show q: "n div 64 = n div 4096 * 64 + n div 64 mod 64" using div_mult_mod_eq [of "n div 64" 64] d by simp
  have "n = n div 64 * 64 + n mod 64" by simp
  with q show "n = n div 4096 * 4096 + n div 64 mod 64 * 64 + n mod 64" by linarith
qed simp_all

lemma decode_encoded_char:
  assumes "scalar n"
  shows "utf8_decode (utf8_of n @ bs) = n # utf8_decode bs"
proof -
  obtain a b c where n: "n = a * 4096 + b * 64 + c" "b < 64" "c < 64"
    and d: "n div 4096 = a" "n div 64 mod 64 = b" "n mod 64 = c" "n div 64 = a * 64 + b"
    by (rule utf8_digits)
  consider "n < 128" | "128 \<le> n" "n < 2048" | "2048 \<le> n" "n < 65536" | "65536 \<le> n" by linarith
  then show ?thesis
  proof cases
    case 2
    then have "a = 0" using n by linarith
    then have "2 \<le> b" "b < 32" using 2 n(1,3) by linarith+
    with \<open>a = 0\<close> 2 n d show ?thesis by (simp add: utf8_of_def cont_byte_def)
  next
    case 3
    then have a: "a < 16" "a = 0 \<Longrightarrow> 32 \<le> b" "a = 13 \<Longrightarrow> b < 32"
      using n assms unfolding scalar_def by linarith+
    then have "second_byte (224 + a) (128 + b)" using n by (simp add: second_byte_def cont_byte_def)
    with 3 n d a show ?thesis by (simp add: utf8_of_def cont_byte_def)
  next
    case 4
    define h l where "h = n div 262144" and "l = a mod 64"
    have "h = a div 64" unfolding h_def d(1) [symmetric] by (simp add: div_mult2_eq [symmetric])
    then have a: "a = h * 64 + l" "l < 64" "a mod 64 = l" by (simp_all add: l_def)
    have "n < 1114112" using 4 assms by (simp add: scalar_def)
    then have h: "h < 5" "h = 0 \<Longrightarrow> 16 \<le> l" "h = 4 \<Longrightarrow> l < 16" using n a 4 by linarith+
    then have "second_byte (240 + h) (128 + l)" using a by (simp add: second_byte_def cont_byte_def)
    moreover have "((h * 64 + l) * 64 + b) * 64 + c = n" using n(1) a(1) by simp
    moreover have "n div 262144 = h" by (simp add: h_def)
    ultimately show ?thesis using 4 n(2,3) d(1-3) a(2,3) h(1) by (simp add: utf8_of_def cont_byte_def)
  qed (simp add: utf8_of_def)
qed

lemma decode_encode: "list_all scalar s \<Longrightarrow> utf8_decode (concat (map utf8_of s)) = s"
  by (induction s) (auto simp: decode_encoded_char)

lemma utf8_of_bytes: "scalar n \<Longrightarrow> b \<in> set (utf8_of n) \<Longrightarrow> b < 256"
  by (auto simp: utf8_of_def scalar_def split: if_splits)

lemma quoted_byte:
  assumes "b < 256"
  shows "unquote_bytes (quote_byte b @ ns) = b # unquote_bytes ns"
proof (cases "quote_safe b")
  case True
  then have "b \<noteq> 37" by (auto simp: quote_safe_def is_alnum_code_def)
  with True show ?thesis by (simp add: quote_byte_def)
next
  case False
  have v: "hex_value (quote_digit d) = Some d" if "d < 16" for d
    using that by (auto simp: quote_digit_def hex_value_def)
  have "b div 16 < 16" "b mod 16 < 16" using assms by simp_all
  with v False show ?thesis by (simp add: quote_byte_def)
qed

lemma quoted_bytes: "list_all (\<lambda>b. b < 256) bs \<Longrightarrow> unquote_bytes (concat (map quote_byte bs)) = bs"
  by (induction bs) (simp_all add: quoted_byte)

lemma quote_byte_codes:
  assumes "b < 256" and "n \<in> set (quote_byte b)"
  shows "n < 128 \<and> n \<notin> {35, 47, 63} \<and> 32 < n"
proof (cases "quote_safe b")
  case True
  then have "n = b" using assms(2) by (simp add: quote_byte_def)
  with True show ?thesis by (auto simp: quote_safe_def is_alnum_code_def)
next
  case False
  have hex: "quote_digit d < 71 \<and> 48 \<le> quote_digit d \<and> quote_digit d \<noteq> 63" if "d < 16" for d
    using that by (auto simp: quote_digit_def)
  have "b div 16 < 16" "b mod 16 < 16" using assms by simp_all
  note hex [OF this(1)] hex [OF this(2)]
  moreover have "n = 37 \<or> n = quote_digit (b div 16) \<or> n = quote_digit (b mod 16)"
    using False assms(2) by (simp add: quote_byte_def)
  ultimately show ?thesis by auto
qed

lemma url_unquote_Nil [simp]: "url_unquote [] = []"
  by (simp add: url_unquote.simps)

lemma url_unquote_Cons:
  "n < 128 \<Longrightarrow> url_unquote (n # ns) =
     utf8_decode (unquote_bytes (takeWhile (\<lambda>n. n < 128) (n # ns))) @ url_unquote (dropWhile (\<lambda>n. n < 128) (n # ns))"
  by (subst url_unquote.simps) (simp only: list.case if_True)

lemma url_unquote_ascii:
  assumes "list_all (\<lambda>n. n < 128) s"
  shows "url_unquote s = utf8_decode (unquote_bytes s)"
proof (cases s)
  case (Cons n ns)
  then have "n < 128" using assms by simp
  moreover have "takeWhile (\<lambda>n. n < 128) (n # ns) = n # ns" "dropWhile (\<lambda>n. n < 128) (n # ns) = []"
    using assms unfolding Cons by (auto simp: list_all_iff takeWhile_eq_all_conv)
  ultimately show ?thesis unfolding Cons by (simp only: url_unquote_Cons url_unquote_Nil append_Nil2)
qed simp

lemma unquote_quoted:
  assumes "url_quote s = Inr q"
  shows "url_unquote q = s" and "list_all (\<lambda>n. n < 128 \<and> n \<notin> {35, 47, 63} \<and> 32 < n) q" and "s \<noteq> [] \<Longrightarrow> q \<noteq> []"
proof -
  have sc: "list_all scalar s" and q: "q = concat (map quote_byte (concat (map utf8_of s)))"
    using assms by (auto simp: url_quote_def utf8_encode_def split: if_splits)
  have bytes: "list_all (\<lambda>b. b < 256) (concat (map utf8_of s))"
    using sc utf8_of_bytes by (auto simp: list_all_iff)
  show plain: "list_all (\<lambda>n. n < 128 \<and> n \<notin> {35, 47, 63} \<and> 32 < n) q"
    using bytes quote_byte_codes unfolding q list_all_iff by fastforce
  then have "list_all (\<lambda>n. n < 128) q" by (simp add: list_all_iff)
  note ascii = url_unquote_ascii [OF this]
  have "utf8_decode (unquote_bytes q) = s" unfolding q quoted_bytes [OF bytes] by (rule decode_encode [OF sc])
  with ascii show "url_unquote q = s" by simp
  show "s \<noteq> [] \<Longrightarrow> q \<noteq> []"
    using \<open>url_unquote q = s\<close> by auto
qed

lemma split_on_whole: "sep \<notin> set s \<Longrightarrow> split_on sep s = [s]"
  by (induction s) auto

definition kind_text :: "string \<Rightarrow> bool" where
  \<comment> \<open>an authority that is a plain word\<close>
  "kind_text kind \<longleftrightarrow> list_all (\<lambda>c. is_alnum_code (of_char c)) kind"

lemma kind_codes: "kind_text kind \<Longrightarrow> n \<in> set (codes kind) \<Longrightarrow> is_alnum_code n"
  by (auto simp: kind_text_def codes_def list_all_iff)

lemma uri_parses:
  assumes "kind_text kind" and "list_all scalar argument"
  shows "\<exists>uri. uri_for kind argument = Inr uri \<and>
    split_uri ok uri = (if argument = [] then Inl ToolRefused else Inr (codes kind, argument))"
proof -
  obtain q where q: "url_quote argument = Inr q"
    using assms(2) by (simp add: url_quote_def utf8_encode_def)
  have plain: "n < 128 \<and> n \<notin> {35, 47, 63} \<and> 32 < n" if "n \<in> set q" for n
    using unquote_quoted(2) [OF q] that unfolding list_all_iff by blast
  let ?rest = "codes kind @ 47 # q"
  let ?uri = "codes ''guardmem'' @ codes ''://'' @ codes kind @ codes ''/'' @ q"
  have uri: "uri_for kind argument = Inr ?uri" using q by (simp add: uri_for_def SCHEME_def)
  have sep: "codes ''://'' = [58, 47, 47]" "codes ''/'' = [47]"
    "codes ''guardmem'' = [103, 117, 97, 114, 100, 109, 101, 109]" by (simp_all add: codes_def)
  have k: "n \<notin> {9, 10, 13, 47, 63, 35, 91, 93} \<and> n < 128" if "n \<in> set (codes kind)" for n
    using kind_codes [OF assms(1) that] by (auto simp: is_alnum_code_def)
  have stripped: "filter (\<lambda>n. n \<notin> {9, 10, 13}) (dropWhile (\<lambda>n. n \<le> 32) ?uri) = ?uri"
  proof -
    have "dropWhile (\<lambda>n. n \<le> 32) ?uri = ?uri" unfolding sep by simp
    moreover have "filter (\<lambda>n. n \<notin> {9, 10, 13}) (codes kind) = codes kind" using k by (intro filter_True) auto
    moreover have "filter (\<lambda>n. n \<notin> {9, 10, 13}) q = q"
    proof (intro filter_True ballI)
      fix n assume "n \<in> set q"
      with plain have "32 < n" by blast
      then show "n \<notin> {9, 10, 13}" by auto
    qed
    ultimately show ?thesis unfolding sep by simp
  qed
  have scheme: "split_scheme ?uri = (codes ''guardmem'', [47, 47] @ ?rest)"
    unfolding sep by (simp add: split_scheme_def Let_def is_alnum_code_def scheme_code_def lower_code_def)
  have net: "takeWhile (\<lambda>n. n \<notin> {47, 63, 35}) ?rest = codes kind" "dropWhile (\<lambda>n. n \<notin> {47, 63, 35}) ?rest = 47 # q"
    using k by (auto simp: takeWhile_append2 dropWhile_append2)
  have path: "takeWhile (\<lambda>n. n \<noteq> 63) (takeWhile (\<lambda>n. n \<noteq> 35) (47 # q)) = 47 # q"
  proof -
    have "takeWhile (\<lambda>n. n \<noteq> 35) (47 # q) = 47 # q" "takeWhile (\<lambda>n. n \<noteq> 63) (47 # q) = 47 # q"
      using plain unfolding takeWhile_eq_all_conv by auto
    then show ?thesis by (simp only:)
  qed
  have parsed: "urlsplit ok ?uri = Inr \<lparr>su_scheme = codes ''guardmem'', su_netloc = codes kind, su_path = 47 # q\<rparr>"
    unfolding urlsplit_def stripped scheme Let_def prod.case
    using k net path by (auto simp: list_all_iff)
  have "47 \<notin> set q" using plain by blast
  then have "split_on 47 (47 # q) = [[], q]" by (simp add: split_on_whole)
  moreover have "q = [] \<longleftrightarrow> argument = []" using unquote_quoted(1,3) [OF q] q
    by (auto simp: url_quote_def utf8_encode_def)
  ultimately show ?thesis
    using unquote_quoted(1) [OF q] parsed uri by (intro exI [of _ ?uri]) (simp add: split_uri_def SCHEME_def)
qed

text \<open>C27. Whatever the argument is, as long as it can be encoded at all and is not empty, the URI built for
  it is read back as the same kind and the same argument: slashes, spaces, percent signs, colons and
  characters of any script included. An argument that is empty is refused when its URI is read.\<close>

theorem uri_reads_back:
  assumes "kind_text kind" and "list_all scalar argument"
  shows "\<exists>uri. uri_for kind argument = Inr uri \<and>
    split_uri ok uri = (if argument = [] then Inl ToolRefused else Inr (codes kind, argument))"
  by (rule uri_parses [OF assms])

theorem uri_reads_back_witness:
  "\<exists>uri. uri_for ''memory'' (codes ''a/b %41'' @ [8364]) = Inr uri \<and>
    split_uri (\<lambda>_. False) uri = Inr (codes ''memory'', codes ''a/b %41'' @ [8364])"
proof -
  have "kind_text ''memory''" "list_all scalar (codes ''a/b %41'' @ [8364])"
    by (simp_all add: kind_text_def codes_def is_alnum_code_def scalar_def)
  from uri_reads_back [OF this, of "\<lambda>_. False"] show ?thesis by simp
qed

end
