(* ===== verification/Resources.thy ===== *)
theory Resources
  imports McpDemo Uris
begin

text \<open>
  What a client attaches rather than calls: the resources (\<open>resources/__init__.py\<close>, \<open>memory.py\<close>, \<open>audit.py\<close>,
  \<open>ontology.py\<close>) and the prompts (\<open>prompts\<close>) of the MCP server. Parsing a URI works on texts of any script; the
  readers below it work on the Latin-1 strings of the other theories, so a read whose argument is outside
  them has no result here. The date of an instant, and the YAML of an ontology, are parameters.
\<close>

section \<open>The believed memory of a namespace\<close>

definition SNAPSHOT_LIMIT :: nat where "SNAPSHOT_LIMIT = 100"
definition RETIRED_LIMIT :: nat where "RETIRED_LIMIT = 25"

definition fixed2 :: "real \<Rightarrow> string" where
  \<comment> \<open>\<open>:.2f\<close> of a double in the unit interval: the exact value, ties to even\<close>
  "fixed2 x =
     (let n = nat (rne (x * 100)) in str_nat (n div 100) @ ''.'' @ [digit (n mod 100 div 10), digit (n mod 10)])"

definition headline :: "stored_assertion list \<Rightarrow> string" where
  "headline live =
     (if length live < SNAPSHOT_LIMIT
      then ''**'' @ str_nat (length live) @ '' live assertion(s).** This is the whole believed state.''
      else ''**Showing '' @ str_nat SNAPSHOT_LIMIT @ '' live assertions, and there may be more.** '' @
        ''This is a ceiling rather than a page - the subset is stable but '' @
        ''arbitrary, because the embedder in this build models no semantics. Use '' @
        ''`memory.search` with a predicate filter for a complete answer about one '' @ ''question.'')"

definition object_text :: "stored_assertion \<Rightarrow> string" where
  "object_text a = py_str (obj_json (a_object a))"

definition bullet :: "stored_assertion \<Rightarrow> string list" where
  "bullet a =
     (''- **'' @ object_text a @ ''** - confidence '' @ fixed2 (a_confidence a) @
        (if 1 < a_corroboration a then '', corroborated '' @ str_int (a_corroboration a) @ ''x'' else [])) #
     (case a_provenance a of
        [] \<Rightarrow> []
      | p # _ \<Rightarrow> [''  - source ('' @ source_tier_value (pv_tier p) @ ''): \"'' @ pv_verbatim p @ ''\"''])"

definition retired_section :: "(int \<Rightarrow> string) \<Rightarrow> stored_assertion list \<Rightarrow> string list" where
  \<comment> \<open>the parameter is \<open>t.date().isoformat()\<close>\<close>
  "retired_section date gone =
     (if gone = [] then []
      else [''## Retired'', [], ''No longer believed. Kept, never deleted - ADR-0002.'', []] @
        map (\<lambda>a. ''- ~~'' @ a_predicate a @ '': '' @ object_text a @ ''~~ - retired '' @
            (case a_valid_to a of None \<Rightarrow> ''unknown'' | Some t \<Rightarrow> date t)) gone @ [[]])"

definition rstrip :: "string \<Rightarrow> string" where
  "rstrip s = rev (lstrip (rev s))"

definition render_memory :: "(int \<Rightarrow> string) \<Rightarrow> string \<Rightarrow> stored_assertion list \<Rightarrow> stored_assertion list \<Rightarrow> string" where
  \<comment> \<open>\<open>_render\<close>\<close>
  "render_memory date ns live gone =
     rstrip (join newline
       ([''# Believed memory - '' @ ns, []] @
        (if live = []
         then [''GuardMem believes nothing about this namespace yet.'', [],
           ''That is different from an error: the namespace is readable and holds '' @
           ''no live assertions. A fact reaches here after `memory.propose` '' @
           ''governs it **and** the outbox relay makes it visible.'', []]
         else [headline live, []] @
           concat (map (\<lambda>p. [''## '' @ p, []] @
               concat (map bullet (filter (\<lambda>a. a_predicate a = p) (sort_key object_text live))) @ [[]])
             (sorted_list_of_set (set (map a_predicate live))))) @
        retired_section date gone)) @ newline"

definition read_memory :: "'g server \<Rightarrow> (int \<Rightarrow> string) \<Rightarrow> tool_context \<Rightarrow> string \<Rightarrow> db \<Rightarrow> exn + string" where
  "read_memory S date c ns db =
     bindE (be_embed (sv_boundary S) [ns]) (\<lambda>vectors.
     bindE (case vectors of [] \<Rightarrow> Inl IndexError | v # _ \<Rightarrow> Inr v) (\<lambda>vector.
     bindE (search (be_search (sv_boundary S)) db (tc_tenant c) (tc_namespace c) vector SNAPSHOT_LIMIT [] None) (\<lambda>live.
     bindE (retired (be_search (sv_boundary S)) db (tc_tenant c) (tc_namespace c) [] RETIRED_LIMIT) (\<lambda>gone.
       Inr (render_memory date ns (map s_assertion live) gone)))))"

section \<open>The decision record of a trace\<close>

definition MAX_EVENTS :: nat where "MAX_EVENTS = 200"

definition event_view :: "(int \<Rightarrow> string) \<Rightarrow> audit_event \<Rightarrow> json" where
  "event_view fmt e =
     JObj [(''seq'', case ev_seq e of None \<Rightarrow> JNull | Some n \<Rightarrow> JInt n), (''kind'', JStr (ev_kind e)),
       (''created_at'', JStr (fmt (ev_created e))), (''prev_digest'', JStr (ev_prev e)),
       (''digest'', JStr (ev_digest e)), (''payload'', JObj (ev_payload e))]"

definition read_audit ::
    "'g server \<Rightarrow> ((string \<times> json) list \<Rightarrow> (string \<times> json) list) \<Rightarrow> tool_context \<Rightarrow> string \<Rightarrow> db \<Rightarrow> exn + json" where
  \<comment> \<open>before \<open>json.dumps\<close>; the second parameter is the audit payload through \<open>jsonb\<close>\<close>
  "read_audit S jsonb c trace db =
     guardE (be_free (sv_boundary S)) (GM StoreUnavailable)
       (let matched = filter (\<lambda>e. ev_trace e = trace) (read_chain jsonb (db_audit db) (tc_tenant c))
        in if matched = [] then Inl ToolRefused
           else Inr (JObj [(''trace_id'', JStr trace), (''tenant_id'', JStr (tc_tenant c)),
             (''event_count'', JInt (int (length matched))), (''truncated'', JBool (MAX_EVENTS < length matched)),
             (''events'', JList (map (event_view (sv_iso S)) (take MAX_EVENTS matched)))]))"

section \<open>The predicate schema\<close>

definition read_ontology :: "'g server \<Rightarrow> string \<Rightarrow> string" where
  "read_ontology S ns =
     ''# GuardMem predicate schema for namespace '' @ ns @ newline @
     ''# pack: '' @ on_name (sv_ontology S) @ '' v'' @ str_int (on_version (sv_ontology S)) @ newline @
     ''#'' @ newline @
     ''# This server binds one pack for every namespace it serves. If you expected a'' @ newline @
     ''# different one, that is configuration rather than this namespace - see '' @
     ''MCP_INTEGRATION.md '' @ [CHR 0xA7] @ ''3.'' @ newline @
     ''#'' @ newline @
     ''# A predicate that is not below is quarantined by the schema gate, not '' @ ''stored.'' @ newline @ newline @
     te_yaml (sv_text S) (sv_ontology S)"

section \<open>Dispatch\<close>

datatype resource_body =
    Markdown string
  | JsonDocument json
  | Yaml string

definition string_of :: "unicode \<Rightarrow> string option" where
  "string_of s = (if list_all (\<lambda>n. n < 256) s then Some (map char_of s) else None)"

definition list_resources :: "'g server \<Rightarrow> exn + unicode list" where
  \<comment> \<open>the URIs listed\<close>
  "list_resources S =
     (if sv_default_namespace S = [] then Inr []
      else mapE (\<lambda>kind. uri_for kind (codes (sv_default_namespace S))) [''memory'', ''ontology''])"

definition serve_resource ::
    "'g server \<Rightarrow> (int \<Rightarrow> string) \<Rightarrow> ((string \<times> json) list \<Rightarrow> (string \<times> json) list) \<Rightarrow> db \<Rightarrow> unicode \<Rightarrow> string
     \<Rightarrow> exn + resource_body" where
  \<comment> \<open>\<open>read_resource\<close> once the URI has been split\<close>
  "serve_resource S date jsonb db kind argument =
     (if kind \<notin> codes ` {''memory'', ''audit'', ''ontology''} then Inl ToolRefused
      else let scoped = (kind \<noteq> codes ''audit'')
           in bindE (context_for S (if scoped then [(''namespace'', JStr argument)] else []) scoped) (\<lambda>c.
                if kind = codes ''memory'' then bindE (read_memory S date c argument db) (\<lambda>t. Inr (Markdown t))
                else if kind = codes ''audit'' then bindE (read_audit S jsonb c argument db) (\<lambda>j. Inr (JsonDocument j))
                else Inr (Yaml (read_ontology S argument))))"

definition read_resource ::
    "'g server \<Rightarrow> (int \<Rightarrow> string) \<Rightarrow> ((string \<times> json) list \<Rightarrow> (string \<times> json) list) \<Rightarrow> (unicode \<Rightarrow> bool) \<Rightarrow> db \<Rightarrow> unicode
     \<Rightarrow> (exn + resource_body) option" where
  \<comment> \<open>\<open>None\<close>: the argument is not a Latin-1 string\<close>
  "read_resource S date jsonb netloc_ok db uri =
     (case split_uri netloc_ok uri of
        Inl e \<Rightarrow> Some (Inl e)
      | Inr (kind, argument) \<Rightarrow> map_option (serve_resource S date jsonb db kind) (string_of argument))"

lemma codes_less: "n \<in> set (codes s) \<Longrightarrow> n < 256"
  using code_less unfolding codes_def code_def by auto

lemma string_of_codes: "string_of (codes s) = Some s"
  using codes_less [of _ s] by (auto simp: string_of_def list_all_iff) (simp add: codes_def o_def)

lemma scalar_codes: "list_all scalar (codes s)"
  using codes_less [of _ s] by (fastforce simp: list_all_iff scalar_def)

lemma attached_by_its_uri:
  assumes "kind_text kind" and "argument \<noteq> []"
  shows "\<exists>uri. uri_for kind (codes argument) = Inr uri \<and>
    read_resource S date jsonb ok db uri = Some (serve_resource S date jsonb db (codes kind) argument)"
proof -
  have "codes argument \<noteq> []" using assms(2) by (simp add: codes_def)
  with uri_parses [OF assms(1) scalar_codes, of argument ok] show ?thesis
    by (auto simp: read_resource_def string_of_codes)
qed

section \<open>Prompts\<close>

definition required :: "arguments \<Rightarrow> string \<Rightarrow> exn + string" where
  "required args name = require_text name args"

definition optional :: "arguments \<Rightarrow> string \<Rightarrow> exn + string option" where
  "optional args name =
     (case get_or args name JNull of
        JNull \<Rightarrow> Inr None
      | JStr s \<Rightarrow> Inr (if strip s = [] then None else Some (strip s))
      | _ \<Rightarrow> Inl ToolRefused)"

definition prompt_k :: "arguments \<Rightarrow> exn + int" where
  \<comment> \<open>\<open>_k\<close>\<close>
  "prompt_k args =
     bindE (optional args ''k'') (\<lambda>given.
       case given of
         None \<Rightarrow> Inr 3
       | Some s \<Rightarrow> (case py_int s of None \<Rightarrow> Inl ToolRefused | Some n \<Rightarrow> if 1 \<le> n \<and> n \<le> 10 then Inr n else Inl ToolRefused))"

record served_prompt =
  sp_text :: string
  sp_version_id :: string
  sp_canary :: string
  sp_k :: "int option"

definition same_pack :: "'g server \<Rightarrow> arguments \<Rightarrow> exn + unit" where
  \<comment> \<open>the \<open>ontology_ref\<close> a call may name\<close>
  "same_pack S args =
     bindE (optional args ''ontology_ref'') (\<lambda>given.
       case given of
         None \<Rightarrow> Inr ()
       | Some name \<Rightarrow> if name = on_name (sv_ontology S) then Inr () else Inl ToolRefused)"

definition build_extract :: "'g server \<Rightarrow> string \<Rightarrow> arguments \<Rightarrow> exn + served_prompt" where
  "build_extract S canary args =
     bindE (required args ''content'') (\<lambda>content.
     bindE (same_pack S args) (\<lambda>_.
     bindE (render (te_files (sv_text S)) ''extract_memories'' 2
         [(''content'', content), (''ontology'', te_yaml (sv_text S) (sv_ontology S)), (''canary'', canary)]) (\<lambda>prompt.
     bindE (prompt_k args) (\<lambda>k.
       Inr \<lparr>sp_text = rp_text prompt, sp_version_id = rp_version_id prompt, sp_canary = canary, sp_k = Some k\<rparr>))))"

definition build_adjudicate :: "'g server \<Rightarrow> string \<Rightarrow> arguments \<Rightarrow> exn + served_prompt" where
  "build_adjudicate S canary args =
     bindE (required args ''candidate'') (\<lambda>candidate.
     bindE (required args ''incumbent'') (\<lambda>incumbent.
     bindE (same_pack S args) (\<lambda>_.
     bindE (render (te_files (sv_text S)) ''adjudicate_conflict'' 1
         [(''candidate'', candidate), (''incumbents'', incumbent), (''canary'', canary)]) (\<lambda>prompt.
       Inr \<lparr>sp_text = rp_text prompt, sp_version_id = rp_version_id prompt, sp_canary = canary, sp_k = None\<rparr>))))"

definition build_review_brief :: "arguments \<Rightarrow> exn + served_prompt" where
  "build_review_brief args = bindE (required args ''task_id'') (\<lambda>_. Inl ToolRefused)"

definition build_hygiene :: "arguments \<Rightarrow> exn + served_prompt" where
  "build_hygiene args =
     bindE (required args ''namespace'') (\<lambda>_. bindE (optional args ''window'') (\<lambda>_. Inl ToolRefused))"

definition get_prompt :: "'g server \<Rightarrow> string \<Rightarrow> string \<Rightarrow> arguments \<Rightarrow> exn + served_prompt" where
  "get_prompt S canary name args =
     (if name = ''guardmem/extract_memories'' then build_extract S canary args
      else if name = ''guardmem/adjudicate_conflict'' then build_adjudicate S canary args
      else if name = ''guardmem/review_brief'' then build_review_brief args
      else if name = ''guardmem/memory_hygiene_report'' then build_hygiene args
      else Inl ToolRefused)"

end
