(* ===== verification/Discrimination.thy ===== *)
theory Discrimination
  imports PyText "HOL-Library.Multiset"
begin

text \<open>
  Whether the scores separate kept candidates from rejected ones, \<open>eval/discrimination.py\<close>: the area
  under the ROC curve by average ranks, the gate's verdict on it, and the agreement of two labellings.
  Every floating operation is rounded. NumPy may add up an array pairwise; \<open>np_sum\<close> adds from the left,
  and \<open>np_sum_exact\<close> shows that the sums taken here are exact, so the order makes no difference.
\<close>

section \<open>Ranks\<close>

definition np_sum :: "real list \<Rightarrow> real" where
  "np_sum xs = foldl (\<lambda>a x. fl (a + x)) 0 xs"

definition np_mean :: "real list \<Rightarrow> real" where
  "np_mean xs = fl (np_sum xs / real (length xs))"

definition argsort :: "real list \<Rightarrow> nat list" where
  "argsort scores = sort_key (\<lambda>i. scores ! i) [0..<length scores]"

definition put_at :: "nat list \<Rightarrow> real list \<Rightarrow> real list \<Rightarrow> real list" where
  \<comment> \<open>\<open>ranks[idx] = values\<close>\<close>
  "put_at idx vals ranks = fold (\<lambda>(i, v) rs. rs[i := v]) (zip idx vals) ranks"

definition tie_step :: "real list \<Rightarrow> nat list \<Rightarrow> nat \<Rightarrow> real list \<times> nat \<Rightarrow> real list \<times> nat" where
  \<comment> \<open>the body of the loop of \<open>_average_ranks\<close>, over the ranks and \<open>start\<close>\<close>
  "tie_step ordered order index st =
     (let (ranks, start) = st
      in if index = length ordered \<or> ordered ! index \<noteq> ordered ! start
         then (if 1 < index - start
               then (let g = take (index - start) (drop start order)
                     in put_at g (replicate (length g) (np_mean (map ((!) ranks) g))) ranks)
               else ranks, index)
         else (ranks, start))"

definition average_ranks :: "real list \<Rightarrow> real list" where
  "average_ranks scores =
     (let order = argsort scores;
          ranks = put_at order (map real [1..<length scores + 1]) (replicate (length scores) 0);
          ordered = map ((!) scores) order
      in fst (fold (tie_step ordered order) [1..<length ordered + 1] (ranks, 0)))"

definition auroc :: "bool list \<Rightarrow> real list \<Rightarrow> exn + real" where
  "auroc labels scores =
     (if length labels \<noteq> length scores then Inl ValueError
      else if labels = [] then Inl ValueError
      else let kept = length (filter id labels); rejected = length labels - kept
           in if kept = 0 \<or> rejected = 0 then Inl ValueError
              else let ranks = average_ranks scores;
                       kept_rank_sum = np_sum (map snd (filter fst (zip labels ranks)))
                   in Inr (fl (fl (kept_rank_sum - fl (real (kept * (kept + 1)) / 2)) / real (kept * rejected))))"

section \<open>The gate\<close>

datatype verdict = PASS | MARGINAL | FAIL

definition PASS_FLOOR :: real where "PASS_FLOOR = fl (80 / 100)"
definition MARGINAL_FLOOR :: real where "MARGINAL_FLOOR = fl (75 / 100)"

definition verdict_of :: "real \<Rightarrow> verdict" where
  "verdict_of score = (if PASS_FLOOR \<le> score then PASS else if MARGINAL_FLOOR \<le> score then MARGINAL else FAIL)"

record labelled =
  lb_candidate :: string
  lb_keep :: bool
  lb_scores :: "(string \<times> real) list"

record discrimination_report =
  rp_verdict :: verdict
  rp_auroc :: real
  rp_by_score :: "(string \<times> real) list"
  rp_labelled :: nat
  rp_kept :: nat

definition score_names :: "labelled list \<Rightarrow> exn + string set" where
  "score_names items =
     (case items of
        [] \<Rightarrow> Inl ValueError
      | a # rest \<Rightarrow>
          if \<exists>b \<in> set rest. fst ` set (lb_scores b) \<noteq> fst ` set (lb_scores a) then Inl ValueError
          else Inr (fst ` set (lb_scores a)))"

definition score_of :: "labelled \<Rightarrow> string \<Rightarrow> exn + real" where
  "score_of item name = (case map_of (lb_scores item) name of None \<Rightarrow> Inl KeyError | Some x \<Rightarrow> Inr x)"

definition discriminate :: "labelled list \<Rightarrow> string \<Rightarrow> exn + discrimination_report" where
  "discriminate items composite =
     bindE (score_names items) (\<lambda>names.
       if composite \<notin> names then Inl ValueError
       else bindE (mapE (\<lambda>name. bindE (mapE (\<lambda>i. score_of i name) items) (\<lambda>xs.
                    bindE (auroc (map lb_keep items) xs) (\<lambda>a. Inr (name, a)))) (sorted_list_of_set names)) (\<lambda>by_score.
            case map_of by_score composite of
              None \<Rightarrow> Inl KeyError
            | Some a \<Rightarrow>
                if 0 \<le> a \<and> a \<le> 1
                then Inr \<lparr>rp_verdict = verdict_of a, rp_auroc = a, rp_by_score = by_score,
                          rp_labelled = length items, rp_kept = length (filter lb_keep items)\<rparr>
                else Inl ValueError))"

definition best_single_score :: "discrimination_report \<Rightarrow> exn + string" where
  \<comment> \<open>\<open>max(by_score, key=...)\<close>: the first of the greatest\<close>
  "best_single_score r =
     (case rp_by_score r of
        [] \<Rightarrow> Inl ValueError
      | x # xs \<Rightarrow> Inr (fst (foldl (\<lambda>best y. if snd best < snd y then y else best) x xs)))"

definition agreement_rate :: "(string \<times> bool) list \<Rightarrow> (string \<times> bool) list \<Rightarrow> exn + real" where
  "agreement_rate one two =
     (let shared = filter (\<lambda>k. k \<in> fst ` set two) (remdups (map fst one))
      in if shared = [] then Inl ValueError
         else Inr (fl (real (length (filter (\<lambda>k. map_of one k = map_of two k) shared)) / real (length shared))))"

section \<open>Sums of halves are exact\<close>

definition half_int :: "real \<Rightarrow> bool" where
  "half_int x \<longleftrightarrow> (\<exists>n :: nat. x = real n / 2)"

lemma half_intI [intro]: "half_int (real n / 2)"
  by (auto simp: half_int_def)

lemma half_int_simps [simp]: "half_int 0" "half_int (real n)" "half_int (real n + 1)"
  unfolding half_int_def by (rule exI [of _ "0 :: nat"], simp) (rule exI [of _ "2 * n"], simp, rule exI [of _ "2 * n + 2"], simp)

lemma half_int_add: "half_int x \<Longrightarrow> half_int y \<Longrightarrow> half_int (x + y)"
  unfolding half_int_def by (metis add_divide_distrib of_nat_add)

lemma half_int_nonneg: "half_int x \<Longrightarrow> 0 \<le> x"
  by (auto simp: half_int_def)

lemma half_int_sum: "list_all half_int xs \<Longrightarrow> half_int (sum_list xs)"
  by (induction xs) (auto intro: half_int_add)

lemma fl_half_int:
  assumes "half_int x" and "x \<le> 2 ^ 52"
  shows "fl x = x"
proof -
  obtain n where x: "x = real n / 2" using assms(1) by (auto simp: half_int_def)
  then have "int n \<le> 2 ^ 53" using assms(2) by (simp add: divide_le_eq)
  then have "round_bin 53 (-1074) (of_int (int n) * 2 powi (-1)) = of_int (int n) * 2 powi (-1)"
    by (intro round_bin_representable) auto
  then show ?thesis by (simp add: fl_def x power_int_minus_divide)
qed

lemma np_sum_exact:
  assumes "list_all half_int xs" and "sum_list xs \<le> 2 ^ 52"
  shows "np_sum xs = sum_list xs"
  using assms
proof (induction xs rule: rev_induct)
  case (snoc x xs)
  then have "half_int (sum_list xs + x)" using half_int_sum [of "xs @ [x]"] by simp
  moreover have "0 \<le> x" using snoc.prems half_int_nonneg by simp
  ultimately show ?case using snoc fl_half_int by (simp add: np_sum_def)
qed (simp add: np_sum_def)

section \<open>What a rank is\<close>

definition win :: "real \<Rightarrow> real \<Rightarrow> real" where
  \<comment> \<open>how far \<open>x\<close> beats \<open>y\<close>\<close>
  "win x y = (if y < x then 1 else if y = x then 1 / 2 else 0)"

definition avg_rank :: "real list \<Rightarrow> real \<Rightarrow> real" where
  "avg_rank scores x = (\<Sum>y\<leftarrow>scores. win x y) + 1 / 2"

lemma avg_rank_counts:
  "avg_rank scores x = real (length (filter (\<lambda>y. y < x) scores)) + (real (length (filter (\<lambda>y. y = x) scores)) + 1) / 2"
  unfolding avg_rank_def by (induction scores) (auto simp: win_def field_simps)

lemma avg_rank_mset: "mset xs = mset ys \<Longrightarrow> avg_rank xs = avg_rank ys"
  unfolding avg_rank_def fun_eq_iff by (metis mset_map sum_mset_sum_list)

section \<open>The loop computes the average ranks\<close>

lemma put_at_length [simp]: "length (put_at idx vals rs) = length rs"
proof -
  have "length (fold (\<lambda>(i, v) rs. rs[i := v]) ivs rs) = length rs" for ivs :: "(nat \<times> real) list"
    by (induction ivs arbitrary: rs) auto
  then show ?thesis by (simp add: put_at_def)
qed

lemma put_at_other: "i \<notin> set idx \<Longrightarrow> put_at idx vals rs ! i = rs ! i"
proof -
  have "i \<notin> fst ` set ivs \<Longrightarrow> fold (\<lambda>(i, v) rs. rs[i := v]) ivs rs ! i = rs ! i" for ivs :: "(nat \<times> real) list"
    by (induction ivs arbitrary: rs) auto
  moreover assume "i \<notin> set idx"
  then have "i \<notin> fst ` set (zip idx vals)" by (auto dest: set_zip_leftD)
  ultimately show ?thesis by (simp add: put_at_def)
qed

lemma put_at_nth:
  assumes "distinct idx" and "set idx \<subseteq> {..<length rs}" and "length vals = length idx" and "p < length idx"
  shows "put_at idx vals rs ! (idx ! p) = vals ! p"
  using assms
proof (induction idx arbitrary: vals rs p)
  case (Cons i idx)
  then obtain v vs where v: "vals = v # vs" by (cases vals) auto
  have step: "put_at (i # idx) (v # vs) rs = put_at idx vs (rs[i := v])" by (simp add: put_at_def)
  show ?case
  proof (cases p)
    case 0
    have "put_at idx vs (rs[i := v]) ! i = rs[i := v] ! i" using Cons.prems(1) by (simp add: put_at_other)
    with 0 Cons.prems v step show ?thesis by simp
  next
    case (Suc q)
    with Cons.IH [of "rs[i := v]" vs q] Cons.prems v step show ?thesis by simp
  qed
qed simp

lemma argsort_props:
  "distinct (argsort scores)" "set (argsort scores) = {..<length scores}" "length (argsort scores) = length scores"
  "sorted (map ((!) scores) (argsort scores))" "mset (map ((!) scores) (argsort scores)) = mset scores"
proof -
  show "distinct (argsort scores)" "set (argsort scores) = {..<length scores}" "length (argsort scores) = length scores"
    "sorted (map ((!) scores) (argsort scores))" by (auto simp: argsort_def)
  have "mset (map ((!) scores) (argsort scores)) = mset (map ((!) scores) [0..<length scores])"
    by (simp add: argsort_def mset_map [symmetric])
  then show "mset (map ((!) scores) (argsort scores)) = mset scores" by (simp add: map_nth)
qed

text \<open>Before index \<open>k\<close>: the positions below \<open>start\<close> hold their average rank, the others their place, and the
  ordered scores from \<open>start\<close> on are equal up to \<open>k\<close> and above the ones below \<open>start\<close>.\<close>

definition tie_inv :: "real list \<Rightarrow> nat list \<Rightarrow> nat \<Rightarrow> real list \<times> nat \<Rightarrow> bool" where
  "tie_inv ordered order k st \<longleftrightarrow>
     (let (ranks, start) = st; n = length ordered
      in length ranks = n \<and> start < k \<and> (n < k \<longrightarrow> start = n) \<and>
         (\<forall>p < start. ranks ! (order ! p) = avg_rank ordered (ordered ! p)) \<and>
         (\<forall>p. start \<le> p \<and> p < n \<longrightarrow> ranks ! (order ! p) = real p + 1) \<and>
         (\<forall>p. start \<le> p \<and> p < k \<longrightarrow> ordered ! p = ordered ! start) \<and>
         (start < n \<longrightarrow> (\<forall>p < start. ordered ! p < ordered ! start)))"

lemma tie_inv_iff:
  "tie_inv ordered order k (ranks, start) \<longleftrightarrow>
     length ranks = length ordered \<and> start < k \<and> (length ordered < k \<longrightarrow> start = length ordered) \<and>
     (\<forall>p < start. ranks ! (order ! p) = avg_rank ordered (ordered ! p)) \<and>
     (\<forall>p. start \<le> p \<and> p < length ordered \<longrightarrow> ranks ! (order ! p) = real p + 1) \<and>
     (\<forall>p. start \<le> p \<and> p < k \<longrightarrow> ordered ! p = ordered ! start) \<and>
     (start < length ordered \<longrightarrow> (\<forall>p < start. ordered ! p < ordered ! start))"
  by (simp add: tie_inv_def Let_def)

lemma run_rank:
  assumes "sorted ordered" and "start < k" and "k \<le> length ordered"
    and same: "\<And>p. start \<le> p \<Longrightarrow> p < k \<Longrightarrow> ordered ! p = x"
    and below: "\<And>p. p < start \<Longrightarrow> ordered ! p < x"
    and above: "k < length ordered \<Longrightarrow> x < ordered ! k"
  shows "avg_rank ordered x = (real start + 1 + real k) / 2"
proof -
  have gt: "x < ordered ! p" if "k \<le> p" "p < length ordered" for p
    using that above assms(1) by (meson le_less_trans less_le_trans sorted_iff_nth_mono)
  have at: "(ordered ! p < x \<longleftrightarrow> p < start) \<and> (ordered ! p = x \<longleftrightarrow> start \<le> p \<and> p < k)" if "p < length ordered" for p
  proof -
    consider "p < start" | "start \<le> p" "p < k" | "k \<le> p" by linarith
    then show ?thesis using same [of p] below [of p] gt [of p] that assms(2) by cases auto
  qed
  have "p < length ordered \<and> ordered ! p < x \<longleftrightarrow> p < start" "p < length ordered \<and> ordered ! p = x \<longleftrightarrow> start \<le> p \<and> p < k" for p
    using at [of p] assms(2,3) by linarith+
  then have "{p. p < length ordered \<and> ordered ! p < x} = {..<start}" "{p. p < length ordered \<and> ordered ! p = x} = {start..<k}"
    unfolding set_eq_iff mem_Collect_eq lessThan_iff atLeastLessThan_iff by blast+
  then have "length (filter (\<lambda>y. y < x) ordered) = start" "length (filter (\<lambda>y. y = x) ordered) = k - start"
    by (simp_all add: length_filter_conv_card)
  then show ?thesis using assms(2) by (simp add: avg_rank_counts of_nat_diff field_simps)
qed

lemma mean_of_run:
  assumes "a < k" and "k \<le> 2 ^ 25"
  shows "np_mean (map (\<lambda>p. real p + 1) [a..<k]) = (real a + 1 + real k) / 2"
proof -
  have sum: "(\<Sum>p\<leftarrow>[a..<k]. real p + 1) = (real k - real a) * ((real a + 1 + real k) / 2)"
    using assms(1) by (induction k) (auto simp: algebra_simps le_less_Suc_eq less_Suc_eq)
  have "(real k - real a) * ((real a + 1 + real k) / 2) \<le> real k * (real k + 1)"
    using assms(1) by (intro mult_mono) auto
  also have "\<dots> \<le> 2 ^ 25 * (2 ^ 25 + 1)"
    using assms(2) by (intro mult_mono) (simp_all add: of_nat_le_numeral_power_cancel_iff)
  finally have "np_sum (map (\<lambda>p. real p + 1) [a..<k]) = (real k - real a) * ((real a + 1 + real k) / 2)"
    using np_sum_exact [of "map (\<lambda>p. real p + 1) [a..<k]"] sum by (simp add: list_all_iff)
  moreover have "fl ((real a + 1 + real k) / 2) = (real a + 1 + real k) / 2"
  proof -
    have e: "real (a + 1 + k) / 2 = (real a + 1 + real k) / 2" by simp
    have "real (a + 1 + k) / 2 \<le> 2 ^ 52" using assms by simp
    from fl_half_int [OF half_intI this] show ?thesis unfolding e .
  qed
  moreover have "(real k - real a) * ((real a + 1 + real k) / 2) / real (k - a) = (real a + 1 + real k) / 2"
    using assms(1) nonzero_mult_div_cancel_left [of "real k - real a" "(real a + 1 + real k) / 2"] by (simp only: of_nat_diff)
  ultimately show ?thesis by (simp only: np_mean_def length_map length_upt)
qed

lemma tie_step_inv:
  assumes inv: "tie_inv ordered order k st" and k: "k \<le> length ordered" and sorted: "sorted ordered"
    and order: "distinct order" "set order = {..<length ordered}" "length order = length ordered"
    and small: "length ordered \<le> 2 ^ 25"
  shows "tie_inv ordered order (Suc k) (tie_step ordered order k st)"
proof -
  obtain ranks start where st: "st = (ranks, start)" by (rule prod.exhaust)
  note inv = inv [unfolded st tie_inv_iff]
  from inv have len: "length ranks = length ordered" and lt: "start < k" by blast+
  then have "start < length ordered" using k by simp
  with inv have held: "\<And>p. p < start \<Longrightarrow> ranks ! (order ! p) = avg_rank ordered (ordered ! p)"
    and todo: "\<And>p. start \<le> p \<Longrightarrow> p < length ordered \<Longrightarrow> ranks ! (order ! p) = real p + 1"
    and same: "\<And>p. start \<le> p \<Longrightarrow> p < k \<Longrightarrow> ordered ! p = ordered ! start"
    and below: "\<And>p. p < start \<Longrightarrow> ordered ! p < ordered ! start" by blast+
  show ?thesis
  proof (cases "k = length ordered \<or> ordered ! k \<noteq> ordered ! start")
    case False
    then have "ordered ! p = ordered ! start" if "start \<le> p" "p < Suc k" for p
      using same [of p] that by (cases "p = k") auto
    moreover have "start < Suc k" "\<not> length ordered < Suc k" using lt k False by auto
    ultimately have "tie_inv ordered order (Suc k) (ranks, start)" unfolding tie_inv_iff using len held todo below by blast
    moreover have "tie_step ordered order k st = (ranks, start)" using False by (simp add: tie_step_def st)
    ultimately show ?thesis by (simp only:)
  next
    case True
    have above: "ordered ! start < ordered ! k" if "k < length ordered"
      using sorted_nth_mono [OF sorted, of start k] True that lt by auto
    have rank: "avg_rank ordered (ordered ! p) = (real start + 1 + real k) / 2" if "start \<le> p" "p < k" for p
      unfolding same [OF that] by (rule run_rank [OF sorted lt k same below above])
    let ?g = "take (k - start) (drop start order)"
    define ranks' where "ranks' = (if 1 < k - start
      then put_at ?g (replicate (length ?g) (np_mean (map ((!) ranks) ?g))) ranks else ranks)"
    have step: "tie_step ordered order k st = (ranks', k)"
      using True by (auto simp: tie_step_def st ranks'_def Let_def)
    have g: "length ?g = k - start" using k order(3) by simp
    have gp: "?g ! q = order ! (start + q)" if "q < k - start" for q using that k order(3) by simp
    have at: "order ! p \<in> set ?g \<longleftrightarrow> start \<le> p \<and> p < k" if "p < length ordered" for p
    proof -
      have "order ! p \<in> set ?g \<longleftrightarrow> (\<exists>q < k - start. order ! (start + q) = order ! p)"
        unfolding in_set_conv_nth g using gp by auto
      also have "\<dots> \<longleftrightarrow> (\<exists>q < k - start. start + q = p)"
        using that k order(1,3) by (auto simp: nth_eq_iff_index_eq)
      also have "\<dots> \<longleftrightarrow> start \<le> p \<and> p < k" by (auto intro: exI [of _ "p - start"])
      finally show ?thesis .
    qed
    have new: "ranks' ! (order ! p) = (real start + 1 + real k) / 2" if p: "start \<le> p" "p < k" for p
    proof (cases "1 < k - start")
      case True
      have "map ((!) ranks) ?g = map (\<lambda>p. real p + 1) [start..<k]"
        using todo k order(3) by (intro nth_equalityI) simp_all
      then have "np_mean (map ((!) ranks) ?g) = (real start + 1 + real k) / 2"
        using mean_of_run [OF lt] k small by simp
      then have r: "ranks' = put_at ?g (replicate (k - start) ((real start + 1 + real k) / 2)) ranks"
        using True by (simp only: ranks'_def if_True g)
      have "distinct ?g" "set ?g \<subseteq> {..<length ranks}"
        using order(1,2) len by (auto dest: in_set_takeD in_set_dropD)
      with put_at_nth [of ?g ranks "replicate (k - start) ((real start + 1 + real k) / 2)" "p - start"] gp [of "p - start"] p
      show ?thesis unfolding r g by simp
    next
      case False
      with p lt have "p = start" "k = Suc start" by auto
      then show ?thesis using todo [of p] k False by (simp add: ranks'_def)
    qed
    have old: "ranks' ! (order ! p) = ranks ! (order ! p)" if "p < length ordered" "\<not> (start \<le> p \<and> p < k)" for p
      using at that by (simp add: ranks'_def put_at_other)
    have "ranks' ! (order ! p) = avg_rank ordered (ordered ! p)" if "p < k" for p
      using that k held [of p] old [of p] new [of p] rank [of p] by (cases "start \<le> p") auto
    moreover have "ranks' ! (order ! p) = real p + 1" if "k \<le> p" "p < length ordered" for p
      using that todo [of p] old [of p] lt by auto
    moreover have "ordered ! p < ordered ! k" if "p < k" "k < length ordered" for p
      using that same [of p] below [of p] above by (cases "start \<le> p") auto
    moreover have "length ranks' = length ordered" using len by (simp add: ranks'_def)
    moreover have "ordered ! p = ordered ! k" if "k \<le> p" "p < Suc k" for p using that by (simp add: le_less_Suc_eq)
    moreover have "k < Suc k" "length ordered < Suc k \<longrightarrow> k = length ordered" using k by auto
    ultimately show ?thesis unfolding step tie_inv_iff by blast
  qed
qed

lemma average_ranks_correct:
  assumes "length scores \<le> 2 ^ 25"
  shows "average_ranks scores = map (avg_rank scores) scores"
proof (cases "scores = []")
  case True
  then show ?thesis by (simp add: average_ranks_def argsort_def put_at_def tie_step_def)
next
  case False
  let ?n = "length scores" and ?order = "argsort scores" and ?ordered = "map ((!) scores) (argsort scores)"
  let ?ranks = "put_at ?order (map real [1..<?n + 1]) (replicate ?n 0)"
  note order = argsort_props [of scores]
  have "tie_inv ?ordered ?order k (fold (tie_step ?ordered ?order) [1..<k] (?ranks, 0))" if "1 \<le> k" "k \<le> ?n + 1" for k
    using that
  proof (induction k)
    case (Suc k)
    show ?case
    proof (cases "k = 0")
      case True
      have "?ranks ! (?order ! p) = real p + 1" if "p < ?n" for p
        using put_at_nth [of ?order "replicate ?n 0" "map real [1..<?n + 1]" p] order(1-3) that by (simp del: upt_Suc)
      with True False show ?thesis using order(3) by (simp add: tie_inv_iff)
    next
      case False
      then show ?thesis
        using Suc tie_step_inv [of ?ordered ?order k "fold (tie_step ?ordered ?order) [1..<k] (?ranks, 0)"] order assms
        by simp
    qed
  qed simp
  from this [of "?n + 1"] have inv: "tie_inv ?ordered ?order (?n + 1) (fold (tie_step ?ordered ?order) [1..<?n + 1] (?ranks, 0))"
    by (simp del: upt_Suc)
  obtain ranks start where
    r: "fold (tie_step ?ordered ?order) [1..<?n + 1] (?ranks, 0) = (ranks, start)" by (rule prod.exhaust)
  have n: "length ?ordered = ?n" using order(3) by simp
  note inv = inv [unfolded r tie_inv_iff n]
  then have "start = ?n" and len: "length ranks = ?n" by simp_all
  with inv have ok: "\<And>p. p < ?n \<Longrightarrow> ranks ! (?order ! p) = avg_rank ?ordered (?ordered ! p)" by blast
  have "ranks ! i = avg_rank scores (scores ! i)" if "i < ?n" for i
  proof -
    have "i \<in> set ?order" using that order(2) by simp
    then obtain p where "p < ?n" "?order ! p = i" unfolding in_set_conv_nth order(3) by blast
    then have "ranks ! i = avg_rank ?ordered (scores ! i)" using ok [of p] order(3) by simp
    then show ?thesis unfolding avg_rank_mset [OF order(5)] .
  qed
  then have "ranks = map (avg_rank scores) scores" using len by (intro nth_equalityI) auto
  then show ?thesis unfolding average_ranks_def Let_def n r fst_conv .
qed

section \<open>The area is the share of pairs won\<close>

definition kept_scores :: "bool list \<Rightarrow> real list \<Rightarrow> real list" where
  "kept_scores labels scores = map snd (filter fst (zip labels scores))"

definition rejected_scores :: "bool list \<Rightarrow> real list \<Rightarrow> real list" where
  "rejected_scores labels scores = map snd (filter (\<lambda>p. \<not> fst p) (zip labels scores))"

definition pairs_won :: "real list \<Rightarrow> real list \<Rightarrow> real" where
  \<comment> \<open>over all pairs of a kept and a rejected score, a tie counting half\<close>
  "pairs_won kept rejected = (\<Sum>x\<leftarrow>kept. \<Sum>y\<leftarrow>rejected. win x y)"

lemma split_labels:
  assumes "length labels = length scores"
  shows "mset scores = mset (kept_scores labels scores @ rejected_scores labels scores)"
    and "length (filter id labels) = length (kept_scores labels scores)"
    and "length labels - length (filter id labels) = length (rejected_scores labels scores)"
    and "map snd (filter fst (zip labels (map f scores))) = map f (kept_scores labels scores)"
proof -
  have "length labels = length (kept_scores labels scores) + length (rejected_scores labels scores)
    \<and> length (filter id labels) = length (kept_scores labels scores)
    \<and> mset scores = mset (kept_scores labels scores @ rejected_scores labels scores)
    \<and> map snd (filter fst (zip labels (map f scores))) = map f (kept_scores labels scores)"
    using assms by (induction labels scores rule: list_induct2) (simp_all add: kept_scores_def rejected_scores_def)
  then show "mset scores = mset (kept_scores labels scores @ rejected_scores labels scores)"
    "length (filter id labels) = length (kept_scores labels scores)"
    "length labels - length (filter id labels) = length (rejected_scores labels scores)"
    "map snd (filter fst (zip labels (map f scores))) = map f (kept_scores labels scores)" by simp_all
qed

lemma own_pairs: "pairs_won xs xs = real (length xs) * real (length xs) / 2"
proof (induction xs)
  case (Cons a xs)
  have "(\<Sum>y\<leftarrow>ys. win a y) + (\<Sum>x\<leftarrow>ys. win x a) = real (length ys)" for ys
    by (induction ys) (auto simp: win_def)
  note others = this [of xs]
  have "pairs_won (a # xs) (a # xs) = win a a + ((\<Sum>y\<leftarrow>xs. win a y) + (\<Sum>x\<leftarrow>xs. win x a)) + pairs_won xs xs"
    by (simp add: pairs_won_def sum_list_addf)
  also have "\<dots> = 1 / 2 + real (length xs) + real (length xs) * real (length xs) / 2"
    unfolding others Cons by (simp add: win_def)
  finally show ?case by (simp add: field_simps)
qed (simp add: pairs_won_def)

lemma half_int_win: "half_int (win x y)"
  unfolding half_int_def win_def by (auto intro: exI [of _ 2] exI [of _ 1] exI [of _ 0])

lemma half_int_pairs: "half_int (pairs_won xs ys)"
proof -
  have "half_int (\<Sum>y\<leftarrow>ys. win x y)" for x
    by (intro half_int_sum) (simp add: list_all_iff half_int_win)
  then show ?thesis unfolding pairs_won_def by (intro half_int_sum) (simp add: list_all_iff)
qed

lemma pairs_won_le: "pairs_won xs ys \<le> real (length xs * length ys)"
proof -
  have w: "(\<Sum>y\<leftarrow>ys. win x y) \<le> real (length ys)" for x
    by (induction ys) (auto simp: win_def)
  show ?thesis unfolding pairs_won_def
  proof (induction xs)
    case (Cons x xs)
    then show ?case using w [of x] by (simp add: algebra_simps)
  qed simp
qed

lemma rank_sum:
  "(\<Sum>x\<leftarrow>kept. avg_rank (kept @ rejected) x) =
     pairs_won kept rejected + real (length kept * (length kept + 1)) / 2"
proof -
  have "(\<Sum>x\<leftarrow>xs. avg_rank (ks @ rs) x) = pairs_won xs ks + pairs_won xs rs + real (length xs) / 2" for xs ks rs
    by (induction xs) (simp_all add: avg_rank_def pairs_won_def)
  then show ?thesis by (simp add: own_pairs field_simps)
qed

text \<open>C26. The area the rank form computes is the share of (kept, rejected) pairs that the score orders the
  right way, a tie counting half, correctly rounded to a double, for up to \<open>2 ^ 25\<close> candidates; it is an
  error exactly when the lengths differ or a class is empty.\<close>

theorem auroc_counts_pairs:
  assumes "length scores \<le> 2 ^ 25"
  shows "auroc labels scores =
    (let kept = kept_scores labels scores; rejected = rejected_scores labels scores
     in if length labels \<noteq> length scores \<or> kept = [] \<or> rejected = [] then Inl ValueError
        else Inr (fl (pairs_won kept rejected / real (length kept * length rejected))))"
proof (cases "length labels = length scores")
  case True
  let ?K = "kept_scores labels scores" and ?R = "rejected_scores labels scores"
  note split = split_labels [OF True]
  have n: "length ?K + length ?R \<le> 2 ^ 25" using assms split(1) by (metis length_append size_mset)
  have sum: "sum_list (map (avg_rank scores) ?K) = pairs_won ?K ?R + real (length ?K * (length ?K + 1)) / 2"
    unfolding avg_rank_mset [OF split(1)] by (rule rank_sum)
  have kr: "real (length ?K * length ?R) \<le> 2 ^ 50" "real (length ?K * (length ?K + 1)) \<le> 2 ^ 51"
  proof -
    have "length ?K * length ?R \<le> 2 ^ 25 * 2 ^ 25" "length ?K * (length ?K + 1) \<le> 2 ^ 25 * (2 ^ 25 + 1)"
      using n by (intro mult_mono; simp)+
    then show "real (length ?K * length ?R) \<le> 2 ^ 50" "real (length ?K * (length ?K + 1)) \<le> 2 ^ 51"
      by (simp_all add: of_nat_le_numeral_power_cancel_iff del: of_nat_mult)
  qed
  note won = pairs_won_le [of ?K ?R]
  have half: "half_int (avg_rank scores x)" for x
    unfolding avg_rank_counts by (intro half_int_add half_int_simps) (auto simp: half_int_def intro: exI [of _ "Suc _"])
  then have "list_all half_int (map (avg_rank scores) ?K)" by (simp add: list_all_iff)
  moreover have "a + c / 2 \<le> 2 ^ 52" if "a \<le> b" "b \<le> 2 ^ 50" "c \<le> 2 ^ 51" for a b c :: real using that by simp
  from this [OF won kr] have "sum_list (map (avg_rank scores) ?K) \<le> 2 ^ 52" unfolding sum .
  ultimately have total: "np_sum (map snd (filter fst (zip labels (average_ranks scores)))) =
      pairs_won ?K ?R + real (length ?K * (length ?K + 1)) / 2"
    unfolding average_ranks_correct [OF assms] split(4) by (simp only: np_sum_exact sum)
  have "fl (real (length ?K * (length ?K + 1)) / 2) = real (length ?K * (length ?K + 1)) / 2"
    using kr(2) by (intro fl_half_int half_intI) simp
  moreover have "fl (pairs_won ?K ?R) = pairs_won ?K ?R"
    using won kr(1) by (intro fl_half_int half_int_pairs) simp
  ultimately have area: "fl (fl (np_sum (map snd (filter fst (zip labels (average_ranks scores)))) -
        fl (real (length ?K * (length ?K + 1)) / 2)) / real (length ?K * length ?R)) =
      fl (pairs_won ?K ?R / real (length ?K * length ?R))"
    unfolding total by (simp only: add_diff_cancel_right')
  have "?K \<noteq> [] \<Longrightarrow> labels \<noteq> []" by (auto simp: kept_scores_def)
  then show ?thesis
    using True area unfolding auroc_def Let_def split(3) unfolding split(2) by auto
qed (simp add: auroc_def)

theorem auroc_counts_pairs_witness:
  "auroc [True, False, True, False] [3, 1, 2, 2] = Inr (fl (7 / 8))"
  using auroc_counts_pairs [of "[3, 1, 2, 2]" "[True, False, True, False]"]
  by (simp add: kept_scores_def rejected_scores_def pairs_won_def win_def)

end
