(* ===== verification/Providers.thy ===== *)
theory Providers
  imports Entailment Embedding
begin

text \<open>
  The model providers, \<open>llm/providers\<close>: the price of a call (\<open>pricing.py\<close>), the schema Ollama can compile
  (\<open>grammar.py\<close>), drawing samples (\<open>common.py\<close>) and the three clients. What a vendor's SDK answers to one
  request is a parameter of the client; everything the client does with it is here. The locale
  \<open>llm_provider\<close> is what the pipeline relies on, and each client is shown to provide it.
\<close>

section \<open>What a call costs\<close>

definition PRICES :: "(string \<times> real \<times> real) list" where
  "PRICES = [(''claude-opus-5'', 5, 25), (''claude-sonnet-5'', 2, 10), (''claude-haiku-4-5'', 1, 5)]"

definition estimate_cost :: "string \<Rightarrow> int \<Rightarrow> int \<Rightarrow> bool \<Rightarrow> real" where
  "estimate_cost model tokens_in tokens_out local =
     (if local then 0
      else case map_of PRICES model of
        None \<Rightarrow> 0
      | Some (usd_in, usd_out) \<Rightarrow>
          fl (fl (fl (fl (of_int tokens_in) * usd_in) + fl (fl (of_int tokens_out) * usd_out)) / 1000000))"

section \<open>A schema a grammar can be made of\<close>

definition GRAMMAR_REPETITION_LIMIT :: int where "GRAMMAR_REPETITION_LIMIT = 2000"

definition REPETITION_KEYWORDS :: "string list" where
  "REPETITION_KEYWORDS = [''maxItems'', ''maxLength'', ''minItems'', ''minLength'']"

definition long_repetition :: "string \<times> json \<Rightarrow> bool" where
  \<comment> \<open>a \<open>bool\<close> is an \<open>int\<close>, and below the limit\<close>
  "long_repetition kv \<longleftrightarrow> fst kv \<in> set REPETITION_KEYWORDS \<and>
     (case snd kv of JInt n \<Rightarrow> GRAMMAR_REPETITION_LIMIT \<le> n | _ \<Rightarrow> False)"

fun grammar_safe :: "json \<Rightarrow> json"
  and safe_list :: "json list \<Rightarrow> json list"
  and safe_items :: "(string \<times> json) list \<Rightarrow> (string \<times> json) list" where
  "grammar_safe (JObj kvs) = JObj (safe_items kvs)"
| "grammar_safe (JList xs) = JList (safe_list xs)"
| "grammar_safe v = v"
| "safe_list [] = []"
| "safe_list (x # xs) = grammar_safe x # safe_list xs"
| "safe_items [] = []"
| "safe_items ((k, v) # kvs) =
     (if long_repetition (k, v) then safe_items kvs else (k, grammar_safe v) # safe_items kvs)"

section \<open>Drawing samples\<close>

definition MAX_SAMPLES :: int where "MAX_SAMPLES = 10"

definition require_samples :: "int \<Rightarrow> exn + int" where
  "require_samples n = (if n < 1 then Inl ValueError else if MAX_SAMPLES < n then Inl ValueError else Inr n)"

record model_settings =
  ms_fast :: string
  ms_balanced :: string
  ms_frontier :: string

definition tier_models :: "model_settings \<Rightarrow> exn + (tier \<Rightarrow> string)" where
  "tier_models s =
     (if \<exists>m \<in> {ms_fast s, ms_balanced s, ms_frontier s}. strip m = [] then Inl ValueError
      else Inr (\<lambda>t. case t of FAST \<Rightarrow> ms_fast s | BALANCED \<Rightarrow> ms_balanced s | FRONTIER \<Rightarrow> ms_frontier s))"

text \<open>A task group: its tasks end in some order, and what a task returned is kept with the task. The first
  one to fail cancels those still running, and the group raises that failure.\<close>

definition ended_in :: "nat list \<Rightarrow> nat \<Rightarrow> nat list" where
  \<comment> \<open>the order in which the \<open>n\<close> tasks end: those listed first, each once, then the others\<close>
  "ended_in order n =
     (let listed = filter (\<lambda>i. i < n) (remdups order) in listed @ filter (\<lambda>i. i \<notin> set listed) [0..<n])"

fun run_tasks :: "(nat \<Rightarrow> exn + 'a) \<Rightarrow> (nat \<Rightarrow> 'a option) \<Rightarrow> nat list \<Rightarrow> exn + (nat \<Rightarrow> 'a option)" where
  "run_tasks attempt results [] = Inr results"
| "run_tasks attempt results (i # order) =
     (case attempt i of Inl e \<Rightarrow> Inl e | Inr x \<Rightarrow> run_tasks attempt (results(i \<mapsto> x)) order)"

definition draw_samples :: "nat list \<Rightarrow> (nat \<Rightarrow> exn + 'a) \<Rightarrow> nat \<Rightarrow> exn + 'a list" where
  \<comment> \<open>\<open>order\<close>: the order the tasks end in; \<open>task.result()\<close> of a task that has none is an error\<close>
  "draw_samples order attempt n =
     bindE (run_tasks attempt Map.empty (ended_in order n)) (\<lambda>results.
       mapE (\<lambda>i. case results i of Some x \<Rightarrow> Inr x | None \<Rightarrow> Inl RuntimeError) [0..<n])"

datatype 'a sdk_outcome =
    Answered 'a
  | RateLimited "string option" \<comment> \<open>429, with the code in its body\<close>
  | Unreachable \<comment> \<open>timed out or not connected\<close>
  | HttpError int
  | Raised exn

definition mk_response :: "llm_response \<Rightarrow> exn + llm_response" where
  "mk_response r = (if llm_response_ok r then Inr r else Inl ValueError)"

section \<open>Anthropic\<close>

record anthropic_message =
  am_blocks :: "(string \<times> string) list" \<comment> \<open>type and text\<close>
  am_model :: string
  am_tokens_in :: int
  am_tokens_out :: int
  am_cached :: "int option"

definition anthropic_one :: "anthropic_message sdk_outcome \<Rightarrow> exn + anthropic_message" where
  \<comment> \<open>\<open>_one\<close> and \<open>_translate_status\<close>\<close>
  "anthropic_one o' =
     (case o' of
        Answered m \<Rightarrow> Inr m
      | RateLimited _ \<Rightarrow> Inl (GM ProviderUnavailable)
      | Unreachable \<Rightarrow> Inl (GM ProviderUnavailable)
      | HttpError c \<Rightarrow>
          Inl (if 500 \<le> c then GM ProviderUnavailable else if c = 402 then GM BudgetExceeded else StatusError)
      | Raised e \<Rightarrow> Inl e)"

definition text_of :: "anthropic_message \<Rightarrow> exn + string" where
  "text_of m =
     (let text = concat (map snd (filter (\<lambda>b. fst b = ''text'') (am_blocks m)))
      in if text = [] then Inl (GM ProviderUnavailable) else Inr text)"

definition anthropic_response :: "string \<Rightarrow> anthropic_message list \<Rightarrow> real \<Rightarrow> exn + llm_response" where
  "anthropic_response model ms latency =
     (let tokens_in = (\<Sum>m\<leftarrow>ms. am_tokens_in m); tokens_out = (\<Sum>m\<leftarrow>ms. am_tokens_out m)
      in bindE (mapE text_of ms) (\<lambda>samples.
         bindE (case ms of [] \<Rightarrow> Inl IndexError | m # _ \<Rightarrow> Inr (am_model m)) (\<lambda>served.
           mk_response \<lparr>lr_samples = samples, lr_model = served, lr_temperature = None, lr_seed = None,
             lr_tokens_in = tokens_in, lr_tokens_out = tokens_out,
             lr_cache_hit = list_all (\<lambda>m. case am_cached m of None \<Rightarrow> False | Some n \<Rightarrow> 0 < n) ms,
             lr_latency_ms = latency, lr_cost_usd = estimate_cost model tokens_in tokens_out False\<rparr>)))"

definition anthropic_complete ::
    "(tier \<Rightarrow> string) \<Rightarrow> (string \<Rightarrow> string \<Rightarrow> nat \<Rightarrow> anthropic_message sdk_outcome) \<Rightarrow> nat list \<Rightarrow> real \<Rightarrow> llm_client" where
  "anthropic_complete models send completion latency prompt t temperature n =
     bindE (require_samples n) (\<lambda>_.
     bindE (draw_samples completion (\<lambda>i. anthropic_one (send (models t) prompt i)) (nat n)) (\<lambda>ms.
       anthropic_response (models t) ms latency))"

section \<open>OpenAI\<close>

record completion =
  cp_contents :: "string option list"
  cp_model :: string
  cp_usage :: "(int \<times> int \<times> int option) option" \<comment> \<open>tokens in, tokens out, cached\<close>

definition translate_rate_limit :: "string option \<Rightarrow> exn" where
  "translate_rate_limit why =
     (if why = Some ''insufficient_quota'' then GM BudgetExceeded else GM ProviderUnavailable)"

definition openai_call :: "completion sdk_outcome \<Rightarrow> exn + completion" where
  "openai_call o' =
     (case o' of
        Answered c \<Rightarrow> Inr c
      | RateLimited why \<Rightarrow> Inl (translate_rate_limit why)
      | Unreachable \<Rightarrow> Inl (GM ProviderUnavailable)
      | HttpError c \<Rightarrow> Inl (if 500 \<le> c then GM ProviderUnavailable else StatusError)
      | Raised e \<Rightarrow> Inl e)"

definition cached_tokens :: "completion \<Rightarrow> int" where
  "cached_tokens c = (case cp_usage c of Some (_, _, Some n) \<Rightarrow> n | _ \<Rightarrow> 0)"

definition openai_response :: "string \<Rightarrow> completion \<Rightarrow> real \<Rightarrow> real \<Rightarrow> exn + llm_response" where
  "openai_response model c temperature latency =
     (let samples = map (\<lambda>s. case s of None \<Rightarrow> [] | Some s \<Rightarrow> s) (cp_contents c);
          (tokens_in, tokens_out) = (case cp_usage c of None \<Rightarrow> (0, 0) | Some (i, out, _) \<Rightarrow> (i, out))
      in if samples = [] \<or> [] \<in> set samples then Inl (GM ProviderUnavailable)
         else mk_response \<lparr>lr_samples = samples, lr_model = cp_model c, lr_temperature = Some temperature,
                lr_seed = Some 0, lr_tokens_in = tokens_in, lr_tokens_out = tokens_out,
                lr_cache_hit = (0 < cached_tokens c), lr_latency_ms = latency,
                lr_cost_usd = estimate_cost model tokens_in tokens_out False\<rparr>)"

definition openai_complete ::
    "(tier \<Rightarrow> string) \<Rightarrow> (string \<Rightarrow> string \<Rightarrow> real \<Rightarrow> int \<Rightarrow> completion sdk_outcome) \<Rightarrow> real \<Rightarrow> llm_client" where
  \<comment> \<open>one request for all the samples\<close>
  "openai_complete models send latency prompt t temperature n =
     bindE (require_samples n) (\<lambda>_.
     bindE (openai_call (send (models t) prompt temperature n)) (\<lambda>c.
       openai_response (models t) c temperature latency))"

section \<open>Ollama\<close>

definition BASE_SEED :: int where "BASE_SEED = 0"

datatype ollama_outcome =
    Body json \<comment> \<open>what \<open>response.json()\<close> returned\<close>
  | NotJson
  | Failed \<comment> \<open>an error status, a timeout or no connection\<close>

definition ollama_one :: "ollama_outcome \<Rightarrow> exn + json" where
  "ollama_one o' = (case o' of Body v \<Rightarrow> Inr v | _ \<Rightarrow> Inl (GM ProviderUnavailable))"

definition field_of :: "json \<Rightarrow> string \<Rightarrow> json \<Rightarrow> exn + json" where
  \<comment> \<open>\<open>v.get(k, default)\<close>\<close>
  "field_of v k d = (case v of JObj kvs \<Rightarrow> Inr (get_or kvs k d) | _ \<Rightarrow> Inl AttributeError)"

definition int_of_json :: "json \<Rightarrow> exn + int" where
  \<comment> \<open>\<open>int(v or 0)\<close>\<close>
  "int_of_json v =
     (if \<not> truthy v then Inr 0
      else case v of
        JBool _ \<Rightarrow> Inr 1
      | JInt n \<Rightarrow> Inr n
      | JFloat (Fin x) \<Rightarrow> Inr (if 0 \<le> x then \<lfloor>x\<rfloor> else \<lceil>x\<rceil>)
      | JFloat NaN \<Rightarrow> Inl ValueError
      | JFloat _ \<Rightarrow> Inl OverflowError
      | JStr s \<Rightarrow> (case py_int s of None \<Rightarrow> Inl ValueError | Some n \<Rightarrow> Inr n)
      | _ \<Rightarrow> Inl TypeError)"

definition count_of :: "string \<Rightarrow> json \<Rightarrow> exn + int" where
  "count_of k reply = bindE (field_of reply k (JInt 0)) int_of_json"

definition content_of :: "json \<Rightarrow> exn + string" where
  "content_of reply =
     bindE (field_of reply ''message'' (JObj [])) (\<lambda>message.
     bindE (field_of message ''content'' (JStr [])) (\<lambda>v.
       if py_str v = [] then Inl (GM ProviderUnavailable) else Inr (py_str v)))"

fun all_cached :: "json list \<Rightarrow> exn + bool" where
  "all_cached [] = Inr True"
| "all_cached (r # rs) =
     bindE (count_of ''prompt_eval_cached_count'' r) (\<lambda>n. if 0 < n then all_cached rs else Inr False)"

definition ollama_response :: "string \<Rightarrow> json list \<Rightarrow> real \<Rightarrow> real \<Rightarrow> exn + llm_response" where
  "ollama_response model replies temperature elapsed =
     bindE (mapE content_of replies) (\<lambda>samples.
     bindE (mapE (count_of ''prompt_eval_count'') replies) (\<lambda>ins.
     bindE (mapE (count_of ''eval_count'') replies) (\<lambda>outs.
     bindE (case replies of [] \<Rightarrow> Inl IndexError | r # _ \<Rightarrow> field_of r ''model'' (JStr model)) (\<lambda>served.
     bindE (all_cached replies) (\<lambda>cached.
       mk_response \<lparr>lr_samples = samples, lr_model = py_str served, lr_temperature = Some temperature,
         lr_seed = Some BASE_SEED, lr_tokens_in = sum_list ins, lr_tokens_out = sum_list outs,
         lr_cache_hit = cached, lr_latency_ms = elapsed,
         lr_cost_usd = estimate_cost model (sum_list ins) (sum_list outs) True\<rparr>)))))"

definition ollama_complete ::
    "(tier \<Rightarrow> string) \<Rightarrow> (string \<Rightarrow> string \<Rightarrow> real \<Rightarrow> int \<Rightarrow> ollama_outcome) \<Rightarrow> nat list \<Rightarrow> real \<Rightarrow> llm_client" where
  \<comment> \<open>one request per sample, each with its own seed\<close>
  "ollama_complete models send completion elapsed prompt t temperature n =
     bindE (require_samples n) (\<lambda>_.
     bindE (draw_samples completion (\<lambda>i. ollama_one (send (models t) prompt temperature (BASE_SEED + int i))) (nat n)) (\<lambda>replies.
       ollama_response (models t) replies temperature elapsed))"

definition floating_tag :: "string \<Rightarrow> bool" where
  \<comment> \<open>\<open>_reject_floating_tag\<close>: no tag, or the tag that moves\<close>
  "floating_tag model \<longleftrightarrow>
     (if CHR '':'' \<in> set model then rev (takeWhile (\<lambda>c. c \<noteq> CHR '':'') (rev model)) else ''latest'') = ''latest''"

definition ollama_client :: "(tier \<Rightarrow> string) \<Rightarrow> exn + (tier \<Rightarrow> string)" where
  \<comment> \<open>\<open>OllamaClient.__init__\<close>\<close>
  "ollama_client models = (if \<exists>t \<in> {FAST, BALANCED, FRONTIER}. floating_tag (models t) then Inl ValueError else Inr models)"

section \<open>What a provider promises\<close>

lemma set_ended_in: "set (ended_in order n) = {0..<n}"
  by (auto simp: ended_in_def Let_def)

lemma run_tasks_Inr:
  "run_tasks f results order = Inr r \<longleftrightarrow>
     (\<forall>i \<in> set order. returns (f i)) \<and> r = (\<lambda>i. if i \<in> set order then (case f i of Inr x \<Rightarrow> Some x | Inl _ \<Rightarrow> None) else results i)"
proof (induction order arbitrary: results)
  case (Cons i order)
  show ?case
  proof (cases "f i")
    case (Inr x)
    have same: "(\<lambda>j. if j \<in> set order then (case f j of Inr x \<Rightarrow> Some x | Inl _ \<Rightarrow> None) else (results(i \<mapsto> x)) j) =
        (\<lambda>j. if j \<in> set (i # order) then (case f j of Inr x \<Rightarrow> Some x | Inl _ \<Rightarrow> None) else results j)"
      using Inr by (intro ext) simp
    have step: "run_tasks f results (i # order) = run_tasks f (results(i \<mapsto> x)) order" using Inr by simp
    have "returns (f i)" using Inr by (simp add: returns_iff)
    then show ?thesis unfolding step Cons.IH same by simp
  qed (simp add: returns_iff)
qed auto

lemma run_tasks_Inl: "run_tasks f results order = Inl e \<Longrightarrow> \<exists>i \<in> set order. f i = Inl e"
  by (induction order arbitrary: results) (auto split: sum.splits)

lemma draw_samples_Inr: "draw_samples order f n = Inr xs \<longleftrightarrow> map f [0..<n] = map Inr xs"
proof
  assume "draw_samples order f n = Inr xs"
  then obtain r where r: "run_tasks f Map.empty (ended_in order n) = Inr r"
    and m: "mapE (\<lambda>i. case r i of Some x \<Rightarrow> Inr x | None \<Rightarrow> Inl RuntimeError) [0..<n] = Inr xs"
    by (auto simp: draw_samples_def elim!: bindE_InrE)
  have "(case r i of Some x \<Rightarrow> Inr x | None \<Rightarrow> Inl RuntimeError) = f i" if "i \<in> set [0..<n]" for i
  proof -
    from r that have "returns (f i)" unfolding run_tasks_Inr set_ended_in by simp
    then obtain x where "f i = Inr x" unfolding returns_iff by blast
    with r that show ?thesis unfolding run_tasks_Inr set_ended_in by simp
  qed
  then have "map (\<lambda>i. case r i of Some x \<Rightarrow> Inr x | None \<Rightarrow> Inl RuntimeError) [0..<n] = map f [0..<n]" by simp
  with m show "map f [0..<n] = map Inr xs" by (simp add: mapE_Inr_conv)
next
  assume m: "map f [0..<n] = map Inr xs"
  then have ok: "returns (f i)" if "i < n" for i
    using that by (metis (mono_tags, lifting) add_cancel_left_left diff_zero imageE image_eqI atLeastLessThan_iff list.set_map
        returns_iff set_upt zero_le)
  define r where "r = (\<lambda>i. if i \<in> set (ended_in order n) then (case f i of Inr x \<Rightarrow> Some x | Inl _ \<Rightarrow> None) else None)"
  have "run_tasks f Map.empty (ended_in order n) = Inr r"
    unfolding run_tasks_Inr set_ended_in r_def using ok by auto
  moreover have "(case r i of Some x \<Rightarrow> Inr x | None \<Rightarrow> Inl RuntimeError) = f i" if "i \<in> set [0..<n]" for i
    using ok [of i] that unfolding r_def set_ended_in by (auto simp: returns_iff)
  then have "map (\<lambda>i. case r i of Some x \<Rightarrow> Inr x | None \<Rightarrow> Inl RuntimeError) [0..<n] = map f [0..<n]" by simp
  ultimately show "draw_samples order f n = Inr xs" using m by (simp add: draw_samples_def mapE_Inr_conv)
qed

lemma draw_samples_Inl: "draw_samples order f n = Inl e \<Longrightarrow> \<exists>i < n. f i = Inl e"
proof -
  assume d: "draw_samples order f n = Inl e"
  show ?thesis
  proof (cases "run_tasks f Map.empty (ended_in order n)")
    case (Inl e')
    with d run_tasks_Inl [OF Inl] show ?thesis by (auto simp: draw_samples_def set_ended_in)
  next
    case (Inr r)
    then have "\<forall>i < n. returns (f i)" by (simp add: run_tasks_Inr set_ended_in)
    then have "map f [0..<n] = map Inr (map (\<lambda>i. projr (f i)) [0..<n])" by (auto simp: returns_iff)
    with d draw_samples_Inr [of order f n] show ?thesis by (metis sum.distinct(1))
  qed
qed

lemma draws_in_any_order:
  "draw_samples order f n = Inr xs \<longleftrightarrow> draw_samples order' f n = Inr xs"
  by (simp add: draw_samples_Inr)

lemma mk_response_Inr: "mk_response r = Inr r' \<longleftrightarrow> r' = r \<and> llm_response_ok r"
  by (auto simp: mk_response_def)

locale llm_provider =
  fixes complete :: llm_client
  assumes fan_out: "\<not> (1 \<le> n \<and> n \<le> 10) \<Longrightarrow> complete prompt t temperature n = Inl ValueError"
    and texts: "complete prompt t temperature n = Inr r \<Longrightarrow> llm_response_ok r \<and> [] \<notin> set (lr_samples r)"
begin

lemma answers_in_bounds: "complete prompt t temperature n = Inr r \<Longrightarrow> 1 \<le> n \<and> n \<le> 10"
  using fan_out [of n prompt t temperature] by fastforce

lemma first_sample: "complete prompt t temperature n = Inr r \<Longrightarrow> lr_samples r \<noteq> [] \<and> hd (lr_samples r) \<noteq> []"
  using texts [of prompt t temperature n r] by (cases "lr_samples r") (auto simp: llm_response_ok_def)

end

lemma refused_fan_out: "\<not> (1 \<le> n \<and> n \<le> 10) \<Longrightarrow> require_samples n = Inl ValueError"
  by (auto simp: require_samples_def MAX_SAMPLES_def)

lemma text_of_nonempty: "text_of m = Inr s \<Longrightarrow> s \<noteq> []"
  by (auto simp: text_of_def Let_def split: if_splits)

lemma content_of_nonempty: "content_of v = Inr s \<Longrightarrow> s \<noteq> []"
  by (auto simp: content_of_def split: if_splits elim!: bindE_InrE)

lemma mapE_nonempty: "mapE f xs = Inr ys \<Longrightarrow> (\<And>x y. f x = Inr y \<Longrightarrow> y \<noteq> []) \<Longrightarrow> [] \<notin> set ys"
  by (induction xs arbitrary: ys) (fastforce elim!: bindE_InrE)+

lemma anthropic_response_Inr:
  "anthropic_response model ms latency = Inr r \<Longrightarrow> mapE text_of ms = Inr (lr_samples r) \<and> llm_response_ok r"
  by (auto simp: anthropic_response_def Let_def mk_response_Inr elim!: bindE_InrE)

lemma ollama_response_Inr:
  "ollama_response model replies temperature elapsed = Inr r \<Longrightarrow> mapE content_of replies = Inr (lr_samples r) \<and> llm_response_ok r"
  by (auto simp: ollama_response_def mk_response_Inr elim!: bindE_InrE)

interpretation anthropic: llm_provider "anthropic_complete models send completion latency" for models send completion latency
proof
  show "\<not> (1 \<le> n \<and> n \<le> 10) \<Longrightarrow> anthropic_complete models send completion latency prompt t temperature n = Inl ValueError"
    for n prompt t temperature by (simp add: anthropic_complete_def refused_fan_out)
  show "anthropic_complete models send completion latency prompt t temperature n = Inr r \<Longrightarrow> llm_response_ok r \<and> [] \<notin> set (lr_samples r)"
    for n prompt t temperature r
    by (auto simp: anthropic_complete_def elim!: bindE_InrE dest!: anthropic_response_Inr dest: mapE_nonempty text_of_nonempty)
qed

interpretation openai: llm_provider "openai_complete models send latency" for models send latency
proof
  show "\<not> (1 \<le> n \<and> n \<le> 10) \<Longrightarrow> openai_complete models send latency prompt t temperature n = Inl ValueError"
    for n prompt t temperature by (simp add: openai_complete_def refused_fan_out)
  show "openai_complete models send latency prompt t temperature n = Inr r \<Longrightarrow> llm_response_ok r \<and> [] \<notin> set (lr_samples r)"
    for n prompt t temperature r
    by (auto simp: openai_complete_def openai_response_def Let_def mk_response_Inr split: if_splits prod.splits elim!: bindE_InrE)
qed

interpretation ollama: llm_provider "ollama_complete models send completion elapsed" for models send completion elapsed
proof
  show "\<not> (1 \<le> n \<and> n \<le> 10) \<Longrightarrow> ollama_complete models send completion elapsed prompt t temperature n = Inl ValueError"
    for n prompt t temperature by (simp add: ollama_complete_def refused_fan_out)
  show "ollama_complete models send completion elapsed prompt t temperature n = Inr r \<Longrightarrow> llm_response_ok r \<and> [] \<notin> set (lr_samples r)"
    for n prompt t temperature r
    by (auto simp: ollama_complete_def elim!: bindE_InrE dest!: ollama_response_Inr dest: mapE_nonempty content_of_nonempty)
qed

lemma drawn_in_order:
  assumes "draw_samples completion f n = Inr ms" and "mapE g ms = Inr ys"
  shows "map Inr ys = map (\<lambda>i. bindE (f i) g) [0..<n]"
proof -
  have "map (\<lambda>i. bindE (f i) g) [0..<n] = map (\<lambda>x. bindE x g) (map f [0..<n])" by simp
  also have "\<dots> = map g ms" using assms(1) by (simp add: draw_samples_Inr)
  finally show ?thesis using assms(2) by (simp add: mapE_Inr_conv)
qed

lemma anthropic_any_order:
  "anthropic_complete models send order latency prompt t temperature n = Inr r \<longleftrightarrow>
   anthropic_complete models send order' latency prompt t temperature n = Inr r"
  unfolding anthropic_complete_def bindE_Inr_iff draw_samples_Inr ..

lemma ollama_any_order:
  "ollama_complete models post order latency prompt t temperature n = Inr r \<longleftrightarrow>
   ollama_complete models post order' latency prompt t temperature n = Inr r"
  unfolding ollama_complete_def bindE_Inr_iff draw_samples_Inr ..

text \<open>C25. A client that draws its samples one request each returns either an error or exactly the samples it
  was asked for, between one and ten and none of them empty: sample \<open>i\<close> is read from the answer to request
  \<open>i\<close>, and in whatever other order the requests had ended the answer would have been the same. No answer is
  padded, dropped or counted twice. What is read from an answer is the joined text blocks on Anthropic
  (\<open>text_of\<close>), and on Ollama, where request \<open>i\<close> has the base seed plus \<open>i\<close>, Python's \<open>str\<close> of the content
  field (\<open>content_of\<close>): a null content is the sample \<open>None\<close>.\<close>

theorem samples_are_those_drawn:
  "(case anthropic_complete models send order latency prompt t temperature n of
      Inl _ \<Rightarrow> True
    | Inr r \<Rightarrow> 1 \<le> n \<and> n \<le> 10 \<and> [] \<notin> set (lr_samples r) \<and>
        map Inr (lr_samples r) = map (\<lambda>i. bindE (anthropic_one (send (models t) prompt i)) text_of) [0..<nat n] \<and>
        anthropic_complete models send order' latency prompt t temperature n = Inr r) \<and>
   (case ollama_complete models post order latency prompt t temperature n of
      Inl _ \<Rightarrow> True
    | Inr r \<Rightarrow> 1 \<le> n \<and> n \<le> 10 \<and> [] \<notin> set (lr_samples r) \<and>
        map Inr (lr_samples r) =
          map (\<lambda>i. bindE (ollama_one (post (models t) prompt temperature (BASE_SEED + int i))) content_of) [0..<nat n] \<and>
        ollama_complete models post order' latency prompt t temperature n = Inr r)"
proof (intro conjI)
  show "case anthropic_complete models send order latency prompt t temperature n of
      Inl _ \<Rightarrow> True
    | Inr r \<Rightarrow> 1 \<le> n \<and> n \<le> 10 \<and> [] \<notin> set (lr_samples r) \<and>
        map Inr (lr_samples r) = map (\<lambda>i. bindE (anthropic_one (send (models t) prompt i)) text_of) [0..<nat n] \<and>
        anthropic_complete models send order' latency prompt t temperature n = Inr r"
  proof (cases "anthropic_complete models send order latency prompt t temperature n")
    case (Inr r)
    then obtain ms where "draw_samples order (\<lambda>i. anthropic_one (send (models t) prompt i)) (nat n) = Inr ms"
      "mapE text_of ms = Inr (lr_samples r)"
      by (auto simp: anthropic_complete_def elim!: bindE_InrE dest: anthropic_response_Inr)
    from drawn_in_order [OF this] anthropic.answers_in_bounds [OF Inr] anthropic.texts [OF Inr]
      iffD1 [OF anthropic_any_order Inr, of order'] Inr
    show ?thesis by simp
  qed simp
  show "case ollama_complete models post order latency prompt t temperature n of
      Inl _ \<Rightarrow> True
    | Inr r \<Rightarrow> 1 \<le> n \<and> n \<le> 10 \<and> [] \<notin> set (lr_samples r) \<and>
        map Inr (lr_samples r) =
          map (\<lambda>i. bindE (ollama_one (post (models t) prompt temperature (BASE_SEED + int i))) content_of) [0..<nat n] \<and>
        ollama_complete models post order' latency prompt t temperature n = Inr r"
  proof (cases "ollama_complete models post order latency prompt t temperature n")
    case (Inr r)
    then obtain ms where
      "draw_samples order (\<lambda>i. ollama_one (post (models t) prompt temperature (BASE_SEED + int i))) (nat n) = Inr ms"
      "mapE content_of ms = Inr (lr_samples r)"
      by (auto simp: ollama_complete_def elim!: bindE_InrE dest: ollama_response_Inr)
    from drawn_in_order [OF this] ollama.answers_in_bounds [OF Inr] ollama.texts [OF Inr]
      iffD1 [OF ollama_any_order Inr, of order'] Inr
    show ?thesis by simp
  qed simp
qed

lemma null_content_is_a_sample:
  "content_of (JObj [(''message'', JObj [(''content'', JNull)])]) = Inr ''None''"
  by code_simp

section \<open>The schema that reaches the grammar\<close>

fun grammar_ok :: "json \<Rightarrow> bool"
  and list_grammar_ok :: "json list \<Rightarrow> bool"
  and items_grammar_ok :: "(string \<times> json) list \<Rightarrow> bool" where
  \<comment> \<open>no repetition of the limit or more at any depth\<close>
  "grammar_ok (JObj kvs) = items_grammar_ok kvs"
| "grammar_ok (JList xs) = list_grammar_ok xs"
| "grammar_ok v = True"
| "list_grammar_ok [] = True"
| "list_grammar_ok (x # xs) = (grammar_ok x \<and> list_grammar_ok xs)"
| "items_grammar_ok [] = True"
| "items_grammar_ok ((k, v) # kvs) = (\<not> long_repetition (k, v) \<and> grammar_ok v \<and> items_grammar_ok kvs)"

lemma long_repetition_safe: "long_repetition (k, grammar_safe v) = long_repetition (k, v)"
  by (cases v) (simp_all add: long_repetition_def)

lemma grammar_safe_ok:
  "grammar_ok (grammar_safe v)" "list_grammar_ok (safe_list xs)" "items_grammar_ok (safe_items kvs)"
  by (induction v and xs and kvs rule: grammar_safe_safe_list_safe_items.induct) (simp_all add: long_repetition_safe)

lemma grammar_ok_unchanged:
  "grammar_ok v \<Longrightarrow> grammar_safe v = v" "list_grammar_ok xs \<Longrightarrow> safe_list xs = xs" "items_grammar_ok kvs \<Longrightarrow> safe_items kvs = kvs"
  by (induction v and xs and kvs rule: grammar_safe_safe_list_safe_items.induct) simp_all

end
