(* ===== verification/Settings.thy ===== *)
theory Settings
  imports Providers
begin

text \<open>
  Starting a process: the validated settings (\<open>settings.py\<close>), the provider and the graph they select
  (\<open>llm/providers/selection.py\<close>, \<open>memory/graph/selection.py\<close>) and what the two servers do when no provider
  can be built (\<open>_llm_or_none\<close> of both \<open>lifespan.py\<close>). Reading the environment, and the fields that are only
  handed to a driver, are not modelled; opening the connections is I/O.
\<close>

datatype provider_name = ANTHROPIC | OPENAI | OLLAMA

datatype backend_name = NETWORKX | NEO4J

record settings =
  cfg_neo4j_scheme :: string
  cfg_graph_backend :: backend_name
  cfg_anthropic_key :: string
  cfg_openai_key :: string
  cfg_provider :: provider_name
  cfg_ollama_model :: string
  cfg_ollama_timeout_s :: real
  cfg_models :: model_settings
  cfg_tau_lo :: real
  cfg_tau_mid :: real
  cfg_tau_hi :: real
  cfg_rho_lo :: real
  cfg_rho_hi :: real
  cfg_thresholds_version :: string
  cfg_per_minute :: int
  cfg_burst :: int
  cfg_idempotency_ttl_s :: int
  cfg_default_k :: int
  cfg_max_concurrent_scores :: int
  cfg_llm_timeout_s :: real
  cfg_store_timeout_s :: real
  cfg_request_deadline_s :: real

definition NEO4J_SCHEMES :: "string list" where
  "NEO4J_SCHEMES = [''bolt'', ''bolt+s'', ''bolt+ssc'', ''neo4j'', ''neo4j+s'', ''neo4j+ssc'']"

definition fields_ok :: "settings \<Rightarrow> bool" where
  \<comment> \<open>the bounds of the fields\<close>
  "fields_ok s \<longleftrightarrow>
     0 < cfg_ollama_timeout_s s \<and> in_unit (cfg_tau_lo s) \<and> in_unit (cfg_tau_mid s) \<and> in_unit (cfg_tau_hi s) \<and>
     in_unit (cfg_rho_lo s) \<and> in_unit (cfg_rho_hi s) \<and> 1 \<le> cfg_per_minute s \<and> 1 \<le> cfg_burst s \<and>
     1 \<le> cfg_idempotency_ttl_s s \<and> 1 \<le> cfg_default_k s \<and> cfg_default_k s \<le> 10 \<and> 1 \<le> cfg_max_concurrent_scores s \<and>
     0 < cfg_llm_timeout_s s \<and> 0 < cfg_store_timeout_s s \<and> 0 < cfg_request_deadline_s s"

definition mk_thresholds :: "thresholds \<Rightarrow> exn + thresholds" where
  "mk_thresholds t = (if thresholds_ok t then Inr t else Inl ValueError)"

definition settings_thresholds :: "settings \<Rightarrow> exn + thresholds" where
  \<comment> \<open>\<open>Settings.thresholds\<close>\<close>
  "settings_thresholds s =
     mk_thresholds \<lparr>tau_lo = cfg_tau_lo s, tau_mid = cfg_tau_mid s, tau_hi = cfg_tau_hi s, rho_lo = cfg_rho_lo s,
       rho_hi = cfg_rho_hi s, th_version = cfg_thresholds_version s\<rparr>"

definition mk_settings :: "settings \<Rightarrow> exn + settings" where
  \<comment> \<open>the fields, then the three validators in their order\<close>
  "mk_settings s =
     (if \<not> fields_ok s then Inl ValueError
      else bindE (settings_thresholds s) (\<lambda>_.
        if cfg_neo4j_scheme s \<notin> set NEO4J_SCHEMES then Inl ValueError
        else if cfg_burst s < cfg_per_minute s then Inl ValueError
        else Inr s))"

datatype chosen_client =
    AnthropicClient "tier \<Rightarrow> string" real
  | OpenAIClient "tier \<Rightarrow> string" real
  | OllamaClient "tier \<Rightarrow> string" real

definition build_llm :: "settings \<Rightarrow> exn + chosen_client" where
  "build_llm s =
     (case cfg_provider s of
        ANTHROPIC \<Rightarrow>
          if cfg_anthropic_key s = [] then Inl ValueError
          else bindE (tier_models (cfg_models s)) (\<lambda>models. Inr (AnthropicClient models (cfg_llm_timeout_s s)))
      | OPENAI \<Rightarrow>
          if cfg_openai_key s = [] then Inl ValueError
          else bindE (tier_models (cfg_models s)) (\<lambda>models. Inr (OpenAIClient models (cfg_llm_timeout_s s)))
      | OLLAMA \<Rightarrow>
          bindE (ollama_client (\<lambda>_. cfg_ollama_model s)) (\<lambda>models. Inr (OllamaClient models (cfg_ollama_timeout_s s))))"

definition llm_or_none :: "settings \<Rightarrow> exn + chosen_client option" where
  \<comment> \<open>only a \<open>ValueError\<close> is caught\<close>
  "llm_or_none s =
     (case build_llm s of Inr c \<Rightarrow> Inr (Some c) | Inl ValueError \<Rightarrow> Inr None | Inl e \<Rightarrow> Inl e)"

text \<open>What Neo4j's driver answers when the process starts.\<close>

record driver_start =
  ds_verified :: bool \<comment> \<open>\<open>verify_connectivity\<close> returned\<close>
  ds_schema :: "exn option list" \<comment> \<open>for each statement of the schema, what it raised\<close>

definition ensure_schema :: "exn option list \<Rightarrow> exn + unit" where
  \<comment> \<open>a \<open>DatabaseError\<close> stands for the three transient errors, which are translated\<close>
  "ensure_schema outcomes =
     bindE (mapE (\<lambda>o'. case o' of
         None \<Rightarrow> Inr ()
       | Some DatabaseError \<Rightarrow> Inl (GM StoreUnavailable)
       | Some e \<Rightarrow> Inl e) outcomes) (\<lambda>_. Inr ())"

definition build_graph :: "settings \<Rightarrow> driver_start \<Rightarrow> exn + bool" where
  \<comment> \<open>whether the graph bound is the durable one\<close>
  "build_graph s d =
     (case cfg_graph_backend s of
        NETWORKX \<Rightarrow> Inr False
      | NEO4J \<Rightarrow>
          if \<not> ds_verified d then Inl (GM StoreUnavailable)
          else bindE (ensure_schema (ds_schema d)) (\<lambda>_. Inr True))"

definition preflight :: "settings \<Rightarrow> settings option" where
  \<comment> \<open>of the MCP server: \<open>None\<close> is the \<open>ConfigurationError\<close> it exits with\<close>
  "preflight s = (case mk_settings s of Inl _ \<Rightarrow> None | Inr c \<Rightarrow> Some c)"

section \<open>What a started process may rely on\<close>

definition pinned :: "chosen_client \<Rightarrow> bool" where
  \<comment> \<open>every tier has a model id, and on Ollama one whose tag does not float\<close>
  "pinned c \<longleftrightarrow>
     (case c of
        AnthropicClient models t \<Rightarrow> list_all (\<lambda>x. strip (models x) \<noteq> []) [FAST, BALANCED, FRONTIER]
      | OpenAIClient models t \<Rightarrow> list_all (\<lambda>x. strip (models x) \<noteq> []) [FAST, BALANCED, FRONTIER]
      | OllamaClient models t \<Rightarrow> list_all (\<lambda>x. \<not> floating_tag (models x)) [FAST, BALANCED, FRONTIER])"

definition positive_timeout :: "chosen_client \<Rightarrow> bool" where
  "positive_timeout c \<longleftrightarrow> (case c of AnthropicClient _ t \<Rightarrow> 0 < t | OpenAIClient _ t \<Rightarrow> 0 < t | OllamaClient _ t \<Rightarrow> 0 < t)"

lemma build_llm_raises: "build_llm s = Inl e \<Longrightarrow> e = ValueError"
  by (auto simp: build_llm_def tier_models_def ollama_client_def bindE_Inl_iff
      split: provider_name.splits if_splits)

lemma build_llm_pinned: "build_llm s = Inr c \<Longrightarrow> pinned c"
  by (auto simp: build_llm_def tier_models_def ollama_client_def pinned_def
      split: provider_name.splits if_splits elim!: bindE_InrE)

lemma build_llm_bounded: "fields_ok s \<Longrightarrow> build_llm s = Inr c \<Longrightarrow> positive_timeout c"
  by (auto simp: build_llm_def positive_timeout_def fields_ok_def
      split: provider_name.splits if_splits elim!: bindE_InrE)


end
