(* ===== verification/Spec2Isabelle.thy ===== *)
theory Spec2Isabelle
  imports Decision Conflict SchemaGate Extract Noise Release Resources Discrimination Settings
begin

text \<open>
  HGEM, a governed memory for language model agents: \<open>packages/guardmem-core\<close> (the library), the REST
  gateway, the worker and the MCP server under \<open>services/\<close>, and the tables of
  \<open>infra/migrations/alembic/versions/0001_initial.py\<close>. Paths below are relative to the package
  \<open>guardmem_core\<close> unless they start with \<open>services\<close>, \<open>scripts\<close> or \<open>infra\<close>.

  \<^bold>\<open>The program.\<close> A proposal is a list of conversation turns. Layer 1 drops noise and has a model extract
  candidates that quote the turns; layer 2 checks them against the ontology and against what is
  believed already; layer 3 scores confidence and risk, and a decision matrix with hard overrides
  chooses between writing, a second look and rejection. What is decided is recorded in a
  hash-chained audit log, and what is to be written goes in one Postgres transaction per candidate into
  the assertion, provenance and outbox tables. A relay carries the outbox to the graph store and only
  then makes the assertion visible. The gateway queues proposals for the worker or governs them
  itself; the MCP server offers search, entity views and proposals as tools, and memory, audit and
  ontology as resources.

  \<^bold>\<open>Foundations.\<close>
  \<^item> \<open>Prelude\<close>: \<open>errors.py\<close> and the built-in exceptions as the datatype \<open>exn\<close>; a result is \<open>exn + 'a\<close>,
    sequenced by \<open>bindE\<close>, \<open>guardE\<close>, \<open>mapE\<close> and \<open>foldE\<close>.
  \<^item> \<open>Float64\<close>: \<open>float\<close> as real numbers with every operation rounded to binary64 (\<open>fl\<close>) or, for
    Postgres \<open>real\<close> and pgvector, to binary32 (\<open>fl32\<close>); the locale \<open>rounding\<close> carries the laws.
  \<^item> \<open>PyText\<close>: Python strings, the shortest text of a double, JSON values and \<open>json.dumps\<close>. \<open>Sha256\<close>,
    \<open>Uuid5\<close>: both digests over machine words. \<open>Schemas\<close>: \<open>schemas/\<close>, one record or datatype per class and a
    \<open>mk_\<close> function per validator.

  \<^bold>\<open>Layer 1.\<close> \<open>Prompts\<close> (\<open>prompts/\<close>), \<open>Entailment\<close> (\<open>llm/base.py\<close>, \<open>llm/entailment.py\<close>), \<open>Providers\<close>
  (\<open>llm/providers/\<close>), \<open>Noise\<close> and \<open>Extract\<close> (\<open>pipeline/l1_extract/\<close>).

  \<^bold>\<open>Layers 2 and 3.\<close> \<open>SchemaGate\<close>, \<open>Conflict\<close> (\<open>pipeline/l2_validate/\<close>), \<open>Entropy\<close>, \<open>Confidence\<close>, \<open>Impact\<close>,
  \<open>Decision\<close> (\<open>pipeline/l3_score/\<close>), \<open>Discrimination\<close> (\<open>eval/discrimination.py\<close>).

  \<^bold>\<open>State.\<close> \<open>AuditChain\<close> (\<open>observability/\<close>), \<open>Embedding\<close>, \<open>Store\<close>, \<open>StoreLaws\<close> and \<open>Reading\<close>
  (\<open>memory/vector/\<close>, \<open>memory/router.py\<close>, \<open>memory/entities.py\<close>, over the record \<open>db\<close> of the tables), \<open>Applier\<close>
  and \<open>ApplierLaws\<close> (\<open>memory/applier.py\<close>), \<open>Graph\<close> and \<open>GraphLaws\<close> (\<open>memory/graph/\<close>, both backends),
  \<open>Outbox\<close>, \<open>Relay\<close>, \<open>RelayLaws\<close>, \<open>Release\<close> (\<open>memory/outbox.py\<close>, \<open>memory/relay.py\<close> and the loop \<open>release\<close> of
  \<open>scripts/seed_demo_tenant.py\<close>).

  \<^bold>\<open>Composition and services.\<close> \<open>Pipeline\<close>, \<open>PipelineLaws\<close>, \<open>PipelineDemo\<close> (\<open>pipeline/\<close>), \<open>Throttle\<close>,
  \<open>ThrottleLaws\<close>, \<open>Gateway\<close>, \<open>GatewayLaws\<close>, \<open>GatewayDemo\<close> (\<open>services/gateway\<close>), \<open>Worker\<close> (\<open>services/worker\<close>),
  \<open>Mcp\<close>, \<open>McpLaws\<close>, \<open>McpDemo\<close>, \<open>Uris\<close>, \<open>Resources\<close> (\<open>services/mcp_server\<close>), \<open>Settings\<close> (\<open>settings.py\<close> and the
  choice of provider and graph at start-up). The \<open>Demo\<close> theories hold the concrete inputs of witnesses.

  Names follow the code; a clash with the library has a suffix or prefix. A method is a function of
  the state it reads, returning its result or exception and, where it changes something, the new
  state; a transaction that raises returns the state it started from.

  \<^bold>\<open>What is shown.\<close>
  \<^item> Deciding: when a write is automatic, that overrides only tighten and are independent of their order,
    that the composite and the decision are monotone, and the ranges of every score under
    rounding (\<open>Decision\<close>, \<open>Confidence\<close>, \<open>Impact\<close>); the union-find of the meaning clusters computes the
    connected components (\<open>Entropy\<close>); the worst pair decides a conflict (\<open>Conflict\<close>).
  \<^item> Extraction: every candidate quotes its source, for any aligner; which error wins (\<open>Extract\<close>).
  \<^item> The audit log: chains built by appends verify, the verifier names the first bad link, and the last
    digest pins the history unless SHA-256 collides (\<open>AuditChain\<close>).
  \<^item> Writing and reading: one apply refines an abstract change of beliefs, is audited, commits on
    acceptable inputs, is isolated when it fails, only adds, and reads back; a search answers with
    the nearest of the rows its plan visits (\<open>ApplierLaws\<close>, \<open>Reading\<close>).
  \<^item> Distribution: over all interleavings of writers and relays a visible assertion is in the graph;
    draining the outbox ends and delivers; the graph backends answer alike but for
    self-loops (\<open>RelayLaws\<close>, \<open>Release\<close>, \<open>GraphLaws\<close>).
  \<^item> Composition: candidates score independently, none is lost, failures come from boundaries, automatic
    writes are earned (\<open>PipelineLaws\<close>).
  \<^item> Services: requests, jobs and tools stay in their tenant, a repeated write is done once, a queued
    proposal is read back, the token bucket is bounded, resource URIs read back, settings are usable.
  A few named lemmas show where the code departs from what it says: \<open>self_loop_counts_twice\<close>,
  \<open>object_first_is_unowned\<close>, \<open>poisoned_event_ends_the_run\<close>, \<open>certain_fact_is_missed\<close>,
  \<open>foreign_edge_is_shown\<close>, \<open>null_content_is_a_sample\<close>, \<open>blank_window_raises\<close>, \<open>large_double_changes_form\<close>.

  \<^bold>\<open>Interfaces.\<close> Locales state what one part relies on in another and are interpreted on the model's
  definitions: \<open>tightening\<close>, \<open>entail_source\<close>, \<open>nli_contract\<close>, \<open>llm_provider\<close>, \<open>undisturbed\<close>, \<open>tenant_bound\<close>,
  \<open>graph_store\<close> and \<open>accepting_graph\<close> (both backends), \<open>rounding\<close>. \<open>multigraph\<close> states the documented
  laws of the networkx library, which is not in the repository, and edge lists satisfy it.

  \<^bold>\<open>Parameters.\<close> What is outside the repository is an argument: the models' answers and the order in which
  concurrent requests end, the JSON parser, the fuzzy aligner and the similarity ratio (of which nothing
  is assumed), embeddings and vector distance, networkx, the answers and failures of Neo4j, Redis
  and the pool, clocks and minted ids. The approximate index is the parameter \<open>se_reach\<close>, any set of indexed
  rows, and serves only a search about now. Of the \<open>JSONB\<close> type \<open>jsonb_law\<close> states that keys are reordered and
  nothing else, which is claimed, and used, only for payloads free of NUL characters, of integers Python
  refuses to print and of doubles from \<open>10 ^ 16\<close> in magnitude (\<open>plain_table\<close>); \<open>jsonb_read\<close> is an instance.
  The tables refuse what Postgres refuses: NUL in texts, integers and embeddings out of range.

  \<^bold>\<open>Bounds.\<close> Strings hold Latin-1 characters, except in \<open>Uris\<close>, which has all code points. Datetimes are
  aware and are integers (microseconds). Doubles are finite reals without overflow or a negative zero,
  except in objects of assertions and in JSON, which have infinities and NaN; so overflow of absurd
  coefficients and infinite timeouts are outside the model. Ids from outside are texts, compared as Postgres
  compares them in canonical form. Clock readings lie between \<open>2 ^ 30\<close> and \<open>2 ^ 31\<close> seconds, bursts below \<open>2 ^ 40\<close>,
  and the rank form of AUROC is exact up to \<open>2 ^ 25\<close> candidates, all far beyond use; the gateway and Redis
  read one clock. Loops are structural, bounded by a list or have a measure; no definition needs fuel. The
  drain loop \<open>release\<close> may run on as written, so it is a partial function, and \<open>release_terminates\<close> shows
  that it returns whatever the stores do.

  \<^bold>\<open>Not modelled.\<close> Opening and closing connections, logging, metrics and the wording of messages; the ASGI and
  MCP frameworks; the queue (which jobs arq runs again, its timeout and cancellation); asynchronous
  cancellation other than of the draws of one call; concurrent transactions of one database other than by the
  interleaved steps of \<open>RelayLaws\<close> and the per-tenant lock of the audit log; the YAML loader, the
  tables and models no operation uses, the published schemas, command line scripts and the load test.
\<close>

end
